(* ===== verification/Prelude.thy ===== *)
theory Prelude
  imports Complex_Main "HOL-Library.Char_ord" "HOL-Library.List_Lexorder"
begin

text \<open>
  Shared vocabulary of the development: Python strings and the methods the router
  calls on them, Python floats with their IEEE order, JSON values as \<open>json.loads\<close>
  returns them, the outcome of \<open>datetime.fromisoformat\<close>, and the ordered
  dictionary with a capacity (the \<open>OrderedDict\<close> idiom \<open>d[k] = v; move_to_end;
  popitem(last=False)\<close>) that three components use.

  A Python \<open>str\<close> is a \<open>string\<close> whose characters are the code points below 256;
  the case and whitespace tables below are exact on that range. Instants of the wall
  clock are integers (microseconds since the epoch, UTC), readings of the monotonic
  clock are rationals.
\<close>

named_theorems model_defs \<open>definitions of the model that a closed evaluation unfolds\<close>

subsection \<open>Characters and strings\<close>

abbreviation code_of :: "char \<Rightarrow> nat" where
  "code_of c \<equiv> of_char c"

definition is_space :: "char \<Rightarrow> bool" where
  "is_space c = (let n = code_of c in
     (9 \<le> n \<and> n \<le> 13) \<or> (28 \<le> n \<and> n \<le> 32) \<or> n = 133 \<or> n = 160)"

definition is_control :: "char \<Rightarrow> bool" where
  "is_control c = (let n = code_of c in n < 32 \<or> (127 \<le> n \<and> n \<le> 159))"

definition is_digit :: "char \<Rightarrow> bool" where
  "is_digit c = (let n = code_of c in 48 \<le> n \<and> n \<le> 57)"

definition is_alnum_ascii :: "char \<Rightarrow> bool" where
  "is_alnum_ascii c = (let n = code_of c in
     (48 \<le> n \<and> n \<le> 57) \<or> (65 \<le> n \<and> n \<le> 90) \<or> (97 \<le> n \<and> n \<le> 122))"

definition is_hex_lower :: "char \<Rightarrow> bool" where
  "is_hex_lower c = (let n = code_of c in (48 \<le> n \<and> n \<le> 57) \<or> (97 \<le> n \<and> n \<le> 102))"

definition is_hex :: "char \<Rightarrow> bool" where
  "is_hex c = (let n = code_of c in
     (48 \<le> n \<and> n \<le> 57) \<or> (65 \<le> n \<and> n \<le> 70) \<or> (97 \<le> n \<and> n \<le> 102))"

text \<open>\<open>\w\<close> on the characters of the model: alphanumeric, numeric or an underscore.\<close>

definition is_word :: "char \<Rightarrow> bool" where
  "is_word c = (let n = code_of c in is_alnum_ascii c \<or> n = 95
     \<or> n \<in> {170, 178, 179, 181, 185, 186, 188, 189, 190} \<or> (192 \<le> n \<and> n \<noteq> 215 \<and> n \<noteq> 247))"

definition lower_char :: "char \<Rightarrow> char" where
  "lower_char c = (let n = code_of c in
     if (65 \<le> n \<and> n \<le> 90) \<or> (192 \<le> n \<and> n \<le> 222 \<and> n \<noteq> 215)
     then char_of (n + 32) else c)"

definition py_lower :: "string \<Rightarrow> string" where
  "py_lower s = map lower_char s"

definition py_lstrip :: "string \<Rightarrow> string" where
  "py_lstrip s = dropWhile is_space s"

definition py_rstrip :: "string \<Rightarrow> string" where
  "py_rstrip s = rev (dropWhile is_space (rev s))"

definition py_strip :: "string \<Rightarrow> string" where
  "py_strip s = py_rstrip (py_lstrip s)"

text \<open>\<open>s.split()\<close>: the maximal runs of non-whitespace characters.\<close>

function py_split :: "string \<Rightarrow> string list" where
  "py_split s = (case dropWhile is_space s of
       [] \<Rightarrow> []
     | c # t \<Rightarrow> (c # takeWhile (\<lambda>x. \<not> is_space x) t)
                 # py_split (dropWhile (\<lambda>x. \<not> is_space x) t))"
  by pat_completeness auto
termination
proof (relation "measure length", goal_cases)
  case 1
  then show ?case by simp
next
  case (2 s c t)
  have "length (dropWhile (\<lambda>x. \<not> is_space x) t) \<le> length t"
    by (rule length_dropWhile_le)
  moreover have "length (c # t) \<le> length s"
    using "2" length_dropWhile_le[of is_space s] by simp
  ultimately show ?case by simp
qed

declare py_split.simps [simp del]

fun py_join :: "string \<Rightarrow> string list \<Rightarrow> string" where
  "py_join sep [] = []"
| "py_join sep [x] = x"
| "py_join sep (x # y # zs) = x @ sep @ py_join sep (y # zs)"

definition starts_with :: "string \<Rightarrow> string \<Rightarrow> bool" where
  "starts_with p s = (take (length p) s = p)"

definition ends_with :: "string \<Rightarrow> string \<Rightarrow> bool" where
  "ends_with p s = (length p \<le> length s \<and> drop (length s - length p) s = p)"

text \<open>\<open>s.split(sep)\<close> for a one-character separator.\<close>

fun split_char :: "char \<Rightarrow> string \<Rightarrow> string list" where
  "split_char sep [] = [[]]"
| "split_char sep (c # s) =
     (if c = sep then [] # split_char sep s
      else (case split_char sep s of [] \<Rightarrow> [[c]] | w # ws \<Rightarrow> (c # w) # ws))"

text \<open>The em dash of a message, outside the characters of the model, is one stand-in.\<close>

definition em_dash :: string where "em_dash = [CHR 0x97]"

text \<open>Decimal rendering, \<open>str(n)\<close>.\<close>

fun digits_of :: "nat \<Rightarrow> string" where
  "digits_of n = (if n < 10 then [char_of (48 + n)]
     else digits_of (n div 10) @ [char_of (48 + n mod 10)])"

declare digits_of.simps [simp del]

definition str_int :: "int \<Rightarrow> string" where
  "str_int i = (if i < 0 then CHR ''-'' # digits_of (nat (- i)) else digits_of (nat i))"

definition hex_digit :: "nat \<Rightarrow> char" where
  "hex_digit n = (if n < 10 then char_of (48 + n) else char_of (87 + n))"

text \<open>\<open>repr\<close> of a string: its quote, and the escapes of what does not print.\<close>

definition repr_char :: "char \<Rightarrow> char \<Rightarrow> string" where
  "repr_char q c = (let n = code_of c in
     if c = q \<or> n = 92 then [char_of (92::nat), c]
     else if n = 9 then [char_of (92::nat), CHR ''t'']
     else if n = 10 then [char_of (92::nat), CHR ''n'']
     else if n = 13 then [char_of (92::nat), CHR ''r'']
     else if n < 32 \<or> (127 \<le> n \<and> n \<le> 160) \<or> n = 173
       then [char_of (92::nat), CHR ''x'', hex_digit (n div 16), hex_digit (n mod 16)]
     else [c])"

definition py_repr :: "string \<Rightarrow> string" where
  "py_repr s = (let q = (if char_of (39::nat) \<in> set s \<and> CHR 0x22 \<notin> set s
                         then CHR 0x22 else char_of (39::nat))
     in q # concat (map (repr_char q) s) @ [q])"

lemma py_lower_Nil [simp]: "py_lower [] = []"
  by (simp add: py_lower_def)

lemma length_py_lower [simp]: "length (py_lower s) = length s"
  by (simp add: py_lower_def)

lemma lower_char_idem: "lower_char (lower_char c) = lower_char c"
proof -
  have b: "code_of c < 256" by simp
  show ?thesis
    using b by (auto simp: lower_char_def Let_def)
qed

lemma py_lower_idem [simp]: "py_lower (py_lower s) = py_lower s"
  by (simp add: py_lower_def lower_char_idem)

lemma starts_with_append [simp]: "starts_with p (p @ s)"
  by (simp add: starts_with_def)

lemma starts_with_iff: "starts_with p s \<longleftrightarrow> (\<exists>t. s = p @ t)"
  by (metis append_eq_conv_conj append_take_drop_id starts_with_def)

lemma sorted_le_last: "sorted xs \<Longrightarrow> x \<in> set xs \<Longrightarrow> x \<le> last xs"
  by (induction xs) auto

lemma dropWhile_hd: "dropWhile P xs = y # ys \<Longrightarrow> \<not> P y"
  by (induction xs) (auto split: if_splits)

lemma py_split_no_space: "w \<in> set (py_split s) \<Longrightarrow> w \<noteq> [] \<and> (\<forall>c\<in>set w. \<not> is_space c)"
proof (induction s rule: py_split.induct)
  case (1 s)
  show ?case
  proof (cases "dropWhile is_space s")
    case Nil
    with "1.prems" show ?thesis by (subst (asm) py_split.simps) simp
  next
    case (Cons c t)
    have sp: "py_split s = (c # takeWhile (\<lambda>x. \<not> is_space x) t)
                 # py_split (dropWhile (\<lambda>x. \<not> is_space x) t)"
      by (subst py_split.simps) (simp add: Cons)
    from "1.prems" consider "w = c # takeWhile (\<lambda>x. \<not> is_space x) t"
      | "w \<in> set (py_split (dropWhile (\<lambda>x. \<not> is_space x) t))"
      unfolding sp by auto
    then show ?thesis
    proof cases
      case 1
      with dropWhile_hd[OF Cons] show ?thesis by (auto dest: set_takeWhileD)
    next
      case 2
      with "1.IH"[OF Cons] show ?thesis by blast
    qed
  qed
qed

subsection \<open>Python floats\<close>

text \<open>
  A float the router compares: a finite value (an exact rational, rounding is not
  modelled), an infinity, or NaN, which every comparison refuses.
\<close>

datatype pyfloat = Fin rat | PInf | NInf | NaN

fun fl_le :: "pyfloat \<Rightarrow> pyfloat \<Rightarrow> bool" where
  "fl_le NaN _ = False"
| "fl_le _ NaN = False"
| "fl_le (Fin a) (Fin b) = (a \<le> b)"
| "fl_le NInf _ = True"
| "fl_le _ PInf = True"
| "fl_le _ _ = False"

fun fl_lt :: "pyfloat \<Rightarrow> pyfloat \<Rightarrow> bool" where
  "fl_lt NaN _ = False"
| "fl_lt _ NaN = False"
| "fl_lt (Fin a) (Fin b) = (a < b)"
| "fl_lt NInf NInf = False"
| "fl_lt NInf _ = True"
| "fl_lt PInf _ = False"
| "fl_lt _ PInf = True"
| "fl_lt _ NInf = False"

text \<open>A finite clock reading plus, or minus, a configured duration.\<close>

fun fl_add :: "rat \<Rightarrow> pyfloat \<Rightarrow> pyfloat" where
  "fl_add a (Fin b) = Fin (a + b)"
| "fl_add a PInf = PInf"
| "fl_add a NInf = NInf"
| "fl_add a NaN = NaN"

fun fl_sub :: "rat \<Rightarrow> pyfloat \<Rightarrow> pyfloat" where
  "fl_sub a (Fin b) = Fin (a - b)"
| "fl_sub a PInf = NInf"
| "fl_sub a NInf = PInf"
| "fl_sub a NaN = NaN"

text \<open>Rounding half to even, and the formats \<open>:.0f\<close> and \<open>:.1f\<close> of a value not below 0.\<close>

definition round_even :: "rat \<Rightarrow> int" where
  "round_even r = (let f = \<lfloor>r\<rfloor>; d = r - of_int f in
     if d < 1 / 2 then f else if d > 1 / 2 then f + 1 else if even f then f else f + 1)"

fun fmt0 :: "pyfloat \<Rightarrow> string" where
  "fmt0 (Fin r) = str_int (round_even r)"
| "fmt0 PInf = ''inf''"
| "fmt0 NInf = ''-inf''"
| "fmt0 NaN = ''nan''"

definition fmt1 :: "rat \<Rightarrow> string" where
  "fmt1 r = (let n = round_even (10 * r) in str_int (n div 10) @ ''.'' @ str_int (n mod 10))"

lemma fl_le_Fin_mono: "fl_le (Fin b) x \<Longrightarrow> a \<le> b \<Longrightarrow> fl_le (Fin a) x"
  by (cases x) auto

lemma fl_le_fl_sub_mono: "fl_le (Fin b) (fl_sub s x) \<Longrightarrow> s \<le> t \<Longrightarrow> fl_le (Fin b) (fl_sub t x)"
  by (cases x) auto

subsection \<open>JSON values and parsed instants\<close>

text \<open>
  What \<open>json.loads\<close> returns. An object is the dictionary's items in insertion order,
  so its keys are distinct. The decoder itself is a parameter wherever a body is read.
\<close>

datatype json = JNull | JBool bool | JInt int | JFloat pyfloat | JStr string
  | JList "json list" | JObj "(string \<times> json) list"

text \<open>
  The three ways \<open>json.loads\<close> can end: a value, a \<open>JSONDecodeError\<close>, or another
  exception (a body that is no UTF-8, an integer too long, a nesting too deep).
\<close>

datatype loads_result = Loaded json | DecodeError string | LoadsRaised string

definition jget :: "(string \<times> json) list \<Rightarrow> string \<Rightarrow> json" where
  "jget obj k = (case map_of obj k of None \<Rightarrow> JNull | Some v \<Rightarrow> v)"

fun json_hashable :: "json \<Rightarrow> bool" where
  "json_hashable (JList _) = False"
| "json_hashable (JObj _) = False"
| "json_hashable _ = True"

fun json_str :: "json \<Rightarrow> string option" where
  "json_str (JStr s) = Some s"
| "json_str _ = None"

text \<open>\<open>json.dumps(\<dots>, separators=(",", ":"))\<close> of values without floats.\<close>

definition json_char :: "char \<Rightarrow> string" where
  "json_char c = (let n = code_of c in
     if n = 34 then [char_of (92::nat), CHR 0x22]
     else if n = 92 then [char_of (92::nat), char_of (92::nat)]
     else if n = 8 then [char_of (92::nat), CHR ''b'']
     else if n = 9 then [char_of (92::nat), CHR ''t'']
     else if n = 10 then [char_of (92::nat), CHR ''n'']
     else if n = 12 then [char_of (92::nat), CHR ''f'']
     else if n = 13 then [char_of (92::nat), CHR ''r'']
     else if n < 32 \<or> 126 < n
       then [char_of (92::nat), CHR ''u'', CHR ''0'', CHR ''0'', hex_digit (n div 16), hex_digit (n mod 16)]
     else [c])"

definition json_string :: "string \<Rightarrow> string" where
  "json_string s = [CHR 0x22] @ concat (map json_char s) @ [CHR 0x22]"

text \<open>
  The ways \<open>datetime.fromisoformat\<close> can end: a \<open>ValueError\<close>, a naive value (its
  microseconds read as UTC), or an aware one (its microseconds converted to UTC).
\<close>

datatype iso_result = IsoInvalid | IsoNaive int | IsoAware int

text \<open>The UTC instants a \<open>datetime\<close> can represent: years 1 to 9999.\<close>

definition utc_min :: int where "utc_min = - 62135596800000000"
definition utc_max :: int where "utc_max = 253402300799999999"

subsection \<open>An ordered dictionary with a capacity\<close>

text \<open>
  \<open>d[k] = v; d.move_to_end(k)\<close> on the items, oldest first, then \<open>popitem(last=False)\<close>
  while there are more than the capacity.
\<close>

definition od_remove :: "'k \<Rightarrow> ('k \<times> 'v) list \<Rightarrow> ('k \<times> 'v) list" where
  "od_remove k d = filter (\<lambda>e. fst e \<noteq> k) d"

definition od_put_last :: "'k \<Rightarrow> 'v \<Rightarrow> ('k \<times> 'v) list \<Rightarrow> ('k \<times> 'v) list" where
  "od_put_last k v d = od_remove k d @ [(k, v)]"

fun od_trim :: "nat \<Rightarrow> ('k \<times> 'v) list \<Rightarrow> ('k \<times> 'v) list" where
  "od_trim cap [] = []"
| "od_trim cap (e # d) = (if length (e # d) > cap then od_trim cap d else e # d)"

definition od_store :: "nat \<Rightarrow> 'k \<Rightarrow> 'v \<Rightarrow> ('k \<times> 'v) list \<Rightarrow> ('k \<times> 'v) list" where
  "od_store cap k v d = od_trim cap (od_put_last k v d)"

lemma length_od_trim: "length (od_trim cap d) \<le> cap"
  by (induction cap d rule: od_trim.induct) auto

lemma od_trim_suffix: "\<exists>n. od_trim cap d = drop n d"
proof (induction cap d rule: od_trim.induct)
  case (1 cap)
  show ?case by simp
next
  case (2 cap e d)
  show ?case
  proof (cases "length (e # d) > cap")
    case True
    then obtain n where "od_trim cap d = drop n d" using 2 by blast
    with True have "od_trim cap (e # d) = drop (Suc n) (e # d)" by simp
    then show ?thesis by blast
  next
    case False
    then have "od_trim cap (e # d) = drop 0 (e # d)" by simp
    then show ?thesis by blast
  qed
qed

lemma od_trim_snoc: "cap \<ge> 1 \<Longrightarrow> \<exists>d'. od_trim cap (d @ [e]) = d' @ [e] \<and> set d' \<subseteq> set d"
proof (induction d)
  case Nil
  then show ?case by simp
next
  case (Cons x d)
  then show ?case
    by (cases "length (x # d @ [e]) > cap") auto
qed

lemma distinct_od_remove: "distinct (map fst d) \<Longrightarrow> distinct (map fst (od_remove k d))"
  by (simp add: od_remove_def distinct_map_filter)

lemma distinct_od_store:
  assumes "distinct (map fst d)"
  shows "distinct (map fst (od_store cap k v d))"
proof -
  have "distinct (map fst (od_put_last k v d))"
    using distinct_od_remove[OF assms, of k] by (auto simp: od_put_last_def od_remove_def)
  moreover obtain n where "od_trim cap (od_put_last k v d) = drop n (od_put_last k v d)"
    using od_trim_suffix by blast
  ultimately show ?thesis by (simp add: od_store_def drop_map[symmetric])
qed

lemma set_od_store: "set (od_store cap k v d) \<subseteq> insert (k, v) (set d)"
proof -
  obtain n where "od_trim cap (od_put_last k v d) = drop n (od_put_last k v d)"
    using od_trim_suffix by blast
  then show ?thesis
    using set_drop_subset[of n "od_put_last k v d"]
    by (auto simp: od_store_def od_put_last_def od_remove_def)
qed

lemma length_od_store: "length (od_store cap k v d) \<le> cap"
  by (simp add: od_store_def length_od_trim)

lemma map_of_od_remove: "map_of (od_remove k d) j = (if j = k then None else map_of d j)"
  by (induction d) (auto simp: od_remove_def)

lemma map_of_od_put_last: "map_of (od_put_last k v d) j = (if j = k then Some v else map_of d j)"
  by (auto simp: od_put_last_def map_add_def map_of_od_remove split: option.splits)

lemma od_store_same:
  assumes "distinct (map fst d)" and "cap \<ge> 1"
  shows "map_of (od_store cap k v d) k = Some v"
proof -
  obtain d' where "od_store cap k v d = d' @ [(k, v)]"
    using od_trim_snoc[OF assms(2), of "od_remove k d" "(k, v)"]
    by (auto simp: od_store_def od_put_last_def)
  then have "(k, v) \<in> set (od_store cap k v d)" by simp
  with distinct_od_store[OF assms(1)] show ?thesis by (simp add: map_of_eq_Some_iff)
qed

lemma od_store_sound:
  assumes "distinct (map fst d)" and "map_of (od_store cap k v d) j = Some u"
  shows "if j = k then u = v else map_of d j = Some u"
proof -
  obtain n where n: "od_store cap k v d = drop n (od_put_last k v d)"
    using od_trim_suffix by (auto simp: od_store_def)
  have dl: "distinct (map fst (od_put_last k v d))"
    using distinct_od_remove[OF assms(1), of k] by (auto simp: od_put_last_def od_remove_def)
  have "(j, u) \<in> set (od_put_last k v d)"
    using map_of_SomeD[OF assms(2)] set_drop_subset[of n "od_put_last k v d"] n by auto
  then have "map_of (od_put_last k v d) j = Some u"
    using dl by (simp add: map_of_eq_Some_iff)
  then show ?thesis by (auto simp: map_of_od_put_last split: if_splits)
qed

subsection \<open>Interfaces: the stamped ledger and the guarded machine\<close>

text \<open>
  The contract three stores of the router share (the wake coverage, the issue ledger and
  the pull-request ledger): an observation leaves the items alone or stores one entry
  under the capacity, and never an entry older than the one it replaces.
\<close>

locale stamped_ledger =
  fixes items :: "'s \<Rightarrow> ('k \<times> 'v) list"
    and room :: "'s \<Rightarrow> nat"
    and obs :: "'r \<Rightarrow> 's \<Rightarrow> 's"
    and stamp :: "'v \<Rightarrow> int"
  assumes room_obs: "room (obs r s) = room s"
    and obs_items: "items (obs r s) = items s
      \<or> (\<exists>k v. items (obs r s) = od_store (room s) k v (items s)
            \<and> (\<forall>u. map_of (items s) k = Some u \<longrightarrow> stamp u \<le> stamp v))"
begin

definition ok :: "'s \<Rightarrow> bool" where
  "ok s \<longleftrightarrow> length (items s) \<le> room s \<and> distinct (map fst (items s))"

lemma obs_ok: "ok s \<Longrightarrow> ok (obs r s)"
  using obs_items[of r s] by (auto simp: ok_def room_obs length_od_store distinct_od_store)

lemma run_ok: "ok s \<Longrightarrow> ok (fold obs rs s)"
  by (induction rs arbitrary: s) (auto simp: obs_ok)

lemma room_run: "room (fold obs rs s) = room s"
  by (induction rs arbitrary: s) (auto simp: room_obs)

lemma run_bounded: "ok s \<Longrightarrow> length (items (fold obs rs s)) \<le> room s"
  using run_ok[of s rs] by (simp add: ok_def room_run)

lemma obs_forward:
  assumes "ok s" and "map_of (items s) k = Some u" and "map_of (items (obs r s)) k = Some v"
  shows "stamp u \<le> stamp v"
proof (cases "items (obs r s) = items s")
  case True
  with assms(2,3) show ?thesis by simp
next
  case False
  then obtain j w where st: "items (obs r s) = od_store (room s) j w (items s)"
    and fwd: "\<forall>u. map_of (items s) j = Some u \<longrightarrow> stamp u \<le> stamp w"
    using obs_items[of r s] by blast
  have "if k = j then v = w else map_of (items s) k = Some v"
    using od_store_sound[of "items s" "room s" j w k v] assms(1,3) st by (simp add: ok_def)
  then show ?thesis using fwd assms(2) by (cases "k = j") auto
qed

end

text \<open>
  A component whose operations each keep an invariant: every run of operations from a
  state of the invariant stays in it.
\<close>

locale machine =
  fixes inv :: "'s \<Rightarrow> bool" and step :: "'s \<Rightarrow> 'op \<Rightarrow> 's" and valid :: "'s \<Rightarrow> 'op \<Rightarrow> bool"
  assumes inv_step: "inv s \<Longrightarrow> valid s a \<Longrightarrow> inv (step s a)"
begin

fun valid_run :: "'s \<Rightarrow> 'op list \<Rightarrow> bool" where
  "valid_run s [] = True"
| "valid_run s (a # as) = (valid s a \<and> valid_run (step s a) as)"

lemma inv_run: "inv s \<Longrightarrow> valid_run s as \<Longrightarrow> inv (foldl step s as)"
  by (induction as arbitrary: s) (auto intro: inv_step)

end

end
