(* ===== verification/Scan.thy ===== *)
theory Scan
  imports Prelude "HOL-Library.AList" "HOL-Library.Product_Lexorder"
begin

text \<open>
  \<open>.github/scripts/dependency_security_scan.py\<close>, first half: the reading of an
  osv-scanner report. Its advisories, their names and ratings, the merge of the findings
  that describe one problem, and the check of the exit status against the report. The JSON
  decoder and the parsing of a number by \<open>float()\<close> are parameters; an exception is the
  left of a sum.
\<close>

subsection \<open>Vocabulary\<close>

definition paging_severities :: "string list" where
  "paging_severities = [''critical'', ''high'']"

definition severity_order :: "string list" where
  "severity_order = [''critical'', ''high'', ''medium'', ''moderate'', ''low'', ''none'', ''unknown'']"

definition ghsa_severities :: "string list" where
  "ghsa_severities = [''critical'', ''high'', ''moderate'', ''low'']"

type_synonym json_record = "(string \<times> json) list"

text \<open>A \<open>ScanError\<close> with its message, or any other exception as \<open>type: message\<close>.\<close>

datatype scan_exn = ScanError string | OtherError string

definition finding_key :: "string \<Rightarrow> string \<Rightarrow> string \<Rightarrow> string" where
  "finding_key ecosystem package ident =
     ecosystem @ '':'' @ filter (\<lambda>c. c \<noteq> CHR ''@'') package @ '':'' @ ident"

definition rank_of :: "string \<Rightarrow> nat" where
  "rank_of severity = length (takeWhile (\<lambda>s. s \<noteq> severity) severity_order)"

record advisory =
  av_ecosystem :: string
  av_package :: string
  av_affected :: string
  av_id :: string
  av_severity :: string
  av_title :: string
  av_url :: "string option"
  av_aliases :: "string list"

definition av_key :: "advisory \<Rightarrow> string" where
  "av_key a = finding_key (av_ecosystem a) (av_package a) (av_id a)"

definition alias_keys :: "advisory \<Rightarrow> string list" where
  "alias_keys a = map (finding_key (av_ecosystem a) (av_package a)) (av_aliases a)"

definition pages :: "advisory \<Rightarrow> bool" where
  "pages a = (av_severity a \<in> set paging_severities)"

definition av_rank :: "advisory \<Rightarrow> nat \<times> string \<times> string \<times> string" where
  "av_rank a = (rank_of (av_severity a), av_ecosystem a, av_package a, av_key a)"

subsection \<open>Python's min and sorted sets\<close>

text \<open>\<open>min(x, *xs, key=f)\<close>: the first of the least.\<close>

definition first_min :: "('a \<Rightarrow> 'b::linorder) \<Rightarrow> 'a \<Rightarrow> 'a list \<Rightarrow> 'a" where
  "first_min f x xs = foldl (\<lambda>m y. if f y < f m then y else m) x xs"

text \<open>\<open>sorted({*xs})\<close>\<close>

definition sorted_set :: "string list \<Rightarrow> string list" where
  "sorted_set xs = sort (remdups xs)"

subsection \<open>Names and ratings\<close>

definition named :: "string \<Rightarrow> string list \<Rightarrow> string list" where
  "named p ids = filter (starts_with p) ids"

text \<open>\<open>min([])\<close>, which no caller reaches, is the empty name here.\<close>

definition min_name :: "string list \<Rightarrow> string" where
  "min_name ids = (case ids of [] \<Rightarrow> [] | i # is \<Rightarrow> first_min (\<lambda>s. s) i is)"

definition primary_id :: "string list \<Rightarrow> string" where
  "primary_id ids = (if named ''GHSA-'' ids \<noteq> [] then min_name (named ''GHSA-'' ids)
     else if named ''PYSEC-'' ids \<noteq> [] then min_name (named ''PYSEC-'' ids)
     else min_name ids)"

definition cvss_rating :: "rat \<Rightarrow> string" where
  "cvss_rating score = (if score \<ge> 9 then ''critical'' else if score \<ge> 7 then ''high''
     else if score \<ge> 4 then ''moderate'' else if score > 0 then ''low'' else ''none'')"

text \<open>
  \<open>float(x)\<close> of a JSON value: \<open>None\<close> for a \<open>TypeError\<close> or a \<open>ValueError\<close>; an integer
  that rounds to \<open>2 ^ 1024\<close> raises an \<open>OverflowError\<close>. The parsing of a string is a
  parameter.
\<close>

definition py_float :: "(string \<Rightarrow> pyfloat option) \<Rightarrow> json \<Rightarrow> scan_exn + pyfloat option" where
  "py_float parse v = (case v of
       JStr s \<Rightarrow> Inr (parse s)
     | JFloat x \<Rightarrow> Inr (Some x)
     | JBool b \<Rightarrow> Inr (Some (Fin (if b then 1 else 0)))
     | JInt i \<Rightarrow> (if \<bar>i\<bar> \<ge> 2 ^ 1024 - 2 ^ 970
                  then Inl (OtherError ''OverflowError: int too large to convert to float'')
                  else Inr (Some (Fin (of_int i))))
     | _ \<Rightarrow> Inr None)"

definition score_ratings :: "pyfloat option \<Rightarrow> string list" where
  "score_ratings x = (case x of Some (Fin r) \<Rightarrow> if 0 \<le> r \<and> r \<le> 10 then [cvss_rating r] else [] | _ \<Rightarrow> [])"

definition record_ratings :: "json_record \<Rightarrow> string list" where
  "record_ratings r = (case jget r ''database_specific'' of
       JObj specific \<Rightarrow> (case jget specific ''severity'' of
           JStr s \<Rightarrow> if py_lower s \<in> set ghsa_severities then [py_lower s] else []
         | _ \<Rightarrow> [])
     | _ \<Rightarrow> [])"

definition most_severe :: "string list \<Rightarrow> string" where
  "most_severe ratings = (case ratings of [] \<Rightarrow> ''unknown'' | r # rs \<Rightarrow> first_min rank_of r rs)"

definition severity_of :: "(string \<Rightarrow> pyfloat option) \<Rightarrow> json \<Rightarrow> json_record list \<Rightarrow> scan_exn + string" where
  "severity_of parse max_severity records = map_sum id
     (\<lambda>score. most_severe (score_ratings score @ concat (map record_ratings records)))
     (py_float parse max_severity)"

subsection \<open>Titles\<close>

definition title_limit :: nat where "title_limit = 200"

text \<open>The ellipsis of a cut title, outside the characters of the model, is one stand-in.\<close>

definition ellipsis :: string where "ellipsis = [CHR 0x84]"

text \<open>\<open>str.splitlines()\<close> on the characters of the model.\<close>

definition is_line_end :: "char \<Rightarrow> bool" where
  "is_line_end c = (let n = code_of c in (10 \<le> n \<and> n \<le> 13) \<or> (28 \<le> n \<and> n \<le> 30) \<or> n = 133)"

function splitlines :: "string \<Rightarrow> string list" where
  "splitlines s = (if s = [] then []
     else (let line = takeWhile (\<lambda>c. \<not> is_line_end c) s; rest = drop (length line) s
           in line # (case rest of [] \<Rightarrow> []
                | c # t \<Rightarrow> splitlines (if c = CHR 0x0D \<and> t \<noteq> [] \<and> hd t = CHR 0x0A then tl t else t))))"
  by pat_completeness auto
termination
  by (relation "measure length") (auto simp: Let_def dest!: arg_cong[of _ _ length])

declare splitlines.simps [simp del]

text \<open>\<open>BOLD_HEADING.fullmatch\<close>: a span of \<open>**\<close> or \<open>__\<close> around the line, a colon after it or not.\<close>

definition bold_in :: "string \<Rightarrow> string \<Rightarrow> bool" where
  "bold_in d s = (starts_with d s \<and>
     (let r = drop (length d) s; middle = takeWhile (\<lambda>c. c \<noteq> CHR ''*'' \<and> c \<noteq> CHR ''_'') r;
          tail = drop (length middle) r
      in middle \<noteq> [] \<and> (tail = d \<or> tail = d @ '':'')))"

definition bold_heading :: "string \<Rightarrow> bool" where
  "bold_heading s = (bold_in ''**'' s \<or> bold_in ''__'' s)"

definition says_nothing :: "string \<Rightarrow> string \<Rightarrow> bool" where
  "says_nothing line following = (line = [] \<or> starts_with ''#'' line
     \<or> set line \<subseteq> set (''-=*_~ '' @ [CHR 0x60])
     \<or> (following \<noteq> [] \<and> set following \<subseteq> set ''-='')
     \<or> bold_heading line)"

definition is_fence :: "string \<Rightarrow> bool" where
  "is_fence line = (starts_with [CHR 0x60, CHR 0x60, CHR 0x60] line \<or> starts_with ''~~~'' line)"

fun first_saying :: "bool \<Rightarrow> string list \<Rightarrow> string option" where
  "first_saying in_fence [] = None"
| "first_saying in_fence (line # lines) =
     (if is_fence line then first_saying (\<not> in_fence) lines
      else if in_fence \<or> says_nothing line (case lines of [] \<Rightarrow> [] | f # _ \<Rightarrow> f)
        then first_saying in_fence lines
      else Some line)"

definition first_line :: "json \<Rightarrow> string option" where
  "first_line text = (case text of JStr s \<Rightarrow> first_saying False (map py_strip (splitlines s)) | _ \<Rightarrow> None)"

definition cut_title :: "string \<Rightarrow> string" where
  "cut_title line = (if length line \<le> title_limit then line
     else py_rstrip (take (title_limit - 1) line) @ ellipsis)"

fun first_text :: "json list \<Rightarrow> string option" where
  "first_text [] = None"
| "first_text (t # ts) = (case first_line t of Some l \<Rightarrow> Some l | None \<Rightarrow> first_text ts)"

definition title_of :: "string \<Rightarrow> json_record list \<Rightarrow> string" where
  "title_of primary records =
     (let own = (\<lambda>r. jget r ''id'' = JStr primary);
          ordered = filter own records @ filter (\<lambda>r. \<not> own r) records
      in case first_text (map (\<lambda>r. jget r ''summary'') ordered @ map (\<lambda>r. jget r ''details'') ordered) of
           None \<Rightarrow> primary | Some line \<Rightarrow> cut_title line)"

subsection \<open>One package of the report\<close>

fun dicts :: "json list \<Rightarrow> json_record list option" where
  "dicts [] = Some []"
| "dicts (JObj d # vs) = map_option ((#) d) (dicts vs)"
| "dicts (_ # vs) = None"

definition list_of_dicts :: "json \<Rightarrow> scan_exn + json_record list" where
  "list_of_dicts v = (case v of
       JList vs \<Rightarrow> (case dicts vs of Some ds \<Rightarrow> Inr ds
          | None \<Rightarrow> Inl (ScanError ''osv-scanner printed a list this scan cannot read''))
     | _ \<Rightarrow> Inl (ScanError ''osv-scanner printed a list this scan cannot read''))"

text \<open>\<open>d.get(k, [])\<close>\<close>

definition get_list :: "json_record \<Rightarrow> string \<Rightarrow> json" where
  "get_list d k = (case map_of d k of None \<Rightarrow> JList [] | Some v \<Rightarrow> v)"

definition json_type :: "json \<Rightarrow> string" where
  "json_type v = (case v of JNull \<Rightarrow> ''NoneType'' | JBool _ \<Rightarrow> ''bool'' | JInt _ \<Rightarrow> ''int'' | JFloat _ \<Rightarrow> ''float''
     | JStr _ \<Rightarrow> ''str'' | JList _ \<Rightarrow> ''list'' | JObj _ \<Rightarrow> ''dict'')"

text \<open>The records by their id, a later one replacing an earlier; an id is hashed.\<close>

fun by_id :: "json_record list \<Rightarrow> (json \<times> json_record) list \<Rightarrow> scan_exn + (json \<times> json_record) list" where
  "by_id [] d = Inr d"
| "by_id (r # rs) d = (case map_of r ''id'' of
       None \<Rightarrow> by_id rs d
     | Some v \<Rightarrow> if json_hashable v then by_id rs (AList.update v r d)
                 else Inl (OtherError (''TypeError: unhashable type: '' @ py_repr (json_type v))))"

fun strings :: "json list \<Rightarrow> string list" where
  "strings [] = []"
| "strings (JStr s # vs) = (if s = [] then strings vs else s # strings vs)"
| "strings (_ # vs) = strings vs"

text \<open>The ids of a group: a list of non-empty strings, not empty.\<close>

definition group_ids :: "json \<Rightarrow> string list option" where
  "group_ids g = (case g of
       JObj d \<Rightarrow> (case jget d ''ids'' of
           JList vs \<Rightarrow> if vs \<noteq> [] \<and> length (strings vs) = length vs then Some (strings vs) else None
         | _ \<Rightarrow> None)
     | _ \<Rightarrow> None)"

definition group_dict :: "json \<Rightarrow> json_record" where
  "group_dict g = (case g of JObj d \<Rightarrow> d | _ \<Rightarrow> [])"

definition group_names :: "json \<Rightarrow> string list" where
  "group_names g = (case jget (group_dict g) ''aliases'' of JList vs \<Rightarrow> strings vs | _ \<Rightarrow> [])"

definition advisory_url :: "string \<Rightarrow> string" where
  "advisory_url primary = (if starts_with ''GHSA-'' primary
     then ''https://github.com/advisories/'' @ primary
     else ''https://osv.dev/vulnerability/'' @ primary)"

definition group_advisory :: "(string \<Rightarrow> pyfloat option) \<Rightarrow> string \<Rightarrow> string \<Rightarrow> (json \<times> json_record) list
    \<Rightarrow> json \<Rightarrow> scan_exn + advisory" where
  "group_advisory parse name version records g = (case group_ids g of
       None \<Rightarrow> Inl (ScanError ''osv-scanner printed an advisory group this scan cannot read'')
     | Some ids \<Rightarrow>
         (let primary = primary_id ids;
              group_records = concat (map (\<lambda>i. case map_of records (JStr i) of None \<Rightarrow> [] | Some r \<Rightarrow> [r]) ids)
          in map_sum id (\<lambda>severity.
               \<lparr>av_ecosystem = ''pypi'', av_package = name, av_affected = version, av_id = primary,
                av_severity = severity, av_title = title_of primary group_records,
                av_url = Some (advisory_url primary),
                av_aliases = sorted_set (ids @ group_names g)\<rparr>)
             (severity_of parse (jget (group_dict g) ''max_severity'') group_records)))"

fun group_advisories :: "(json \<Rightarrow> scan_exn + advisory) \<Rightarrow> json list \<Rightarrow> scan_exn + advisory list" where
  "group_advisories read [] = Inr []"
| "group_advisories read (g # gs) = (case read g of Inl e \<Rightarrow> Inl e
     | Inr a \<Rightarrow> map_sum id ((#) a) (group_advisories read gs))"

definition advisories_in :: "(string \<Rightarrow> pyfloat option) \<Rightarrow> json_record \<Rightarrow> scan_exn + advisory list" where
  "advisories_in parse entry = (case (jget entry ''package'', get_list entry ''groups'', get_list entry ''vulnerabilities'') of
       (JObj package, JList groups, JList records) \<Rightarrow>
         (case (jget package ''name'', jget package ''version'') of
            (JStr name, JStr version) \<Rightarrow>
              (if name = [] \<or> (records \<noteq> [] \<and> groups = [])
               then Inl (ScanError ''osv-scanner printed a package this scan cannot read'')
               else case list_of_dicts (JList records) of
                 Inl e \<Rightarrow> Inl e
               | Inr rs \<Rightarrow> (case by_id rs [] of
                     Inl e \<Rightarrow> Inl e
                   | Inr d \<Rightarrow> group_advisories (group_advisory parse name version d) groups))
          | _ \<Rightarrow> Inl (ScanError ''osv-scanner printed a package this scan cannot read''))
     | _ \<Rightarrow> Inl (ScanError ''osv-scanner printed a package this scan cannot read''))"

subsection \<open>The merge\<close>

definition related :: "advisory \<Rightarrow> advisory \<Rightarrow> bool" where
  "related one other = (av_ecosystem one = av_ecosystem other \<and> av_package one = av_package other
     \<and> set (av_aliases one) \<inter> set (av_aliases other) \<noteq> {})"

text \<open>\<open>s.split(", ")\<close>\<close>

function split_comma :: "string \<Rightarrow> string list" where
  "split_comma [] = [[]]"
| "split_comma (c # s) = (if c = CHR '','' \<and> s \<noteq> [] \<and> hd s = CHR '' '' then [] # split_comma (tl s)
     else (case split_comma s of [] \<Rightarrow> [[c]] | w # ws \<Rightarrow> (c # w) # ws))"
  by pat_completeness auto
termination by (relation "measure length") auto

definition more_severe :: "string \<Rightarrow> string \<Rightarrow> string" where
  "more_severe a b = first_min rank_of a [b]"

definition merged :: "advisory \<Rightarrow> advisory \<Rightarrow> advisory" where
  "merged known other =
     (let (first, second) = (if primary_id [av_id known, av_id other] = av_id known
            then (known, other) else (other, known));
          versions = split_comma (av_affected known)
      in first\<lparr>av_affected := py_join '', '' (versions
                @ filter (\<lambda>v. v \<notin> set versions) (split_comma (av_affected other))),
               av_severity := more_severe (av_severity known) (av_severity other),
               av_aliases := sorted_set (av_aliases known @ av_aliases other),
               av_title := (if av_title first = av_id first then av_title second else av_title first)\<rparr>)"

text \<open>One turn of the inner loop, then the loop over one finding and its append.\<close>

definition absorb_one :: "advisory \<Rightarrow> advisory list \<times> advisory \<Rightarrow> advisory list \<times> advisory" where
  "absorb_one known = (\<lambda>(found, a). (remove1 known found, merged known a))"

definition absorb :: "advisory \<Rightarrow> advisory list \<Rightarrow> advisory list" where
  "absorb a found =
     (let (kept, merger) = fold absorb_one (filter (\<lambda>k. related k a) found) (found, a)
      in kept @ [merger])"

fun absorb_entries :: "(string \<Rightarrow> pyfloat option) \<Rightarrow> json_record list \<Rightarrow> advisory list \<Rightarrow> scan_exn + advisory list" where
  "absorb_entries parse [] found = Inr found"
| "absorb_entries parse (e # es) found = (case advisories_in parse e of Inl x \<Rightarrow> Inl x
     | Inr as \<Rightarrow> absorb_entries parse es (fold absorb as found))"

subsection \<open>The report\<close>

text \<open>\<open>x or []\<close>: the truth value of a JSON value.\<close>

definition truthy :: "json \<Rightarrow> bool" where
  "truthy v = (case v of JNull \<Rightarrow> False | JBool b \<Rightarrow> b | JInt i \<Rightarrow> i \<noteq> 0 | JFloat x \<Rightarrow> x \<noteq> Fin 0
     | JStr s \<Rightarrow> s \<noteq> [] | JList vs \<Rightarrow> vs \<noteq> [] | JObj d \<Rightarrow> d \<noteq> [])"

definition packages_of :: "json_record \<Rightarrow> scan_exn + json_record list" where
  "packages_of result = (let v = jget result ''packages'' in list_of_dicts (if truthy v then v else JList []))"

fun absorb_results :: "(string \<Rightarrow> pyfloat option) \<Rightarrow> json_record list \<Rightarrow> advisory list \<Rightarrow> scan_exn + advisory list" where
  "absorb_results parse [] found = Inr found"
| "absorb_results parse (r # rs) found = (case packages_of r of Inl x \<Rightarrow> Inl x
     | Inr es \<Rightarrow> (case absorb_entries parse es found of Inl x \<Rightarrow> Inl x
         | Inr found' \<Rightarrow> absorb_results parse rs found'))"

definition results_of :: "json \<Rightarrow> json_record list option" where
  "results_of report = (case report of
       JObj d \<Rightarrow> (case jget d ''results'' of JList vs \<Rightarrow> dicts vs | _ \<Rightarrow> None)
     | _ \<Rightarrow> None)"

text \<open>The exit status has to agree with what the report holds.\<close>

definition exit_agrees :: "int \<Rightarrow> advisory list \<Rightarrow> bool" where
  "exit_agrees status found = ((status = 0 \<and> found = []) \<or> (status = 1 \<and> found \<noteq> []))"

definition parse_osv_scanner :: "(string \<Rightarrow> loads_result) \<Rightarrow> (string \<Rightarrow> pyfloat option) \<Rightarrow> string \<Rightarrow> int
    \<Rightarrow> scan_exn + advisory list" where
  "parse_osv_scanner loads parse text status = (case loads text of
       DecodeError _ \<Rightarrow> Inl (ScanError (''osv-scanner produced no readable report (exit '' @ str_int status
                         @ ''): JSONDecodeError''))
     | LoadsRaised e \<Rightarrow> Inl (OtherError e)
     | Loaded report \<Rightarrow> (case results_of report of
         None \<Rightarrow> Inl (ScanError (''osv-scanner produced no results list (exit '' @ str_int status @ '')''))
       | Some results \<Rightarrow> (case absorb_results parse results [] of
           Inl e \<Rightarrow> Inl e
         | Inr found \<Rightarrow>
             if exit_agrees status found then Inr found
             else Inl (ScanError (''osv-scanner exited '' @ str_int status @ '' with ''
                       @ str_int (int (length found)) @ '' advisories'')))))"

end
