(* ===== verification/Scan_Plan.thy ===== *)
theory Scan_Plan
  imports Scan
begin

text \<open>
  \<open>.github/scripts/dependency_security_scan.py\<close>, second half: what the scan does on
  GitHub with the advisories it found. The state an issue carries in its marker, the plan
  for the advisories issue, the plan for the error issue, every text both write, and
  \<open>main\<close>. The open issues are the dictionaries \<open>gh issue list\<close> printed; the decoder
  and the formatted instant of the run are parameters.
\<close>

subsection \<open>Vocabulary\<close>

abbreviation nl :: string where "nl \<equiv> [CHR 0x0A]"
abbreviation bt :: string where "bt \<equiv> [CHR 0x60]"

definition tick :: "string \<Rightarrow> string" where "tick s = bt @ s @ bt"

text \<open>The arrow of a re-rating, outside the characters of the model, is one stand-in.\<close>

definition arrow :: string where "arrow = [CHR 0x86]"

definition advisories_title :: string where
  "advisories_title =
     ''[SECURITY] Dependency Advisories Against main (Daily Scan)''"

definition error_title :: string where
  "error_title =
     ''Daily Dependency Security Scan Could Not Reach a Verdict''"

definition paging_label :: string where "paging_label = ''needs-human''"
definition inbox_label :: string where "inbox_label = ''needs-capital''"
definition scan_author :: string where "scan_author = ''app/basecradle-ai''"

definition ecosystem_name :: "string \<Rightarrow> string" where
  "ecosystem_name e = (if e = ''pypi'' then ''Python package'' else e)"

definition advisories_next :: string where
  "advisories_next =
     ''The fix is a bump on its own branch: '' @ bt
     @ ''uv lock --upgrade-package <package>==<fixed version>'' @ bt
     @ '', the minimum version that resolves the advisory, then the Critical and ''
     @ ''High advisories read against the router on this issue (CLAUDE.md '' @ arrow @ '' ''
     @ [CHR 0x22] @ ''Responding to the Daily Dependency Scan'' @ [CHR 0x22] @ ''). '' @ bt
     @ ''uv.lock'' @ bt @ '' is what the daemon'' @ [CHR 0x27]
     @ ''s box installs, development group included (the deploy'' @ [CHR 0x27] @ ''s '' @ bt
     @ ''uv sync --locked'' @ bt @ ''), so the fix is live only once the NOC'' @ [CHR 0x27]
     @ ''s unattended deploy has carried that merge to the box; nothing here is ''
     @ ''released. An advisory that does not apply here is dismissed in '' @ bt
     @ ''osv-scanner.toml'' @ bt @ '' ('' @ bt @ ''['' @ ''[IgnoredVulns]'' @ '']'' @ bt
     @ '', with its reason and an '' @ bt @ ''ignoreUntil'' @ bt
     @ ''). Closing this issue dismisses nothing: while an advisory stands, the next ''
     @ ''scan files a new issue.''"

definition error_happened :: string where
  "error_happened =
     ''The daily dependency security scan of '' @ bt @ ''main'' @ bt
     @ '' ran and could not reach a verdict, so it says nothing about whether '' @ bt
     @ ''main'' @ bt @ '' is clean. While this stands, a new advisory goes unseen.''"

definition error_next :: string where
  "error_next =
     ''Read the run'' @ [CHR 0x27]
     @ ''s log, fix what stopped the scan, and re-run the workflow by hand ('' @ bt
     @ ''Dependency Security Scan'' @ bt
     @ '', *Run workflow*). One issue is filed while the scan cannot run, not one a ''
     @ ''day, and the run that reaches a verdict again closes it.''"

record scan =
  sc_advisories :: "advisory list"
  sc_errors :: "(string \<times> string) list"
  sc_ref :: string
  sc_sha :: string
  sc_run_url :: string
  sc_when :: string

definition mk_scan :: "advisory list \<Rightarrow> (string \<times> string) list \<Rightarrow> string \<Rightarrow> string \<Rightarrow> string \<Rightarrow> string \<Rightarrow> scan" where
  "mk_scan advisories errors ref sha run_url when =
     \<lparr>sc_advisories = sort_key av_rank advisories, sc_errors = errors, sc_ref = ref, sc_sha = sha,
      sc_run_url = run_url, sc_when = when\<rparr>"

definition scan_verdict :: "scan \<Rightarrow> string" where
  "scan_verdict sc = (if sc_errors sc \<noteq> [] then ''error''
     else if sc_advisories sc \<noteq> [] then ''advisories'' else ''clean'')"

record plan =
  pl_action :: string
  pl_number :: "json option"
  pl_title :: string
  pl_body :: "string option"
  pl_comment :: "string option"
  pl_labels :: "string list"

definition plan_json :: "plan \<Rightarrow> json" where
  "plan_json p = JObj [(''action'', JStr (pl_action p)),
     (''number'', case pl_number p of None \<Rightarrow> JNull | Some n \<Rightarrow> n), (''title'', JStr (pl_title p)),
     (''body'', case pl_body p of None \<Rightarrow> JNull | Some s \<Rightarrow> JStr s),
     (''comment'', case pl_comment p of None \<Rightarrow> JNull | Some s \<Rightarrow> JStr s),
     (''labels'', JList (map JStr (pl_labels p)))]"

subsection \<open>The state an issue carries\<close>

definition marker_open :: string where "marker_open = ''<!-- dependency-security-scan ''"
definition marker_close :: string where "marker_close = '' -->''"

text \<open>The text before the last place where \<open>p\<close> begins.\<close>

fun before_last :: "string \<Rightarrow> string \<Rightarrow> string option" where
  "before_last p [] = None"
| "before_last p (c # s) = (case before_last p s of
       Some t \<Rightarrow> Some (c # t)
     | None \<Rightarrow> if starts_with p (c # s) then Some [] else None)"

text \<open>
  \<open>MARKER\<close> at the head of a text: the group it captures and the length it consumes. The
  dot matches no newline, and the star takes as much as it can.
\<close>

definition marker_at :: "string \<Rightarrow> (string \<times> nat) option" where
  "marker_at s = (if \<not> starts_with (marker_open @ ''{'') s then None
     else (case before_last (''}'' @ marker_close)
                  (takeWhile (\<lambda>c. c \<noteq> CHR 0x0A) (drop (length marker_open + 1) s)) of
             None \<Rightarrow> None
           | Some t \<Rightarrow> Some (''{'' @ t @ ''}'', length marker_open + length t + 2 + length marker_close)))"

text \<open>\<open>MARKER.findall\<close>: the matches from left to right, none overlapping another.\<close>

function markers :: "string \<Rightarrow> string list" where
  "markers [] = []"
| "markers (c # s) = (case marker_at (c # s) of
       None \<Rightarrow> markers s
     | Some (g, n) \<Rightarrow> g # markers (drop (n - 1) s))"
  by pat_completeness auto
termination by (relation "measure length") auto

definition author_of :: "json_record \<Rightarrow> string option" where
  "author_of issue = (case jget issue ''author'' of JObj d \<Rightarrow> json_str (jget d ''login'') | _ \<Rightarrow> None)"

definition state_in :: "(string \<Rightarrow> loads_result) \<Rightarrow> json \<Rightarrow> scan_exn + json_record" where
  "state_in loads body =
     (let found = markers (case body of JStr s \<Rightarrow> s | _ \<Rightarrow> [])
      in if found = [] then Inr []
         else case loads (last found) of
           DecodeError _ \<Rightarrow> Inr []
         | LoadsRaised e \<Rightarrow> Inl (OtherError e)
         | Loaded v \<Rightarrow> Inr (case v of JObj d \<Rightarrow> d | _ \<Rightarrow> []))"

text \<open>\<open>json.dumps\<close> with the compact separators, of the two states the scan writes.\<close>

definition dict_text :: "(string \<times> string) list \<Rightarrow> string" where
  "dict_text d = ''{'' @ py_join '','' (map (\<lambda>(k, v). json_string k @ '':'' @ json_string v) d) @ ''}''"

definition list_text :: "string list \<Rightarrow> string" where
  "list_text xs = ''['' @ py_join '','' (map json_string xs) @ '']''"

definition advisories_state :: "(string \<times> string) list \<Rightarrow> string" where
  "advisories_state current = ''{'' @ json_string ''advisories'' @ '':'' @ dict_text current @ ''}''"

definition failing_state :: "string list \<Rightarrow> string" where
  "failing_state failing = ''{'' @ json_string ''failing'' @ '':'' @ list_text failing @ ''}''"

definition escape_angle :: "char \<Rightarrow> string" where
  "escape_angle c = (if c = CHR ''<'' then [CHR 0x5C] @ ''u003c''
     else if c = CHR ''>'' then [CHR 0x5C] @ ''u003e'' else [c])"

definition marker_data :: "string \<Rightarrow> string" where
  "marker_data text = concat (map escape_angle text)"

definition marker :: "string \<Rightarrow> string" where
  "marker text = marker_open @ marker_data text @ marker_close"

subsection \<open>Texts\<close>

text \<open>
  \<open>s.capitalize()\<close>. The two letters of Latin-1 whose capital is no code point of the
  model stay as they are.
\<close>

definition title_char :: "char \<Rightarrow> string" where
  "title_char c = (let n = code_of c in
     if n = 223 then ''Ss''
     else if (97 \<le> n \<and> n \<le> 122) \<or> (224 \<le> n \<and> n \<le> 254 \<and> n \<noteq> 247) then [char_of (n - 32)] else [c])"

definition capitalize :: "string \<Rightarrow> string" where
  "capitalize s = (case s of [] \<Rightarrow> [] | c # t \<Rightarrow> title_char c @ py_lower t)"

definition label_for :: "advisory list \<Rightarrow> string" where
  "label_for advisories = (if \<exists>a\<in>set advisories. pages a then paging_label else inbox_label)"

definition names :: "string list \<Rightarrow> string" where
  "names ecosystems = py_join '' and '' (map (\<lambda>e. ecosystem_name e @ '' scan'') (sort ecosystems))"

text \<open>\<open>re.sub(r"\s+", " ", text)\<close>\<close>

function squash :: "string \<Rightarrow> string" where
  "squash [] = []"
| "squash (c # s) = (if is_space c then CHR '' '' # squash (dropWhile is_space s) else c # squash s)"
  by pat_completeness auto
termination by (relation "measure length") (auto simp: le_imp_less_Suc length_dropWhile_le)

definition escape_cell :: "char \<Rightarrow> string" where
  "escape_cell c = (if c = CHR ''<'' then ''&lt;'' else if c = CHR ''|'' then [CHR 0x5C] @ ''|'' else [c])"

definition is_mention_char :: "char \<Rightarrow> bool" where
  "is_mention_char c = (is_word c \<or> c = CHR ''-'' \<or> c = CHR ''/'' \<or> c = CHR ''.'')"

text \<open>Every \<open>@name\<close> put into a code span.\<close>

function quote_mentions :: "string \<Rightarrow> string" where
  "quote_mentions [] = []"
| "quote_mentions (c # s) =
     (let name = takeWhile is_mention_char s
      in if c = CHR ''@'' \<and> name \<noteq> [] then tick (CHR ''@'' # name) @ quote_mentions (drop (length name) s)
         else c # quote_mentions s)"
  by pat_completeness auto
termination by (relation "measure length") auto

definition cell :: "string \<Rightarrow> string" where
  "cell text = quote_mentions (concat (map escape_cell (filter (\<lambda>c. c \<noteq> CHR 0x60) (squash text))))"

definition code_span :: "string \<Rightarrow> string" where
  "code_span text = (if text = [] then [] else tick (concat (map escape_cell (squash text))))"

definition table_row :: "advisory \<Rightarrow> string" where
  "table_row a =
     (let link = (case av_url a of
            None \<Rightarrow> av_id a
          | Some u \<Rightarrow> if u = [] then av_id a else ''['' @ av_id a @ '']('' @ u @ '')'')
      in ''| '' @ capitalize (av_severity a) @ '' | '' @ ecosystem_name (av_ecosystem a) @ '' | ''
         @ code_span (av_package a) @ '' | '' @ code_span (av_affected a) @ '' | '' @ cell link
         @ '' | '' @ cell (av_title a) @ '' |'')"

definition table_header :: "string list" where
  "table_header = [''| Severity | Ecosystem | Package | Installed or Affected | Advisory | Title |'',
     ''|---|---|---|---|---|---|'']"

definition table :: "advisory list \<Rightarrow> string" where
  "table advisories = py_join nl (table_header @ map table_row advisories) @ nl"

definition count_of :: "advisory list \<Rightarrow> string" where
  "count_of advisories = str_int (int (length advisories)) @ '' ''
     @ (if length advisories = 1 then ''advisory'' else ''advisories'')"

text \<open>\<open>Counter\<close>'s items, in the order of their first appearance.\<close>

definition counter_items :: "string list \<Rightarrow> (string \<times> nat) list" where
  "counter_items xs = map (\<lambda>s. (s, length (filter ((=) s) xs))) (rev (remdups (rev xs)))"

definition tally :: "advisory list \<Rightarrow> string" where
  "tally advisories = py_join '', '' (map (\<lambda>(severity, n). str_int (int n) @ '' '' @ capitalize severity)
     (sort_key (\<lambda>(severity, n). rank_of severity) (counter_items (map av_severity advisories))))"

definition headline :: "scan \<Rightarrow> (string \<times> string) list \<Rightarrow> string" where
  "headline sc carried =
     (if sc_advisories sc = [] \<and> carried \<noteq> []
      then ''This run found no advisory in what it could scan, and could not scan everything.''
      else if sc_advisories sc = []
      then ''The daily scan of '' @ tick ''main'' @ '' finds no advisory now. Close this issue by hand.''
      else ''The daily scan of '' @ tick ''main'' @ '' found **'' @ count_of (sc_advisories sc)
        @ ''** against what '' @ tick ''main'' @ '' resolves: '' @ tally (sc_advisories sc) @ ''.'')"

definition routing :: "scan \<Rightarrow> string" where
  "routing sc =
     (if sc_advisories sc = [] then ''Nothing is reported now, so this run applied no label.''
      else if \<exists>a\<in>set (sc_advisories sc). pages a
      then tick paging_label
        @ '' is applied when an advisory rated High or Critical appears, and it pages ''
        @ tick ''@origin'' @ '' (his ruling, 2026-11-05, basecradle#750).''
      else tick inbox_label
        @ '': nothing here is rated High or Critical, so nothing paged. Only High and Critical page ''
        @ tick ''@origin'' @ '' (his ruling, 2026-11-05, basecradle#750).'')"

definition carried_note :: "scan \<Rightarrow> (string \<times> string) list \<Rightarrow> string" where
  "carried_note sc carried = (if carried = [] then []
     else nl @ ''**Not Re-Checked This Run:** the '' @ names (map fst (sc_errors sc))
       @ '' could not run, so '' @ str_int (int (length carried)) @ '' earlier ''
       @ (if length carried = 1 then ''finding is'' else ''findings are'')
       @ '' carried forward unlisted, neither confirmed nor cleared.'' @ nl)"

definition advisories_text :: "scan \<Rightarrow> (string \<times> string) list \<Rightarrow> string" where
  "advisories_text sc carried =
     ''## What Was Found'' @ nl @ nl @ headline sc carried @ nl @ nl
     @ ''- **Where:** '' @ tick ''uv.lock'' @ '' at '' @ tick (sc_sha sc) @ '' ('' @ tick (sc_ref sc) @ '').'' @ nl
     @ ''- **When:** scanned '' @ sc_when sc @ '', by the scheduled scan and not by a session: ''
     @ sc_run_url sc @ nl
     @ ''- **Actor:** none. These are public upstream disclosures, not events on our systems.'' @ nl
     @ ''- **Class:** a dependency advisory.'' @ nl
     @ ''- **Contained So Far:** nothing. Nobody has read these against the router yet.'' @ nl @ nl
     @ (if sc_advisories sc \<noteq> [] then table (sc_advisories sc) else []) @ nl
     @ carried_note sc carried @ nl
     @ ''## What Happens Next'' @ nl @ nl @ advisories_next @ nl @ nl
     @ ''## How This Was Routed'' @ nl @ nl @ routing sc @ nl"

definition advisories_body :: "scan \<Rightarrow> (string \<times> string) list \<Rightarrow> (string \<times> string) list \<Rightarrow> string" where
  "advisories_body sc current carried =
     advisories_text sc carried @ nl @ marker (advisories_state current) @ nl"

definition error_list :: "scan \<Rightarrow> string" where
  "error_list sc = py_join nl (map (\<lambda>(e, reason). ''- **'' @ ecosystem_name e @ '' scan:** '' @ cell reason)
     (sort_key fst (sc_errors sc)))"

definition error_text :: "scan \<Rightarrow> string" where
  "error_text sc =
     ''## What Happened'' @ nl @ nl @ error_happened @ nl @ nl
     @ ''- **Where:** '' @ tick (sc_sha sc) @ '' ('' @ tick (sc_ref sc) @ ''), '' @ sc_when sc @ '': ''
     @ sc_run_url sc @ nl @ nl @ error_list sc @ nl @ nl
     @ ''## What Happens Next'' @ nl @ nl @ error_next @ nl"

definition error_body :: "scan \<Rightarrow> string list \<Rightarrow> string" where
  "error_body sc failing = error_text sc @ nl @ marker (failing_state failing) @ nl"

subsection \<open>What is known\<close>

text \<open>The state of the marker, read for its string values: a dictionary comprehension.\<close>

definition string_items :: "json \<Rightarrow> (string \<times> string) list" where
  "string_items v = (case v of
       JObj d \<Rightarrow> fold (\<lambda>(k, x) m. case x of JStr s \<Rightarrow> AList.update k s m | _ \<Rightarrow> m) d []
     | _ \<Rightarrow> [])"

definition known_in :: "(string \<Rightarrow> loads_result) \<Rightarrow> json_record option \<Rightarrow> scan_exn + (string \<times> string) list" where
  "known_in loads existing = (case existing of
       None \<Rightarrow> Inr []
     | Some issue \<Rightarrow> map_sum id (\<lambda>d. string_items (jget d ''advisories'')) (state_in loads (jget issue ''body'')))"

text \<open>An earlier name that is known and not itself reported is folded into the present one.\<close>

type_synonym names_state = "(string \<times> string) list \<times> (string \<times> string) list"

definition fold_name :: "string list \<Rightarrow> string \<Rightarrow> string \<Rightarrow> names_state \<Rightarrow> names_state" where
  "fold_name reported key earlier = (\<lambda>(known, renamed).
     (case map_of known earlier of
        Some severity \<Rightarrow>
          (if earlier \<noteq> key \<and> earlier \<notin> set reported
           then (let rest = AList.delete earlier known;
                     filed = (case map_of rest key of None \<Rightarrow> severity | Some s \<Rightarrow> s)
                 in (AList.update key (more_severe filed severity) rest, renamed @ [(earlier, key)]))
           else (known, renamed))
      | None \<Rightarrow> (known, renamed)))"

definition fold_names :: "string list \<Rightarrow> advisory list \<Rightarrow> names_state \<Rightarrow> names_state" where
  "fold_names reported = fold (\<lambda>a. fold (fold_name reported (av_key a)) (alias_keys a))"

definition ecosystem_of :: "string \<Rightarrow> string" where
  "ecosystem_of key = hd (split_char CHR '':'' key)"

definition carried_over :: "scan \<Rightarrow> (string \<times> string) list \<Rightarrow> (string \<times> string) list" where
  "carried_over sc known = filter (\<lambda>(k, s). ecosystem_of k \<in> fst ` set (sc_errors sc)) known"

definition current_state :: "scan \<Rightarrow> (string \<times> string) list \<Rightarrow> (string \<times> string) list" where
  "current_state sc carried =
     sort_key fst (fold (\<lambda>a. AList.update (av_key a) (av_severity a)) (sc_advisories sc) carried)"

definition added_in :: "scan \<Rightarrow> (string \<times> string) list \<Rightarrow> advisory list" where
  "added_in sc known = filter (\<lambda>a. map_of known (av_key a) = None) (sc_advisories sc)"

definition rerated_in :: "scan \<Rightarrow> (string \<times> string) list \<Rightarrow> advisory list" where
  "rerated_in sc known = filter (\<lambda>a. case map_of known (av_key a) of None \<Rightarrow> False | Some s \<Rightarrow> s \<noteq> av_severity a)
     (sc_advisories sc)"

definition escalated_in :: "scan \<Rightarrow> (string \<times> string) list \<Rightarrow> advisory list" where
  "escalated_in sc known = filter (\<lambda>a. pages a \<and> the (map_of known (av_key a)) \<notin> set paging_severities)
     (rerated_in sc known)"

definition resolved_in :: "(string \<times> string) list \<Rightarrow> (string \<times> string) list \<Rightarrow> string list" where
  "resolved_in known current = filter (\<lambda>k. k \<notin> fst ` set current) (map fst known)"

definition change_comment :: "scan \<Rightarrow> advisory list \<Rightarrow> advisory list \<Rightarrow> string list \<Rightarrow> (string \<times> string) list
    \<Rightarrow> (string \<times> string) list \<Rightarrow> (string \<times> string) list \<Rightarrow> string list \<Rightarrow> string" where
  "change_comment sc added rerated resolved renamed known current labels =
     py_join (nl @ nl)
       ((if added \<noteq> [] then [''**New Since the Last Scan ('' @ count_of added @ '': '' @ tally added
            @ ''):**'' @ nl @ nl @ table added] else [])
        @ (if rerated \<noteq> [] then [''**Re-Rated:** '' @ py_join '', '' (map (\<lambda>a. tick (av_key a) @ '' ''
            @ capitalize (the (map_of known (av_key a))) @ '' '' @ arrow @ '' ''
            @ capitalize (av_severity a)) rerated)] else [])
        @ (if resolved \<noteq> [] then [''**No Longer Reported ('' @ str_int (int (length resolved)) @ ''):** ''
            @ py_join '', '' (map tick resolved)] else [])
        @ (if renamed \<noteq> [] then [''**Known by Another Name Now:** ''
            @ py_join '', '' (map (\<lambda>(earlier, key). tick earlier @ '' is now '' @ tick key) renamed)] else [])
        @ (if labels \<noteq> [] then [tick (hd labels) @ '' applied for what is new here.''] else [])
        @ (if current = [] then [''The scan of '' @ tick ''main'' @ '' at '' @ tick (sc_sha sc)
            @ '' is clean. Close this issue by hand.''] else [])
        @ [''Run: '' @ sc_run_url sc])"

subsection \<open>The plans\<close>

definition titled :: "string \<Rightarrow> json_record list \<Rightarrow> json_record option" where
  "titled title issues = find (\<lambda>i. jget i ''title'' = JStr title) issues"

definition number_of :: "json_record \<Rightarrow> scan_exn + json" where
  "number_of issue = (case map_of issue ''number'' of
       Some n \<Rightarrow> Inr n
     | None \<Rightarrow> Inl (OtherError (''KeyError: '' @ py_repr ''number'')))"

text \<open>The table looks the ecosystem of every advisory up, and an unknown one is a \<open>KeyError\<close>.\<close>

definition unnamed_ecosystem :: "advisory list \<Rightarrow> string option" where
  "unnamed_ecosystem advisories = map_option av_ecosystem (find (\<lambda>a. av_ecosystem a \<noteq> ''pypi'') advisories)"

definition advisories_plan :: "(string \<Rightarrow> loads_result) \<Rightarrow> scan \<Rightarrow> json_record list \<Rightarrow> scan_exn + plan option" where
  "advisories_plan loads sc issues =
     (let existing = titled advisories_title issues
      in case known_in loads existing of
           Inl e \<Rightarrow> Inl e
         | Inr filed \<Rightarrow>
             (let (known, renamed) = fold_names (map av_key (sc_advisories sc)) (sc_advisories sc) (filed, []);
                  carried = carried_over sc known;
                  current = current_state sc carried;
                  added = added_in sc known;
                  rerated = rerated_in sc known;
                  resolved = resolved_in known current;
                  announced = added @ escalated_in sc known;
                  labels = (if announced \<noteq> [] then [label_for announced] else [])
              in if added = [] \<and> rerated = [] \<and> resolved = [] \<and> renamed = [] then Inr None
                 else (case unnamed_ecosystem (sc_advisories sc) of
                     Some e \<Rightarrow> Inl (OtherError (''KeyError: '' @ py_repr e))
                   | None \<Rightarrow> (case existing of
                       Some issue \<Rightarrow> map_sum id (\<lambda>n. Some
                         \<lparr>pl_action = ''update'', pl_number = Some n, pl_title = advisories_title,
                          pl_body = Some (advisories_body sc current carried),
                          pl_comment = Some (change_comment sc added rerated resolved renamed known current labels),
                          pl_labels = labels\<rparr>) (number_of issue)
                     | None \<Rightarrow> Inr (Some
                         \<lparr>pl_action = ''create'', pl_number = None, pl_title = advisories_title,
                          pl_body = Some (advisories_body sc current carried), pl_comment = None,
                          pl_labels = labels\<rparr>)))))"

definition error_plan :: "(string \<Rightarrow> loads_result) \<Rightarrow> scan \<Rightarrow> json_record list \<Rightarrow> scan_exn + plan option" where
  "error_plan loads sc issues =
     (let failing = sort (map fst (sc_errors sc))
      in case titled error_title issues of
           None \<Rightarrow> (if failing = [] then Inr None
             else Inr (Some \<lparr>pl_action = ''create'', pl_number = None, pl_title = error_title,
                    pl_body = Some (error_body sc failing), pl_comment = None, pl_labels = [inbox_label]\<rparr>))
         | Some issue \<Rightarrow>
             (if failing = [] then map_sum id (\<lambda>n. Some
                \<lparr>pl_action = ''close'', pl_number = Some n, pl_title = error_title, pl_body = None,
                 pl_comment = Some (''Every scanner reached a verdict on '' @ tick (sc_sha sc) @ '' (''
                   @ tick (sc_ref sc) @ ''), so the clock is running again. Closed by that run: ''
                   @ sc_run_url sc),
                 pl_labels = []\<rparr>) (number_of issue)
              else (case state_in loads (jget issue ''body'') of
                  Inl e \<Rightarrow> Inl e
                | Inr state \<Rightarrow>
                    (if JList (map JStr failing) = jget state ''failing'' then Inr None
                     else map_sum id (\<lambda>n. Some
                       \<lparr>pl_action = ''update'', pl_number = Some n, pl_title = error_title,
                        pl_body = Some (error_body sc failing),
                        pl_comment = Some (''Which scans fail has changed. Now failing: the '' @ names failing
                          @ ''. '' @ tick inbox_label @ '' applied for the change.'' @ nl @ nl
                          @ error_list sc @ nl @ nl @ ''Run: '' @ sc_run_url sc),
                        pl_labels = [inbox_label]\<rparr>) (number_of issue)))))"

definition own_issues :: "json_record list \<Rightarrow> json_record list" where
  "own_issues issues = filter (\<lambda>i. author_of i = Some scan_author) issues"

definition plans :: "(string \<Rightarrow> loads_result) \<Rightarrow> scan \<Rightarrow> json_record list \<Rightarrow> scan_exn + plan list" where
  "plans loads sc issues =
     (let own = own_issues issues
      in case advisories_plan loads sc own of
           Inl e \<Rightarrow> Inl e
         | Inr a \<Rightarrow> map_sum id (\<lambda>b. concat (map (\<lambda>p. case p of None \<Rightarrow> [] | Some q \<Rightarrow> [q]) [a, b]))
             (error_plan loads sc own))"

subsection \<open>The run\<close>

text \<open>
  What the scanner process comes to: its output and exit status, or the exception
  \<open>subprocess.run\<close> raised, as \<open>type: message\<close>.
\<close>

datatype scanner_run = Ran string int | RunRaised string

definition scan_pypi :: "(string \<Rightarrow> loads_result) \<Rightarrow> (string \<Rightarrow> pyfloat option) \<Rightarrow> scanner_run \<Rightarrow> scan_exn + advisory list" where
  "scan_pypi loads parse run = (case run of
       Ran out status \<Rightarrow> parse_osv_scanner loads parse out status
     | RunRaised e \<Rightarrow> Inl (OtherError e))"

fun exn_text :: "scan_exn \<Rightarrow> string" where
  "exn_text (ScanError m) = m"
| "exn_text (OtherError m) = m"

text \<open>The loop over the scanners: their advisories, and the reason of each that failed.\<close>

fun collect :: "(string \<times> (scan_exn + advisory list)) list \<Rightarrow> advisory list \<times> (string \<times> string) list
    \<Rightarrow> advisory list \<times> (string \<times> string) list" where
  "collect [] acc = acc"
| "collect ((ecosystem, r) # rs) (advisories, errors) = collect rs (case r of
       Inr found \<Rightarrow> (advisories @ found, errors)
     | Inl e \<Rightarrow> (advisories, AList.update ecosystem (exn_text e) errors))"

definition env_or :: "(string \<Rightarrow> string option) \<Rightarrow> string \<Rightarrow> string \<Rightarrow> string" where
  "env_or env name fallback = (case env name of None \<Rightarrow> fallback | Some v \<Rightarrow> v)"

definition run_scan :: "(string \<Rightarrow> string option) \<Rightarrow> string \<Rightarrow> (scan_exn + advisory list) \<Rightarrow> scan" where
  "run_scan env when found =
     (let (advisories, errors) = collect [(''pypi'', found)] ([], []);
          run_url = env_or env ''GITHUB_SERVER_URL'' ''https://github.com'' @ ''/''
            @ env_or env ''GITHUB_REPOSITORY'' ''local'' @ ''/actions/runs/'' @ env_or env ''GITHUB_RUN_ID'' ''0''
      in mk_scan advisories errors (env_or env ''GITHUB_REF_NAME'' ''local'') (env_or env ''GITHUB_SHA'' ''local'')
           run_url when)"

text \<open>
  \<open>main\<close> after its arguments are parsed and the open issues are read: the plan it writes
  and the line it prints. An exception out of \<open>plans\<close> leaves \<open>main\<close> as a traceback.
\<close>

definition scan_main :: "(string \<Rightarrow> loads_result) \<Rightarrow> (string \<Rightarrow> pyfloat option) \<Rightarrow> (string \<Rightarrow> string option)
    \<Rightarrow> string \<Rightarrow> scanner_run \<Rightarrow> json_record list \<Rightarrow> scan_exn + (json \<times> string)" where
  "scan_main loads parse env when run issues =
     (let sc = run_scan env when (scan_pypi loads parse run)
      in map_sum id (\<lambda>ps. (JObj [(''verdict'', JStr (scan_verdict sc)), (''plans'', JList (map plan_json ps))],
             ''verdict: '' @ scan_verdict sc @ '' ('' @ str_int (int (length (sc_advisories sc))) @ '' advisories, ''
             @ str_int (int (length (sc_errors sc))) @ '' scan errors, '' @ str_int (int (length ps))
             @ '' GitHub actions planned)''))
           (plans loads sc issues))"

end
