(* ===== verification/Scan_Merge.thy ===== *)
theory Scan_Merge
  imports Scan_Plan
begin

text \<open>
  What the reading of a report promises. A finding that absorbs all it is related to
  keeps a list pairwise unrelated and loses nothing: the contract of the two operations is
  the locale \<open>absorbing\<close>, interpreted on the findings of the scan. On it rest the merge of
  the parsed groups and the verdict.
\<close>

subsection \<open>Absorbing\<close>

locale absorbing =
  fixes ok :: "'a \<Rightarrow> bool" and rel :: "'a \<Rightarrow> 'a \<Rightarrow> bool" and join :: "'a \<Rightarrow> 'a \<Rightarrow> 'a"
    and below :: "'a \<Rightarrow> 'a \<Rightarrow> bool"
  assumes rel_refl: "ok a \<Longrightarrow> rel a a"
    and rel_sym: "rel a b \<Longrightarrow> rel b a"
    and join_ok: "ok k \<Longrightarrow> ok a \<Longrightarrow> rel k a \<Longrightarrow> ok (join k a)"
    and rel_join: "rel k a \<Longrightarrow> rel x (join k a) \<longleftrightarrow> rel x k \<or> rel x a"
    and below_refl: "below a a"
    and below_trans: "below a b \<Longrightarrow> below b c \<Longrightarrow> below a c"
    and below_left: "rel k a \<Longrightarrow> below k (join k a)"
    and below_right: "rel k a \<Longrightarrow> below a (join k a)"
    and below_meet: "ok a \<Longrightarrow> below a b \<Longrightarrow> below a c \<Longrightarrow> rel b c"
begin

definition apart :: "'a list \<Rightarrow> bool" where
  "apart xs \<longleftrightarrow> sorted_wrt (\<lambda>a b. \<not> rel a b) xs \<and> (\<forall>x\<in>set xs. ok x)"

definition take_in :: "'a \<Rightarrow> 'a list \<Rightarrow> 'a list" where
  "take_in a xs = filter (\<lambda>k. \<not> rel k a) xs @ [fold join (filter (\<lambda>k. rel k a) xs) a]"

lemma apart_distinct: "apart xs \<Longrightarrow> distinct xs"
  unfolding apart_def by (induction xs) (auto dest: rel_refl)

lemma apart_unrelated: "apart xs \<Longrightarrow> x \<in> set xs \<Longrightarrow> y \<in> set xs \<Longrightarrow> rel x y \<Longrightarrow> x = y"
  unfolding apart_def by (induction xs) (auto dest: rel_sym)

lemma fold_join:
  assumes "\<forall>k\<in>set ks. ok k \<and> rel k a" and "ok a"
  shows "ok (fold join ks a) \<and> below a (fold join ks a) \<and> (\<forall>k\<in>set ks. below k (fold join ks a))
    \<and> (\<forall>x. rel x (fold join ks a) \<longrightarrow> rel x a \<or> (\<exists>k\<in>set ks. rel x k))"
  using assms
proof (induction ks arbitrary: a)
  case Nil
  then show ?case by (simp add: below_refl)
next
  case (Cons k ks)
  then have k: "ok k" "rel k a" and ka: "ok (join k a)" by (auto intro: join_ok)
  have "\<forall>j\<in>set ks. ok j \<and> rel j (join k a)"
    using Cons.prems k rel_join by auto
  from Cons.IH[OF this ka] show ?case
    using below_left[OF k(2)] below_right[OF k(2)] rel_join[OF k(2)] by (auto intro: below_trans)
qed

lemma take_in_apart:
  assumes "apart xs" and "ok a"
  shows "apart (take_in a xs)"
proof -
  let ?hits = "filter (\<lambda>k. rel k a) xs"
  have "\<forall>k\<in>set ?hits. ok k \<and> rel k a" using assms(1) by (auto simp: apart_def)
  note hits = fold_join[OF this assms(2)]
  have "\<not> rel x (fold join ?hits a)" if "x \<in> set xs" "\<not> rel x a" for x
  proof
    assume "rel x (fold join ?hits a)"
    with hits that obtain k where "k \<in> set xs" "rel k a" "rel x k" by auto
    with apart_unrelated[OF assms(1) that(1)] that(2) show False by blast
  qed
  then show ?thesis
    using hits assms(1) by (auto simp: apart_def take_in_def sorted_wrt_append sorted_wrt_filter)
qed

lemma take_in_covers:
  assumes "apart xs" and "ok a"
  shows "\<exists>f\<in>set (take_in a xs). below a f"
    and "x \<in> set xs \<Longrightarrow> \<exists>f\<in>set (take_in a xs). below x f"
proof -
  let ?hits = "filter (\<lambda>k. rel k a) xs"
  have "\<forall>k\<in>set ?hits. ok k \<and> rel k a" using assms(1) by (auto simp: apart_def)
  note hits = fold_join[OF this assms(2)]
  show "\<exists>f\<in>set (take_in a xs). below a f" using hits by (simp add: take_in_def)
  show "\<exists>f\<in>set (take_in a xs). below x f" if "x \<in> set xs"
    using hits that by (cases "rel x a") (auto simp: take_in_def intro: below_refl)
qed

lemma take_all:
  assumes "apart xs" and "\<forall>a\<in>set as. ok a"
  shows "apart (fold take_in as xs)
    \<and> (\<forall>r\<in>set as \<union> set xs. \<exists>f\<in>set (fold take_in as xs). below r f)"
  using assms
proof (induction as arbitrary: xs)
  case Nil
  then show ?case by (auto intro: below_refl)
next
  case (Cons a as)
  then have a: "ok a" by simp
  have "apart (take_in a xs)" by (rule take_in_apart[OF Cons.prems(1) a])
  from Cons.IH[OF this] Cons.prems(2)
  have IH: "apart (fold take_in as (take_in a xs))"
    "\<And>r. r \<in> set as \<union> set (take_in a xs) \<Longrightarrow> \<exists>f\<in>set (fold take_in as (take_in a xs)). below r f"
    by auto
  have "\<exists>f\<in>set (fold take_in as (take_in a xs)). below r f" if "r \<in> set (a # as) \<union> set xs" for r
  proof (cases "r \<in> set as")
    case False
    with that take_in_covers[OF Cons.prems(1) a] obtain g
      where "g \<in> set (take_in a xs)" "below r g" by auto
    with IH(2)[of g] show ?thesis by (auto intro: below_trans)
  qed (simp add: IH(2))
  with IH(1) show ?case by simp
qed

lemma take_unique:
  assumes "apart xs" and "ok r" and "\<exists>f\<in>set xs. below r f"
  shows "\<exists>!f. f \<in> set xs \<and> below r f"
proof -
  have "f = g" if "f \<in> set xs" "below r f" "g \<in> set xs" "below r g" for f g
    using apart_unrelated[OF assms(1) that(1,3)] below_meet[OF assms(2) that(2,4)] by blast
  with assms(3) show ?thesis by blast
qed

lemma fold_join_all:
  assumes "\<And>k a. P k \<Longrightarrow> P a \<Longrightarrow> rel k a \<Longrightarrow> P (join k a)"
  shows "\<forall>k\<in>set ks. rel k a \<and> P k \<Longrightarrow> P a \<Longrightarrow> P (fold join ks a)"
proof (induction ks arbitrary: a)
  case (Cons k ks)
  from Cons.prems have kp: "P k" "P a" and kr: "rel k a" by simp_all
  note k = kr assms[OF kp kr]
  with Cons.prems(1) have "\<forall>j\<in>set ks. rel j (join k a) \<and> P j" by (auto simp: rel_join[OF k(1)])
  from Cons.IH[OF this k(2)] show ?case by simp
qed simp

lemma take_all_keep:
  assumes "\<And>k a. P k \<Longrightarrow> P a \<Longrightarrow> rel k a \<Longrightarrow> P (join k a)"
  shows "\<forall>a\<in>set as. P a \<Longrightarrow> \<forall>x\<in>set xs. P x \<Longrightarrow> \<forall>f\<in>set (fold take_in as xs). P f"
proof (induction as arbitrary: xs)
  case (Cons a as)
  have "P (fold join (filter (\<lambda>k. rel k a) xs) a)"
    by (rule fold_join_all[of P, OF assms]) (use Cons.prems in auto)
  with Cons.prems have "\<forall>f\<in>set (take_in a xs). P f" by (auto simp: take_in_def)
  with Cons.prems(1) show ?case using Cons.IH[of "take_in a xs"] by simp
qed simp

end

subsection \<open>The merge of findings\<close>

definition well_formed :: "advisory \<Rightarrow> bool" where
  "well_formed a = (av_id a \<in> set (av_aliases a))"

text \<open>
  A finding \<open>b\<close> says all of \<open>a\<close>: the same package, every name, every version, and a
  rating as severe.
\<close>

definition says_all :: "advisory \<Rightarrow> advisory \<Rightarrow> bool" where
  "says_all a b = (av_ecosystem a = av_ecosystem b \<and> av_package a = av_package b
     \<and> set (av_aliases a) \<subseteq> set (av_aliases b)
     \<and> set (split_comma (av_affected a)) \<subseteq> set (split_comma (av_affected b))
     \<and> rank_of (av_severity b) \<le> rank_of (av_severity a))"

lemma set_sorted_set [simp]: "set (sorted_set xs) = set xs"
  by (simp add: sorted_set_def)

lemma split_comma_not_Nil [simp]: "split_comma s \<noteq> []"
  by (induction s rule: split_comma.induct) (auto split: list.split)

lemma split_comma_atoms: "w \<in> set (split_comma s) \<Longrightarrow> split_comma w = [w]"
proof (induction s arbitrary: w rule: split_comma.induct)
  case (2 c s)
  show ?case
  proof (cases "c = CHR '','' \<and> s \<noteq> [] \<and> hd s = CHR '' ''")
    case False
    obtain v vs where s: "split_comma s = v # vs" by (cases "split_comma s") auto
    have hd: "v = [] \<or> (s \<noteq> [] \<and> hd v = hd s)"
      using s by (cases s) (auto split: if_splits list.splits)
    from False 2 s hd show ?thesis by (auto split: list.split)
  qed (use 2 in auto)
qed simp

lemma split_comma_join:
  "split_comma w = [w] \<Longrightarrow> split_comma (w @ CHR '','' # CHR '' '' # s) = w # split_comma s"
proof (induction w)
  case (Cons c w)
  then have n: "\<not> (c = CHR '','' \<and> w \<noteq> [] \<and> hd w = CHR '' '')" by auto
  with Cons.prems have "split_comma w = [w]" by (auto split: list.splits)
  with Cons.IH n show ?case by (cases w) auto
qed simp

lemma split_comma_py_join:
  "ws \<noteq> [] \<Longrightarrow> \<forall>w\<in>set ws. split_comma w = [w] \<Longrightarrow> split_comma (py_join '', '' ws) = ws"
  by (induction "'', ''" ws rule: py_join.induct) (auto simp: split_comma_join)

lemma affected_merged:
  "set (split_comma (av_affected (merged k a))) = set (split_comma (av_affected k)) \<union> set (split_comma (av_affected a))"
proof -
  let ?vs = "split_comma (av_affected k)"
  let ?ws = "?vs @ filter (\<lambda>v. v \<notin> set ?vs) (split_comma (av_affected a))"
  have "split_comma (py_join '', '' ?ws) = ?ws"
    by (rule split_comma_py_join) (auto dest: split_comma_atoms)
  moreover have "av_affected (merged k a) = py_join '', '' ?ws"
    by (simp add: merged_def Let_def split_beta)
  ultimately show ?thesis by auto
qed

lemma merged_simps [simp]:
  "av_severity (merged k a) = more_severe (av_severity k) (av_severity a)"
  "av_aliases (merged k a) = sorted_set (av_aliases k @ av_aliases a)"
  "av_id (merged k a) = (if primary_id [av_id k, av_id a] = av_id k then av_id k else av_id a)"
  by (simp_all add: merged_def Let_def split_beta)

lemma merged_package:
  "related k a \<Longrightarrow> av_ecosystem (merged k a) = av_ecosystem a \<and> av_package (merged k a) = av_package a"
  by (simp add: merged_def Let_def split_beta related_def)

lemma more_severe_rank: "rank_of (more_severe s t) = min (rank_of s) (rank_of t)"
  by (simp add: more_severe_def first_min_def)

lemma more_severe_either: "more_severe s t \<in> {s, t}"
  by (simp add: more_severe_def first_min_def)

interpretation findings: absorbing well_formed related merged says_all
proof unfold_locales
  fix k a x assume ka: "related k a"
  show "related x (merged k a) \<longleftrightarrow> related x k \<or> related x a"
    using ka merged_package[OF ka] by (auto simp: related_def)
  show "says_all k (merged k a)" and "says_all a (merged k a)"
    using ka merged_package[OF ka]
    by (auto simp: says_all_def related_def affected_merged more_severe_rank simp del: split_comma.simps)
qed (auto simp: well_formed_def related_def says_all_def)

lemma absorb_take_in:
  assumes "findings.apart found"
  shows "absorb a found = findings.take_in a found"
proof -
  have split: "fold absorb_one ks (xs, b) = (fold remove1 ks xs, fold merged ks b)" for ks xs b
    by (induction ks arbitrary: xs b) (auto simp: absorb_one_def)
  have remove: "distinct xs \<Longrightarrow> fold remove1 ks xs = filter (\<lambda>x. x \<notin> set ks) xs" for ks and xs :: "advisory list"
    by (induction ks arbitrary: xs) (auto simp: distinct_remove1_removeAll removeAll_filter_not_eq intro: filter_cong)
  have "fold remove1 (filter (\<lambda>k. related k a) found) found = filter (\<lambda>k. \<not> related k a) found"
    using findings.apart_distinct[OF assms] by (auto simp: remove intro: filter_cong)
  then show ?thesis by (simp add: absorb_def split findings.take_in_def)
qed

lemma absorb_all:
  assumes "findings.apart found" and "\<forall>a\<in>set raw. well_formed a"
  shows "fold absorb raw found = fold findings.take_in raw found"
  using assms
proof (induction raw arbitrary: found)
  case (Cons a raw)
  then have "findings.apart (findings.take_in a found)" by (auto intro: findings.take_in_apart)
  with Cons show ?case by (simp add: absorb_take_in)
qed simp

subsection \<open>All the groups of a report\<close>

text \<open>The reference reading: every advisory of the report, in order, before any merge.\<close>

fun raw_entries :: "(string \<Rightarrow> pyfloat option) \<Rightarrow> json_record list \<Rightarrow> scan_exn + advisory list" where
  "raw_entries parse [] = Inr []"
| "raw_entries parse (e # es) = (case advisories_in parse e of Inl x \<Rightarrow> Inl x
     | Inr as \<Rightarrow> map_sum id ((@) as) (raw_entries parse es))"

fun raw_results :: "(string \<Rightarrow> pyfloat option) \<Rightarrow> json_record list \<Rightarrow> scan_exn + advisory list" where
  "raw_results parse [] = Inr []"
| "raw_results parse (r # rs) = (case packages_of r of Inl x \<Rightarrow> Inl x
     | Inr es \<Rightarrow> (case raw_entries parse es of Inl x \<Rightarrow> Inl x
         | Inr as \<Rightarrow> map_sum id ((@) as) (raw_results parse rs)))"

lemma absorb_entries_raw:
  "absorb_entries parse es found = map_sum id (\<lambda>raw. fold absorb raw found) (raw_entries parse es)"
  by (induction parse es found rule: absorb_entries.induct)
    (auto simp: sum.map_comp comp_def split: sum.split)

lemma absorb_results_raw:
  "absorb_results parse rs found = map_sum id (\<lambda>raw. fold absorb raw found) (raw_results parse rs)"
proof (induction parse rs found rule: absorb_results.induct)
  case (2 parse r rs found)
  then show ?case
    by (cases "packages_of r"; cases "raw_entries parse (projr (packages_of r))")
      (auto simp: absorb_entries_raw sum.map_comp comp_def)
qed simp

lemma min_name_in: "ids \<noteq> [] \<Longrightarrow> min_name ids \<in> set ids"
proof -
  have "foldl (\<lambda>m y. if y < m then y else m) x xs \<in> insert x (set xs)" for x :: string and xs
    by (induction xs arbitrary: x) auto
  then show "ids \<noteq> [] \<Longrightarrow> min_name ids \<in> set ids"
    by (cases ids) (auto simp: min_name_def first_min_def)
qed

lemma primary_id_in: "ids \<noteq> [] \<Longrightarrow> primary_id ids \<in> set ids"
  using min_name_in[of "named ''GHSA-'' ids"] min_name_in[of "named ''PYSEC-'' ids"] min_name_in[of ids]
  by (auto simp: primary_id_def named_def)

lemma primary_pair: "primary_id [x, y] \<in> {x, y}"
  using primary_id_in[of "[x, y]"] by simp

lemma length_strings: "length (strings vs) \<le> length vs"
  by (induction vs rule: strings.induct) auto

lemma group_ids_nonempty: "group_ids g = Some ids \<Longrightarrow> ids \<noteq> []"
  by (auto simp: group_ids_def split: json.splits if_splits)

lemma first_min_in: "first_min f x xs \<in> insert x (set xs)"
proof -
  have "foldl (\<lambda>m y. if f y < f m then y else m) x xs \<in> insert x (set xs)"
    by (induction xs arbitrary: x) auto
  then show ?thesis by (simp add: first_min_def)
qed

lemma map_sum_Inr: "map_sum f g x = Inr b \<longleftrightarrow> (\<exists>a. x = Inr a \<and> b = g a)"
  by (cases x) auto

lemma most_severe_in: "most_severe rs \<in> insert ''unknown'' (set rs)"
proof (cases rs)
  case (Cons r ss)
  then show ?thesis using first_min_in[of rank_of r ss] by (simp add: most_severe_def)
qed (simp add: most_severe_def)

lemma severity_of_rated:
  assumes "severity_of parse v rs = Inr s"
  shows "s \<in> set severity_order"
proof -
  obtain score where s: "s = most_severe (score_ratings score @ concat (map record_ratings rs))"
    using assms by (auto simp: severity_of_def map_sum_Inr)
  have "set (score_ratings score) \<subseteq> set severity_order"
    by (auto simp: score_ratings_def cvss_rating_def severity_order_def split: option.splits pyfloat.splits)
  moreover have "set (record_ratings r) \<subseteq> set severity_order" for r
    by (auto simp: record_ratings_def ghsa_severities_def severity_order_def split: json.splits)
  ultimately have "set (score_ratings score @ concat (map record_ratings rs)) \<subseteq> set severity_order" by auto
  moreover have "''unknown'' \<in> set severity_order" by (simp add: severity_order_def)
  ultimately show ?thesis using most_severe_in[of "score_ratings score @ concat (map record_ratings rs)"] s by auto
qed

text \<open>What holds of every advisory read: one of its aliases is its id, and it is rated.\<close>

definition read_ok :: "advisory \<Rightarrow> bool" where
  "read_ok a = (well_formed a \<and> av_ecosystem a = ''pypi'' \<and> av_severity a \<in> set severity_order)"

lemma group_advisory_ok: "group_advisory parse name version d g = Inr a \<Longrightarrow> read_ok a"
  by (auto simp: group_advisory_def read_ok_def well_formed_def Let_def primary_id_in[OF group_ids_nonempty]
      severity_of_rated map_sum_Inr split: option.splits)

lemma group_advisories_ok: "group_advisories (group_advisory parse name version d) gs = Inr as \<Longrightarrow> \<forall>a\<in>set as. read_ok a"
  by (induction gs arbitrary: as) (auto simp: map_sum_Inr split: sum.splits dest: group_advisory_ok)

lemma advisories_in_ok: "advisories_in parse e = Inr as \<Longrightarrow> \<forall>a\<in>set as. read_ok a"
  by (auto simp: advisories_in_def split: json.splits if_splits sum.splits dest: group_advisories_ok)

lemma raw_entries_ok: "raw_entries parse es = Inr raw \<Longrightarrow> \<forall>a\<in>set raw. read_ok a"
  by (induction es arbitrary: raw) (auto simp: map_sum_Inr split: sum.splits dest!: advisories_in_ok)

lemma raw_results_ok: "raw_results parse rs = Inr raw \<Longrightarrow> \<forall>a\<in>set raw. read_ok a"
  by (induction rs arbitrary: raw) (auto simp: map_sum_Inr split: sum.splits dest!: raw_entries_ok)

lemma absorb_not_Nil: "absorb a found \<noteq> []"
  by (simp add: absorb_def split_beta)

lemma fold_absorb_Nil: "fold absorb raw found = [] \<longleftrightarrow> raw = [] \<and> found = []"
  by (induction raw arbitrary: found) (auto simp: absorb_not_Nil)

lemma parse_cases:
  "parse_osv_scanner loads parse text status = Inr found \<longleftrightarrow>
     (\<exists>report rs raw. loads text = Loaded report \<and> results_of report = Some rs \<and> raw_results parse rs = Inr raw
        \<and> found = fold absorb raw [] \<and> exit_agrees status found)"
  by (auto simp: parse_osv_scanner_def absorb_results_raw map_sum_Inr
      split: loads_result.splits option.splits sum.splits)

lemma apart_Nil: "findings.apart []"
  by (simp add: findings.apart_def)

text \<open>Every name and rating of a finding is one that a group of its package carried.\<close>

definition drawn_from :: "advisory list \<Rightarrow> advisory \<Rightarrow> bool" where
  "drawn_from raw f = (
     (\<forall>n\<in>set (av_aliases f). \<exists>r\<in>set raw. av_package r = av_package f \<and> n \<in> set (av_aliases r))
     \<and> (\<exists>r\<in>set raw. av_package r = av_package f \<and> av_severity r = av_severity f) \<and> read_ok f)"

lemma drawn_merged: "drawn_from raw k \<Longrightarrow> drawn_from raw a \<Longrightarrow> related k a \<Longrightarrow> drawn_from raw (merged k a)"
  using merged_package[of k a] more_severe_either[of "av_severity k" "av_severity a"]
    findings.join_ok[of k a] by (auto simp: drawn_from_def read_ok_def related_def)

lemma fold_absorb_exact:
  assumes "\<forall>a\<in>set raw. read_ok a"
  shows "sorted_wrt (\<lambda>f g. \<not> related f g) (fold absorb raw [])"
    and "r \<in> set raw \<Longrightarrow> \<exists>!f. f \<in> set (fold absorb raw []) \<and> says_all r f"
    and "f \<in> set (fold absorb raw []) \<Longrightarrow> drawn_from raw f"
proof -
  have wf: "\<forall>a\<in>set raw. well_formed a" using assms by (simp add: read_ok_def)
  note eq = absorb_all[OF apart_Nil wf]
  have apart: "findings.apart (fold absorb raw [])"
    and covers: "\<forall>r\<in>set raw. \<exists>f\<in>set (fold absorb raw []). says_all r f"
    using findings.take_all[OF apart_Nil wf] by (simp_all add: eq)
  from apart show "sorted_wrt (\<lambda>f g. \<not> related f g) (fold absorb raw [])" by (simp add: findings.apart_def)
  show "\<exists>!f. f \<in> set (fold absorb raw []) \<and> says_all r f" if "r \<in> set raw"
    using findings.take_unique[OF apart] that wf covers by blast
  have "\<forall>a\<in>set raw. drawn_from raw a" using assms by (auto simp: drawn_from_def)
  then have "\<forall>f\<in>set (fold absorb raw []). drawn_from raw f"
    unfolding eq by (intro findings.take_all_keep[of "drawn_from raw", OF drawn_merged]) auto
  then show "f \<in> set (fold absorb raw []) \<Longrightarrow> drawn_from raw f" by blast
qed

subsection \<open>The findings and the verdict\<close>

text \<open>
  C37. The findings of a report that is accepted are pairwise unrelated; every advisory the
  scanner printed is told by exactly one of them, with all its names and versions and a
  rating as severe; and no finding carries a name or a rating that no group of its package
  carried. So one problem is one finding, whatever the grouping and its order.
\<close>

theorem findings_merged:
  assumes "parse_osv_scanner loads parse text status = Inr found"
  shows "\<exists>report rs raw. loads text = Loaded report \<and> results_of report = Some rs
    \<and> raw_results parse rs = Inr raw
    \<and> sorted_wrt (\<lambda>f g. \<not> related f g) found
    \<and> (\<forall>r\<in>set raw. \<exists>!f. f \<in> set found \<and> says_all r f)
    \<and> (\<forall>f\<in>set found. drawn_from raw f)"
proof -
  from assms obtain report rs raw where l: "loads text = Loaded report" and r: "results_of report = Some rs"
    and w: "raw_results parse rs = Inr raw" and f: "found = fold absorb raw []"
    by (auto simp: parse_cases)
  note exact = fold_absorb_exact[OF raw_results_ok[OF w]]
  have "\<forall>r\<in>set raw. \<exists>!f. f \<in> set found \<and> says_all r f" using exact(2) by (simp add: f)
  moreover have "\<forall>f\<in>set found. drawn_from raw f" using exact(3) by (simp add: f)
  ultimately show ?thesis using l r w exact(1) f by blast
qed

lemma scan_pypi_Inr:
  "scan_pypi loads parse run = Inr found \<longleftrightarrow>
     (\<exists>printed status report rs raw. run = Ran printed status \<and> loads printed = Loaded report
        \<and> results_of report = Some rs \<and> raw_results parse rs = Inr raw
        \<and> found = fold absorb raw [] \<and> exit_agrees status found)"
  by (cases run) (auto simp: scan_pypi_def parse_cases)

text \<open>
  C38. The verdict of a run. It is clean only when the scanner ran to its end, exited 0 and
  printed a readable report in which no package has a group; it is advisories only when it
  exited 1 and the report holds one; anything else, a scanner that could not start
  included, is an error with its reason, never clean.
\<close>

theorem scan_verdict_sound:
  "let sc = run_scan env when (scan_pypi loads parse run);
       reads = (\<lambda>status raw. \<exists>text report rs. run = Ran text status \<and> loads text = Loaded report
         \<and> results_of report = Some rs \<and> raw_results parse rs = Inr raw)
   in (scan_verdict sc = ''clean'' \<longleftrightarrow> reads 0 [])
      \<and> (scan_verdict sc = ''advisories'' \<longleftrightarrow> (\<exists>raw. raw \<noteq> [] \<and> reads 1 raw))
      \<and> scan_verdict sc \<in> {''clean'', ''advisories'', ''error''}
      \<and> (scan_verdict sc = ''error'' \<longleftrightarrow> (\<exists>reason. sc_errors sc = [(''pypi'', reason)]))"
proof (cases "scan_pypi loads parse run")
  case (Inl e)
  have none: False if "run = Ran printed status" "loads printed = Loaded report"
    "results_of report = Some rs" "raw_results parse rs = Inr raw" "exit_agrees status (fold absorb raw [])"
    for printed status report rs raw
    using that Inl scan_pypi_Inr[of loads parse run "fold absorb raw []"] by auto
  then show ?thesis
    using Inl by (fastforce simp: run_scan_def mk_scan_def scan_verdict_def exit_agrees_def fold_absorb_Nil Let_def)
next
  case (Inr found)
  then obtain printed status report rs raw where "run = Ran printed status" "loads printed = Loaded report"
    "results_of report = Some rs" "raw_results parse rs = Inr raw" "found = fold absorb raw []" "exit_agrees status found"
    by (auto simp: scan_pypi_Inr)
  moreover have "sort_key av_rank found = [] \<longleftrightarrow> found = []" by (metis length_sort length_0_conv)
  ultimately show ?thesis
    using Inr by (auto simp: run_scan_def mk_scan_def scan_verdict_def exit_agrees_def fold_absorb_Nil Let_def)
qed

end
