(* ===== verification/Scan_State.thy ===== *)
theory Scan_State
  imports Scan_Merge
begin

text \<open>
  The state a run writes into an issue is the state the next run reads. First the marker:
  the last match of the pattern in a body the scan writes is the data it wrote, whatever
  text stands before. Then the data: a reference decoder for a part of JSON is an inverse
  of the encoding with its escapes. A decoder that agrees with it on what the scan writes,
  as \<open>json.loads\<close> does, hands the next run the very state.
\<close>

subsection \<open>The last marker\<close>

lemma starts_with_newline:
  "CHR 0x0A \<notin> set p \<Longrightarrow> starts_with p (s @ CHR 0x0A # b) = starts_with p s"
proof (induction p arbitrary: s)
  case (Cons c p)
  then show ?case by (cases s) (auto simp: starts_with_def)
qed (simp add: starts_with_def)

lemma takeWhile_newline:
  "takeWhile (\<lambda>c. c \<noteq> CHR 0x0A) (s @ CHR 0x0A # b) = takeWhile (\<lambda>c. c \<noteq> CHR 0x0A) s"
  by (induction s) auto

lemma before_last_length: "before_last p s = Some t \<Longrightarrow> length t + length p \<le> length s"
proof (induction p s arbitrary: t rule: before_last.induct)
  case (2 p c s)
  then show ?case
    by (fastforce simp: starts_with_def split: option.splits if_splits dest!: arg_cong[of "take _ _" _ length])
qed simp

lemma marker_open_no_newline: "CHR 0x0A \<notin> set marker_open"
  by (simp add: marker_open_def)

lemma marker_at_length: "marker_at s = Some (g, n) \<Longrightarrow> 0 < n \<and> n \<le> length s"
proof -
  assume m: "marker_at s = Some (g, n)"
  then obtain t where t: "before_last (''}'' @ marker_close)
      (takeWhile (\<lambda>c. c \<noteq> CHR 0x0A) (drop (length marker_open + 1) s)) = Some t"
    and n: "n = length marker_open + length t + 2 + length marker_close"
    and s: "starts_with (marker_open @ ''{'') s"
    by (auto simp: marker_at_def split: if_splits option.splits)
  have "length (marker_open @ ''{'') \<le> length s"
    using s by (metis starts_with_iff length_append le_add1)
  moreover have "length t + 1 + length marker_close \<le> length (drop (length marker_open + 1) s)"
    using before_last_length[OF t] length_takeWhile_le[of "\<lambda>c. c \<noteq> CHR 0x0A" "drop (length marker_open + 1) s"]
    by simp
  ultimately show ?thesis by (simp add: n)
qed

lemma marker_at_newline: "marker_at (s @ CHR 0x0A # b) = marker_at s"
proof (cases "starts_with (marker_open @ ''{'') s")
  case True
  then have "length marker_open + 1 \<le> length s"
    by (metis starts_with_iff length_append le_add1 length_Cons list.size(3) One_nat_def)
  then show ?thesis
    using True marker_open_no_newline
    by (simp add: marker_at_def starts_with_newline takeWhile_newline)
qed (simp add: marker_at_def starts_with_newline marker_open_no_newline)

text \<open>No match crosses a newline, so the lines of a text are searched one by one.\<close>

lemma markers_newline: "markers (s @ CHR 0x0A # b) = markers s @ markers b"
proof (induction s rule: markers.induct)
  case 1
  have "marker_at (CHR 0x0A # b) = marker_at ([] @ CHR 0x0A # b)" by simp
  also have "\<dots> = None" unfolding marker_at_newline by (simp add: marker_at_def starts_with_def)
  finally show ?case by simp
next
  case (2 c s)
  have at: "marker_at (c # s @ CHR 0x0A # b) = marker_at (c # s)"
    using marker_at_newline[of "c # s" b] by simp
  show ?case
  proof (cases "marker_at (c # s)")
    case (Some gn)
    then obtain g n where gn: "marker_at (c # s) = Some (g, n)" by (cases gn) auto
    from marker_at_length[OF gn] have "n - 1 \<le> length s" by auto
    then show ?thesis using 2(2)[OF gn refl] gn at by simp
  qed (use 2(1) at in simp)
qed

lemma before_last_end: "before_last (''}'' @ marker_close) (t @ ''}'' @ marker_close) = Some t"
proof (induction t)
  case Nil
  then show ?case by (simp add: marker_close_def starts_with_def)
qed simp

lemma markers_marker:
  assumes "marker_data text = ''{'' @ t @ ''}''" and "CHR 0x0A \<notin> set t"
  shows "markers (marker text @ nl) = [marker_data text]"
proof -
  have "markers (marker text @ nl) = markers (marker text)"
    using markers_newline[of "marker text" "[]"] by simp
  moreover obtain c s where cs: "marker text = c # s"
    by (cases "marker text") (auto simp: marker_def marker_open_def)
  have "marker_at (marker text) = Some (marker_data text, length (marker text))"
  proof -
    have tw: "takeWhile (\<lambda>c. c \<noteq> CHR 0x0A) (t @ ''}'' @ marker_close) = t @ ''}'' @ marker_close"
      using assms(2) by (intro takeWhile_eq_all_conv[THEN iffD2]) (auto simp: marker_close_def)
    have tc: "takeWhile (\<lambda>c. c \<noteq> CHR 0x0A) marker_close = marker_close" by (simp add: marker_close_def)
    have "marker text = (marker_open @ ''{'') @ t @ ''}'' @ marker_close"
      by (simp add: marker_def assms(1))
    then show ?thesis
      using tw tc before_last_end[of t] by (simp add: marker_at_def starts_with_iff assms(1) del: takeWhile_eq_all_conv)
  qed
  ultimately show ?thesis using cs by simp
qed

subsection \<open>A reference decoder for the states\<close>

text \<open>
  It reads a part of JSON and nothing else: no white space, hexadecimal digits in lower
  case, the escapes of the characters of the model, each key of an object once.
\<close>

definition unhex :: "char \<Rightarrow> nat option" where
  "unhex c = (let n = code_of c in
     if 48 \<le> n \<and> n \<le> 57 then Some (n - 48) else if 97 \<le> n \<and> n \<le> 102 then Some (n - 87) else None)"

definition unescape :: "char \<Rightarrow> char \<Rightarrow> char \<Rightarrow> char \<Rightarrow> char option" where
  "unescape a b h l = (if a = CHR ''0'' \<and> b = CHR ''0''
     then (case (unhex h, unhex l) of (Some i, Some j) \<Rightarrow> Some (char_of (16 * i + j)) | _ \<Rightarrow> None)
     else None)"

definition named_escapes :: "(char \<times> char) list" where
  "named_escapes = [(CHR 0x22, CHR 0x22), (CHR 0x5C, CHR 0x5C), (CHR ''/'', CHR ''/''), (CHR ''b'', CHR 0x08),
     (CHR ''f'', CHR 0x0C), (CHR ''n'', CHR 0x0A), (CHR ''r'', CHR 0x0D), (CHR ''t'', CHR 0x09)]"

definition push_char :: "char \<Rightarrow> (string \<times> string) option \<Rightarrow> (string \<times> string) option" where
  "push_char c = map_option (\<lambda>(w, r). (c # w, r))"

text \<open>A JSON string after its opening quote: the string and what follows it.\<close>

fun unquote :: "string \<Rightarrow> (string \<times> string) option" where
  "unquote [] = None"
| "unquote (c # s) =
     (if c = CHR 0x22 then Some ([], s)
      else if c = CHR 0x5C then (case s of
          [] \<Rightarrow> None
        | e # t \<Rightarrow>
            if e = CHR ''u'' then (case t of
                a # b # h # l # r \<Rightarrow> (case unescape a b h l of None \<Rightarrow> None | Some x \<Rightarrow> push_char x (unquote r))
              | _ \<Rightarrow> None)
            else (case map_of named_escapes e of None \<Rightarrow> None | Some x \<Rightarrow> push_char x (unquote t)))
      else if code_of c < 32 then None
      else push_char c (unquote s))"

definition read_string :: "string \<Rightarrow> (string \<times> string) option" where
  "read_string s = (case s of [] \<Rightarrow> None | c # t \<Rightarrow> if c = CHR 0x22 then unquote t else None)"

definition read_pair :: "string \<Rightarrow> ((string \<times> string) \<times> string) option" where
  "read_pair s = (case read_string s of
       Some (k, c # r) \<Rightarrow> if c = CHR '':'' then map_option (\<lambda>(v, u). ((k, v), u)) (read_string r) else None
     | _ \<Rightarrow> None)"

text \<open>One or more, comma between them, up to the closing character; then none or more.\<close>

fun read_many :: "(string \<Rightarrow> ('a \<times> string) option) \<Rightarrow> char \<Rightarrow> nat \<Rightarrow> string \<Rightarrow> ('a list \<times> string) option" where
  "read_many read close 0 s = None"
| "read_many read close (Suc n) s = (case read s of
       Some (x, c # r) \<Rightarrow>
         (if c = close then Some ([x], r)
          else if c = CHR '','' then map_option (\<lambda>(xs, u). (x # xs, u)) (read_many read close n r)
          else None)
     | _ \<Rightarrow> None)"

definition read_all :: "(string \<Rightarrow> ('a \<times> string) option) \<Rightarrow> char \<Rightarrow> string \<Rightarrow> ('a list \<times> string) option" where
  "read_all read close s = (case s of
       [] \<Rightarrow> None
     | c # r \<Rightarrow> if c = close then Some ([], r) else read_many read close (length s) s)"

definition decode_value :: "string \<Rightarrow> (json \<times> string) option" where
  "decode_value s = (case s of
       [] \<Rightarrow> None
     | c # r \<Rightarrow>
         if c = CHR ''{'' then (case read_all read_pair (CHR ''}'') r of
             Some (d, u) \<Rightarrow>
               if distinct (map fst d) then Some (JObj (map (\<lambda>(k, v). (k, JStr v)) d), u) else None
           | None \<Rightarrow> None)
         else if c = CHR ''['' then map_option (\<lambda>(xs, u). (JList (map JStr xs), u))
             (read_all read_string (CHR '']'') r)
         else None)"

definition decode_state :: "string \<Rightarrow> json option" where
  "decode_state s = (case s of
       [] \<Rightarrow> None
     | c # t \<Rightarrow> if c \<noteq> CHR ''{'' then None else (case read_string t of
           Some (name, d # r) \<Rightarrow> (if d \<noteq> CHR '':'' then None else (case decode_value r of
               Some (v, e) \<Rightarrow> if e = ''}'' then Some (JObj [(name, v)]) else None
             | None \<Rightarrow> None))
         | _ \<Rightarrow> None))"

text \<open>
  What is relied on: the decoder reads the texts the scan writes, over distinct keys, as
  the JSON they are. Of any other text nothing is assumed.
\<close>

definition written_state :: "string \<Rightarrow> bool" where
  "written_state s \<longleftrightarrow> (\<exists>d. distinct (map fst d) \<and> s = marker_data (advisories_state d))
     \<or> (\<exists>xs. s = marker_data (failing_state xs))"

definition decodes_states :: "(string \<Rightarrow> loads_result) \<Rightarrow> bool" where
  "decodes_states loads \<longleftrightarrow> (\<forall>s v. written_state s \<and> decode_state s = Some v \<longrightarrow> loads s = Loaded v)"

definition reference_loads :: "string \<Rightarrow> loads_result" where
  "reference_loads s = (case decode_state s of Some v \<Rightarrow> Loaded v | None \<Rightarrow> DecodeError [])"

lemma reference_decodes: "decodes_states reference_loads"
  by (simp add: decodes_states_def reference_loads_def)

subsection \<open>Reading back\<close>

lemma marker_data_append [simp]: "marker_data (s @ t) = marker_data s @ marker_data t"
  by (simp add: marker_data_def)

lemma marker_data_Nil [simp]: "marker_data [] = []"
  by (simp add: marker_data_def)

lemma marker_data_Cons [simp]: "marker_data (c # s) = escape_angle c @ marker_data s"
  by (simp add: marker_data_def)

lemma hex_digit_same: "n < 16 \<Longrightarrow> unhex (hex_digit n) = Some n"
  by (auto simp: unhex_def hex_digit_def Let_def)

lemma escape_hex: "n < 16 \<Longrightarrow> escape_angle (hex_digit n) = [hex_digit n]"
proof -
  assume n: "n < 16"
  have "code_of (hex_digit n) \<noteq> 60" "code_of (hex_digit n) \<noteq> 62"
    using n by (auto simp: hex_digit_def)
  then have "hex_digit n \<noteq> CHR ''<''" "hex_digit n \<noteq> CHR ''>''" by auto
  then show ?thesis by (simp add: escape_angle_def)
qed

lemma char_of_literals:
  "char_of (8::nat) = CHR 0x08" "char_of (9::nat) = CHR 0x09" "char_of (10::nat) = CHR 0x0A"
  "char_of (12::nat) = CHR 0x0C" "char_of (13::nat) = CHR 0x0D" "char_of (60::nat) = CHR ''<''"
  "char_of (62::nat) = CHR ''>''" "char_of (92::nat) = CHR 0x5C"
  by code_simp+

lemma unquote_plain: "c \<noteq> CHR 0x22 \<Longrightarrow> c \<noteq> CHR 0x5C \<Longrightarrow> \<not> code_of c < 32 \<Longrightarrow> unquote (c # r) = push_char c (unquote r)"
  by simp

lemma json_char_hex:
  assumes "code_of c < 32 \<or> 126 < code_of c" and "code_of c \<notin> {8, 9, 10, 12, 13}"
  shows "unquote (marker_data (json_char c) @ r) = push_char c (unquote r)"
proof -
  let ?n = "code_of c"
  have "?n < 256" by simp
  then have h: "?n div 16 < 16" "?n mod 16 < 16" by (auto simp only: less_mult_imp_div_less)
  have j: "json_char c = [char_of (92::nat), CHR ''u'', CHR ''0'', CHR ''0'', hex_digit (?n div 16), hex_digit (?n mod 16)]"
    using assms by (auto simp: json_char_def Let_def)
  have "char_of (16 * (?n div 16) + ?n mod 16) = c" by simp
  moreover have "char_of (92::nat) = CHR 0x5C" by (rule char_of_literals)
  ultimately show ?thesis
    unfolding j using h by (simp add: escape_angle_def[of "CHR 0x5C"] escape_angle_def[of "CHR ''u''"]
        escape_angle_def[of "CHR ''0''"] escape_hex hex_digit_same unescape_def)
qed

lemma char_eq: "code_of c = code_of d \<Longrightarrow> c = d"
  by simp

lemma json_char_named:
  "code_of c \<in> {8, 9, 10, 12, 13, 34, 92}
    \<Longrightarrow> c \<in> {CHR 0x08, CHR 0x09, CHR 0x0A, CHR 0x0C, CHR 0x0D, CHR 0x22, CHR 0x5C}"
  using char_eq[of c "CHR 0x08"] char_eq[of c "CHR 0x09"] char_eq[of c "CHR 0x0A"] char_eq[of c "CHR 0x0C"]
    char_eq[of c "CHR 0x0D"] char_eq[of c "CHR 0x22"] char_eq[of c "CHR 0x5C"] by auto

lemma json_char_listed:
  "c \<in> {CHR 0x08, CHR 0x09, CHR 0x0A, CHR 0x0C, CHR 0x0D, CHR 0x22, CHR 0x5C}
    \<Longrightarrow> unquote (marker_data (json_char c) @ r) = push_char c (unquote r)"
  by (elim insertE emptyE) (simp_all add: json_char_def escape_angle_def char_of_literals named_escapes_def)

lemma json_char_plain:
  assumes "\<not> (code_of c < 32 \<or> 126 < code_of c)" and "code_of c \<notin> {34, 92}"
  shows "unquote (marker_data (json_char c) @ r) = push_char c (unquote r)"
proof -
  have j: "json_char c = [c]" using assms by (auto simp: json_char_def Let_def)
  have "c \<noteq> CHR 0x22" "c \<noteq> CHR 0x5C" using assms(2) by auto
  then show ?thesis
    unfolding j by (cases "c = CHR ''<''"; cases "c = CHR ''>''") (use assms in \<open>simp_all add: escape_angle_def unescape_def unhex_def char_of_literals\<close>)
qed

lemma unquote_char: "unquote (marker_data (json_char c) @ r) = push_char c (unquote r)"
proof (cases "code_of c \<in> {8, 9, 10, 12, 13, 34, 92}")
  case True
  then show ?thesis by (intro json_char_listed json_char_named)
next
  case False
  then show ?thesis
    by (cases "code_of c < 32 \<or> 126 < code_of c") (auto intro: json_char_hex json_char_plain)
qed

lemma read_string_back: "read_string (marker_data (json_string s) @ r) = Some (s, r)"
proof -
  have "unquote (marker_data (concat (map json_char s)) @ CHR 0x22 # r) = Some (s, r)"
    by (induction s) (auto simp: unquote_char push_char_def)
  then show ?thesis by (simp add: read_string_def json_string_def escape_angle_def)
qed

lemma read_pair_back:
  "read_pair (marker_data ((\<lambda>(k, v). json_string k @ '':'' @ json_string v) p) @ r) = Some (p, r)"
  by (cases p) (simp add: read_pair_def read_string_back escape_angle_def)

lemma read_many_back:
  assumes "\<And>x r. read (f x @ r) = Some (x, r)" and "close \<noteq> CHR '',''"
  shows "xs \<noteq> [] \<Longrightarrow> length xs \<le> n \<Longrightarrow> read_many read close n (py_join '','' (map f xs) @ close # r) = Some (xs, r)"
proof (induction xs arbitrary: n)
  case (Cons x xs)
  then obtain m where n: "n = Suc m" by (cases n) auto
  show ?case
  proof (cases xs)
    case Nil
    then show ?thesis by (simp add: n assms(1))
  next
    case (Cons y ys)
    then show ?thesis using Cons.IH[of m] Cons.prems assms(2) by (simp add: n assms(1))
  qed
qed simp

lemma length_py_join: "(\<And>x. f x \<noteq> []) \<Longrightarrow> length xs \<le> length (py_join '','' (map f xs))"
proof (induction xs)
  case (Cons x xs)
  then have "Suc 0 \<le> length (f x)" "length xs \<le> length (py_join '','' (map f xs))" by (auto simp: Suc_le_eq)
  then show ?case by (cases xs) auto
qed simp

lemma read_all_back:
  assumes "\<And>x r. read (f x @ r) = Some (x, r)" and "close \<noteq> CHR '',''"
    and "\<And>x. f x \<noteq> [] \<and> hd (f x) \<noteq> close"
  shows "read_all read close (py_join '','' (map f xs) @ close # r) = Some (xs, r)"
proof (cases xs)
  case (Cons x ys)
  let ?t = "py_join '','' (map f xs)"
  obtain c s where cs: "?t = c # s" and c: "c \<noteq> close"
    using assms(3)[of x] Cons by (cases "f x"; cases ys) auto
  have "length xs \<le> length (?t @ close # r)"
    using length_py_join[of f xs] assms(3) by simp
  then have "read_many read close (length (?t @ close # r)) (?t @ close # r) = Some (xs, r)"
    by (rule read_many_back[OF assms(1,2), rotated]) (simp add: Cons)
  then show ?thesis using c unfolding cs by (simp add: read_all_def)
qed (simp add: read_all_def)

lemma marker_data_join: "marker_data (py_join '','' xs) = py_join '','' (map marker_data xs)"
  by (induction "'',''" xs rule: py_join.induct) (simp_all add: escape_angle_def)

lemma quoted: "marker_data (json_string s) = CHR 0x22 # marker_data (concat (map json_char s) @ [CHR 0x22])"
  by (simp add: json_string_def escape_angle_def)

lemma decode_dict:
  assumes "distinct (map fst d)"
  shows "decode_value (marker_data (dict_text d) @ r) = Some (JObj (map (\<lambda>(k, v). (k, JStr v)) d), r)"
proof -
  let ?f = "marker_data \<circ> (\<lambda>(k, v). json_string k @ '':'' @ json_string v)"
  have "read_all read_pair (CHR ''}'') (py_join '','' (map ?f d) @ CHR ''}'' # r) = Some (d, r)"
    using read_pair_back by (intro read_all_back) (auto simp: quoted)
  then show ?thesis
    using assms by (simp add: decode_value_def dict_text_def escape_angle_def marker_data_join)
qed

lemma decode_list: "decode_value (marker_data (list_text xs) @ r) = Some (JList (map JStr xs), r)"
proof -
  have "read_all read_string (CHR '']'') (py_join '','' (map (marker_data \<circ> json_string) xs) @ CHR '']'' # r) = Some (xs, r)"
    using read_string_back by (intro read_all_back) (auto simp: quoted)
  then show ?thesis
    by (simp add: decode_value_def list_text_def escape_angle_def marker_data_join)
qed

definition advisories_json :: "(string \<times> string) list \<Rightarrow> json_record" where
  "advisories_json d = [(''advisories'', JObj (map (\<lambda>(k, v). (k, JStr v)) d))]"

definition failing_json :: "string list \<Rightarrow> json_record" where
  "failing_json xs = [(''failing'', JList (map JStr xs))]"

lemma decode_advisories: "distinct (map fst d) \<Longrightarrow> decode_state (marker_data (advisories_state d)) = Some (JObj (advisories_json d))"
  using decode_dict[of d "''}''"] read_string_back[of "''advisories''"]
  by (simp add: decode_state_def advisories_state_def escape_angle_def advisories_json_def)

lemma decode_failing: "decode_state (marker_data (failing_state xs)) = Some (JObj (failing_json xs))"
  using decode_list[of xs "''}''"] read_string_back[of "''failing''"]
  by (simp add: decode_state_def failing_state_def escape_angle_def failing_json_def)

subsection \<open>The state of an issue\<close>

lemma json_char_line: "CHR 0x0A \<notin> set (json_char c)"
proof -
  have h: "hex_digit n \<noteq> CHR 0x0A" if "n < 16" for n
  proof
    assume "hex_digit n = CHR 0x0A"
    then have "code_of (hex_digit n) = 10" by simp
    then show False using that by (auto simp: hex_digit_def split: if_splits)
  qed
  have "code_of c < 256" by simp
  then have "code_of c div 16 < 16" "code_of c mod 16 < 16" by (auto simp only: less_mult_imp_div_less)
  with h have "hex_digit (code_of c div 16) \<noteq> CHR 0x0A" "hex_digit (code_of c mod 16) \<noteq> CHR 0x0A" by auto
  then show ?thesis by (auto simp: json_char_def Let_def char_of_literals)
qed

lemma marker_data_line: "CHR 0x0A \<notin> set s \<Longrightarrow> CHR 0x0A \<notin> set (marker_data s)"
  by (auto simp: marker_data_def escape_angle_def)

lemma not_in_join: "\<forall>x\<in>set xs. c \<notin> set x \<Longrightarrow> c \<notin> set sep \<Longrightarrow> c \<notin> set (py_join sep xs)"
  by (induction sep xs rule: py_join.induct) auto

lemma json_string_line: "CHR 0x0A \<notin> set (json_string s)"
  using json_char_line by (auto simp: json_string_def)

lemma state_lines:
  "CHR 0x0A \<notin> set (advisories_state d)" "CHR 0x0A \<notin> set (failing_state xs)"
proof -
  have "CHR 0x0A \<notin> set (dict_text d)"
    using not_in_join[of "map (\<lambda>(k, v). json_string k @ '':'' @ json_string v) d" "CHR 0x0A" "'',''"]
    by (auto simp: dict_text_def json_string_line)
  then show "CHR 0x0A \<notin> set (advisories_state d)" by (simp add: advisories_state_def json_string_line)
  have "CHR 0x0A \<notin> set (list_text xs)"
    using not_in_join[of "map json_string xs" "CHR 0x0A" "'',''"]
    by (auto simp: list_text_def json_string_line)
  then show "CHR 0x0A \<notin> set (failing_state xs)" by (simp add: failing_state_def json_string_line)
qed

lemma state_braces:
  "\<exists>t. marker_data (advisories_state d) = ''{'' @ t @ ''}'' \<and> CHR 0x0A \<notin> set t"
  "\<exists>t. marker_data (failing_state xs) = ''{'' @ t @ ''}'' \<and> CHR 0x0A \<notin> set t"
proof -
  show "\<exists>t. marker_data (advisories_state d) = ''{'' @ t @ ''}'' \<and> CHR 0x0A \<notin> set t"
    using marker_data_line[OF state_lines(1)[of d]]
    by (intro exI[of _ "marker_data (json_string ''advisories'' @ '':'' @ dict_text d)"])
      (simp add: advisories_state_def escape_angle_def)
  show "\<exists>t. marker_data (failing_state xs) = ''{'' @ t @ ''}'' \<and> CHR 0x0A \<notin> set t"
    using marker_data_line[OF state_lines(2)[of xs]]
    by (intro exI[of _ "marker_data (json_string ''failing'' @ '':'' @ list_text xs)"])
      (simp add: failing_state_def escape_angle_def)
qed

lemma state_in_marker:
  assumes "\<exists>t. marker_data state = ''{'' @ t @ ''}'' \<and> CHR 0x0A \<notin> set t" and "decodes_states loads"
    and "decode_state (marker_data state) = Some (JObj d)" and "written_state (marker_data state)"
  shows "state_in loads (JStr (before @ nl @ marker state @ nl)) = Inr d"
proof -
  have "last (markers (before @ CHR 0x0A # marker state @ nl)) = marker_data state"
    "markers (before @ CHR 0x0A # marker state @ nl) \<noteq> []"
    using assms(1) markers_marker[of state] by (auto simp: markers_newline)
  then show ?thesis using assms(2-4) by (simp add: state_in_def Let_def decodes_states_def)
qed

lemma advisories_state_in:
  "decodes_states loads \<Longrightarrow> distinct (map fst current) \<Longrightarrow> state_in loads (JStr (advisories_body sc current carried)) = Inr (advisories_json current)"
  unfolding advisories_body_def
  by (rule state_in_marker[OF state_braces(1) _ decode_advisories]) (auto simp: written_state_def)

lemma failing_state_in:
  "decodes_states loads \<Longrightarrow> state_in loads (JStr (error_body sc failing)) = Inr (failing_json failing)"
  unfolding error_body_def
  by (rule state_in_marker[OF state_braces(2) _ decode_failing]) (auto simp: written_state_def)

lemma update_new: "k \<notin> fst ` set m \<Longrightarrow> AList.update k v m = m @ [(k, v)]"
  by (induction m) auto

lemma string_items_fold:
  "distinct (map fst (m @ d)) \<Longrightarrow>
     fold (\<lambda>(k, x) m. case x of JStr s \<Rightarrow> AList.update k s m | _ \<Rightarrow> m) (map (\<lambda>(k, v). (k, JStr v)) d) m = m @ d"
  by (induction d arbitrary: m) (auto simp: update_new)

lemma string_items_back: "distinct (map fst d) \<Longrightarrow> string_items (jget (advisories_json d) ''advisories'') = d"
  using string_items_fold[of "[]" d] by (simp add: string_items_def advisories_json_def jget_def)

text \<open>
  C39. What a run writes into an issue is what the next run reads out of it, whatever text
  of the advisories, of an error or of the run stands before the marker: the findings with
  their ratings from an advisories issue, each finding once, and the failing scans from an
  error issue.
\<close>

theorem state_read_back:
  assumes "decodes_states loads" and "distinct (map fst current)"
  shows "map_sum id (\<lambda>d. string_items (jget d ''advisories''))
           (state_in loads (JStr (advisories_body sc current carried))) = Inr current
    \<and> map_sum id (\<lambda>d. jget d ''failing'') (state_in loads (JStr (error_body sc failing)))
           = Inr (JList (map JStr failing))"
  by (simp add: advisories_state_in[OF assms] failing_state_in[OF assms(1)] string_items_back[OF assms(2)])
    (simp add: failing_json_def jget_def)

end
