(* ===== verification/Scan_Props.thy ===== *)
theory Scan_Props
  imports Scan_State
begin

text \<open>
  What the plans promise from one day to the next: how the names of a finding are folded
  into its present one, what the workflow leaves of the open issues once a plan is applied,
  and that a run that changes nothing says nothing.
\<close>

subsection \<open>Dictionaries\<close>

lemma map_of_filter_key: "map_of (filter (\<lambda>(k, v). P k) xs) k = (if P k then map_of xs k else None)"
  by (induction xs) auto

lemma map_of_sorted: "map_of (sort_key fst (xs :: ('k::linorder \<times> 'v) list)) k = map_of xs k"
proof -
  have only: "map_of xs k = map_of (filter (\<lambda>e. fst e = k) xs) k" for xs :: "('k \<times> 'v) list"
    by (induction xs) auto
  have "filter (\<lambda>e. fst e = k) (sort_key fst xs) = filter (\<lambda>e. fst e = k) xs"
    by (rule sort_key_stable)
  then show ?thesis using only[of xs] only[of "sort_key fst xs"] by simp
qed

lemma keys_iff: "k \<in> fst ` set xs \<longleftrightarrow> map_of xs k \<noteq> None"
  by (simp add: map_of_eq_None_iff)

lemma map_of_fold_other:
  "k \<notin> f ` set as \<Longrightarrow> map_of (fold (\<lambda>a. AList.update (f a) (g a)) as m) k = map_of m k"
  by (induction as arbitrary: m) (auto simp: update_conv')

lemma map_of_fold_update:
  "distinct (map f as) \<Longrightarrow> a \<in> set as \<Longrightarrow> map_of (fold (\<lambda>a. AList.update (f a) (g a)) as m) (f a) = Some (g a)"
proof (induction as arbitrary: m)
  case (Cons b as)
  show ?case
  proof (cases "a = b")
    case True
    with Cons.prems have "f a \<notin> f ` set as" by auto
    then show ?thesis by (simp add: map_of_fold_other True update_conv')
  next
    case False
    with Cons show ?thesis by simp
  qed
qed simp

lemma map_of_current:
  assumes "distinct (map av_key (sc_advisories sc))"
  shows "a \<in> set (sc_advisories sc) \<Longrightarrow> map_of (current_state sc carried) (av_key a) = Some (av_severity a)"
    and "k \<notin> av_key ` set (sc_advisories sc) \<Longrightarrow> map_of (current_state sc carried) k = map_of carried k"
  by (simp_all add: current_state_def map_of_sorted map_of_fold_update[OF assms] map_of_fold_other)

lemma map_of_carried:
  "map_of (carried_over sc known) k = (if ecosystem_of k \<in> fst ` set (sc_errors sc) then map_of known k else None)"
  using map_of_filter_key[of "\<lambda>k. ecosystem_of k \<in> fst ` set (sc_errors sc)" known k]
  by (simp add: carried_over_def)

subsection \<open>Folding names\<close>

lemma fold_name_skip:
  "e = key \<or> e \<in> set reported \<or> map_of known e = None \<Longrightarrow> fold_name reported key e (known, r) = (known, r)"
  by (auto simp: fold_name_def split: option.split)

lemma fold_inner_skip:
  "\<forall>e\<in>set es. e = key \<or> e \<in> set reported \<or> map_of known e = None
    \<Longrightarrow> fold (fold_name reported key) es (known, r) = (known, r)"
  by (induction es) (auto simp: fold_name_skip)

lemma fold_names_skip:
  "\<forall>a\<in>set as. \<forall>e\<in>set (alias_keys a). e = av_key a \<or> e \<in> set reported \<or> map_of known e = None
    \<Longrightarrow> fold_names reported as (known, r) = (known, r)"
  by (induction as) (auto simp: fold_names_def fold_inner_skip)

lemma fold_name_value:
  "map_of (fst (fold_name reported key e (known, r))) k =
     (if e \<noteq> key \<and> e \<notin> set reported \<and> map_of known e \<noteq> None
      then (if k = key then Some (more_severe (case map_of known key of None \<Rightarrow> the (map_of known e) | Some s \<Rightarrow> s)
              (the (map_of known e)))
            else if k = e then None else map_of known k)
      else map_of known k)"
  by (auto simp: fold_name_def update_conv' delete_conv' split: option.split)

text \<open>A dictionary holds each key once, from the marker on.\<close>

lemma string_items_distinct: "distinct (map fst (string_items v))"
proof (cases v)
  case (JObj d)
  have "distinct (map fst m) \<Longrightarrow>
      distinct (map fst (fold (\<lambda>(k, x) m. case x of JStr s \<Rightarrow> AList.update k s m | _ \<Rightarrow> m) d m))" for m
    by (induction d arbitrary: m) (auto simp: distinct_update split: json.split)
  then show ?thesis by (simp add: string_items_def JObj)
qed (simp_all add: string_items_def)

lemma known_in_distinct: "known_in loads existing = Inr filed \<Longrightarrow> distinct (map fst filed)"
  by (auto simp: known_in_def map_sum_Inr string_items_distinct split: option.splits)

lemma fold_name_distinct: "distinct (map fst (fst st)) \<Longrightarrow> distinct (map fst (fst (fold_name reported key e st)))"
  by (cases st) (auto simp: fold_name_def Let_def distinct_update distinct_delete split: option.splits)

lemma fold_inner_distinct:
  "distinct (map fst (fst st)) \<Longrightarrow> distinct (map fst (fst (fold (fold_name reported key) es st)))"
  by (induction es arbitrary: st) (simp_all add: fold_name_distinct)

lemma fold_names_distinct: "distinct (map fst (fst st)) \<Longrightarrow> distinct (map fst (fst (fold_names reported as st)))"
  by (induction as arbitrary: st) (simp_all add: fold_names_def fold_inner_distinct)

lemma current_distinct:
  assumes "distinct (map fst known)"
  shows "distinct (map fst (current_state sc (carried_over sc known)))"
proof -
  have "distinct (map fst m) \<Longrightarrow> distinct (map fst (fold (\<lambda>a. AList.update (av_key a) (av_severity a)) as m))" for as m
    by (induction as arbitrary: m) (auto simp: distinct_update)
  moreover have "distinct (map fst (carried_over sc known))"
    using assms by (simp add: carried_over_def distinct_map_filter)
  moreover have "distinct (map fst xs) \<Longrightarrow> distinct (map fst (sort_key fst xs))" for xs :: "(string \<times> string) list"
    by (simp add: distinct_map)
  ultimately show ?thesis by (simp add: current_state_def)
qed

text \<open>An unreported name that is unknown stays unknown, and a name that is folded becomes so.\<close>

lemma fold_inner_unknown:
  assumes "key \<in> set reported" and "k \<notin> set reported"
  shows "map_of (fst st) k = None \<or> k \<in> set es \<Longrightarrow> map_of (fst (fold (fold_name reported key) es st)) k = None"
proof (induction es arbitrary: st)
  case (Cons e es)
  obtain known r where st: "st = (known, r)" by (cases st)
  have "k \<noteq> key" using assms by auto
  then have "map_of (fst (fold_name reported key e st)) k = None \<or> k \<in> set es"
    using Cons.prems assms(2) by (auto simp: st fold_name_value)
  from Cons.IH[OF this] show ?case by simp
qed simp

lemma fold_names_unknown:
  assumes "av_key ` set as \<subseteq> set reported" and "k \<notin> set reported"
  shows "map_of (fst st) k = None \<or> (\<exists>a\<in>set as. k \<in> set (alias_keys a))
    \<Longrightarrow> map_of (fst (fold_names reported as st)) k = None"
  using assms(1)
proof (induction as arbitrary: st)
  case (Cons a as)
  let ?st = "fold (fold_name reported (av_key a)) (alias_keys a) st"
  have "map_of (fst ?st) k = None \<or> (\<exists>b\<in>set as. k \<in> set (alias_keys b))"
    using Cons.prems fold_inner_unknown[OF _ assms(2), of "av_key a" st "alias_keys a"] by auto
  with Cons show ?case by (simp add: fold_names_def)
qed (simp add: fold_names_def)

subsection \<open>A second run over the same findings\<close>

lemma second_run_quiet:
  assumes d: "distinct (map av_key (sc_advisories sc))"
    and cur: "current = current_state sc (carried_over sc known)"
    and fold: "fold_names (map av_key (sc_advisories sc)) (sc_advisories sc) st = (known, renamed)"
    and filed: "known_in loads (titled advisories_title issues) = Inr current"
  shows "advisories_plan loads sc issues = Inr None"
proof -
  let ?as = "sc_advisories sc" let ?rep = "map av_key ?as"
  have unknown: "map_of current e = None"
    if "a \<in> set ?as" "e \<in> set (alias_keys a)" "e \<notin> set ?rep" for a e
  proof -
    have "map_of known e = None"
      using fold_names_unknown[of ?as ?rep e st] that fold by auto
    then show ?thesis using that(3) map_of_current(2)[OF d] by (simp add: cur map_of_carried)
  qed
  have same: "fold_names ?rep ?as (current, []) = (current, [])"
    by (rule fold_names_skip) (metis unknown set_map)
  have "added_in sc current = []" "rerated_in sc current = []"
    using map_of_current(1)[OF d] by (auto simp: added_in_def rerated_in_def cur filter_empty_conv)
  moreover have "resolved_in current (current_state sc (carried_over sc current)) = []"
  proof -
    have "k \<in> fst ` set (current_state sc (carried_over sc current))" if "k \<in> fst ` set current" for k
    proof (cases "k \<in> av_key ` set ?as")
      case True
      then show ?thesis using map_of_current(1)[OF d] by (auto simp: keys_iff)
    next
      case False
      then show ?thesis
        using that map_of_current(2)[OF d False] by (auto simp: keys_iff cur map_of_carried split: if_splits)
    qed
    then show ?thesis by (auto simp: resolved_in_def filter_empty_conv)
  qed
  ultimately show ?thesis using filed by (simp add: advisories_plan_def Let_def same)
qed

lemma error_run_quiet:
  assumes "state_in loads (jget issue ''body'') = Inr (failing_json (sort (map fst (sc_errors sc))))"
    and "titled error_title issues = Some issue" and "sc_errors sc \<noteq> []"
  shows "error_plan loads sc issues = Inr None"
proof -
  have "sort (map fst (sc_errors sc)) \<noteq> []" using assms(3) by (metis length_sort length_map length_0_conv)
  then show ?thesis using assms by (simp add: error_plan_def Let_def failing_json_def jget_def)
qed

subsection \<open>The issues after a plan is applied\<close>

text \<open>
  What the workflow's last step leaves of the open issues, as far as the next run reads
  them: a created issue is the scan's own, an update writes the body of the issue of that
  number, a closed issue is gone. The newline \<open>jq\<close> puts after a body and the length at which
  GitHub refuses one are left out.
\<close>

definition body_of :: "plan \<Rightarrow> json" where
  "body_of p = (case pl_body p of None \<Rightarrow> JStr [] | Some b \<Rightarrow> JStr b)"

definition has_number :: "plan \<Rightarrow> json_record \<Rightarrow> bool" where
  "has_number p i \<longleftrightarrow> map_of i ''number'' = pl_number p"

definition new_issue :: "(string \<Rightarrow> json) \<Rightarrow> plan \<Rightarrow> json_record" where
  "new_issue fresh p = [(''number'', fresh (pl_title p)), (''title'', JStr (pl_title p)), (''body'', body_of p),
     (''author'', JObj [(''login'', JStr scan_author)])]"

definition applied :: "(string \<Rightarrow> json) \<Rightarrow> plan \<Rightarrow> json_record list \<Rightarrow> json_record list" where
  "applied fresh p issues =
     (if pl_action p = ''create'' then new_issue fresh p # issues
      else if pl_action p = ''update''
        then map (\<lambda>i. if has_number p i then AList.update ''body'' (body_of p) i else i) issues
      else filter (\<lambda>i. \<not> has_number p i) issues)"

definition aims :: "plan \<Rightarrow> json_record list \<Rightarrow> bool" where
  "aims p issues \<longleftrightarrow> pl_action p = ''create'' \<or>
     (\<forall>i\<in>set (own_issues issues). has_number p i \<longleftrightarrow> jget i ''title'' = JStr (pl_title p))"

lemma jget_update: "jget (AList.update k v d) j = (if j = k then v else jget d j)"
  by (simp add: jget_def update_conv')

lemma own_create: "own_issues (new_issue fresh p # issues) = new_issue fresh p # own_issues issues"
  by (simp add: own_issues_def author_of_def new_issue_def jget_def)

lemma own_update:
  "own_issues (map (\<lambda>i. if q i then AList.update ''body'' b i else i) issues)
    = map (\<lambda>i. if q i then AList.update ''body'' b i else i) (own_issues issues)"
  by (induction issues) (auto simp: own_issues_def author_of_def jget_update)

lemma own_close: "own_issues (filter q issues) = filter q (own_issues issues)"
  by (simp add: own_issues_def filter_filter conj_commute cong: filter_cong)

lemma titled_update:
  "titled t (map (\<lambda>i. if q i then AList.update ''body'' b i else i) issues)
    = map_option (\<lambda>i. if q i then AList.update ''body'' b i else i) (titled t issues)"
  by (induction issues) (auto simp: titled_def jget_update)

lemma titled_filter: "(\<And>i. i \<in> set issues \<Longrightarrow> jget i ''title'' = JStr t \<Longrightarrow> q i) \<Longrightarrow> titled t (filter q issues) = titled t issues"
  by (induction issues) (auto simp: titled_def)

lemma titled_Some: "titled t issues = Some i \<Longrightarrow> i \<in> set issues \<and> jget i ''title'' = JStr t"
  by (auto simp: titled_def find_Some_iff)

lemma titled_None: "titled t issues = None \<longleftrightarrow> (\<forall>i\<in>set issues. jget i ''title'' \<noteq> JStr t)"
  by (auto simp: titled_def find_None_iff)

lemma titled_new: "titled t (new_issue fresh p # issues) = (if pl_title p = t then Some (new_issue fresh p) else titled t issues)"
  by (simp add: titled_def new_issue_def jget_def)

lemma applied_other:
  assumes "aims p issues" and "pl_title p \<noteq> t"
  shows "titled t (own_issues (applied fresh p issues)) = titled t (own_issues issues)"
proof (cases "pl_action p = ''create''")
  case True
  then show ?thesis using assms(2) by (simp add: applied_def own_create titled_new)
next
  case False
  then have other: "\<not> has_number p i" if "i \<in> set (own_issues issues)" "jget i ''title'' = JStr t" for i
    using assms that by (auto simp: aims_def)
  show ?thesis
  proof (cases "pl_action p = ''update''")
    case True
    show ?thesis using other titled_Some[of t "own_issues issues"]
      by (cases "titled t (own_issues issues)") (auto simp: applied_def True own_update titled_update)
  next
    case no: False
    then show ?thesis using False other by (simp add: applied_def own_close titled_filter)
  qed
qed

lemma applied_body:
  assumes "aims p issues" and "pl_action p = ''create'' \<or> pl_action p = ''update'' \<and> titled (pl_title p) (own_issues issues) \<noteq> None"
  shows "\<exists>i. titled (pl_title p) (own_issues (applied fresh p issues)) = Some i \<and> jget i ''body'' = body_of p"
proof (cases "pl_action p = ''create''")
  case True
  then show ?thesis by (simp add: applied_def own_create titled_new) (simp add: new_issue_def jget_def)
next
  case False
  with assms(2) obtain i where u: "pl_action p = ''update''" and i: "titled (pl_title p) (own_issues issues) = Some i" by auto
  have "has_number p i" using titled_Some[OF i] assms(1) False by (auto simp: aims_def)
  then show ?thesis by (simp add: applied_def u own_update titled_update i jget_update)
qed

lemma applied_close:
  "aims p issues \<Longrightarrow> pl_action p = ''close'' \<Longrightarrow> titled (pl_title p) (own_issues (applied fresh p issues)) = None"
  by (auto simp: applied_def own_close titled_None aims_def)

lemma aims_applied:
  assumes "aims p issues" and "pl_title q \<noteq> pl_title p" and "Some (fresh (pl_title q)) \<noteq> pl_number p"
  shows "aims p (applied fresh q issues)"
proof -
  have "has_number p i \<longleftrightarrow> jget i ''title'' = JStr (pl_title p)"
    if a: "\<forall>i\<in>set (own_issues issues). has_number p i \<longleftrightarrow> jget i ''title'' = JStr (pl_title p)"
      and i: "i \<in> set (own_issues (applied fresh q issues))" for i
    using i a assms(2,3)
    by (auto simp: applied_def own_create own_update own_close has_number_def jget_update update_conv' split: if_splits)
      (auto simp: new_issue_def jget_def)
  then show ?thesis using assms(1) by (auto simp: aims_def)
qed

text \<open>The issues the scan can tell apart: numbered, each number once, one of each title.\<close>

definition issues_ok :: "json_record list \<Rightarrow> bool" where
  "issues_ok issues = (let own = own_issues issues in
     (\<forall>i\<in>set own. map_of i ''number'' \<noteq> None) \<and> distinct (map (\<lambda>i. map_of i ''number'') own)
     \<and> (\<forall>i\<in>set own. \<forall>j\<in>set own. jget i ''title'' = jget j ''title''
          \<and> jget i ''title'' \<in> {JStr advisories_title, JStr error_title} \<longrightarrow> i = j))"

lemma aims_existing:
  assumes "issues_ok issues" and "titled t (own_issues issues) = Some i" and "pl_number p = map_of i ''number''"
    and "pl_title p = t" and "t \<in> {advisories_title, error_title}"
  shows "aims p issues"
proof -
  have i: "i \<in> set (own_issues issues)" "jget i ''title'' = JStr t" using titled_Some[OF assms(2)] by auto
  have "inj_on (\<lambda>i. map_of i ''number'') (set (own_issues issues))"
    using assms(1) by (simp add: issues_ok_def Let_def distinct_map)
  then have num: "map_of j ''number'' = map_of i ''number'' \<longleftrightarrow> j = i" if "j \<in> set (own_issues issues)" for j
    using i(1) that by (blast dest: inj_onD)
  have title: "jget j ''title'' = JStr t \<longleftrightarrow> j = i" if j: "j \<in> set (own_issues issues)" for j
  proof
    assume "jget j ''title'' = JStr t"
    with assms(5) i(2) have "jget j ''title'' = jget i ''title'' \<and> jget j ''title'' \<in> {JStr advisories_title, JStr error_title}"
      by auto
    with assms(1) i(1) j show "j = i" unfolding issues_ok_def Let_def by blast
  qed (use i(2) in simp)
  show ?thesis
    unfolding aims_def has_number_def assms(3,4) using num title by blast
qed

lemma number_of_Inr: "number_of i = Inr n \<longleftrightarrow> map_of i ''number'' = Some n"
  by (auto simp: number_of_def split: option.splits)

lemma advisories_plan_Some:
  assumes "advisories_plan loads sc issues = Inr (Some p)"
  shows "pl_title p = advisories_title
    \<and> (\<exists>st known renamed. fold_names (map av_key (sc_advisories sc)) (sc_advisories sc) st = (known, renamed)
        \<and> distinct (map fst known)
        \<and> body_of p = JStr (advisories_body sc (current_state sc (carried_over sc known)) (carried_over sc known)))
    \<and> (pl_action p = ''create'' \<or> pl_action p = ''update''
        \<and> (\<exists>i. titled advisories_title issues = Some i \<and> pl_number p = map_of i ''number''))"
proof -
  obtain filed where k: "known_in loads (titled advisories_title issues) = Inr filed"
    using assms by (auto simp: advisories_plan_def Let_def split: sum.splits)
  moreover obtain known renamed where f: "fold_names (map av_key (sc_advisories sc)) (sc_advisories sc) (filed, []) = (known, renamed)"
    by (cases "fold_names (map av_key (sc_advisories sc)) (sc_advisories sc) (filed, [])") auto
  ultimately have "pl_title p = advisories_title
    \<and> body_of p = JStr (advisories_body sc (current_state sc (carried_over sc known)) (carried_over sc known))
    \<and> (pl_action p = ''create'' \<or> pl_action p = ''update''
        \<and> (\<exists>i. titled advisories_title issues = Some i \<and> pl_number p = map_of i ''number''))"
    using assms
    by (auto simp: advisories_plan_def Let_def map_sum_Inr number_of_Inr body_of_def split: if_split_asm option.split_asm)
  moreover have "distinct (map fst known)"
    using fold_names_distinct[of "(filed, [])"] known_in_distinct[OF k] f by (metis fst_conv)
  ultimately show ?thesis using f by blast
qed

lemma error_plan_Some:
  assumes "error_plan loads sc issues = Inr (Some p)"
  shows "pl_title p = error_title
    \<and> (if sc_errors sc = [] then pl_action p = ''close'' else body_of p = JStr (error_body sc (sort (map fst (sc_errors sc))))
        \<and> pl_action p \<in> {''create'', ''update''})
    \<and> (pl_action p = ''create'' \<or> (\<exists>i. titled error_title issues = Some i \<and> pl_number p = map_of i ''number''))"
proof -
  have "sort (map fst (sc_errors sc)) = [] \<longleftrightarrow> sc_errors sc = []" by (metis length_sort length_map length_0_conv)
  then show ?thesis
    using assms by (auto simp: error_plan_def Let_def body_of_def map_sum_Inr number_of_Inr
        split: if_splits option.splits sum.splits)
qed

lemma advisories_plan_cong:
  "titled advisories_title is = titled advisories_title js \<Longrightarrow> advisories_plan loads sc is = advisories_plan loads sc js"
  by (simp add: advisories_plan_def)

lemma error_plan_cong:
  "titled error_title is = titled error_title js \<Longrightarrow> error_plan loads sc is = error_plan loads sc js"
  by (simp add: error_plan_def)

lemma titles_differ: "advisories_title \<noteq> error_title"
  by (simp add: advisories_title_def error_title_def)

lemma advisories_applied_quiet:
  assumes "decodes_states loads" and "distinct (map av_key (sc_advisories sc))"
    and "advisories_plan loads sc (own_issues issues) = Inr (Some p)" and "aims p js"
    and "titled advisories_title (own_issues js) = titled advisories_title (own_issues issues)"
  shows "advisories_plan loads sc (own_issues (applied fresh p js)) = Inr None"
proof -
  from advisories_plan_Some[OF assms(3)] obtain st known renamed
    where t: "pl_title p = advisories_title"
      and f: "fold_names (map av_key (sc_advisories sc)) (sc_advisories sc) st = (known, renamed)"
      and k: "distinct (map fst known)"
      and b: "body_of p = JStr (advisories_body sc (current_state sc (carried_over sc known)) (carried_over sc known))"
      and a: "pl_action p = ''create'' \<or> pl_action p = ''update'' \<and> titled (pl_title p) (own_issues js) \<noteq> None"
    using assms(5) by auto
  from applied_body[OF assms(4) a, of fresh] obtain i
    where i: "titled advisories_title (own_issues (applied fresh p js)) = Some i" and ib: "jget i ''body'' = body_of p"
    by (auto simp: t)
  show ?thesis
    by (rule second_run_quiet[OF assms(2) refl f])
      (simp add: known_in_def i ib b advisories_state_in[OF assms(1) current_distinct[OF k]] string_items_back current_distinct[OF k])
qed

lemma error_applied_quiet:
  assumes "decodes_states loads" and "error_plan loads sc (own_issues issues) = Inr (Some p)" and "aims p js"
    and "titled error_title (own_issues js) = titled error_title (own_issues issues)"
  shows "error_plan loads sc (own_issues (applied fresh p js)) = Inr None"
proof (cases "sc_errors sc = []")
  case True
  then have "pl_action p = ''close''" "pl_title p = error_title" using error_plan_Some[OF assms(2)] by auto
  then show ?thesis using applied_close[OF assms(3), of fresh] True by (simp add: error_plan_def Let_def)
next
  case False
  with error_plan_Some[OF assms(2)] have t: "pl_title p = error_title"
    and b: "body_of p = JStr (error_body sc (sort (map fst (sc_errors sc))))"
    and a: "pl_action p = ''create'' \<or> pl_action p = ''update'' \<and> titled (pl_title p) (own_issues js) \<noteq> None"
    using assms(4) by auto
  from applied_body[OF assms(3) a, of fresh] obtain i
    where i: "titled error_title (own_issues (applied fresh p js)) = Some i" and ib: "jget i ''body'' = body_of p"
    by (auto simp: t)
  show ?thesis
    by (rule error_run_quiet[OF _ i False]) (simp add: ib b failing_state_in[OF assms(1)])
qed

lemma plan_aims:
  assumes "issues_ok issues"
  shows "advisories_plan loads sc (own_issues issues) = Inr (Some p) \<Longrightarrow> aims p issues"
    and "error_plan loads sc (own_issues issues) = Inr (Some q) \<Longrightarrow> aims q issues"
proof -
  assume p: "advisories_plan loads sc (own_issues issues) = Inr (Some p)"
  show "aims p issues"
    using advisories_plan_Some[OF p] aims_existing[OF assms] by (auto simp: aims_def)
next
  assume q: "error_plan loads sc (own_issues issues) = Inr (Some q)"
  show "aims q issues"
    using error_plan_Some[OF q] aims_existing[OF assms] by (auto simp: aims_def)
qed

lemma number_not_fresh:
  "error_plan loads sc (own_issues issues) = Inr (Some q) \<Longrightarrow> pl_action q \<noteq> ''create''
    \<Longrightarrow> \<forall>t. Some (fresh t) \<notin> (\<lambda>i. map_of i ''number'') ` set (own_issues issues) \<Longrightarrow> Some (fresh t) \<noteq> pl_number q"
proof -
  assume q: "error_plan loads sc (own_issues issues) = Inr (Some q)" "pl_action q \<noteq> ''create''"
    and f: "\<forall>t. Some (fresh t) \<notin> (\<lambda>i. map_of i ''number'') ` set (own_issues issues)"
  obtain i where "titled error_title (own_issues issues) = Some i" "pl_number q = map_of i ''number''"
    using error_plan_Some[OF q(1)] q(2) by blast
  with titled_Some have "pl_number q \<in> (\<lambda>i. map_of i ''number'') ` set (own_issues issues)" by blast
  with f show ?thesis by metis
qed

lemma error_aims_after:
  assumes "issues_ok issues" and "error_plan loads sc (own_issues issues) = Inr (Some q)"
    and "advisories_plan loads sc (own_issues issues) = Inr (Some p)"
    and "\<forall>t. Some (fresh t) \<notin> (\<lambda>i. map_of i ''number'') ` set (own_issues issues)"
  shows "aims q (applied fresh p issues)"
proof (cases "pl_action q = ''create''")
  case False
  show ?thesis
    using error_plan_Some[OF assms(2)] advisories_plan_Some[OF assms(3)] titles_differ
      number_not_fresh[OF assms(2) False assms(4)]
    by (intro aims_applied plan_aims(2)[OF assms(1,2)]) auto
qed (simp add: aims_def)

text \<open>
  C36. A run that says something has said it: once its plans are applied, a run over the
  same findings and the same failures plans nothing, so a standing finding is silent and a
  standing failure is filed once, whatever was known before, renamed, carried forward or
  resolved by the first run.
\<close>

theorem scan_settles:
  assumes "decodes_states loads" and "distinct (map av_key (sc_advisories sc))" and "issues_ok issues"
    and "\<forall>t. Some (fresh t) \<notin> (\<lambda>i. map_of i ''number'') ` set (own_issues issues)"
    and "plans loads sc issues = Inr ps"
  shows "plans loads sc (fold (applied fresh) ps issues) = Inr []"
proof -
  let ?own = "own_issues issues"
  obtain a b where a: "advisories_plan loads sc ?own = Inr a" and b: "error_plan loads sc ?own = Inr b"
    using assms(5) by (auto simp: plans_def Let_def map_sum_Inr split: sum.splits)
  define js where "js = (case a of None \<Rightarrow> issues | Some p \<Rightarrow> applied fresh p issues)"
  define ks where "ks = (case b of None \<Rightarrow> js | Some q \<Rightarrow> applied fresh q js)"
  have ks: "fold (applied fresh) ps issues = ks"
    using assms(5) a b by (auto simp: plans_def Let_def js_def ks_def split: option.split)
  have at: "pl_title p = advisories_title" "aims p issues" if "a = Some p" for p
    using that a advisories_plan_Some plan_aims(1)[OF assms(3)] by auto
  have bt: "pl_title q = error_title" "aims q js" if "b = Some q" for q
    using that a b error_plan_Some plan_aims(2)[OF assms(3)] error_aims_after[OF assms(3) _ _ assms(4)]
    by (auto simp: js_def split: option.split)
  have "advisories_plan loads sc (own_issues js) = Inr None"
    using a at advisories_applied_quiet[OF assms(1,2), of issues _ issues fresh] by (auto simp: js_def split: option.split)
  moreover have "titled advisories_title (own_issues ks) = titled advisories_title (own_issues js)"
    using bt applied_other[of _ js advisories_title fresh] titles_differ by (auto simp: ks_def split: option.split)
  ultimately have first: "advisories_plan loads sc (own_issues ks) = Inr None"
    using advisories_plan_cong by metis
  have same: "titled error_title (own_issues js) = titled error_title ?own"
    using at applied_other[of _ issues error_title fresh] titles_differ by (auto simp: js_def split: option.split)
  have "error_plan loads sc (own_issues ks) = Inr None"
  proof (cases b)
    case None
    then show ?thesis using b error_plan_cong[OF same] by (simp add: ks_def)
  next
    case (Some q)
    then show ?thesis using error_applied_quiet[OF assms(1) _ bt(2) same] b by (simp add: ks_def)
  qed
  with first show ?thesis by (simp add: ks plans_def Let_def)
qed

end
