(* ===== verification/Scan_News.thy ===== *)
theory Scan_News
  imports Scan_Props
begin

text \<open>
  When a run pages. The findings of one report have
  disjoint names, so a finding's earlier names are its own: it pages exactly when it is
  rated High or Critical and was not so filed under any of them.
\<close>

subsection \<open>Names of the findings of a report\<close>

definition well_named :: "advisory list \<Rightarrow> bool" where
  "well_named as \<longleftrightarrow> distinct as \<and> (\<forall>a\<in>set as. av_key a \<in> set (alias_keys a))
     \<and> (\<forall>a\<in>set as. \<forall>b\<in>set as. a \<noteq> b \<longrightarrow> set (alias_keys a) \<inter> set (alias_keys b) = {})"

lemma well_named_keys: "well_named as \<Longrightarrow> distinct (map av_key as)"
proof -
  assume w: "well_named as"
  have "a = b" if "a \<in> set as" "b \<in> set as" "av_key a = av_key b" for a b
  proof (rule ccontr)
    assume "a \<noteq> b"
    with w that(1,2) have "set (alias_keys a) \<inter> set (alias_keys b) = {}" by (simp add: well_named_def)
    moreover have "av_key a \<in> set (alias_keys a)" "av_key b \<in> set (alias_keys b)"
      using w that(1,2) by (simp_all add: well_named_def)
    ultimately show False using that(3) by auto
  qed
  with w show ?thesis by (auto simp: well_named_def distinct_map inj_on_def)
qed

lemma finding_key_inj:
  assumes "CHR '':'' \<notin> set p" "CHR '':'' \<notin> set q" "CHR ''@'' \<notin> set p" "CHR ''@'' \<notin> set q"
    and "finding_key e p i = finding_key e q j"
  shows "p = q \<and> i = j"
proof -
  have clean: "filter (\<lambda>c. c \<noteq> CHR ''@'') s = s" if "CHR ''@'' \<notin> set s" for s
    using that by (auto intro: filter_True)
  have eq: "p @ CHR '':'' # i = q @ CHR '':'' # j"
    using assms(5) by (simp add: finding_key_def clean assms(3,4))
  have tw: "takeWhile (\<lambda>c. c \<noteq> CHR '':'') (s @ CHR '':'' # t) = s" if "CHR '':'' \<notin> set s" for s t
    using that by (induction s) auto
  have "p = q" using arg_cong[OF eq, of "takeWhile (\<lambda>c. c \<noteq> CHR '':'')"] tw assms(1,2) by simp
  with eq show ?thesis by simp
qed

lemma sort_key_set_distinct: "distinct (sort_key f xs) = distinct xs" "set (sort_key f xs) = set xs"
  by simp_all

text \<open>A Python package name holds neither a colon nor an at sign.\<close>

lemma parsed_well_named:
  assumes "parse_osv_scanner loads parse text status = Inr found"
    and "\<forall>a\<in>set found. CHR '':'' \<notin> set (av_package a) \<and> CHR ''@'' \<notin> set (av_package a)"
  shows "well_named (sort_key av_rank found)"
proof -
  obtain rs raw where w: "raw_results parse rs = Inr raw" and f: "found = fold absorb raw []"
    using assms(1) by (auto simp: parse_cases)
  have ok: "read_ok a" if "a \<in> set found" for a
    using fold_absorb_exact(3)[OF raw_results_ok[OF w]] that by (auto simp: f drawn_from_def)
  have apart: "findings.apart found"
    using fold_absorb_exact(1)[OF raw_results_ok[OF w]] ok by (auto simp: findings.apart_def f read_ok_def)
  have "set (alias_keys a) \<inter> set (alias_keys b) = {}" if "a \<in> set found" "b \<in> set found" "a \<noteq> b" for a b
  proof -
    have "\<not> related a b" using findings.apart_unrelated[OF apart that(1,2)] that(3) by blast
    moreover have "av_ecosystem a = av_ecosystem b" using ok that by (simp add: read_ok_def)
    moreover have "av_package a = av_package b \<and> i = j"
      if "finding_key e (av_package a) i = finding_key e (av_package b) j" for e i j
      using finding_key_inj[OF _ _ _ _ that] assms(2) \<open>a \<in> set found\<close> \<open>b \<in> set found\<close> by blast
    ultimately have "finding_key (av_ecosystem a) (av_package a) i \<noteq> finding_key (av_ecosystem b) (av_package b) j"
      if "i \<in> set (av_aliases a)" "j \<in> set (av_aliases b)" for i j
      using that unfolding related_def by fastforce
    then show ?thesis by (auto simp: alias_keys_def)
  qed
  then show ?thesis
    using ok findings.apart_distinct[OF apart]
    by (auto simp: well_named_def sort_key_set_distinct read_ok_def well_formed_def alias_keys_def av_key_def)
qed

subsection \<open>News\<close>

definition was_paging :: "(string \<times> string) list \<Rightarrow> string \<Rightarrow> bool" where
  "was_paging known k = (case map_of known k of None \<Rightarrow> False | Some s \<Rightarrow> s \<in> set paging_severities)"

text \<open>Filed at High or Critical under its key, or under another name not reported for itself.\<close>

definition paged_before :: "(string \<times> string) list \<Rightarrow> string list \<Rightarrow> advisory \<Rightarrow> bool" where
  "paged_before filed reported a =
     (was_paging filed (av_key a) \<or> (\<exists>e\<in>set (alias_keys a). e \<notin> set reported \<and> was_paging filed e))"

lemma paging_rank: "s \<in> set paging_severities \<longleftrightarrow> rank_of s < 2"
  by (auto simp: paging_severities_def rank_of_def severity_order_def)

lemma paging_more_severe:
  "more_severe s t \<in> set paging_severities \<longleftrightarrow> s \<in> set paging_severities \<or> t \<in> set paging_severities"
  by (auto simp: paging_rank more_severe_rank)

lemma was_paging_step:
  assumes "key \<in> set reported"
  shows "was_paging (fst (fold_name reported key e (known, r))) key
    \<longleftrightarrow> was_paging known key \<or> (e \<notin> set reported \<and> was_paging known e)"
  using assms by (auto simp: was_paging_def fold_name_value paging_more_severe split: option.split)

lemma was_paging_step_other:
  "k \<notin> set reported \<Longrightarrow> key \<in> set reported \<Longrightarrow>
    was_paging (fst (fold_name reported key e (known, r))) k
      \<longleftrightarrow> was_paging known k \<and> k \<noteq> e"
  by (auto simp: was_paging_def fold_name_value split: option.split)

lemma was_paging_inner:
  assumes "key \<in> set reported"
  shows "was_paging (fst (fold (fold_name reported key) es st)) key
    \<longleftrightarrow> was_paging (fst st) key \<or> (\<exists>e\<in>set es. e \<notin> set reported \<and> was_paging (fst st) e)"
proof (induction es arbitrary: st)
  case (Cons e es)
  obtain known r where st: "st = (known, r)" by (cases st)
  have "was_paging (fst (fold (fold_name reported key) (e # es) st)) key
    \<longleftrightarrow> was_paging known key \<or> (e \<notin> set reported \<and> was_paging known e)
        \<or> (\<exists>k\<in>set es. k \<notin> set reported \<and> was_paging known k \<and> k \<noteq> e)"
    using Cons.IH[of "fold_name reported key e st"] was_paging_step_other[OF _ assms, of _ e known r]
    by (auto simp: st was_paging_step[OF assms])
  then show ?case by (auto simp: st)
qed simp

lemma fold_inner_frame:
  "key \<in> set own \<Longrightarrow> set es \<subseteq> set own \<Longrightarrow> k \<notin> set own
    \<Longrightarrow> map_of (fst (fold (fold_name reported key) es st)) k = map_of (fst st) k"
proof (induction es arbitrary: st)
  case (Cons e es)
  obtain known r where st: "st = (known, r)" by (cases st)
  have "map_of (fst (fold_name reported key e st)) k = map_of (fst st) k"
    using Cons.prems by (auto simp: st fold_name_value)
  with Cons show ?case by simp
qed simp

lemma fold_names_frame:
  "\<forall>b\<in>set as. av_key b \<in> set (alias_keys b) \<and> k \<notin> set (alias_keys b)
    \<Longrightarrow> map_of (fst (fold_names reported as st)) k = map_of (fst st) k"
proof (induction as arbitrary: st)
  case (Cons b as)
  then have "map_of (fst (fold (fold_name reported (av_key b)) (alias_keys b) st)) k = map_of (fst st) k"
    by (intro fold_inner_frame[of _ "alias_keys b"]) auto
  with Cons show ?case by (simp add: fold_names_def)
qed (simp add: fold_names_def)

lemma fold_names_append: "fold_names reported (xs @ ys) st = fold_names reported ys (fold_names reported xs st)"
  by (simp add: fold_names_def)

lemma fold_names_paging:
  assumes "well_named as" and "a \<in> set as"
  shows "was_paging (fst (fold_names (map av_key as) as (filed, r))) (av_key a) \<longleftrightarrow> paged_before filed (map av_key as) a"
proof -
  let ?rep = "map av_key as"
  obtain xs ys where as: "as = xs @ a # ys" using assms(2) by (auto dest: split_list)
  have others: "av_key b \<in> set (alias_keys b) \<and> k \<notin> set (alias_keys b)"
    if "b \<in> set xs \<union> set ys" "k \<in> set (alias_keys a)" for b k
    using assms(1) that unfolding well_named_def as by auto
  have key: "av_key a \<in> set (alias_keys a)" using assms by (simp add: well_named_def)
  let ?before = "fold_names ?rep xs (filed, r)"
  have before: "map_of (fst ?before) k = map_of filed k" if "k \<in> set (alias_keys a)" for k
    using fold_names_frame[of xs k ?rep "(filed, r)"] others that by simp
  let ?mid = "fold (fold_name ?rep (av_key a)) (alias_keys a) ?before"
  have "fold_names ?rep as (filed, r) = fold_names ?rep ys ?mid"
    by (simp add: as fold_names_append) (simp add: fold_names_def)
  then have "map_of (fst (fold_names ?rep as (filed, r))) (av_key a) = map_of (fst ?mid) (av_key a)"
    using fold_names_frame[of ys "av_key a" ?rep ?mid] others key by simp
  then have "was_paging (fst (fold_names ?rep as (filed, r))) (av_key a) \<longleftrightarrow> was_paging (fst ?mid) (av_key a)"
    by (simp add: was_paging_def)
  also have "\<dots> \<longleftrightarrow> paged_before filed ?rep a"
    using was_paging_inner[of "av_key a" ?rep "alias_keys a" ?before] assms(2) before key
    by (simp add: paged_before_def was_paging_def)
  finally show ?thesis .
qed

text \<open>What is announced is rated High or Critical exactly for a finding not paged before.\<close>

lemma announced_paging:
  "(\<exists>a\<in>set (added_in sc known @ escalated_in sc known). pages a)
    \<longleftrightarrow> (\<exists>a\<in>set (sc_advisories sc). pages a \<and> \<not> was_paging known (av_key a))"
  by (auto simp: added_in_def escalated_in_def rerated_in_def was_paging_def pages_def split: option.splits)

text \<open>
  C35. A run pages exactly for news: the advisories plan carries \<open>needs-human\<close> if and only
  if some finding is rated High or Critical that was not filed at High or Critical before,
  under its own key or under any earlier name of it. Otherwise whatever it says goes to the
  inbox, or to no label.
\<close>

theorem scan_pages_news:
  assumes "well_named (sc_advisories sc)"
    and "known_in loads (titled advisories_title issues) = Inr filed"
    and "advisories_plan loads sc issues = Inr plan"
  shows "(case plan of None \<Rightarrow> False | Some p \<Rightarrow> paging_label \<in> set (pl_labels p))
    \<longleftrightarrow> (\<exists>a\<in>set (sc_advisories sc). pages a \<and> \<not> paged_before filed (map av_key (sc_advisories sc)) a)"
proof -
  let ?as = "sc_advisories sc"
  obtain known renamed where f: "fold_names (map av_key ?as) ?as (filed, []) = (known, renamed)"
    by (cases "fold_names (map av_key ?as) ?as (filed, [])") auto
  let ?ann = "added_in sc known @ escalated_in sc known"
  have labels: "(case plan of None \<Rightarrow> False | Some p \<Rightarrow> paging_label \<in> set (pl_labels p)) \<longleftrightarrow> (\<exists>a\<in>set ?ann. pages a)"
  proof -
    have sub: "set (escalated_in sc known) \<subseteq> set (rerated_in sc known)" by (auto simp: escalated_in_def)
    have "paging_label \<noteq> inbox_label" by (simp add: paging_label_def inbox_label_def)
    then have "paging_label \<in> set (if ?ann \<noteq> [] then [label_for ?ann] else []) \<longleftrightarrow> (\<exists>a\<in>set ?ann. pages a)"
      by (auto simp: label_for_def)
    then show ?thesis
      using assms(2,3) f sub
      by (auto simp: advisories_plan_def Let_def map_sum_Inr split: if_split_asm option.split_asm)
  qed
  have "was_paging known (av_key a) \<longleftrightarrow> paged_before filed (map av_key ?as) a" if "a \<in> set ?as" for a
    using fold_names_paging[OF assms(1) that, of filed "[]"] by (simp add: f)
  then show ?thesis unfolding labels announced_paging by blast
qed

end
