(* ===== verification/Scan_Cell.thy ===== *)
theory Scan_Cell
  imports Scan_Merge
begin

text \<open>
  What the table lets through of an upstream text: no opening of a comment, no end of a
  row, no cell boundary of its own, and no name GitHub would read as a mention. The last
  rests on code spans, and two characters that are let through undo one: a backtick in the
  two columns that are a span closes it, and a backslash before an opening tick makes it a
  plain character. It holds for the texts without them.
\<close>

subsection \<open>A text as GitHub reads it\<close>

text \<open>Reading Markdown: in plain text, behind a backslash, or in a code span, where a backslash is plain.\<close>

datatype md_state = Plain | Escaped | Span

fun md_next :: "md_state \<Rightarrow> char \<Rightarrow> md_state" where
  "md_next Plain c = (if c = CHR 0x5C then Escaped else if c = CHR 0x60 then Span else Plain)"
| "md_next Escaped c = Plain"
| "md_next Span c = (if c = CHR 0x60 then Plain else Span)"

definition md_end :: "md_state \<Rightarrow> string \<Rightarrow> md_state" where
  "md_end st s = foldl md_next st s"

text \<open>A text without the insides of its code spans.\<close>

fun outside :: "md_state \<Rightarrow> string \<Rightarrow> string" where
  "outside st [] = []"
| "outside st (c # s) = (if st = Span \<and> c \<noteq> CHR 0x60 then outside st s else c # outside (md_next st c) s)"

fun mention_free :: "string \<Rightarrow> bool" where
  "mention_free [] = True"
| "mention_free (c # s) = (\<not> (c = CHR ''@'' \<and> s \<noteq> [] \<and> is_mention_char (hd s)) \<and> mention_free s)"

text \<open>Every pipe behind a backslash.\<close>

fun pipes_escaped :: "char \<Rightarrow> string \<Rightarrow> bool" where
  "pipes_escaped before [] = True"
| "pipes_escaped before (c # s) = (\<not> (c = CHR ''|'' \<and> before \<noteq> CHR 0x5C) \<and> pipes_escaped c s)"

text \<open>The pipes that end a cell: those behind no backslash.\<close>

fun boundaries :: "char \<Rightarrow> string \<Rightarrow> nat" where
  "boundaries before [] = 0"
| "boundaries before (c # s) = (if c = CHR ''|'' \<and> before \<noteq> CHR 0x5C then 1 else 0) + boundaries c s"

lemma md_end_simps [simp]:
  "md_end st [] = st" "md_end st (c # s) = md_end (md_next st c) s"
  "md_end st (w @ s) = md_end (md_end st w) s"
  by (simp_all add: md_end_def)

lemma outside_append: "outside st (w @ s) = outside st w @ outside (md_end st w) s"
  by (induction w arbitrary: st) auto

lemma mention_free_append:
  "mention_free u \<Longrightarrow> mention_free v \<Longrightarrow> v = [] \<or> \<not> is_mention_char (hd v) \<Longrightarrow> mention_free (u @ v)"
proof (induction u)
  case (Cons c u)
  then show ?case by (cases u) auto
qed simp

lemma mention_free_none: "CHR ''@'' \<notin> set s \<Longrightarrow> mention_free s"
  by (induction s) auto

lemma outside_set: "set (outside st s) \<subseteq> set s"
  by (induction st s rule: outside.induct) auto

lemma md_end_plain: "CHR 0x5C \<notin> set s \<Longrightarrow> CHR 0x60 \<notin> set s \<Longrightarrow> md_end Plain s = Plain"
  by (induction s) auto

lemma span_hides: "CHR 0x60 \<notin> set s \<Longrightarrow> outside Span s = [] \<and> md_end Span s = Span"
  by (induction s) auto

lemma not_mention_char [simp]: "\<not> is_mention_char CHR '' ''" "\<not> is_mention_char CHR ''|''"
    "\<not> is_mention_char CHR 0x0A" "\<not> is_mention_char CHR 0x60" "\<not> is_mention_char CHR 0x5C"
  by (simp_all add: is_mention_char_def is_word_def is_alnum_ascii_def)

lemma boundaries_append:
  "boundaries p (w @ s) = boundaries p w + boundaries (if w = [] then p else last w) s"
  by (induction w arbitrary: p) auto

lemma boundaries_none: "CHR ''|'' \<notin> set s \<Longrightarrow> boundaries p s = 0"
  by (induction s arbitrary: p) auto

lemma boundaries_escaped: "pipes_escaped p s \<Longrightarrow> boundaries p s = 0"
  by (induction s arbitrary: p) auto

subsection \<open>The steps of a cell\<close>

lemma squash_space: "c \<in> set (squash s) \<Longrightarrow> is_space c \<Longrightarrow> c = CHR '' ''"
  by (induction s rule: squash.induct) (auto split: if_splits)

lemma squash_set: "set (squash s) \<subseteq> insert (CHR '' '') (set s)"
proof (induction s rule: squash.induct)
  case (2 c s)
  then show ?case by (auto dest: set_dropWhileD)
qed simp

lemma newline_space: "is_space CHR 0x0A"
  by (simp add: is_space_def)

lemma squash_line: "CHR 0x0A \<notin> set (squash s)"
  using squash_space[of "CHR 0x0A" s] newline_space by auto

lemma escaped_set: "c \<in> set (concat (map escape_cell s)) \<Longrightarrow> c \<noteq> CHR ''<'' \<and> (c \<in> set s \<or> c \<in> set ''&lt;'' \<or> c = CHR 0x5C)"
  by (auto simp: escape_cell_def split: if_splits)

lemma escaped_pipes: "pipes_escaped p (concat (map escape_cell s))"
  by (induction s arbitrary: p) (auto simp: escape_cell_def)

lemma mention_chars: "is_mention_char c \<Longrightarrow> c \<noteq> CHR 0x60 \<and> c \<noteq> CHR 0x5C \<and> c \<noteq> CHR ''|''"
  by (auto simp: is_mention_char_def is_word_def is_alnum_ascii_def)

lemma quote_plain:
  "\<not> (c = CHR ''@'' \<and> takeWhile is_mention_char s \<noteq> []) \<Longrightarrow> quote_mentions (c # s) = c # quote_mentions s"
  unfolding quote_mentions.simps Let_def by (rule if_not_P)

lemma quote_name:
  "c = CHR ''@'' \<and> takeWhile is_mention_char s \<noteq> [] \<Longrightarrow> quote_mentions (c # s)
    = CHR 0x60 # (CHR ''@'' # takeWhile is_mention_char s) @ CHR 0x60
        # quote_mentions (drop (length (takeWhile is_mention_char s)) s)"
  unfolding quote_mentions.simps Let_def tick_def by (subst if_P) simp_all

declare quote_mentions.simps(2) [simp del]

lemma quote_set: "set (quote_mentions s) \<subseteq> insert (CHR 0x60) (set s)"
proof (induction s rule: quote_mentions.induct)
  case (2 c s)
  let ?name = "takeWhile is_mention_char s"
  show ?case
  proof (cases "c = CHR ''@'' \<and> ?name \<noteq> []")
    case True
    have "set ?name \<subseteq> set s" "set (drop (length ?name) s) \<subseteq> set s"
      by (auto dest: set_takeWhileD in_set_dropD)
    with 2(1)[OF refl True] True show ?thesis unfolding quote_name[OF True] by auto
  next
    case False
    from 2(2)[OF refl False] show ?thesis unfolding quote_plain[OF False] by auto
  qed
qed simp

lemma quote_head:
  "s \<noteq> [] \<Longrightarrow> quote_mentions s \<noteq> [] \<and> (hd (quote_mentions s) = hd s \<or> hd (quote_mentions s) = CHR 0x60)"
  by (cases s) (auto simp: quote_mentions.simps(2) Let_def tick_def)

text \<open>Of a text whose backslashes all stand before a pipe, as those of an escape do.\<close>

fun pipe_escapes :: "string \<Rightarrow> bool" where
  "pipe_escapes [] = True"
| "pipe_escapes (c # s) = ((c = CHR 0x5C \<longrightarrow> s \<noteq> [] \<and> hd s = CHR ''|'') \<and> pipe_escapes s)"

lemma pipe_escapes_drop: "pipe_escapes s \<Longrightarrow> pipe_escapes (drop n s)"
  by (induction s arbitrary: n) (auto simp: drop_Cons split: nat.split)

lemma escaped_escapes: "CHR 0x5C \<notin> set s \<Longrightarrow> pipe_escapes (concat (map escape_cell s))"
  by (induction s) (auto simp: escape_cell_def)

lemma quote_span:
  assumes "c = CHR ''@'' \<and> takeWhile is_mention_char s \<noteq> []"
  shows "outside Plain (quote_mentions (c # s))
      = [CHR 0x60, CHR 0x60] @ outside Plain (quote_mentions (drop (length (takeWhile is_mention_char s)) s))"
    and "md_end Plain (quote_mentions (c # s))
      = md_end Plain (quote_mentions (drop (length (takeWhile is_mention_char s)) s))"
proof -
  have "CHR 0x60 \<notin> set (CHR ''@'' # takeWhile is_mention_char s)" by (auto dest: set_takeWhileD)
  from span_hides[OF this] show "outside Plain (quote_mentions (c # s))
      = [CHR 0x60, CHR 0x60] @ outside Plain (quote_mentions (drop (length (takeWhile is_mention_char s)) s))"
    and "md_end Plain (quote_mentions (c # s))
      = md_end Plain (quote_mentions (drop (length (takeWhile is_mention_char s)) s))"
    unfolding quote_name[OF assms] by (simp_all add: outside_append)
qed

lemma quote_hides:
  "CHR 0x60 \<notin> set s \<Longrightarrow> pipe_escapes s \<Longrightarrow> st = Plain \<or> st = Escaped \<and> s \<noteq> [] \<and> hd s = CHR ''|''
    \<Longrightarrow> mention_free (outside st (quote_mentions s)) \<and> md_end st (quote_mentions s) = Plain"
proof (induction s arbitrary: st rule: quote_mentions.induct)
  case (2 c s)
  let ?rest = "drop (length (takeWhile is_mention_char s)) s"
  show ?case
  proof (cases "c = CHR ''@'' \<and> takeWhile is_mention_char s \<noteq> []")
    case True
    then have "st = Plain" using "2.prems"(3) by auto
    moreover have "CHR 0x60 \<notin> set ?rest" "pipe_escapes ?rest"
      using "2.prems"(1,2) by (auto dest: in_set_dropD intro: pipe_escapes_drop)
    ultimately show ?thesis using 2(1)[OF refl True, of Plain] quote_span[OF True] by simp
  next
    case False
    let ?st = "md_next st c"
    have st: "?st = Plain \<or> ?st = Escaped \<and> s \<noteq> [] \<and> hd s = CHR ''|''" using "2.prems" by (auto split: if_splits)
    have ih: "mention_free (outside ?st (quote_mentions s)) \<and> md_end ?st (quote_mentions s) = Plain"
      using 2(2)[OF refl False _ _ st] "2.prems" by simp
    have "\<not> is_mention_char (hd (outside ?st (quote_mentions s)))"
      if "c = CHR ''@''" "outside ?st (quote_mentions s) \<noteq> []"
    proof (cases s)
      case (Cons d t)
      have "\<not> is_mention_char d" using False that(1) Cons by auto
      moreover have "hd (quote_mentions s) \<in> {d, CHR 0x60}" using quote_head[of s] Cons by auto
      moreover have "?st \<noteq> Span" using st by auto
      ultimately show ?thesis using that(2) by (cases "quote_mentions s") auto
    qed (use that in simp)
    moreover have "st \<noteq> Span" using "2.prems"(3) by auto
    ultimately show ?thesis using ih by (auto simp: quote_plain[OF False])
  qed
qed simp

lemma pipes_any: "pipes_escaped p s \<Longrightarrow> p \<noteq> CHR 0x5C \<Longrightarrow> pipes_escaped q s"
  by (cases s) auto

lemma pipes_append: "pipes_escaped p (w @ s) \<longleftrightarrow> pipes_escaped p w \<and> pipes_escaped (if w = [] then p else last w) s"
  by (induction w arbitrary: p) auto

lemma pipes_name: "\<forall>c\<in>set w. is_mention_char c \<Longrightarrow> pipes_escaped p w"
  using mention_chars by (induction w arbitrary: p) auto

lemma quote_pipes: "pipes_escaped p s \<Longrightarrow> pipes_escaped p (quote_mentions s)"
proof (induction s arbitrary: p rule: quote_mentions.induct)
  case (2 c s)
  let ?name = "takeWhile is_mention_char s" let ?rest = "drop (length ?name) s"
  show ?case
  proof (cases "c = CHR ''@'' \<and> ?name \<noteq> []")
    case True
    have s: "s = ?name @ ?rest" by (metis append_take_drop_id takeWhile_eq_take)
    have name: "\<forall>x\<in>set ?name. is_mention_char x" by (auto dest: set_takeWhileD)
    then have "is_mention_char (last ?name)" using True by (metis last_in_set)
    then have "last ?name \<noteq> CHR 0x5C" using mention_chars by blast
    moreover have "pipes_escaped (last ?name) ?rest"
      using "2.prems" True pipes_append[of c ?name ?rest] s by simp
    ultimately have "pipes_escaped (CHR 0x60) ?rest" by (rule pipes_any[rotated])
    then show ?thesis
      using 2(1)[OF refl True] True pipes_name[OF name] unfolding quote_name[OF True] by (simp add: pipes_append)
  next
    case False
    then show ?thesis using 2(2)[OF refl False] "2.prems" by (simp add: quote_plain[OF False])
  qed
qed simp

lemma cell_set: "c \<in> set (cell s) \<Longrightarrow> c \<noteq> CHR ''<'' \<and> c \<noteq> CHR 0x0A"
proof -
  let ?t = "filter (\<lambda>c. c \<noteq> CHR 0x60) (squash s)"
  assume "c \<in> set (cell s)"
  then have "c = CHR 0x60 \<or> c \<in> set (concat (map escape_cell ?t))"
    unfolding cell_def using quote_set by blast
  then show ?thesis using escaped_set[of c ?t] squash_line[of s] by auto
qed

lemma cell_hides:
  assumes "CHR 0x5C \<notin> set s"
  shows "mention_free (outside Plain (cell s))" and "md_end Plain (cell s) = Plain"
proof -
  let ?t = "filter (\<lambda>c. c \<noteq> CHR 0x60) (squash s)"
  have "CHR 0x60 \<notin> set (concat (map escape_cell ?t))" by (auto simp: escape_cell_def split: if_splits)
  moreover have "pipe_escapes (concat (map escape_cell ?t))"
    using assms squash_set[of s] by (intro escaped_escapes) auto
  ultimately show "mention_free (outside Plain (cell s))" and "md_end Plain (cell s) = Plain"
    using quote_hides[of "concat (map escape_cell ?t)" Plain] by (simp_all add: cell_def)
qed

lemma cell_pipes: "pipes_escaped p (cell s)"
  unfolding cell_def by (intro quote_pipes escaped_pipes)

lemma code_span_set: "c \<in> set (code_span s) \<Longrightarrow> c \<noteq> CHR ''<'' \<and> c \<noteq> CHR 0x0A"
  using escaped_set[of c "squash s"] squash_line[of s] by (auto simp: code_span_def tick_def split: if_splits)

lemma code_span_pipes: "boundaries p (code_span s) = 0"
  using boundaries_escaped[OF escaped_pipes[of "CHR 0x60" "squash s"]]
  by (simp add: code_span_def tick_def boundaries_append)

text \<open>A code span whose text has no backtick hides all of it.\<close>

lemma code_span_hides:
  assumes "CHR 0x60 \<notin> set s"
  shows "mention_free (outside Plain (code_span s))" and "md_end Plain (code_span s) = Plain"
proof -
  have "CHR 0x60 \<notin> set (concat (map escape_cell (squash s)))"
    using assms squash_set[of s] by (auto simp: escape_cell_def split: if_splits)
  from span_hides[OF this] show "mention_free (outside Plain (code_span s))" and "md_end Plain (code_span s) = Plain"
    by (simp_all add: code_span_def tick_def outside_append)
qed

subsection \<open>The table\<close>

lemma severity_letters: "\<forall>s\<in>set severity_order. \<forall>c\<in>set (capitalize s). c \<noteq> CHR ''<'' \<and> c \<noteq> CHR 0x0A"
  by code_simp

lemma row_clean:
  assumes "read_ok a" and "x = CHR ''<'' \<or> x = CHR 0x0A"
  shows "x \<notin> set (table_row a)"
proof -
  have "x \<notin> set (capitalize (av_severity a))"
    using assms severity_letters unfolding read_ok_def by blast
  moreover have "x \<notin> set (ecosystem_name (av_ecosystem a))"
    using assms by (auto simp: read_ok_def ecosystem_name_def)
  moreover have "x \<notin> set (cell s)" "x \<notin> set (code_span s)" for s
    using assms(2) cell_set code_span_set by blast+
  moreover have "x \<notin> set ''| ''" "x \<notin> set '' | ''" "x \<notin> set '' |''"
    using assms(2) by auto
  ultimately show ?thesis unfolding table_row_def Let_def by (simp only: set_append Un_iff) simp
qed

lemma count_in_join:
  "\<forall>r\<in>set rs. nl_char \<notin> set r \<Longrightarrow> rs \<noteq> [] \<Longrightarrow>
    length (filter ((=) nl_char) (py_join [nl_char] rs)) = length rs - 1"
proof (induction "[nl_char]" rs rule: py_join.induct)
  case (2 x)
  then show ?case by (auto simp: filter_empty_conv)
next
  case (3 x y zs)
  then have "filter ((=) nl_char) x = []" by (auto simp: filter_empty_conv)
  with 3 show ?case by simp
qed simp

lemma set_join: "c \<in> set (py_join sep xs) \<Longrightarrow> c \<in> set sep \<or> (\<exists>x\<in>set xs. c \<in> set x)"
  by (induction sep xs rule: py_join.induct) auto

text \<open>A row: six cells, and nothing in it is a mention if its code spans stay closed.\<close>

lemma fixed_cells:
  assumes "read_ok a" and "x \<in> {CHR ''|'', CHR ''@'', CHR 0x60, CHR 0x5C}"
  shows "x \<notin> set (capitalize (av_severity a))" and "x \<notin> set (ecosystem_name (av_ecosystem a))"
proof -
  have "\<forall>s\<in>set severity_order. \<forall>x\<in>{CHR ''|'', CHR ''@'', CHR 0x60, CHR 0x5C}. x \<notin> set (capitalize s)" by code_simp
  with assms show "x \<notin> set (capitalize (av_severity a))" unfolding read_ok_def by blast
  show "x \<notin> set (ecosystem_name (av_ecosystem a))" using assms by (auto simp: read_ok_def ecosystem_name_def)
qed

lemma boundaries_cell: "boundaries p w = 0 \<Longrightarrow> boundaries p (w @ '' | '' @ s) = 1 + boundaries CHR '' '' s"
  by (simp add: boundaries_append)

lemma row_boundaries:
  assumes "read_ok a" and "p \<noteq> CHR 0x5C"
  shows "boundaries p (table_row a) = 7"
proof -
  have f: "boundaries q (capitalize (av_severity a)) = 0" "boundaries q (ecosystem_name (av_ecosystem a)) = 0" for q
    using fixed_cells[OF assms(1)] by (auto intro: boundaries_none)
  have c: "boundaries q (cell s) = 0" for q s by (rule boundaries_escaped[OF cell_pipes])
  have e: "boundaries q (w @ '' |'') = 1" if "boundaries q w = 0" for q w using that by (simp add: boundaries_append)
  have h: "boundaries p (''| '' @ s) = 1 + boundaries CHR '' '' s" for s using assms(2) by simp
  show ?thesis
    unfolding table_row_def Let_def h
    by (simp only: boundaries_cell f code_span_pipes c e)
qed

lemma outside_cell:
  assumes "mention_free (outside Plain w)" and "md_end Plain w = Plain" and "mention_free (outside Plain s)"
  shows "mention_free (outside Plain (w @ '' | '' @ s))"
  using assms by (auto simp: outside_append intro!: mention_free_append)

lemma md_end_cell: "md_end Plain w = Plain \<Longrightarrow> md_end Plain (w @ '' | '' @ s) = md_end Plain s"
  by simp

lemma plain_cell:
  assumes "\<And>x. x \<in> {CHR ''|'', CHR ''@'', CHR 0x60, CHR 0x5C} \<Longrightarrow> x \<notin> set w"
  shows "mention_free (outside Plain w)" and "md_end Plain w = Plain"
  using assms outside_set[of Plain w] by (auto intro!: mention_free_none md_end_plain)

text \<open>No upstream text of the row undoes a span.\<close>

definition spans_hold :: "advisory \<Rightarrow> bool" where
  "spans_hold a \<longleftrightarrow> CHR 0x60 \<notin> set (av_package a) \<and> CHR 0x60 \<notin> set (av_affected a)
     \<and> CHR 0x5C \<notin> set (av_id a) \<and> CHR 0x5C \<notin> set (av_title a)
     \<and> (case av_url a of None \<Rightarrow> True | Some u \<Rightarrow> CHR 0x5C \<notin> set u)"

lemma row_hides:
  assumes "read_ok a" and "spans_hold a"
  shows "mention_free (outside Plain (table_row a)) \<and> md_end Plain (table_row a) = Plain"
proof -
  have f: "mention_free (outside Plain (capitalize (av_severity a)))" "md_end Plain (capitalize (av_severity a)) = Plain"
    "mention_free (outside Plain (ecosystem_name (av_ecosystem a)))" "md_end Plain (ecosystem_name (av_ecosystem a)) = Plain"
    by (rule plain_cell, erule fixed_cells[OF assms(1)])+
  have sp: "CHR 0x60 \<notin> set (av_package a)" "CHR 0x60 \<notin> set (av_affected a)" "CHR 0x5C \<notin> set (av_title a)"
    using assms(2) by (simp_all add: spans_hold_def)
  let ?link = "case av_url a of None \<Rightarrow> av_id a | Some u \<Rightarrow> if u = [] then av_id a else ''['' @ av_id a @ '']('' @ u @ '')''"
  have link: "CHR 0x5C \<notin> set ?link" using assms(2) by (auto simp: spans_hold_def split: option.split)
  note h = f code_span_hides[OF sp(1)] code_span_hides[OF sp(2)] cell_hides[OF link] cell_hides[OF sp(3)]
  have last: "mention_free (outside Plain (cell (av_title a) @ '' |''))"
    using h by (auto simp: outside_append intro!: mention_free_append)
  have last2: "md_end Plain (cell (av_title a) @ '' |'') = Plain" using h by simp
  have head: "mention_free (outside Plain (''| '' @ s)) \<longleftrightarrow> mention_free (outside Plain s)"
    "md_end Plain (''| '' @ s) = md_end Plain s" for s by simp_all
  show ?thesis
    unfolding table_row_def Let_def head
    by (intro conjI outside_cell h last) (simp only: md_end_cell h last2)
qed

lemma join_hides:
  "\<forall>r\<in>set rs. mention_free (outside Plain r) \<and> md_end Plain r = Plain \<Longrightarrow>
    mention_free (outside Plain (py_join [CHR 0x0A] rs)) \<and> md_end Plain (py_join [CHR 0x0A] rs) = Plain"
proof (induction "[CHR 0x0A]" rs rule: py_join.induct)
  case (3 x y zs)
  then have "mention_free (outside Plain x @ CHR 0x0A # outside Plain (py_join [CHR 0x0A] (y # zs)))"
    by (intro mention_free_append) auto
  with 3 show ?case by (simp add: outside_append)
qed simp_all

text \<open>
  C40. The table of the findings of a report holds exactly one line for each finding under
  its header, with exactly six cells whatever the texts in them, and no character that
  could open a comment, so nothing upstream reads as the scan's own marker. No name in the
  table stands outside a code span where GitHub would mention it, as long as no package
  name or version has a backtick and no title, name or link a backslash; and the same for
  any text the scan writes as a cell, the reason of a failed scan included.
\<close>

theorem table_contained:
  assumes "\<forall>a\<in>set as. read_ok a"
  shows "CHR ''<'' \<notin> set (table as) \<and> length (filter ((=) (CHR 0x0A)) (table as)) = length as + 2
    \<and> (\<forall>a\<in>set as. boundaries (CHR 0x0A) (table_row a) = 7)
    \<and> ((\<forall>a\<in>set as. spans_hold a) \<longrightarrow> mention_free (outside Plain (table as)))
    \<and> (CHR 0x5C \<notin> set upstream \<longrightarrow> mention_free (outside Plain (cell upstream))) \<and> pipes_escaped p (cell upstream)"
proof -
  let ?rows = "table_header @ map table_row as"
  have rows: "\<forall>r\<in>set ?rows. CHR 0x0A \<notin> set r \<and> CHR ''<'' \<notin> set r"
    using row_clean assms by (simp add: table_header_def)
  have "length (filter ((=) (CHR 0x0A)) (py_join nl ?rows)) = length ?rows - 1"
    by (rule count_in_join) (use rows in \<open>auto simp: table_header_def\<close>)
  moreover have "CHR ''<'' \<notin> set (py_join nl ?rows)"
    using set_join[of "CHR ''<''" nl ?rows] rows by auto
  moreover have "mention_free (outside Plain (table as))" if "\<forall>a\<in>set as. spans_hold a"
  proof -
    have "\<forall>r\<in>set table_header. mention_free (outside Plain r) \<and> md_end Plain r = Plain" by code_simp
    then have "\<forall>r\<in>set ?rows. mention_free (outside Plain r) \<and> md_end Plain r = Plain" using row_hides assms that by auto
    from join_hides[OF this] show ?thesis
      by (auto simp: table_def outside_append intro!: mention_free_append)
  qed
  ultimately show ?thesis
    using row_boundaries assms by (simp add: table_def table_header_def cell_hides cell_pipes)
qed

end
