(* ===== verification/Scan_Witness.thy ===== *)
theory Scan_Witness
  imports Scan_News Scan_Cell
begin

text \<open>
  Concrete inputs at which the properties of the scan apply: a report in which uv forked
  one package into three versions whose groups name one problem in two ways, and the day
  after an advisory was filed.
\<close>

definition demo_record :: "string \<Rightarrow> string \<Rightarrow> json" where
  "demo_record ident summary = JObj [(''id'', JStr ident), (''summary'', JStr summary)]"

definition demo_entry :: "string \<Rightarrow> json list \<Rightarrow> json list \<Rightarrow> json" where
  "demo_entry version groups records = JObj
     [(''package'', JObj [(''name'', JStr ''idna''), (''version'', JStr version)]),
      (''groups'', JList groups), (''vulnerabilities'', JList records)]"

definition demo_group :: "string list \<Rightarrow> string \<Rightarrow> json" where
  "demo_group ids score = JObj [(''ids'', JList (map JStr ids)), (''max_severity'', JStr score)]"

definition demo_results :: "json_record list" where
  "demo_results = [[(''packages'', JList
     [demo_entry ''3.6'' [demo_group [''GHSA-a''] ''5.0''] [demo_record ''GHSA-a'' ''A traversal''],
      demo_entry ''3.7'' [demo_group [''PYSEC-b''] ''9.1''] [],
      demo_entry ''3.8'' [demo_group [''PYSEC-b'', ''GHSA-a''] ''n/a''] []])]]"

definition demo_report :: json where
  "demo_report = JObj [(''results'', JList (map JObj demo_results))]"

definition demo_number :: "string \<Rightarrow> pyfloat option" where
  "demo_number s = (if s = ''5.0'' then Some (Fin 5) else if s = ''9.1'' then Some (Fin (91 / 10)) else None)"

definition demo_scan_loads :: "string \<Rightarrow> loads_result" where
  "demo_scan_loads s = Loaded demo_report"

definition demo_finding :: advisory where
  "demo_finding = \<lparr>av_ecosystem = ''pypi'', av_package = ''idna'', av_affected = ''3.7, 3.6, 3.8'', av_id = ''GHSA-a'',
     av_severity = ''critical'', av_title = ''A traversal'', av_url = Some (advisory_url ''GHSA-a''),
     av_aliases = [''GHSA-a'', ''PYSEC-b'']\<rparr>"

text \<open>The versions are not in the order of the report once a finding absorbs two.\<close>

lemma demo_parsed: "parse_osv_scanner demo_scan_loads demo_number ''{}'' 1 = Inr [demo_finding]"
  by code_simp

theorem findings_merged_witness:
  "\<exists>raw. raw_results demo_number demo_results = Inr raw \<and> length raw = 3
     \<and> (\<forall>r\<in>set raw. \<exists>!f. f \<in> set [demo_finding] \<and> says_all r f)"
proof -
  have r: "results_of demo_report = Some demo_results" by code_simp
  obtain report rs raw where l: "demo_scan_loads ''{}'' = Loaded report" and rs: "results_of report = Some rs"
    and raw: "raw_results demo_number rs = Inr raw" and all: "\<forall>r\<in>set raw. \<exists>!f. f \<in> set [demo_finding] \<and> says_all r f"
    using findings_merged[OF demo_parsed] by blast
  from l rs r have "rs = demo_results" by (simp add: demo_scan_loads_def)
  moreover have "map_sum id length (raw_results demo_number demo_results) = Inr 3" by code_simp
  ultimately show ?thesis using raw all by simp
qed

theorem state_read_back_witness:
  "map_sum id (\<lambda>d. string_items (jget d ''advisories''))
     (state_in reference_loads (JStr (advisories_body (mk_scan [demo_finding] [] [] [] [] [])
        [(''pypi:idna:GHSA-a'', ''critical'')] []))) = Inr [(''pypi:idna:GHSA-a'', ''critical'')]"
  using state_read_back[OF reference_decodes, of "[(''pypi:idna:GHSA-a'', ''critical'')]"] by simp

definition demo_scan :: scan where
  "demo_scan = mk_scan [demo_finding] [] ''main'' ''0123abc'' ''https://run'' ''2026-11-06 14:57Z''"

definition demo_issue :: json_record where
  "demo_issue = [(''number'', JInt 812), (''title'', JStr advisories_title),
     (''body'', JStr (marker (advisories_state [(''pypi:idna:PYSEC-b'', ''moderate'')]) @ nl)),
     (''author'', JObj [(''login'', JStr scan_author)])]"

lemma demo_issue_own: "own_issues [demo_issue] = [demo_issue]" "titled advisories_title [demo_issue] = Some demo_issue"
  by code_simp+

lemma demo_well_named: "well_named (sc_advisories demo_scan)"
proof -
  have "sc_advisories demo_scan = [demo_finding]" by code_simp
  moreover have "av_key demo_finding \<in> set (alias_keys demo_finding)" by code_simp
  ultimately show ?thesis by (simp add: well_named_def)
qed

lemma demo_filed: "known_in reference_loads (titled advisories_title [demo_issue]) = Inr [(''pypi:idna:PYSEC-b'', ''moderate'')]"
  by code_simp

text \<open>Filed as moderate under its other name, now critical: it pages, under the name it has now.\<close>

lemma demo_steps:
  "fold_names (map av_key (sc_advisories demo_scan)) (sc_advisories demo_scan) ([(''pypi:idna:PYSEC-b'', ''moderate'')], [])
    = ([(''pypi:idna:GHSA-a'', ''moderate'')], [(''pypi:idna:PYSEC-b'', ''pypi:idna:GHSA-a'')])"
  "added_in demo_scan [(''pypi:idna:GHSA-a'', ''moderate'')] = []"
  "escalated_in demo_scan [(''pypi:idna:GHSA-a'', ''moderate'')] = [demo_finding]"
  "unnamed_ecosystem (sc_advisories demo_scan) = None"
  "label_for [demo_finding] = paging_label"
  "titled error_title [demo_issue] = None" "sc_errors demo_scan = []"
  by code_simp+

lemma demo_planned:
  "\<exists>p. advisories_plan reference_loads demo_scan [demo_issue] = Inr (Some p) \<and> plans reference_loads demo_scan [demo_issue] = Inr [p]"
proof -
  have "map_of demo_issue ''number'' = Some (JInt 812)" by (simp add: demo_issue_def)
  then obtain p where p: "advisories_plan reference_loads demo_scan [demo_issue] = Inr (Some p)"
    using demo_filed by (simp add: advisories_plan_def Let_def demo_steps demo_issue_own number_of_def)
  moreover have "error_plan reference_loads demo_scan [demo_issue] = Inr None"
    by (simp add: error_plan_def demo_steps)
  ultimately show ?thesis by (simp add: plans_def demo_issue_own)
qed

theorem scan_settles_witness:
  "\<exists>p. plans reference_loads demo_scan [demo_issue] = Inr [p]
     \<and> plans reference_loads demo_scan (applied (\<lambda>t. JInt 900) p [demo_issue]) = Inr []"
proof -
  obtain p where p: "plans reference_loads demo_scan [demo_issue] = Inr [p]" using demo_planned by blast
  have "plans reference_loads demo_scan (fold (applied (\<lambda>t. JInt 900)) [p] [demo_issue]) = Inr []"
  proof (rule scan_settles[OF reference_decodes well_named_keys[OF demo_well_named] _ _ p])
    show "issues_ok [demo_issue]" by (simp add: issues_ok_def demo_issue_own) (simp add: demo_issue_def)
    show "\<forall>t. Some (JInt 900) \<notin> (\<lambda>i. map_of i ''number'') ` set (own_issues [demo_issue])"
      by (simp add: demo_issue_own) (simp add: demo_issue_def)
  qed
  with p show ?thesis by simp
qed

theorem scan_pages_news_witness:
  "\<exists>p. advisories_plan reference_loads demo_scan [demo_issue] = Inr (Some p) \<and> paging_label \<in> set (pl_labels p)"
proof -
  obtain p where p: "advisories_plan reference_loads demo_scan [demo_issue] = Inr (Some p)"
    using demo_planned by blast
  have "\<exists>a\<in>set (sc_advisories demo_scan). pages a \<and> \<not> paged_before [(''pypi:idna:PYSEC-b'', ''moderate'')]
      (map av_key (sc_advisories demo_scan)) a" by code_simp
  with scan_pages_news[OF demo_well_named demo_filed p] p show ?thesis by simp
qed

text \<open>A finding whose texts try everything the table stops.\<close>

definition demo_noisy :: advisory where
  "demo_noisy = demo_finding\<lparr>av_package := ''id|na'', av_title := ''<!-- ask @origin | now''\<rparr>"

theorem table_contained_witness:
  "CHR ''<'' \<notin> set (table [demo_noisy]) \<and> length (filter ((=) (CHR 0x0A)) (table [demo_noisy])) = 3
    \<and> boundaries (CHR 0x0A) (table_row demo_noisy) = 7 \<and> mention_free (outside Plain (table [demo_noisy]))"
proof -
  have "\<forall>a\<in>set [demo_noisy]. read_ok a" by code_simp
  note t = table_contained[OF this]
  have "\<forall>a\<in>set [demo_noisy]. spans_hold a" by code_simp
  with t show ?thesis by simp
qed

text \<open>
  What \<open>spans_hold\<close> is for: a backslash before an \<open>@name\<close> of a title, or a backtick in a
  package name, leaves the name where GitHub mentions it.
\<close>

lemma spans_undone:
  "\<not> mention_free (outside Plain (cell ([CHR 0x5C] @ ''@origin'')))"
  "\<not> mention_free (outside Plain (code_span (''x'' @ [CHR 0x60] @ '' @origin'')))"
  by code_simp+

end
