(* ===== verification/Logfmt.thy ===== *)
theory Logfmt
  imports Prelude
begin

text \<open>
  \<open>logfmt.py\<close>: the grammar of every line the daemon emits. \<open>render_value\<close> makes a
  value safe for one token, \<open>log_fields\<close> joins \<open>key=value\<close> pairs and drops the absent
  ones, \<open>paint\<close> wraps a known token in its colour. A keyword-argument mapping is the
  list of its pairs in call order, a value one of the Python types the callers pass.
\<close>

datatype field_value = VNone | VStr string | VBool bool | VInt int

type_synonym fields = "(string \<times> field_value) list"

definition opt_str :: "string option \<Rightarrow> field_value" where
  "opt_str s = (case s of None \<Rightarrow> VNone | Some t \<Rightarrow> VStr t)"

subsection \<open>Rendering\<close>

definition py_str :: "field_value \<Rightarrow> string" where
  "py_str v = (case v of VNone \<Rightarrow> ''None'' | VStr s \<Rightarrow> s
     | VBool b \<Rightarrow> (if b then ''true'' else ''false'') | VInt i \<Rightarrow> str_int i)"

definition needs_quotes :: "string \<Rightarrow> bool" where
  "needs_quotes t = (CHR '' '' \<in> set t \<or> CHR ''='' \<in> set t \<or> CHR 0x22 \<in> set t)"

definition render_value :: "field_value \<Rightarrow> string" where
  "render_value v =
     (let text = py_str v;
          text = py_join '' '' (py_split (map (\<lambda>c. if is_control c then CHR '' '' else c) text))
      in if needs_quotes text
         then [CHR 0x22] @ map (\<lambda>c. if c = CHR 0x22 then CHR 0x27 else c) text @ [CHR 0x22]
         else text)"

definition render_field :: "string \<times> field_value \<Rightarrow> string list" where
  "render_field kv = (case snd kv of VNone \<Rightarrow> []
     | v \<Rightarrow> (let text = render_value v in if text = [] then [] else [fst kv @ ''='' @ text]))"

definition log_fields :: "fields \<Rightarrow> string" where
  "log_fields pairs = py_join '' '' (concat (map render_field pairs))"

subsection \<open>The palette\<close>

datatype colour = Green | Blue | Yellow | Red

definition esc :: "string \<Rightarrow> string" where
  "esc s = CHR 0x1B # CHR 0x5B # s"

definition ansi :: "colour \<Rightarrow> string" where
  "ansi c = esc (case c of Green \<Rightarrow> ''32m'' | Blue \<Rightarrow> ''34m'' | Yellow \<Rightarrow> ''33m'' | Red \<Rightarrow> ''31m'')"

definition reset :: string where "reset = esc ''0m''"

definition palette :: "(string \<times> colour) list" where
  "palette =
    [(''event=wake_start'', Green), (''outcome=ok'', Green), (''event=breaker_reset'', Green),
     (''event=wake_end'', Blue),
     (''event=wake_retry'', Yellow), (''event=wake_refused'', Yellow),
     (''event=wake_lock_stale'', Yellow), (''event=wake_stopped'', Yellow),
     (''outcome=stopped'', Yellow),
     (''outcome=failed'', Red), (''outcome=rejected'', Red), (''event=breaker_tripped'', Red),
     (''event=wake_lock_unreadable'', Red)]"

definition paint :: "string \<Rightarrow> string" where
  "paint token = (case map_of palette token of
     Some c \<Rightarrow> ansi c @ token @ reset | None \<Rightarrow> token)"

text \<open>A line handed to a logger, at its level.\<close>

datatype level = Info | Warning | Error

type_synonym log_line = "level \<times> string"

subsection \<open>A rendered value cannot forge a field\<close>

text \<open>Every character of a value is printable, and a space only occurs inside quotes.\<close>

lemma py_join_chars: "c \<in> set (py_join sep ws) \<Longrightarrow> c \<in> set sep \<or> (\<exists>w\<in>set ws. c \<in> set w)"
  by (induction sep ws rule: py_join.induct) auto

lemma py_split_chars: "w \<in> set (py_split s) \<Longrightarrow> set w \<subseteq> set s"
proof (induction s rule: py_split.induct)
  case (1 s)
  show ?case
  proof (cases "dropWhile is_space s")
    case Nil
    with "1.prems" show ?thesis by (subst (asm) py_split.simps) simp
  next
    case (Cons c t)
    have ct: "set (c # t) \<subseteq> set s"
      using Cons by (metis set_dropWhileD subsetI)
    from "1.prems" consider "w = c # takeWhile (\<lambda>x. \<not> is_space x) t"
      | "w \<in> set (py_split (dropWhile (\<lambda>x. \<not> is_space x) t))"
      by (subst (asm) py_split.simps) (auto simp: Cons)
    then show ?thesis
    proof cases
      case 1
      then show ?thesis using ct by (auto dest: set_takeWhileD)
    next
      case 2
      with "1.IH"[OF Cons] have "set w \<subseteq> set t" by (meson set_dropWhileD subset_iff)
      with ct show ?thesis by auto
    qed
  qed
qed

definition collapsed :: "string \<Rightarrow> string" where
  "collapsed s = py_join '' '' (py_split (map (\<lambda>c. if is_control c then CHR '' '' else c) s))"

lemma collapsed_no_control: "c \<in> set (collapsed s) \<Longrightarrow> \<not> is_control c"
proof -
  assume c: "c \<in> set (collapsed s)"
  have sp: "\<not> is_control (CHR '' '')" by (simp add: is_control_def)
  from py_join_chars[OF c[unfolded collapsed_def]]
  show ?thesis
  proof
    assume "c \<in> set '' ''"
    with sp show ?thesis by simp
  next
    assume "\<exists>w\<in>set (py_split (map (\<lambda>c. if is_control c then CHR '' '' else c) s)). c \<in> set w"
    then have "c \<in> set (map (\<lambda>c. if is_control c then CHR '' '' else c) s)"
      by (meson py_split_chars subsetD)
    with sp show ?thesis by (auto split: if_splits)
  qed
qed

lemma render_value_collapsed:
  "render_value v = (let t = collapsed (py_str v) in
     if needs_quotes t
     then [CHR 0x22] @ map (\<lambda>c. if c = CHR 0x22 then CHR 0x27 else c) t @ [CHR 0x22] else t)"
  by (simp add: render_value_def collapsed_def Let_def)

lemma render_value_no_control: "c \<in> set (render_value v) \<Longrightarrow> \<not> is_control c"
  using collapsed_no_control[of _ "py_str v"]
  by (auto simp: render_value_collapsed Let_def is_control_def[of "CHR 0x22"]
      is_control_def[of "CHR 0x27"] split: if_splits)

text \<open>
  The shape of a token: no quote, space or equals sign at all, or one quoted run whose
  inside has no quote.
\<close>

definition safe_token :: "string \<Rightarrow> bool" where
  "safe_token t = ((\<forall>c\<in>set t. \<not> is_control c) \<and>
     (\<not> needs_quotes t
      \<or> (\<exists>m. t = [CHR 0x22] @ m @ [CHR 0x22] \<and> CHR 0x22 \<notin> set m)))"

lemma render_value_safe: "safe_token (render_value v)"
proof -
  let ?t = "collapsed (py_str v)"
  have nc: "\<forall>c\<in>set (render_value v). \<not> is_control c"
    using render_value_no_control by blast
  show ?thesis
  proof (cases "needs_quotes ?t")
    case True
    let ?m = "map (\<lambda>c. if c = CHR 0x22 then CHR 0x27 else c) ?t"
    have "render_value v = [CHR 0x22] @ ?m @ [CHR 0x22]"
      using True by (simp add: render_value_collapsed)
    moreover have "CHR 0x22 \<notin> set ?m" by (auto split: if_splits)
    ultimately show ?thesis unfolding safe_token_def using nc by blast
  next
    case False
    then have "render_value v = ?t" by (simp add: render_value_collapsed)
    with False nc show ?thesis by (simp add: safe_token_def)
  qed
qed

text \<open>A painted token still contains the token it was given, uncut.\<close>

lemma paint_contains: "\<exists>pre post. paint token = pre @ token @ post"
  by (cases "map_of palette token") (auto simp: paint_def intro: exI[of _ "[]"])

end
