(* ===== verification/Breaker.thy ===== *)
theory Breaker
  imports Logfmt "HOL-Library.Multiset"
begin

text \<open>
  \<open>breaker.py\<close>: the wake-rate circuit breaker. A rolling window of dispatch times per
  agent and per (agent, stream); over its threshold a scope trips for the cooldown, then
  resets; every \<open>gc_interval\<close> admits the stale windows are dropped. \<open>admit\<close> takes the
  clock's reading as an argument and returns the outcome, the new state and the lines it
  logged.
\<close>

subsection \<open>Configuration, state, outcomes\<close>

record breaker_config =
  max_wakes :: int
  window :: pyfloat
  cooldown :: pyfloat
  stream_max_wakes :: int

text \<open>The \<open>ValueError\<close> of each check, with the value its message prints.\<close>

datatype breaker_refusal = MaxWakesBelowOne int | WindowNotPositive pyfloat | CooldownNegative pyfloat
  | StreamMaxNegative int

definition mk_breaker_config :: "int \<Rightarrow> pyfloat \<Rightarrow> pyfloat \<Rightarrow> int \<Rightarrow> breaker_refusal + breaker_config" where
  "mk_breaker_config m w c s =
     (if m < 1 then Inl (MaxWakesBelowOne m)
      else if fl_le w (Fin 0) then Inl (WindowNotPositive w)
      else if fl_lt c (Fin 0) then Inl (CooldownNegative c)
      else if s < 0 then Inl (StreamMaxNegative s)
      else Inr \<lparr>max_wakes = m, window = w, cooldown = c, stream_max_wakes = s\<rparr>)"

definition default_breaker_config :: breaker_config where
  "default_breaker_config =
     \<lparr>max_wakes = 20, window = Fin 60, cooldown = Fin 60, stream_max_wakes = 15\<rparr>"

datatype breaker_state = Admitted | Tripped | Open

datatype scope_kind = AgentScope | StreamScope

definition scope_name :: "scope_kind \<Rightarrow> string" where
  "scope_name k = (case k of AgentScope \<Rightarrow> ''agent'' | StreamScope \<Rightarrow> ''stream'')"

record breaker_outcome =
  bo_state :: breaker_state
  bo_scope :: string
  bo_key :: string
  bo_count :: nat

definition admitted :: "breaker_outcome \<Rightarrow> bool" where
  "admitted b = (bo_state b = Admitted)"

definition state_value :: "breaker_state \<Rightarrow> string" where
  "state_value s = (case s of Admitted \<Rightarrow> ''admitted'' | Tripped \<Rightarrow> ''tripped'' | Open \<Rightarrow> ''open'')"

definition bo_detail :: "breaker_outcome \<Rightarrow> string" where
  "bo_detail b = (if admitted b then ''admitted''
     else state_value (bo_state b) @ '' scope='' @ bo_scope b @ '' key='' @ bo_key b
          @ '' count='' @ str_int (int (bo_count b)))"

record wake_window =
  timestamps :: "rat list"
  tripped_until :: "pyfloat option"

datatype window_key = AgentKey string | StreamKey string string

record breaker =
  windows :: "window_key \<Rightarrow> wake_window option"
  admits_since_gc :: nat

definition gc_interval :: nat where "gc_interval = 1024"

definition empty_window :: wake_window where
  "empty_window = \<lparr>timestamps = [], tripped_until = None\<rparr>"

definition init_breaker :: breaker where
  "init_breaker = \<lparr>windows = (\<lambda>_. None), admits_since_gc = 0\<rparr>"

subsection \<open>Garbage collection\<close>

definition stale :: "breaker_config \<Rightarrow> rat \<Rightarrow> wake_window \<Rightarrow> bool" where
  "stale cfg now w = (tripped_until w = None \<and>
     (timestamps w = [] \<or> fl_le (Fin (last (timestamps w))) (fl_sub now (window cfg))))"

definition breaker_gc :: "breaker_config \<Rightarrow> rat \<Rightarrow> breaker \<Rightarrow> breaker" where
  "breaker_gc cfg now b = b\<lparr>windows := (\<lambda>k. case windows b k of
     None \<Rightarrow> None | Some w \<Rightarrow> if stale cfg now w then None else Some w)\<rparr>"

definition tick_gc :: "breaker_config \<Rightarrow> rat \<Rightarrow> breaker \<Rightarrow> breaker" where
  "tick_gc cfg now b =
     (let b = b\<lparr>admits_since_gc := Suc (admits_since_gc b)\<rparr> in
      if admits_since_gc b \<ge> gc_interval
      then (breaker_gc cfg now b)\<lparr>admits_since_gc := 0\<rparr> else b)"

subsection \<open>One admit\<close>

text \<open>A scope to check: its kind, its window's key, its threshold, the key it displays.\<close>

type_synonym scope = "scope_kind \<times> window_key \<times> int \<times> string"

definition scopes_for :: "breaker_config \<Rightarrow> string \<Rightarrow> string option \<Rightarrow> scope list" where
  "scopes_for cfg agent stream =
     (AgentScope, AgentKey agent, max_wakes cfg, agent) #
     (case stream of None \<Rightarrow> []
      | Some s \<Rightarrow> if stream_max_wakes cfg > 0
                  then [(StreamScope, StreamKey agent s, stream_max_wakes cfg, s)] else [])"

definition set_window :: "window_key \<Rightarrow> wake_window \<Rightarrow> breaker \<Rightarrow> breaker" where
  "set_window k w b = b\<lparr>windows := (windows b)(k := Some w)\<rparr>"

definition probe_head :: "string \<Rightarrow> string" where
  "probe_head src = (if src = [] then [] else ''PROBE '')"

definition trip_level :: "string \<Rightarrow> level" where
  "trip_level src = (if src = [] then Error else Info)"

definition refused_line :: "string \<Rightarrow> string \<Rightarrow> scope_kind \<Rightarrow> string \<Rightarrow> log_line" where
  "refused_line src agent sc display = (Warning, probe_head src @ paint ''event=wake_refused'' @ '' '' @
     log_fields [(''reason'', VStr ''breaker_open''), (''agent'', VStr agent),
       (''scope'', VStr (scope_name sc)), (''key'', VStr display), (''source'', VStr src)])"

definition reset_line :: "string \<Rightarrow> string \<Rightarrow> scope_kind \<Rightarrow> string \<Rightarrow> log_line" where
  "reset_line src agent sc display = (Info, probe_head src @ paint ''event=breaker_reset'' @ '' '' @
     log_fields [(''agent'', VStr agent), (''scope'', VStr (scope_name sc)), (''key'', VStr display),
       (''source'', VStr src)])"

definition trip_line ::
  "breaker_config \<Rightarrow> string \<Rightarrow> string \<Rightarrow> scope_kind \<Rightarrow> string \<Rightarrow> nat \<Rightarrow> int \<Rightarrow> log_line" where
  "trip_line cfg src agent sc display n threshold =
     (trip_level src, probe_head src @ paint ''event=breaker_tripped'' @ '' '' @
     log_fields [(''agent'', VStr agent), (''scope'', VStr (scope_name sc)), (''key'', VStr display),
       (''count'', VInt (int n)), (''threshold'', VInt threshold),
       (''window'', VStr (fmt0 (window cfg) @ ''s'')),
       (''cooldown'', VStr (fmt0 (cooldown cfg) @ ''s'')), (''source'', VStr src)])"

text \<open>Pass 1: a scope mid-cooldown refuses; one whose cooldown is over is reset.\<close>

fun check_open :: "string \<Rightarrow> string \<Rightarrow> rat \<Rightarrow> scope list \<Rightarrow> breaker
    \<Rightarrow> breaker_outcome option \<times> breaker \<times> log_line list" where
  "check_open src agent now [] b = (None, b, [])"
| "check_open src agent now ((sc, k, thr, display) # rest) b =
     (case windows b k of
        None \<Rightarrow> check_open src agent now rest b
      | Some w \<Rightarrow> (case tripped_until w of
          None \<Rightarrow> check_open src agent now rest b
        | Some u \<Rightarrow>
            if fl_lt (Fin now) u
            then (Some \<lparr>bo_state = Open, bo_scope = scope_name sc, bo_key = display, bo_count = 0\<rparr>,
                  b, [refused_line src agent sc display])
            else (let (r, b', ls) = check_open src agent now rest (set_window k empty_window b)
                  in (r, b', reset_line src agent sc display # ls))))"

definition prune :: "breaker_config \<Rightarrow> rat \<Rightarrow> rat list \<Rightarrow> rat list" where
  "prune cfg now ts = dropWhile (\<lambda>t. fl_le (Fin t) (fl_sub now (window cfg))) ts"

text \<open>Pass 2: record the dispatch in each scope; the first one over its threshold trips.\<close>

fun record_wake :: "breaker_config \<Rightarrow> string \<Rightarrow> string \<Rightarrow> rat \<Rightarrow> scope list \<Rightarrow> breaker
    \<Rightarrow> breaker_outcome \<times> breaker \<times> log_line list" where
  "record_wake cfg src agent now [] b =
     (\<lparr>bo_state = Admitted, bo_scope = [], bo_key = [], bo_count = 0\<rparr>, b, [])"
| "record_wake cfg src agent now ((sc, k, thr, display) # rest) b =
     (let w = (case windows b k of None \<Rightarrow> empty_window | Some w \<Rightarrow> w);
          ts = prune cfg now (timestamps w) @ [now];
          w = w\<lparr>timestamps := ts\<rparr>
      in if int (length ts) > thr
         then (\<lparr>bo_state = Tripped, bo_scope = scope_name sc, bo_key = display,
                bo_count = length ts\<rparr>,
               set_window k (w\<lparr>tripped_until := Some (fl_add now (cooldown cfg))\<rparr>) b,
               [trip_line cfg src agent sc display (length ts) thr])
         else record_wake cfg src agent now rest (set_window k w b))"

definition admit_scopes :: "breaker_config \<Rightarrow> string \<Rightarrow> rat \<Rightarrow> string \<Rightarrow> string option \<Rightarrow> breaker
    \<Rightarrow> breaker_outcome \<times> breaker \<times> log_line list" where
  "admit_scopes cfg src now agent stream b =
     (let scopes = scopes_for cfg agent stream;
          (r, b1, ls1) = check_open src agent now scopes b
      in case r of
           Some out \<Rightarrow> (out, b1, ls1)
         | None \<Rightarrow> (let (out, b2, ls2) = record_wake cfg src agent now scopes b1
                    in (out, b2, ls1 @ ls2)))"

definition admit :: "breaker_config \<Rightarrow> string \<Rightarrow> rat \<Rightarrow> string \<Rightarrow> string option \<Rightarrow> breaker
    \<Rightarrow> breaker_outcome \<times> breaker \<times> log_line list" where
  "admit cfg src now agent stream b = admit_scopes cfg src now agent stream (tick_gc cfg now b)"

subsection \<open>Runs\<close>

text \<open>A call: the clock's reading, the agent, the stream.\<close>

type_synonym admit_call = "rat \<times> string \<times> string option"

fun run_admits :: "breaker_config \<Rightarrow> string \<Rightarrow> breaker \<Rightarrow> admit_call list
    \<Rightarrow> breaker_outcome list \<times> breaker" where
  "run_admits cfg src b [] = ([], b)"
| "run_admits cfg src b ((now, a, s) # cs) =
     (let (out, b', _) = admit cfg src now a s b; (outs, b'') = run_admits cfg src b' cs
      in (out # outs, b''))"

definition call_time :: "admit_call \<Rightarrow> rat" where "call_time = fst"
definition call_agent :: "admit_call \<Rightarrow> string" where "call_agent c = fst (snd c)"

text \<open>The dispatch times of one agent in a run: the calls the breaker admitted.\<close>

fun dispatched :: "string \<Rightarrow> admit_call list \<Rightarrow> breaker_outcome list \<Rightarrow> rat list" where
  "dispatched a (c # cs) (out # outs) =
     (if admitted out \<and> call_agent c = a then call_time c # dispatched a cs outs
      else dispatched a cs outs)"
| "dispatched a _ _ = []"

subsection \<open>The passes, window by window\<close>

definition scope_keys :: "scope list \<Rightarrow> window_key list" where
  "scope_keys scs = map (\<lambda>(sc, k, thr, d). k) scs"

lemma distinct_scopes: "distinct (scope_keys (scopes_for cfg a s))"
  by (simp add: scope_keys_def scopes_for_def split: option.split)

lemma set_window_simps [simp]:
  "windows (set_window k w b) k = Some w"
  "j \<noteq> k \<Longrightarrow> windows (set_window k w b) j = windows b j"
  by (simp_all add: set_window_def)

lemma empty_window_simps [simp]:
  "timestamps empty_window = []" "tripped_until empty_window = None"
  by (simp_all add: empty_window_def)

lemma check_open_windows:
  "check_open src a now scs b = (r, b', ls) \<Longrightarrow>
     windows b' k = windows b k
     \<or> (windows b' k = Some empty_window \<and>
        (\<exists>w u. windows b k = Some w \<and> tripped_until w = Some u \<and> \<not> fl_lt (Fin now) u))"
proof (induction src a now scs b arbitrary: r b' ls rule: check_open.induct)
  case (1 src a now b)
  then show ?case by simp
next
  case (2 src a now sc j thr d rest b)
  show ?case
  proof (cases "windows b j")
    case None
    with 2 show ?thesis by auto
  next
    case (Some w)
    show ?thesis
    proof (cases "tripped_until w")
      case None
      with Some 2 show ?thesis by auto
    next
      case (Some u)
      show ?thesis
      proof (cases "fl_lt (Fin now) u")
        case True
        with 2(4) Some \<open>windows b j = Some w\<close> show ?thesis by auto
      next
        case False
        obtain r1 b1 l1 where c: "check_open src a now rest (set_window j empty_window b) = (r1, b1, l1)"
          by (cases "check_open src a now rest (set_window j empty_window b)")
        have "b' = b1" using 2(4) Some False \<open>windows b j = Some w\<close> c by auto
        with 2(3)[OF \<open>windows b j = Some w\<close> Some False c] Some False \<open>windows b j = Some w\<close>
        show ?thesis by (cases "k = j") auto
      qed
    qed
  qed
qed

lemma check_open_None:
  "check_open src a now scs b = (None, b', ls) \<Longrightarrow> k \<in> set (scope_keys scs) \<Longrightarrow>
     windows b' k = None \<or> (\<exists>w. windows b' k = Some w \<and> tripped_until w = None)"
proof (induction src a now scs b arbitrary: b' ls k rule: check_open.induct)
  case (1 src a now b)
  then show ?case by (simp add: scope_keys_def)
next
  case (2 src a now sc j thr d rest b)
  obtain b0 ls0 where c: "check_open src a now rest b0 = (None, b', ls0)"
    and unt: "windows b0 j = None \<or> (\<exists>w. windows b0 j = Some w \<and> tripped_until w = None)"
    and IH: "\<And>k. k \<in> set (scope_keys rest) \<Longrightarrow>
      windows b' k = None \<or> (\<exists>w. windows b' k = Some w \<and> tripped_until w = None)"
  proof (cases "windows b j")
    case None
    then have c: "check_open src a now rest b = (None, b', ls)" using "2.prems"(1) by simp
    show ?thesis using that[OF c] 2(1)[OF None c] None by blast
  next
    case (Some w)
    show ?thesis
    proof (cases "tripped_until w")
      case None
      then have c: "check_open src a now rest b = (None, b', ls)"
        using "2.prems"(1) Some by simp
      show ?thesis using that[OF c] 2(2)[OF Some None c] Some None by blast
    next
      case (Some u)
      with 2(4) \<open>windows b j = Some w\<close> have nl: "\<not> fl_lt (Fin now) u" by (auto split: if_splits)
      with 2(4) Some \<open>windows b j = Some w\<close> obtain l1 where
        c: "check_open src a now rest (set_window j empty_window b) = (None, b', l1)"
        by (auto split: prod.splits)
      then show ?thesis
        using that[OF c] 2(3)[OF \<open>windows b j = Some w\<close> Some nl c] by auto
    qed
  qed
  show ?case
  proof (cases "k \<in> set (scope_keys rest)")
    case True
    with IH show ?thesis by simp
  next
    case False
    with "2.prems"(2) have "k = j" by (simp add: scope_keys_def)
    with check_open_windows[OF c, of j] unt show ?thesis by auto
  qed
qed

definition base_window :: "breaker \<Rightarrow> window_key \<Rightarrow> wake_window" where
  "base_window b k = (case windows b k of None \<Rightarrow> empty_window | Some w \<Rightarrow> w)"

definition pushed :: "breaker_config \<Rightarrow> rat \<Rightarrow> breaker \<Rightarrow> window_key \<Rightarrow> rat list" where
  "pushed cfg now b k = prune cfg now (timestamps (base_window b k)) @ [now]"

text \<open>What pass 2 leaves in a window: untouched, one dispatch added, or tripped.\<close>

definition recorded :: "breaker_config \<Rightarrow> rat \<Rightarrow> breaker \<Rightarrow> breaker \<Rightarrow> window_key \<Rightarrow> bool" where
  "recorded cfg now b b' k = (\<exists>w. windows b' k = Some w \<and> timestamps w = pushed cfg now b k
     \<and> tripped_until w = tripped_until (base_window b k))"

definition tripped_now :: "breaker_config \<Rightarrow> rat \<Rightarrow> breaker \<Rightarrow> breaker \<Rightarrow> window_key \<Rightarrow> bool" where
  "tripped_now cfg now b b' k = (\<exists>w. windows b' k = Some w \<and> timestamps w = pushed cfg now b k
     \<and> tripped_until w = Some (fl_add now (cooldown cfg)))"

lemma record_wake_step:
  "record_wake cfg src a now ((sc, k, thr, d) # rest) b =
     (if int (length (pushed cfg now b k)) > thr
      then (\<lparr>bo_state = Tripped, bo_scope = scope_name sc, bo_key = d,
              bo_count = length (pushed cfg now b k)\<rparr>,
            set_window k ((base_window b k)\<lparr>timestamps := pushed cfg now b k,
               tripped_until := Some (fl_add now (cooldown cfg))\<rparr>) b,
            [trip_line cfg src a sc d (length (pushed cfg now b k)) thr])
      else record_wake cfg src a now rest
             (set_window k ((base_window b k)\<lparr>timestamps := pushed cfg now b k\<rparr>) b))"
  by (simp add: Let_def pushed_def base_window_def)

lemma pushed_set_window [simp]: "j \<noteq> k \<Longrightarrow> pushed cfg now (set_window k w b) j = pushed cfg now b j"
  by (simp add: pushed_def base_window_def)

lemma base_window_set_window [simp]: "j \<noteq> k \<Longrightarrow> base_window (set_window k w b) j = base_window b j"
  by (simp add: base_window_def)

lemma record_wake_windows:
  assumes "record_wake cfg src a now scs b = (out, b', ls)" and "distinct (scope_keys scs)"
  shows "k \<notin> set (scope_keys scs) \<Longrightarrow> windows b' k = windows b k"
    and "windows b' k = windows b k \<or> recorded cfg now b b' k \<or> tripped_now cfg now b b' k"
    and "admitted out \<Longrightarrow> (sc, k, thr, d) \<in> set scs \<Longrightarrow>
           recorded cfg now b b' k \<and> int (length (pushed cfg now b k)) \<le> thr"
    and "bo_state out \<noteq> Open"
proof -
  have "(\<forall>k. k \<notin> set (scope_keys scs) \<longrightarrow> windows b' k = windows b k)
    \<and> (\<forall>k. windows b' k = windows b k \<or> recorded cfg now b b' k \<or> tripped_now cfg now b b' k)
    \<and> (admitted out \<longrightarrow> (\<forall>(sc, k, thr, d) \<in> set scs.
           recorded cfg now b b' k \<and> int (length (pushed cfg now b k)) \<le> thr))
    \<and> bo_state out \<noteq> Open"
    using assms
  proof (induction scs arbitrary: b)
    case Nil
    then show ?case by (auto simp: scope_keys_def)
  next
    case (Cons e rest)
    obtain sc j thr d where e: "e = (sc, j, thr, d)" by (cases e)
    have ndj: "j \<notin> set (scope_keys rest)" and dr: "distinct (scope_keys rest)"
      using Cons.prems(2) by (simp_all add: e scope_keys_def)
    have sk: "set (scope_keys (e # rest)) = insert j (set (scope_keys rest))"
      by (simp add: e scope_keys_def)
    show ?case
    proof (cases "int (length (pushed cfg now b j)) > thr")
      case True
      have b': "b' = set_window j ((base_window b j)\<lparr>timestamps := pushed cfg now b j,
               tripped_until := Some (fl_add now (cooldown cfg))\<rparr>) b"
        and out: "bo_state out = Tripped"
        using Cons.prems(1) True unfolding e record_wake_step by auto
      have tn: "tripped_now cfg now b b' j" by (simp add: b' tripped_now_def)
      have oth: "\<And>k. k \<noteq> j \<Longrightarrow> windows b' k = windows b k" by (simp add: b')
      have "\<not> admitted out" using out by (simp add: admitted_def)
      then show ?thesis using tn oth out sk by (metis breaker_state.distinct(6) insertI1)
    next
      case False
      let ?b1 = "set_window j ((base_window b j)\<lparr>timestamps := pushed cfg now b j\<rparr>) b"
      have r: "record_wake cfg src a now rest ?b1 = (out, b', ls)"
        using Cons.prems(1) False unfolding e record_wake_step by simp
      note IH = Cons.IH[OF r dr]
      have wj: "windows b' j = windows ?b1 j" using IH ndj by blast
      then have rj: "recorded cfg now b b' j" by (simp add: recorded_def)
      have oth: "k \<noteq> j \<Longrightarrow> recorded cfg now ?b1 b' k = recorded cfg now b b' k
          \<and> tripped_now cfg now ?b1 b' k = tripped_now cfg now b b' k
          \<and> windows ?b1 k = windows b k \<and> pushed cfg now ?b1 k = pushed cfg now b k" for k
        by (simp add: recorded_def tripped_now_def)
      have p1: "\<forall>k. k \<notin> set (scope_keys (e # rest)) \<longrightarrow> windows b' k = windows b k"
      proof (intro allI impI)
        fix k assume "k \<notin> set (scope_keys (e # rest))"
        then have "k \<noteq> j" "k \<notin> set (scope_keys rest)" using sk by auto
        with IH oth[of k] show "windows b' k = windows b k" by simp
      qed
      have p2: "\<forall>k. windows b' k = windows b k \<or> recorded cfg now b b' k \<or> tripped_now cfg now b b' k"
      proof
        fix k
        have "windows b' k = windows ?b1 k \<or> recorded cfg now ?b1 b' k \<or> tripped_now cfg now ?b1 b' k"
          using IH by blast
        then show "windows b' k = windows b k \<or> recorded cfg now b b' k \<or> tripped_now cfg now b b' k"
          using oth[of k] rj by (cases "k = j") auto
      qed
      have p3: "\<forall>(sc, k, thr, d) \<in> set (e # rest). recorded cfg now b b' k
           \<and> int (length (pushed cfg now b k)) \<le> thr" if "admitted out"
      proof -
        have "\<forall>(sc, k, thr, d) \<in> set rest. recorded cfg now ?b1 b' k
           \<and> int (length (pushed cfg now ?b1 k)) \<le> thr"
          using IH that by blast
        moreover have ne: "k \<noteq> j" if "(sc, k, thr, d) \<in> set rest" for sc k thr d
          using ndj that by (force simp: scope_keys_def image_iff)
        ultimately have "recorded cfg now b b' k \<and> int (length (pushed cfg now b k)) \<le> t"
          if "(sc, k, t, d) \<in> set rest" for sc k t d
          using that oth[OF ne[OF that]] by fastforce
        then show ?thesis using rj False by (auto simp: e)
      qed
      show ?thesis using p1 p2 p3 IH by blast
    qed
  qed
  then show "k \<notin> set (scope_keys scs) \<Longrightarrow> windows b' k = windows b k"
    and "windows b' k = windows b k \<or> recorded cfg now b b' k \<or> tripped_now cfg now b b' k"
    and "admitted out \<Longrightarrow> (sc, k, thr, d) \<in> set scs \<Longrightarrow>
           recorded cfg now b b' k \<and> int (length (pushed cfg now b k)) \<le> thr"
    and "bo_state out \<noteq> Open"
    by blast+
qed

end
