(* ===== verification/Breaker_Props.thy ===== *)
theory Breaker_Props
  imports Breaker
begin

text \<open>
  What the breaker guarantees over runs of calls with a clock that does not go back: the
  dispatch rate of an agent stays within its threshold in every window, a trip holds for
  the whole cooldown and ends with it, and the periodic garbage collection cannot be
  observed (the breaker refines the one that never collects).
\<close>

subsection \<open>Well-formed windows\<close>

definition win_ok :: "rat \<Rightarrow> wake_window \<Rightarrow> bool" where
  "win_ok T w \<longleftrightarrow> sorted (timestamps w) \<and> (\<forall>t\<in>set (timestamps w). t \<le> T)"

definition breaker_ok :: "rat \<Rightarrow> breaker \<Rightarrow> bool" where
  "breaker_ok T b \<longleftrightarrow> (\<forall>k w. windows b k = Some w \<longrightarrow> win_ok T w)"

lemma breaker_ok_later: "breaker_ok T b \<Longrightarrow> T \<le> now \<Longrightarrow> breaker_ok now b"
  unfolding breaker_ok_def win_ok_def by (meson order_trans)

lemma breaker_okD: "breaker_ok T b \<Longrightarrow> windows b k = Some w \<Longrightarrow> win_ok T w"
  by (simp add: breaker_ok_def)

lemma windows_tick_gc:
  "windows (tick_gc cfg now b) k = windows b k
   \<or> (windows (tick_gc cfg now b) k = None \<and> (\<exists>w. windows b k = Some w \<and> stale cfg now w))"
  by (auto simp: tick_gc_def breaker_gc_def Let_def split: option.splits)

lemma breaker_ok_tick_gc: "breaker_ok T b \<Longrightarrow> breaker_ok T (tick_gc cfg now b)"
  unfolding breaker_ok_def using windows_tick_gc[of cfg now b] by (metis option.distinct(1))

lemma win_ok_pushed:
  assumes "breaker_ok now b" and "timestamps w = pushed cfg now b k"
  shows "win_ok now w"
proof -
  have bw: "win_ok now (base_window b k)"
    using assms(1) by (auto simp: base_window_def breaker_ok_def win_ok_def split: option.splits)
  have sub: "set (prune cfg now ts) \<subseteq> set ts" for ts
    unfolding prune_def by (meson set_dropWhileD subsetI)
  have "sorted (prune cfg now (timestamps (base_window b k)))"
    using bw unfolding prune_def win_ok_def by (simp add: sorted_dropWhile)
  then show ?thesis
    using bw sub[of "timestamps (base_window b k)"] assms(2)
    unfolding win_ok_def pushed_def by (auto simp: sorted_append)
qed

text \<open>How one admit, collection apart, changes a window.\<close>

lemma admit_scopes_cases:
  assumes "admit_scopes cfg src now a s b = (out, b', ls)"
  obtains (refused) ls1 where
      "check_open src a now (scopes_for cfg a s) b = (Some out, b', ls1)"
  | (passed) b1 ls1 ls2 where
      "check_open src a now (scopes_for cfg a s) b = (None, b1, ls1)"
      "record_wake cfg src a now (scopes_for cfg a s) b1 = (out, b', ls2)"
  using assms by (auto simp: admit_scopes_def Let_def split: prod.splits option.splits)

lemma check_open_refuses:
  "check_open src a now scs b = (Some out, b', ls) \<Longrightarrow> bo_state out = Open"
  by (induction src a now scs b arbitrary: b' ls rule: check_open.induct)
    (auto split: option.splits if_splits prod.splits)

lemma breaker_ok_check_open:
  "check_open src a now scs b = (r, b', ls) \<Longrightarrow> breaker_ok now b \<Longrightarrow> breaker_ok now b'"
  unfolding breaker_ok_def using check_open_windows[of src a now scs b r b' ls]
  by (metis empty_iff empty_window_simps(1) list.set(1) option.inject sorted_simps(1) win_ok_def)

lemma breaker_ok_record_wake:
  assumes "record_wake cfg src a now (scopes_for cfg a s) b = (out, b', ls)" "breaker_ok now b"
  shows "breaker_ok now b'"
  unfolding breaker_ok_def
proof (intro allI impI)
  fix k w assume w: "windows b' k = Some w"
  from record_wake_windows(2)[OF assms(1) distinct_scopes, of k] w assms(2)
  show "win_ok now w"
    by (auto simp: recorded_def tripped_now_def breaker_ok_def intro: win_ok_pushed[OF assms(2)])
qed

lemma breaker_ok_admit_scopes:
  assumes "admit_scopes cfg src now a s b = (out, b', ls)" "breaker_ok now b"
  shows "breaker_ok now b'"
  using assms(1) by (cases rule: admit_scopes_cases)
    (use assms(2) breaker_ok_check_open breaker_ok_record_wake in blast)+

subsection \<open>The dispatch rate\<close>

text \<open>
  What the window of an agent knows of its dispatch history \<open>h\<close>: an untripped window
  holds every dispatch younger than \<open>W\<close>, a tripped one stays so until all are older.
\<close>

definition covers :: "rat \<Rightarrow> rat \<Rightarrow> rat list \<Rightarrow> wake_window option \<Rightarrow> bool" where
  "covers W T h ow \<longleftrightarrow> (case ow of
      None \<Rightarrow> filter (\<lambda>s. T - W < s) h = []
    | Some w \<Rightarrow> (case tripped_until w of
        None \<Rightarrow> mset (filter (\<lambda>s. T - W < s) h) \<subseteq># mset (timestamps w)
      | Some u \<Rightarrow> \<forall>s\<in>set h. fl_le (Fin (s + W)) u))"

lemma recent_later: "T \<le> now \<Longrightarrow>
    mset (filter (\<lambda>s. now - W < s) h) \<subseteq># mset (filter (\<lambda>s. T - W < s) (h::rat list))"
  by (auto simp: mset_filter intro!: filter_mset_mono_strong)

lemma covers_later: "covers W T h ow \<Longrightarrow> T \<le> now \<Longrightarrow> covers W now h ow"
  unfolding covers_def
  by (auto split: option.splits simp: filter_empty_conv
      dest: subset_mset.order_trans[OF recent_later])

lemma covers_stale:
  assumes "covers W now h (Some w)" and "win_ok now w" and "stale cfg now w"
    and "window cfg = Fin W"
  shows "covers W now h None"
proof -
  have old: "t \<le> now - W" if "t \<in> set (timestamps w)" for t
  proof -
    have "timestamps w \<noteq> []" using that by auto
    then have "last (timestamps w) \<le> now - W" "t \<le> last (timestamps w)"
      using assms(2,3,4) that by (auto simp: stale_def win_ok_def intro: sorted_le_last)
    then show ?thesis by linarith
  qed
  have sub: "mset (filter (\<lambda>s. now - W < s) h) \<subseteq># mset (timestamps w)"
    using assms(1,3) by (simp add: covers_def stale_def)
  have "s \<in> set (timestamps w)" if "s \<in> set (filter (\<lambda>s. now - W < s) h)" for s
    using sub that by (metis mset_subset_eqD set_mset_mset)
  with old have "filter (\<lambda>s. now - W < s) h = []" by (fastforce simp: filter_empty_conv)
  then show ?thesis by (simp add: covers_def)
qed

lemma covers_reset:
  assumes "covers W now h (Some w)" and "tripped_until w = Some u" and "\<not> fl_lt (Fin now) u"
  shows "covers W now h (Some empty_window)"
proof -
  have "s \<le> now - W" if "s \<in> set h" for s
  proof -
    have "fl_le (Fin (s + W)) u" using assms(1,2) that by (auto simp: covers_def)
    then show ?thesis using assms(3) by (cases u) auto
  qed
  then have "filter (\<lambda>s. now - W < s) h = []" by (fastforce simp: filter_empty_conv)
  then show ?thesis by (simp add: covers_def)
qed

lemma recent_in_prune:
  assumes "mset (filter (\<lambda>s. now - W < s) h) \<subseteq># mset ts" and "window cfg = Fin W"
  shows "mset (filter (\<lambda>s. now - W < s) h) \<subseteq># mset (prune cfg now ts)"
proof -
  let ?old = "takeWhile (\<lambda>t. fl_le (Fin t) (fl_sub now (window cfg))) ts"
  have "filter (\<lambda>s. now - W < s) ?old = []"
    using assms(2) by (auto simp: filter_empty_conv dest: set_takeWhileD)
  then have "filter (\<lambda>s. now - W < s) ts = filter (\<lambda>s. now - W < s) (prune cfg now ts)"
    unfolding prune_def
    by (metis (no_types, lifting) append_Nil filter_append takeWhile_dropWhile_id)
  moreover have "mset (filter (\<lambda>s. now - W < s) h) \<subseteq># mset (filter (\<lambda>s. now - W < s) ts)"
    using multiset_filter_mono[OF assms(1), of "\<lambda>s. now - W < s"]
    by (simp add: mset_filter filter_filter_mset)
  ultimately show ?thesis
    by (metis mset_filter multiset_filter_subset subset_mset.order_trans)
qed

definition rate_inv :: "rat \<Rightarrow> rat \<Rightarrow> (string \<Rightarrow> rat list) \<Rightarrow> breaker \<Rightarrow> bool" where
  "rate_inv W T h b \<longleftrightarrow> breaker_ok T b \<and> (\<forall>a. covers W T (h a) (windows b (AgentKey a)))
     \<and> (\<forall>a. \<forall>s\<in>set (h a). s \<le> T)"

lemma rate_inv_later: "rate_inv W T h b \<Longrightarrow> T \<le> now \<Longrightarrow> rate_inv W now h b"
  unfolding rate_inv_def by (meson breaker_ok_later covers_later order_trans)

lemma rate_inv_tick_gc:
  assumes "rate_inv W now h b" and "window cfg = Fin W"
  shows "rate_inv W now h (tick_gc cfg now b)"
proof -
  have "covers W now (h a) (windows (tick_gc cfg now b) (AgentKey a))" for a
  proof -
    have c: "covers W now (h a) (windows b (AgentKey a))" and ok: "breaker_ok now b"
      using assms(1) by (simp_all add: rate_inv_def)
    from windows_tick_gc[of cfg now b "AgentKey a"] show ?thesis
    proof
      assume "windows (tick_gc cfg now b) (AgentKey a) = windows b (AgentKey a)"
      with c show ?thesis by simp
    next
      assume "windows (tick_gc cfg now b) (AgentKey a) = None
        \<and> (\<exists>w. windows b (AgentKey a) = Some w \<and> stale cfg now w)"
      then show ?thesis using c covers_stale[OF _ breaker_okD[OF ok] _ assms(2)] by force
    qed
  qed
  then show ?thesis using assms(1) by (simp add: rate_inv_def breaker_ok_tick_gc)
qed

lemma rate_inv_check_open:
  assumes "rate_inv W now h b" and "check_open src a now scs b = (r, b', ls)"
  shows "rate_inv W now h b'"
proof -
  have "covers W now (h c) (windows b' (AgentKey c))" for c
  proof -
    have c: "covers W now (h c) (windows b (AgentKey c))" using assms(1) by (simp add: rate_inv_def)
    with check_open_windows[OF assms(2), of "AgentKey c"] covers_reset show ?thesis by force
  qed
  then show ?thesis using assms breaker_ok_check_open by (auto simp: rate_inv_def)
qed

lemma agent_scope_in: "(AgentScope, AgentKey a, max_wakes cfg, a) \<in> set (scopes_for cfg a s)"
  by (simp add: scopes_for_def)

lemma agent_key_in: "AgentKey c \<in> set (scope_keys (scopes_for cfg a s)) \<longleftrightarrow> c = a"
  by (auto simp: scopes_for_def scope_keys_def split: option.splits)

lemma rate_inv_record_wake:
  assumes inv: "rate_inv W now h b" and cfg: "window cfg = Fin W" "cooldown cfg = Fin C" "W \<le> C"
    and unt: "windows b (AgentKey a) = None
      \<or> (\<exists>w. windows b (AgentKey a) = Some w \<and> tripped_until w = None)"
    and rw: "record_wake cfg src a now (scopes_for cfg a s) b = (out, b', ls)"
    and h': "h' = (if admitted out then h(a := now # h a) else h)" and W: "0 < W"
  shows "rate_inv W now h' b'"
    and "admitted out \<Longrightarrow> int (length (filter (\<lambda>s. now - W < s) (h' a))) \<le> max_wakes cfg"
proof -
  note rww = record_wake_windows[OF rw distinct_scopes]
  have le: "\<forall>s\<in>set (h a). s \<le> now" using inv by (simp add: rate_inv_def)
  have base: "mset (filter (\<lambda>s. now - W < s) (h a)) \<subseteq># mset (timestamps (base_window b (AgentKey a)))"
    and bt: "tripped_until (base_window b (AgentKey a)) = None"
  proof -
    have c: "covers W now (h a) (windows b (AgentKey a))" using inv by (simp add: rate_inv_def)
    from unt c show "mset (filter (\<lambda>s. now - W < s) (h a))
        \<subseteq># mset (timestamps (base_window b (AgentKey a)))"
      by (auto simp: base_window_def covers_def simp del: mset_filter)
    from unt show "tripped_until (base_window b (AgentKey a)) = None"
      by (auto simp: base_window_def)
  qed
  have push: "mset (filter (\<lambda>s. now - W < s) (now # h a)) \<subseteq># mset (pushed cfg now b (AgentKey a))"
    using recent_in_prune[OF base cfg(1)] W by (simp add: pushed_def)
  have push0: "mset (filter (\<lambda>s. now - W < s) (h a)) \<subseteq># mset (pushed cfg now b (AgentKey a))"
    by (rule subset_mset.order_trans[OF recent_in_prune[OF base cfg(1)]]) (simp add: pushed_def)
  have cov: "covers W now (h' c) (windows b' (AgentKey c))" for c
  proof (cases "c = a")
    case False
    then have "windows b' (AgentKey c) = windows b (AgentKey c)"
      using rww(1) agent_key_in by blast
    moreover have "h' c = h c" using False h' by simp
    ultimately show ?thesis using inv by (simp add: rate_inv_def)
  next
    case True
    show ?thesis
    proof (cases "admitted out")
      case True
      then have "recorded cfg now b b' (AgentKey a)" using rww(3) agent_scope_in by blast
      with push bt True \<open>c = a\<close> h' show ?thesis by (auto simp: recorded_def covers_def)
    next
      case False
      with h' \<open>c = a\<close> have hc: "h' c = h a" by simp
      from rww(2)[of "AgentKey a"]
      consider "windows b' (AgentKey a) = windows b (AgentKey a)"
        | "recorded cfg now b b' (AgentKey a)" | "tripped_now cfg now b b' (AgentKey a)" by blast
      then show ?thesis
      proof cases
        case 1
        then show ?thesis using inv hc \<open>c = a\<close> by (simp add: rate_inv_def)
      next
        case 2
        then show ?thesis using push0 bt hc \<open>c = a\<close> by (auto simp: recorded_def covers_def)
      next
        case 3
        then show ?thesis using le cfg hc \<open>c = a\<close>
          by (fastforce simp: tripped_now_def covers_def)
      qed
    qed
  qed
  have times: "\<forall>c. \<forall>s\<in>set (h' c). s \<le> now" using inv h' by (auto simp: rate_inv_def)
  show "rate_inv W now h' b'"
    using cov times breaker_ok_record_wake[OF rw] inv by (simp add: rate_inv_def)
  assume adm: "admitted out"
  then have "int (length (pushed cfg now b (AgentKey a))) \<le> max_wakes cfg"
    using rww(3) agent_scope_in by blast
  moreover have "length (filter (\<lambda>s. now - W < s) (now # h a)) \<le> length (pushed cfg now b (AgentKey a))"
    using size_mset_mono[OF push] by simp
  ultimately show "int (length (filter (\<lambda>s. now - W < s) (h' a))) \<le> max_wakes cfg"
    using adm h' by simp
qed

lemma rate_inv_admit:
  assumes inv: "rate_inv W T h b" and "T \<le> now"
    and cfg: "window cfg = Fin W" "cooldown cfg = Fin C" "W \<le> C" "0 < W"
    and ad: "admit cfg src now a s b = (out, b', ls)"
    and h': "h' = (if admitted out then h(a := now # h a) else h)"
  shows "rate_inv W now h' b'
    \<and> (admitted out \<longrightarrow> int (length (filter (\<lambda>s. now - W < s) (h' a))) \<le> max_wakes cfg)"
proof -
  have inv0: "rate_inv W now h (tick_gc cfg now b)"
    using rate_inv_tick_gc[OF rate_inv_later[OF inv \<open>T \<le> now\<close>] cfg(1)] .
  from ad[unfolded admit_def] show ?thesis
  proof (cases rule: admit_scopes_cases)
    case (refused ls1)
    have "\<not> admitted out" using check_open_refuses[OF refused] by (simp add: admitted_def)
    with rate_inv_check_open[OF inv0 refused] h' show ?thesis by simp
  next
    case (passed b1 ls1 ls2)
    have "windows b1 (AgentKey a) = None
      \<or> (\<exists>w. windows b1 (AgentKey a) = Some w \<and> tripped_until w = None)"
      using check_open_None[OF passed(1)] agent_key_in by blast
    from rate_inv_record_wake[OF rate_inv_check_open[OF inv0 passed(1)] cfg(1-3) this passed(2) h' cfg(4)]
    show ?thesis by blast
  qed
qed

definition in_window :: "rat \<Rightarrow> rat \<Rightarrow> rat \<Rightarrow> bool" where
  "in_window W t s = (t - W < s \<and> s \<le> t)"

definition rate_ok :: "breaker_config \<Rightarrow> rat \<Rightarrow> (string \<Rightarrow> rat list) \<Rightarrow> bool" where
  "rate_ok cfg W h = (\<forall>a t. int (length (filter (in_window W t) (h a))) \<le> max_wakes cfg)"

lemma rate_ok_extend:
  assumes "rate_ok cfg W h" and "int (length (filter (\<lambda>s. now - W < s) (now # h a))) \<le> max_wakes cfg"
  shows "rate_ok cfg W (h(a := now # h a))"
  unfolding rate_ok_def
proof (intro allI)
  fix c t
  show "int (length (filter (in_window W t) ((h(a := now # h a)) c))) \<le> max_wakes cfg"
  proof (cases "c = a \<and> now \<le> t")
    case True
    then have "\<And>s. in_window W t s \<Longrightarrow> now - W < s" by (auto simp: in_window_def)
    then have "mset (filter (in_window W t) (now # h a)) \<subseteq># mset (filter (\<lambda>s. now - W < s) (now # h a))"
      unfolding mset_filter by (intro filter_mset_mono_strong) auto
    from size_mset_mono[OF this] show ?thesis using assms(2) True by simp
  next
    case False
    then show ?thesis using assms(1) by (auto simp: rate_ok_def in_window_def)
  qed
qed

lemma rate_run:
  assumes "window cfg = Fin W" "cooldown cfg = Fin C" "W \<le> C" "0 < W"
  shows "rate_inv W T h b \<Longrightarrow> rate_ok cfg W h \<Longrightarrow> sorted (map call_time calls)
    \<Longrightarrow> \<forall>c\<in>set calls. T \<le> call_time c \<Longrightarrow> run_admits cfg src b calls = (outs, b')
    \<Longrightarrow> rate_ok cfg W (\<lambda>a. rev (dispatched a calls outs) @ h a)"
proof (induction calls arbitrary: T h b b' outs)
  case Nil
  then show ?case by simp
next
  case (Cons c calls)
  obtain now a s where c: "c = (now, a, s)" by (cases c)
  obtain out b1 ls where ad: "admit cfg src now a s b = (out, b1, ls)"
    by (cases "admit cfg src now a s b")
  obtain outs1 b2 where ru: "run_admits cfg src b1 calls = (outs1, b2)"
    by (cases "run_admits cfg src b1 calls")
  have outs: "outs = out # outs1" using Cons.prems(5) by (simp add: c ad ru)
  define h' where "h' = (if admitted out then h(a := now # h a) else h)"
  have "T \<le> now" using Cons.prems(4) by (simp add: c call_time_def)
  note step = rate_inv_admit[OF Cons.prems(1) this assms ad h'_def]
  have rok: "rate_ok cfg W h'"
    using step rate_ok_extend[OF Cons.prems(2), of now a] Cons.prems(2) by (auto simp: h'_def)
  have "sorted (map call_time calls)" "\<forall>c\<in>set calls. now \<le> call_time c"
    using Cons.prems(3) by (auto simp: c call_time_def)
  from Cons.IH[OF conjunct1[OF step] rok this ru]
  have "rate_ok cfg W (\<lambda>x. rev (dispatched x calls outs1) @ h' x)" .
  moreover have "(\<lambda>x. rev (dispatched x calls outs1) @ h' x)
      = (\<lambda>x. rev (dispatched x (c # calls) outs) @ h x)"
    by (auto simp: fun_eq_iff h'_def outs c call_agent_def call_time_def)
  ultimately show ?case by simp
qed

lemma rate_inv_init: "rate_inv W T (\<lambda>_. []) init_breaker"
  by (simp add: rate_inv_def breaker_ok_def init_breaker_def covers_def)

text \<open>The two shapes a reader of the configuration relies on.\<close>

lemma mk_breaker_config_Inr:
  "mk_breaker_config m w c s = Inr cfg \<Longrightarrow> cfg = \<lparr>max_wakes = m, window = w, cooldown = c,
     stream_max_wakes = s\<rparr> \<and> 1 \<le> m \<and> 0 \<le> s \<and> \<not> fl_le w (Fin 0) \<and> \<not> fl_lt c (Fin 0)"
  by (auto simp: mk_breaker_config_def split: if_splits)

subsection \<open>A trip holds for the whole cooldown\<close>

definition agent_tripped :: "string \<Rightarrow> pyfloat \<Rightarrow> breaker \<Rightarrow> bool" where
  "agent_tripped a u b = (\<exists>w. windows b (AgentKey a) = Some w \<and> tripped_until w = Some u)"

lemma agent_tripped_tick: "agent_tripped a u b \<Longrightarrow> agent_tripped a u (tick_gc cfg now b)"
  using windows_tick_gc[of cfg now b "AgentKey a"] by (auto simp: agent_tripped_def stale_def)

lemma agent_tripped_admit:
  assumes "agent_tripped a u b" and "fl_lt (Fin now) u" and "admit cfg src now c s b = (out, b', ls)"
  shows "agent_tripped a u b' \<and> (c = a \<longrightarrow> bo_state out = Open)"
proof -
  let ?b = "tick_gc cfg now b"
  obtain w where w: "windows ?b (AgentKey a) = Some w" "tripped_until w = Some u"
    using agent_tripped_tick[OF assms(1)] by (auto simp: agent_tripped_def)
  have keep: "windows b1 (AgentKey a) = Some w"
    if "check_open src c now (scopes_for cfg c s) ?b = (r, b1, l)" for r b1 l
    using check_open_windows[OF that, of "AgentKey a"] w assms(2) by auto
  from assms(3)[unfolded admit_def] show ?thesis
  proof (cases rule: admit_scopes_cases)
    case (refused ls1)
    then show ?thesis using keep w check_open_refuses by (auto simp: agent_tripped_def)
  next
    case (passed b1 ls1 ls2)
    have ne: "c \<noteq> a"
      using check_open_None[OF passed(1), of "AgentKey a"] keep[OF passed(1)] w agent_key_in by auto
    then have "windows b' (AgentKey a) = windows b1 (AgentKey a)"
      using record_wake_windows(1)[OF passed(2) distinct_scopes] agent_key_in by metis
    with keep[OF passed(1)] w ne show ?thesis by (auto simp: agent_tripped_def)
  qed
qed

lemma tripped_run:
  assumes "run_admits cfg src b calls = (outs, b')" and "agent_tripped a u b"
    and "\<forall>c\<in>set calls. fl_lt (Fin (call_time c)) u"
  shows "length outs = length calls \<and>
    (\<forall>i<length calls. call_agent (calls ! i) = a \<longrightarrow> bo_state (outs ! i) = Open)"
  using assms
proof (induction calls arbitrary: b b' outs)
  case Nil
  then show ?case by simp
next
  case (Cons c calls)
  obtain now x s where c: "c = (now, x, s)" by (cases c)
  obtain out b1 ls where ad: "admit cfg src now x s b = (out, b1, ls)"
    by (cases "admit cfg src now x s b")
  obtain outs1 b2 where ru: "run_admits cfg src b1 calls = (outs1, b2)"
    by (cases "run_admits cfg src b1 calls")
  have outs: "outs = out # outs1" using Cons.prems(1) by (simp add: c ad ru)
  have lt: "fl_lt (Fin now) u" using Cons.prems(3) by (simp add: c call_time_def)
  note st = agent_tripped_admit[OF Cons.prems(2) lt ad]
  have "\<forall>c\<in>set calls. fl_lt (Fin (call_time c)) u" using Cons.prems(3) by simp
  from Cons.IH[OF ru conjunct1[OF st] this] st
  show ?case by (auto simp: outs c call_agent_def nth_Cons split: nat.splits)
qed

lemma trip_leaves_tripped:
  assumes "admit cfg src now a s b = (out, b', ls)" and "bo_state out = Tripped"
    and "bo_scope out = scope_name AgentScope"
  shows "agent_tripped a (fl_add now (cooldown cfg)) b'"
  using assms(1)[unfolded admit_def]
proof (cases rule: admit_scopes_cases)
  case (refused ls1)
  then show ?thesis using check_open_refuses assms(2) by fastforce
next
  case (passed b1 ls1 ls2)
  show ?thesis
    using passed(2) assms(2,3) unfolding scopes_for_def
    by (auto simp del: record_wake.simps simp: record_wake_step record_wake.simps(1) agent_tripped_def
        scope_name_def split: option.splits if_splits)
qed

subsection \<open>A quiet period always heals\<close>

definition heal_inv :: "rat \<Rightarrow> rat \<Rightarrow> breaker \<Rightarrow> bool" where
  "heal_inv C T b \<longleftrightarrow> breaker_ok T b \<and>
     (\<forall>k w u. windows b k = Some w \<longrightarrow> tripped_until w = Some u \<longrightarrow> fl_le u (Fin (T + C)))"

lemma fl_le_Fin_right: "fl_le u (Fin a) \<Longrightarrow> a \<le> b \<Longrightarrow> fl_le u (Fin b)"
  by (cases u) auto

lemma heal_inv_later: "heal_inv C T b \<Longrightarrow> T \<le> now \<Longrightarrow> heal_inv C now b"
  unfolding heal_inv_def by (meson add_right_mono breaker_ok_later fl_le_Fin_right)

lemma heal_inv_tick: "heal_inv C T b \<Longrightarrow> heal_inv C T (tick_gc cfg now b)"
  unfolding heal_inv_def using windows_tick_gc[of cfg now b] breaker_ok_tick_gc
  by (metis option.distinct(1))

lemma heal_inv_check_open:
  assumes "check_open src a now scs b = (r, b', ls)" and "heal_inv C now b"
  shows "heal_inv C now b'"
proof -
  have "fl_le u (Fin (now + C))" if "windows b' k = Some w" "tripped_until w = Some u" for k w u
    using check_open_windows[OF assms(1), of k] assms(2) that unfolding heal_inv_def
    by (metis empty_window_simps(2) option.distinct(1) option.inject)
  then show ?thesis
    using breaker_ok_check_open[OF assms(1)] assms(2) unfolding heal_inv_def by blast
qed

lemma heal_inv_record_wake:
  assumes rw: "record_wake cfg src a now (scopes_for cfg a s) b = (out, b', ls)"
    and inv: "heal_inv C now b" and C: "cooldown cfg = Fin C"
  shows "heal_inv C now b'"
proof -
  have "fl_le u (Fin (now + C))" if w: "windows b' k = Some w" "tripped_until w = Some u" for k w u
  proof -
    from record_wake_windows(2)[OF rw distinct_scopes, of k]
    consider "windows b' k = windows b k" | "recorded cfg now b b' k" | "tripped_now cfg now b b' k"
      by blast
    then show ?thesis
    proof cases
      case 1
      with w have "windows b k = Some w" by simp
      with w inv show ?thesis unfolding heal_inv_def by blast
    next
      case 2
      with w have "tripped_until (base_window b k) = Some u" by (auto simp: recorded_def)
      with inv show ?thesis by (auto simp: base_window_def heal_inv_def split: option.splits)
    next
      case 3
      with w C show ?thesis by (auto simp: tripped_now_def)
    qed
  qed
  then show ?thesis using breaker_ok_record_wake[OF rw] inv unfolding heal_inv_def by blast
qed

lemma heal_inv_admit:
  assumes "heal_inv C T b" and "T \<le> now" and "cooldown cfg = Fin C"
    and ad: "admit cfg src now a s b = (out, b', ls)"
  shows "heal_inv C now b'"
proof -
  have "heal_inv C now (tick_gc cfg now b)"
    using heal_inv_tick heal_inv_later assms(1,2) by blast
  with ad[unfolded admit_def] show ?thesis
    by (cases rule: admit_scopes_cases)
      (use heal_inv_check_open heal_inv_record_wake assms(3) in blast)+
qed

lemma heal_run:
  assumes "cooldown cfg = Fin C"
  shows "heal_inv C T b \<Longrightarrow> sorted (map call_time calls) \<Longrightarrow> \<forall>c\<in>set calls. T \<le> call_time c
    \<Longrightarrow> run_admits cfg src b calls = (outs, b') \<Longrightarrow> \<forall>c\<in>set calls. call_time c \<le> now \<Longrightarrow> T \<le> now
    \<Longrightarrow> heal_inv C now b'"
proof (induction calls arbitrary: T b b' outs)
  case Nil
  then show ?case using heal_inv_later by simp
next
  case (Cons c calls)
  obtain t a s where c: "c = (t, a, s)" by (cases c)
  obtain out b1 ls where ad: "admit cfg src t a s b = (out, b1, ls)"
    by (cases "admit cfg src t a s b")
  obtain outs1 b2 where ru: "run_admits cfg src b1 calls = (outs1, b2)"
    by (cases "run_admits cfg src b1 calls")
  have b': "b' = b2" using Cons.prems(4) by (simp add: c ad ru)
  have "T \<le> t" "t \<le> now" "sorted (map call_time calls)" "\<forall>c\<in>set calls. t \<le> call_time c"
    using Cons.prems(2,3,5) by (auto simp: c call_time_def)
  with Cons.IH[OF heal_inv_admit[OF Cons.prems(1) _ assms ad] _ _ ru] Cons.prems(5)
  show ?case by (simp add: b')
qed

lemma check_open_all_elapsed:
  assumes "\<forall>k w u. windows b k = Some w \<longrightarrow> tripped_until w = Some u \<longrightarrow> \<not> fl_lt (Fin now) u"
  shows "\<exists>b' ls. check_open src a now scs b = (None, b', ls)"
  using assms
proof (induction src a now scs b rule: check_open.induct)
  case (1 src a now b)
  then show ?case by simp
next
  case (2 src a now sc k thr d rest b)
  show ?case
  proof (cases "windows b k")
    case None
    then show ?thesis using 2 by auto
  next
    case (Some w)
    show ?thesis
    proof (cases "tripped_until w")
      case None
      then show ?thesis using Some 2 by auto
    next
      case (Some u)
      have nl: "\<not> fl_lt (Fin now) u" using 2(4) \<open>windows b k = Some w\<close> Some by blast
      have "\<forall>j w u. windows (set_window k empty_window b) j = Some w
          \<longrightarrow> tripped_until w = Some u \<longrightarrow> \<not> fl_lt (Fin now) u"
        using 2(4) by (auto simp: set_window_def)
      from 2(3)[OF \<open>windows b k = Some w\<close> Some nl this] show ?thesis
        using \<open>windows b k = Some w\<close> Some nl by auto
    qed
  qed
qed

lemma record_wake_all_under:
  assumes "distinct (scope_keys scs)"
    and "\<forall>(sc, k, thr, d) \<in> set scs. int (length (pushed cfg now b k)) \<le> thr"
  shows "admitted (fst (record_wake cfg src a now scs b))"
  using assms
proof (induction scs arbitrary: b)
  case Nil
  then show ?case by (simp add: admitted_def)
next
  case (Cons e rest)
  obtain sc k thr d where e: "e = (sc, k, thr, d)" by (cases e)
  have le: "\<not> thr < int (length (pushed cfg now b k))" using Cons.prems(2) by (simp add: e)
  have "\<forall>(sc, j, thr, d) \<in> set rest. int (length (pushed cfg now
      (set_window k ((base_window b k)\<lparr>timestamps := pushed cfg now b k\<rparr>) b) j)) \<le> thr"
  proof (intro ballI, clarify)
    fix sc' j thr' d' assume m: "(sc', j, thr', d') \<in> set rest"
    then have "j \<noteq> k" using Cons.prems(1) by (force simp: e scope_keys_def image_iff)
    moreover have "int (length (pushed cfg now b j)) \<le> thr'" using Cons.prems(2) m by auto
    ultimately show "int (length (pushed cfg now
      (set_window k ((base_window b k)\<lparr>timestamps := pushed cfg now b k\<rparr>) b) j)) \<le> thr'" by simp
  qed
  from Cons.IH[OF _ this] Cons.prems(1) le show ?case
    unfolding e record_wake_step by (simp add: scope_keys_def)
qed

lemma prune_old: "\<forall>t\<in>set ts. fl_le (Fin t) (fl_sub now (window cfg)) \<Longrightarrow> prune cfg now ts = []"
  by (simp add: prune_def dropWhile_eq_Nil_conv)

lemma quiet_admitted:
  assumes inv: "heal_inv C T b" and cfg: "window cfg = Fin W" "cooldown cfg = Fin C"
    and quiet: "T + W \<le> now" "T + C \<le> now" and m: "1 \<le> max_wakes cfg"
    and ad: "admit cfg src now a s b = (out, b', ls)"
  shows "admitted out"
proof -
  let ?b = "tick_gc cfg now b"
  have inv0: "heal_inv C T ?b" by (rule heal_inv_tick[OF inv])
  have el: "\<not> fl_lt (Fin now) u" if "windows ?b k = Some w" "tripped_until w = Some u" for k w u
  proof -
    have "fl_le u (Fin (T + C))" using inv0 that by (simp add: heal_inv_def)
    then show ?thesis using quiet(2) by (cases u) auto
  qed
  obtain b1 ls1 where co: "check_open src a now (scopes_for cfg a s) ?b = (None, b1, ls1)"
    using check_open_all_elapsed[of ?b now src a "scopes_for cfg a s"] el by blast
  have one: "pushed cfg now b1 k = [now]" for k
  proof -
    have "t \<le> T" if t0: "t \<in> set (timestamps (base_window b1 k))" for t
    proof -
      obtain w where w: "windows b1 k = Some w" "t \<in> set (timestamps w)"
        using t0 by (cases "windows b1 k") (auto simp: base_window_def)
      then have "windows ?b k = Some w" using check_open_windows[OF co, of k] by auto
      with w inv0 show ?thesis unfolding heal_inv_def breaker_ok_def win_ok_def by blast
    qed
    then have "\<forall>t\<in>set (timestamps (base_window b1 k)). fl_le (Fin t) (fl_sub now (window cfg))"
      using quiet(1) cfg(1) by fastforce
    then show ?thesis by (simp add: pushed_def prune_old)
  qed
  have "admitted (fst (record_wake cfg src a now (scopes_for cfg a s) b1))"
    by (rule record_wake_all_under[OF distinct_scopes])
      (use m one in \<open>auto simp: scopes_for_def split: option.splits if_splits\<close>)
  moreover have "out = fst (record_wake cfg src a now (scopes_for cfg a s) b1)"
    using ad[unfolded admit_def] co by (auto simp: admit_scopes_def Let_def split: prod.splits)
  ultimately show ?thesis by simp
qed

lemma heal_inv_init: "heal_inv C T init_breaker"
  by (simp add: heal_inv_def breaker_ok_def init_breaker_def)

subsection \<open>The collection cannot be observed\<close>

text \<open>The breaker without its collection: the specification the real one refines.\<close>

fun run_admits_nogc :: "breaker_config \<Rightarrow> string \<Rightarrow> breaker \<Rightarrow> admit_call list
    \<Rightarrow> breaker_outcome list \<times> breaker" where
  "run_admits_nogc cfg src b [] = ([], b)"
| "run_admits_nogc cfg src b ((now, a, s) # cs) =
     (let (out, b', _) = admit_scopes cfg src now a s b;
          (outs, b'') = run_admits_nogc cfg src b' cs
      in (out # outs, b''))"

definition gc_sim :: "breaker_config \<Rightarrow> rat \<Rightarrow> breaker \<Rightarrow> breaker \<Rightarrow> bool" where
  "gc_sim cfg T b c \<longleftrightarrow> (\<forall>k. windows b k = windows c k
     \<or> (windows b k = None \<and> (\<exists>w. windows c k = Some w \<and> tripped_until w = None
          \<and> (\<forall>t\<in>set (timestamps w). fl_le (Fin t) (fl_sub T (window cfg))))))"

lemma gc_sim_later: "gc_sim cfg T b c \<Longrightarrow> T \<le> now \<Longrightarrow> gc_sim cfg now b c"
  unfolding gc_sim_def by (meson fl_le_fl_sub_mono)

lemma gc_sim_tick:
  assumes "gc_sim cfg now b c" and "breaker_ok now b"
  shows "gc_sim cfg now (tick_gc cfg now b) c"
  unfolding gc_sim_def
proof
  fix k
  let ?rel = "\<lambda>b. windows b k = windows c k
     \<or> (windows b k = None \<and> (\<exists>w. windows c k = Some w \<and> tripped_until w = None
          \<and> (\<forall>t\<in>set (timestamps w). fl_le (Fin t) (fl_sub now (window cfg)))))"
  have b: "?rel b" using assms(1) by (simp add: gc_sim_def)
  from windows_tick_gc[of cfg now b k]
  consider "windows (tick_gc cfg now b) k = windows b k"
    | w where "windows (tick_gc cfg now b) k = None" "windows b k = Some w" "stale cfg now w" by blast
  then show "?rel (tick_gc cfg now b)"
  proof cases
    case 1
    with b show ?thesis by simp
  next
    case 2
    have "win_ok now w" using assms(2) 2(2) by (simp add: breaker_ok_def)
    then have "t \<le> last (timestamps w)" if "t \<in> set (timestamps w)" for t
      using that by (auto simp: win_ok_def intro: sorted_le_last)
    with 2(3) have "\<forall>t\<in>set (timestamps w). fl_le (Fin t) (fl_sub now (window cfg))"
      by (auto simp: stale_def intro: fl_le_Fin_mono)
    moreover have "windows c k = Some w" using b 2(2) by auto
    ultimately show ?thesis using 2 by (auto simp: stale_def)
  qed
qed

lemma gc_sim_set: "gc_sim cfg now b c \<Longrightarrow> gc_sim cfg now (set_window k w b) (set_window k w c)"
  by (auto simp: gc_sim_def set_window_def)

lemma gc_sim_check_open:
  "gc_sim cfg now b c \<Longrightarrow> check_open src a now scs b = (r, b', ls) \<Longrightarrow>
     \<exists>c'. check_open src a now scs c = (r, c', ls) \<and> gc_sim cfg now b' c'"
proof (induction src a now scs b arbitrary: c r b' ls rule: check_open.induct)
  case (1 src a now b)
  then show ?case by simp
next
  case (2 src a now sc k thr d rest b)
  from 2(4) have rel: "windows b k = windows c k
     \<or> (windows b k = None \<and> (\<exists>w. windows c k = Some w \<and> tripped_until w = None))"
    by (auto simp: gc_sim_def)
  show ?case
  proof (cases "windows b k")
    case None
    then have "check_open src a now ((sc, k, thr, d) # rest) c = check_open src a now rest c"
      using rel by auto
    then show ?thesis using 2(1)[OF None 2(4)] 2(5) None by simp
  next
    case (Some w)
    then have ck: "windows c k = Some w" using rel by simp
    show ?thesis
    proof (cases "tripped_until w")
      case None
      then show ?thesis using 2(2)[OF Some None 2(4)] 2(5) Some ck by simp
    next
      case tu: (Some u)
      show ?thesis
      proof (cases "fl_lt (Fin now) u")
        case True
        then show ?thesis using 2(4,5) Some tu ck by auto
      next
        case False
        obtain r1 b1 l1 where co: "check_open src a now rest (set_window k empty_window b) = (r1, b1, l1)"
          by (cases "check_open src a now rest (set_window k empty_window b)")
        from 2(3)[OF Some tu False gc_sim_set[OF 2(4)] co] False 2(5) Some tu ck co
        show ?thesis by auto
      qed
    qed
  qed
qed

lemma gc_sim_pushed:
  assumes "gc_sim cfg now b c"
  shows "pushed cfg now b k = pushed cfg now c k
    \<and> tripped_until (base_window b k) = tripped_until (base_window c k)"
proof -
  have "windows b k = windows c k
     \<or> (windows b k = None \<and> (\<exists>w. windows c k = Some w \<and> tripped_until w = None
          \<and> (\<forall>t\<in>set (timestamps w). fl_le (Fin t) (fl_sub now (window cfg)))))"
    using assms by (simp add: gc_sim_def)
  then show ?thesis
  proof
    assume "windows b k = windows c k"
    then show ?thesis by (simp add: pushed_def base_window_def)
  next
    assume "windows b k = None \<and> (\<exists>w. windows c k = Some w \<and> tripped_until w = None
          \<and> (\<forall>t\<in>set (timestamps w). fl_le (Fin t) (fl_sub now (window cfg))))"
    then show ?thesis by (auto simp: pushed_def base_window_def prune_old prune_def[of _ _ "[]"])
  qed
qed

lemma wake_window_eqI:
  "timestamps v = timestamps w \<Longrightarrow> tripped_until v = tripped_until w \<Longrightarrow> v = (w::wake_window)"
  by simp

lemma gc_sim_record_wake:
  "gc_sim cfg now b c \<Longrightarrow> record_wake cfg src a now scs b = (out, b', ls) \<Longrightarrow>
     \<exists>c'. record_wake cfg src a now scs c = (out, c', ls) \<and> gc_sim cfg now b' c'"
proof (induction scs arbitrary: b c)
  case Nil
  then show ?case by simp
next
  case (Cons e rest)
  obtain sc k thr d where e: "e = (sc, k, thr, d)" by (cases e)
  note p = gc_sim_pushed[OF Cons.prems(1), of k]
  have w1: "(base_window b k)\<lparr>timestamps := X\<rparr> = (base_window c k)\<lparr>timestamps := X\<rparr>"
    and w2: "(base_window b k)\<lparr>timestamps := X, tripped_until := u\<rparr>
      = (base_window c k)\<lparr>timestamps := X, tripped_until := u\<rparr>" for X u
    using p by (auto intro: wake_window_eqI)
  show ?case
  proof (cases "thr < int (length (pushed cfg now b k))")
    case True
    then show ?thesis
      using Cons.prems p w2 unfolding e record_wake_step by (auto simp: gc_sim_set)
  next
    case False
    then have "record_wake cfg src a now rest
        (set_window k ((base_window b k)\<lparr>timestamps := pushed cfg now b k\<rparr>) b) = (out, b', ls)"
      using Cons.prems(2) unfolding e record_wake_step by simp
    from Cons.IH[OF gc_sim_set[OF Cons.prems(1)] this] False p
    show ?thesis unfolding e record_wake_step by (simp add: w1)
  qed
qed

lemma gc_sim_admit_scopes:
  assumes "gc_sim cfg now b c" and "admit_scopes cfg src now a s b = (out, b', ls)"
  shows "\<exists>c'. admit_scopes cfg src now a s c = (out, c', ls) \<and> gc_sim cfg now b' c'"
proof -
  obtain r b1 l1 where co: "check_open src a now (scopes_for cfg a s) b = (r, b1, l1)"
    by (cases "check_open src a now (scopes_for cfg a s) b")
  from gc_sim_check_open[OF assms(1) co] obtain c1
    where c1: "check_open src a now (scopes_for cfg a s) c = (r, c1, l1)" "gc_sim cfg now b1 c1"
    by blast
  show ?thesis
  proof (cases r)
    case (Some o')
    then show ?thesis using assms(2) co c1 by (auto simp: admit_scopes_def)
  next
    case None
    obtain o2 b2 l2 where rw: "record_wake cfg src a now (scopes_for cfg a s) b1 = (o2, b2, l2)"
      by (cases "record_wake cfg src a now (scopes_for cfg a s) b1")
    from gc_sim_record_wake[OF c1(2) rw] obtain c2
      where "record_wake cfg src a now (scopes_for cfg a s) c1 = (o2, c2, l2)" "gc_sim cfg now b2 c2"
      by blast
    then show ?thesis using assms(2) co c1 None rw by (auto simp: admit_scopes_def)
  qed
qed

lemma gc_run:
  "gc_sim cfg T b c \<Longrightarrow> breaker_ok T b \<Longrightarrow> sorted (map call_time calls)
    \<Longrightarrow> \<forall>x\<in>set calls. T \<le> call_time x
    \<Longrightarrow> fst (run_admits cfg src b calls) = fst (run_admits_nogc cfg src c calls)"
proof (induction calls arbitrary: T b c)
  case Nil
  then show ?case by simp
next
  case (Cons x calls)
  obtain now a s where x: "x = (now, a, s)" by (cases x)
  obtain out b1 ls where ad: "admit cfg src now a s b = (out, b1, ls)"
    by (cases "admit cfg src now a s b")
  have T: "T \<le> now" and so: "sorted (map call_time calls)" "\<forall>x\<in>set calls. now \<le> call_time x"
    using Cons.prems(3,4) by (auto simp: x call_time_def)
  have ok: "breaker_ok now (tick_gc cfg now b)" and sim: "gc_sim cfg now (tick_gc cfg now b) c"
    using gc_sim_tick gc_sim_later breaker_ok_tick_gc breaker_ok_later Cons.prems(1,2) T by blast+
  from gc_sim_admit_scopes[OF sim ad[unfolded admit_def]] obtain c1
    where c1: "admit_scopes cfg src now a s c = (out, c1, ls)" "gc_sim cfg now b1 c1" by blast
  have "breaker_ok now b1" by (rule breaker_ok_admit_scopes[OF ad[unfolded admit_def] ok])
  from Cons.IH[OF c1(2) this so] show ?case
    by (auto simp: x ad c1(1) split: prod.splits)
qed

subsection \<open>Properties\<close>

lemma first_call_least:
  "sorted (map call_time calls) \<Longrightarrow> \<exists>T. \<forall>c\<in>set calls. T \<le> call_time c"
  by (cases calls) auto

text \<open>
  C1. With a valid configuration whose cooldown is at least its window (the defaults: 60 s
  and 60 s), no agent is dispatched more than \<open>max_wakes\<close> times in any window of \<open>W\<close>
  seconds, whatever the calls of all agents and streams, trips, resets and collections
  included.
\<close>

theorem breaker_rate_bound:
  assumes "mk_breaker_config m (Fin W) (Fin C) sm = Inr cfg" and "W \<le> C"
    and "sorted (map call_time calls)"
  shows "int (length (filter (in_window W t)
           (dispatched a calls (fst (run_admits cfg src init_breaker calls))))) \<le> m"
proof -
  have cfg: "window cfg = Fin W" "cooldown cfg = Fin C" "0 < W" "1 \<le> m" "max_wakes cfg = m"
    using mk_breaker_config_Inr[OF assms(1)] by auto
  obtain T where T: "\<forall>c\<in>set calls. T \<le> call_time c" using first_call_least[OF assms(3)] by blast
  obtain outs b where run: "run_admits cfg src init_breaker calls = (outs, b)"
    by (cases "run_admits cfg src init_breaker calls")
  have "rate_ok cfg W (\<lambda>_. [])" using cfg by (simp add: rate_ok_def)
  from rate_run[OF cfg(1,2) assms(2) cfg(3) rate_inv_init this assms(3) T run]
  have "rate_ok cfg W (\<lambda>a. rev (dispatched a calls outs))" by simp
  then show ?thesis by (simp add: rate_ok_def run cfg(5) rev_filter[symmetric])
qed

definition demo_calls :: "admit_call list" where
  "demo_calls = [(0, ''nova'', Some ''t1''), (1, ''nova'', None), (2, ''nova'', None), (61, ''nova'', None)]"

lemma breaker_rate_bound_witness:
  "int (length (filter (in_window 60 30) (dispatched ''nova'' demo_calls
     (fst (run_admits \<lparr>max_wakes = 1, window = Fin 60, cooldown = Fin 60, stream_max_wakes = 3\<rparr>
        [] init_breaker demo_calls))))) \<le> 1"
  by (rule breaker_rate_bound[where C = 60 and sm = 3])
    (simp_all add: mk_breaker_config_def demo_calls_def call_time_def)

text \<open>
  C9. Once an agent's scope trips, every further call for that agent is refused as
  \<open>OPEN\<close> until the cooldown has elapsed, whatever the other agents do in between.
\<close>

theorem breaker_trip_holds:
  assumes "admit cfg src now a s b = (out, b', ls)" and "bo_state out = Tripped"
    and "bo_scope out = ''agent''"
    and "\<forall>c\<in>set calls. fl_lt (Fin (call_time c)) (fl_add now (cooldown cfg))"
    and "i < length calls" and "call_agent (calls ! i) = a"
  shows "bo_state (fst (run_admits cfg src b' calls) ! i) = Open"
proof -
  have "agent_tripped a (fl_add now (cooldown cfg)) b'"
    by (rule trip_leaves_tripped[OF assms(1,2)]) (simp add: assms(3) scope_name_def)
  moreover obtain outs b'' where "run_admits cfg src b' calls = (outs, b'')"
    by (cases "run_admits cfg src b' calls")
  ultimately show ?thesis using tripped_run assms(4-6) by fastforce
qed

definition demo_config :: breaker_config where
  "demo_config = \<lparr>max_wakes = 1, window = Fin 60, cooldown = Fin 60, stream_max_wakes = 0\<rparr>"

definition demo_busy :: breaker where
  "demo_busy = \<lparr>windows = (\<lambda>k. if k = AgentKey ''nova''
     then Some \<lparr>timestamps = [0], tripped_until = None\<rparr> else None), admits_since_gc = 1\<rparr>"

lemma breaker_trip_holds_witness:
  "bo_state (fst (run_admits demo_config [] (fst (snd (admit demo_config [] 1 ''nova'' None demo_busy)))
     [(2, ''iris'', None), (60, ''nova'', Some ''t'')]) ! 1) = Open"
proof -
  have ad: "admit demo_config [] 1 ''nova'' None demo_busy
      = (\<lparr>bo_state = Tripped, bo_scope = ''agent'', bo_key = ''nova'', bo_count = 2\<rparr>,
         fst (snd (admit demo_config [] 1 ''nova'' None demo_busy)),
         snd (snd (admit demo_config [] 1 ''nova'' None demo_busy)))"
    by (simp add: admit_def admit_scopes_def tick_gc_def gc_interval_def demo_busy_def demo_config_def
        scopes_for_def prune_def scope_name_def Let_def)
  show ?thesis
    by (rule breaker_trip_holds[OF ad])
      (simp_all add: demo_config_def call_time_def call_agent_def)
qed

text \<open>
  The breaker never latches: after any run of calls, a pause of at least the window
  and the cooldown since the last one, and the next wake of any agent on any stream is
  admitted.
\<close>

theorem breaker_heals:
  assumes "mk_breaker_config m (Fin W) (Fin C) sm = Inr cfg"
    and "sorted (map call_time calls)" and "\<forall>c\<in>set calls. call_time c + max W C \<le> now"
  shows "admitted (fst (admit cfg src now a s (snd (run_admits cfg src init_breaker calls))))"
proof -
  have cfg: "window cfg = Fin W" "cooldown cfg = Fin C" "0 < W" "0 \<le> C" "1 \<le> max_wakes cfg"
    using mk_breaker_config_Inr[OF assms(1)] by auto
  let ?T = "now - max W C"
  obtain T0 where T0: "\<forall>c\<in>set calls. T0 \<le> call_time c" using first_call_least[OF assms(2)] by blast
  have T: "\<forall>c\<in>set calls. min T0 ?T \<le> call_time c" "\<forall>c\<in>set calls. call_time c \<le> ?T"
    using T0 assms(3) by fastforce+
  obtain outs b where run: "run_admits cfg src init_breaker calls = (outs, b)"
    by (cases "run_admits cfg src init_breaker calls")
  have inv: "heal_inv C ?T b"
    using heal_run[OF cfg(2) heal_inv_init assms(2) T(1) run T(2)] by simp
  have quiet: "?T + W \<le> now" "?T + C \<le> now" by (auto simp: max_def)
  obtain out b' ls where ad: "admit cfg src now a s b = (out, b', ls)"
    by (cases "admit cfg src now a s b")
  from quiet_admitted[OF inv cfg(1,2) quiet cfg(5) ad] show ?thesis by (simp add: run ad)
qed

lemma breaker_heals_witness:
  "admitted (fst (admit demo_config [] 200 ''nova'' (Some ''t'')
     (snd (run_admits demo_config [] init_breaker demo_calls))))"
  by (rule breaker_heals[where m = 1 and W = 60 and C = 60 and sm = 0])
    (simp_all add: mk_breaker_config_def demo_config_def demo_calls_def call_time_def)

text \<open>
  The periodic garbage collection is invisible: on every run of calls with a clock
  that does not go back, the breaker returns exactly what the breaker that never collects
  returns, for every configuration (infinite and NaN durations included).
\<close>

theorem breaker_gc_refines:
  assumes "sorted (map call_time calls)"
  shows "fst (run_admits cfg src init_breaker calls) = fst (run_admits_nogc cfg src init_breaker calls)"
proof -
  obtain T where "\<forall>c\<in>set calls. T \<le> call_time c" using first_call_least[OF assms] by blast
  moreover have "gc_sim cfg T init_breaker init_breaker" "breaker_ok T init_breaker"
    by (simp_all add: gc_sim_def breaker_ok_def init_breaker_def)
  ultimately show ?thesis using gc_run assms by blast
qed

lemma breaker_gc_refines_witness:
  "fst (run_admits demo_config [] init_breaker demo_calls)
   = fst (run_admits_nogc demo_config [] init_breaker demo_calls)"
  by (rule breaker_gc_refines) (simp add: demo_calls_def call_time_def)

subsection \<open>A duration that is not a number\<close>

text \<open>
  The validation compares with \<open><\<close> and \<open><=\<close>, which NaN passes: such a configuration is
  accepted, and a trip under a NaN cooldown is reset by the very next call.
\<close>

lemma nan_config_accepted:
  "mk_breaker_config 20 NaN NaN 15
     = Inr \<lparr>max_wakes = 20, window = NaN, cooldown = NaN, stream_max_wakes = 15\<rparr>"
  by (simp add: mk_breaker_config_def)

lemma nan_cooldown_never_holds:
  assumes "cooldown cfg = NaN" and "agent_tripped a (fl_add now (cooldown cfg)) b"
  shows "\<exists>b' ls. check_open src a t [(AgentScope, AgentKey a, thr, a)] b = (None, b', ls)"
  using assms by (auto simp: agent_tripped_def)

end
