(* ===== verification/Dedup.thy ===== *)
theory Dedup
  imports Prelude
begin

text \<open>
  \<open>dedup.py\<close>: the recently-woke delivery cache. \<open>seen\<close> asks whether a key was marked
  within the TTL (reclaiming an expired entry), \<open>mark\<close> remembers a key after a
  successful wake and sweeps the expired ones every \<open>dedup_gc_interval\<close> marks. The
  clock's reading is an argument.
\<close>

record deduper =
  seen_at :: "string \<Rightarrow> rat option"
  marks_since_gc :: nat

definition dedup_gc_interval :: nat where "dedup_gc_interval = 1024"

definition duplicate_delivery :: string where "duplicate_delivery = ''duplicate_delivery''"

definition mk_ttl :: "pyfloat \<Rightarrow> string + pyfloat" where
  "mk_ttl ttl = (if fl_lt ttl (Fin 0) then Inl ''ttl must be >= 0 (0 disables dedup)'' else Inr ttl)"

definition init_deduper :: deduper where
  "init_deduper = \<lparr>seen_at = (\<lambda>_. None), marks_since_gc = 0\<rparr>"

definition seen :: "pyfloat \<Rightarrow> rat \<Rightarrow> string \<Rightarrow> deduper \<Rightarrow> bool \<times> deduper" where
  "seen ttl now key d =
     (if fl_le ttl (Fin 0) then (False, d)
      else case seen_at d key of
        None \<Rightarrow> (False, d)
      | Some marked \<Rightarrow>
          if fl_le ttl (Fin (now - marked))
          then (False, d\<lparr>seen_at := (seen_at d)(key := None)\<rparr>)
          else (True, d))"

definition dedup_gc :: "pyfloat \<Rightarrow> rat \<Rightarrow> deduper \<Rightarrow> deduper" where
  "dedup_gc ttl now d = d\<lparr>seen_at := (\<lambda>k. case seen_at d k of
     None \<Rightarrow> None
   | Some marked \<Rightarrow> if fl_le (Fin marked) (fl_sub now ttl) then None else Some marked)\<rparr>"

definition mark :: "pyfloat \<Rightarrow> rat \<Rightarrow> string \<Rightarrow> deduper \<Rightarrow> deduper" where
  "mark ttl now key d =
     (if fl_le ttl (Fin 0) then d
      else let d = d\<lparr>seen_at := (seen_at d)(key \<mapsto> now), marks_since_gc := Suc (marks_since_gc d)\<rparr>
           in if marks_since_gc d \<ge> dedup_gc_interval
              then (dedup_gc ttl now d)\<lparr>marks_since_gc := 0\<rparr> else d)"

subsection \<open>The interface the pipeline uses\<close>

text \<open>
  A store that recalls, per key, the time of its last mark for as long as that time is
  fresh: the law a client needs, stated without the store's internals.
\<close>

locale recently_woke =
  fixes look :: "rat \<Rightarrow> 'k \<Rightarrow> 's \<Rightarrow> bool \<times> 's"
    and note_woken :: "rat \<Rightarrow> 'k \<Rightarrow> 's \<Rightarrow> 's"
    and recall :: "'s \<Rightarrow> 'k \<Rightarrow> rat option"
    and fresh :: "rat \<Rightarrow> rat \<Rightarrow> bool"
  assumes look_iff: "fst (look now k s) \<longleftrightarrow> (\<exists>m. recall s k = Some m \<and> fresh now m)"
    and look_keeps: "recall s j = Some m \<Longrightarrow> fresh now m \<Longrightarrow> recall (snd (look now k s)) j = Some m"
    and note_same: "fresh now now \<Longrightarrow> recall (note_woken now k s) k = Some now"
    and note_other: "recall s j = Some m \<Longrightarrow> fresh now m \<Longrightarrow> j \<noteq> k
      \<Longrightarrow> recall (note_woken now k s) j = Some m"
    and fresh_earlier: "fresh t m \<Longrightarrow> t' \<le> t \<Longrightarrow> fresh t' m"
    and fresh_newer: "fresh t m \<Longrightarrow> m \<le> m' \<Longrightarrow> fresh t m'"
begin

text \<open>An operation on the store, at a time, and its effect.\<close>

fun apply_op :: "rat \<times> 'k \<times> bool \<Rightarrow> 's \<Rightarrow> 's" where
  "apply_op (t, k, marking) s = (if marking then note_woken t k s else snd (look t k s))"

definition holds_from :: "rat \<Rightarrow> rat \<Rightarrow> 'k \<Rightarrow> 's \<Rightarrow> bool" where
  "holds_from t0 t k s \<longleftrightarrow> (\<exists>m. recall s k = Some m \<and> t0 \<le> m \<and> m \<le> t)"

lemma apply_op_holds:
  assumes "holds_from t0 t k s" and "fresh now t0" and "t \<le> u" and "u \<le> now"
  shows "holds_from t0 u k (apply_op (u, j, marking) s)"
proof -
  from assms(1) obtain m where m: "recall s k = Some m" "t0 \<le> m" "m \<le> t"
    by (auto simp: holds_from_def)
  have fr: "fresh u m" "fresh u u"
    using fresh_newer[OF fresh_earlier[OF assms(2,4)]] m assms(3) by auto
  show ?thesis
  proof (cases "marking \<and> j = k")
    case True
    with note_same[OF fr(2), of k s] m assms(3) show ?thesis by (auto simp: holds_from_def)
  next
    case False
    then have "recall (apply_op (u, j, marking) s) k = Some m"
      using look_keeps[OF m(1) fr(1)] note_other[OF m(1) fr(1), of j] by auto
    with m assms(3) show ?thesis by (auto simp: holds_from_def)
  qed
qed

text \<open>A mark stays visible through any later operations while it is fresh.\<close>

lemma holds_run:
  "holds_from t0 t k s \<Longrightarrow> fresh now t0 \<Longrightarrow> sorted (map fst ops) \<Longrightarrow> \<forall>e\<in>set ops. t \<le> fst e \<and> fst e \<le> now
     \<Longrightarrow> t \<le> now \<Longrightarrow> holds_from t0 now k (fold apply_op ops s)"
proof (induction ops arbitrary: t s)
  case Nil
  then show ?case by (auto simp: holds_from_def intro: order_trans)
next
  case (Cons e ops)
  obtain u j marking where e: "e = (u, j, marking)" by (cases e)
  have u: "t \<le> u" "u \<le> now" using Cons.prems(4) by (simp_all add: e)
  have "holds_from t0 u k (apply_op e s)"
    using apply_op_holds[OF Cons.prems(1,2) u] by (simp add: e)
  moreover have "\<forall>x\<in>set ops. u \<le> fst x \<and> fst x \<le> now" "sorted (map fst ops)"
    using Cons.prems(3,4) by (auto simp: e)
  ultimately show ?case using Cons.IH[of u "apply_op e s"] Cons.prems(2) u by simp
qed

lemma marked_then_seen:
  assumes "fresh now t0" and "t0 \<le> now" and "sorted (map fst ops)"
    and "\<forall>e\<in>set ops. t0 \<le> fst e \<and> fst e \<le> now"
  shows "fst (look now k (fold apply_op ops (note_woken t0 k s)))"
proof -
  have "holds_from t0 t0 k (note_woken t0 k s)"
    using note_same[OF fresh_earlier[OF assms(1,2)], of k s] by (auto simp: holds_from_def)
  from holds_run[OF this assms(1,3,4,2)]
  obtain m where m: "recall (fold apply_op ops (note_woken t0 k s)) k = Some m" "t0 \<le> m"
    by (auto simp: holds_from_def)
  with fresh_newer[OF assms(1)] show ?thesis by (auto simp: look_iff)
qed

end

definition dedup_fresh :: "pyfloat \<Rightarrow> rat \<Rightarrow> rat \<Rightarrow> bool" where
  "dedup_fresh ttl now m = (\<not> fl_le ttl (Fin 0) \<and> \<not> fl_le ttl (Fin (now - m)))"

lemma fl_le_sub_iff: "fl_le (Fin m) (fl_sub now ttl) \<longleftrightarrow> fl_le ttl (Fin (now - m))"
  by (cases ttl) auto

lemma not_fl_le_mono: "\<not> fl_le ttl (Fin a) \<Longrightarrow> b \<le> a \<Longrightarrow> \<not> fl_le ttl (Fin b)"
  by (cases ttl) auto

lemma seen_simps:
  "fst (seen ttl now k d) \<longleftrightarrow> (\<exists>m. seen_at d k = Some m \<and> dedup_fresh ttl now m)"
  "seen_at (snd (seen ttl now k d)) j =
     (if j = k \<and> \<not> fl_le ttl (Fin 0) \<and> (\<forall>m. seen_at d k = Some m \<longrightarrow> fl_le ttl (Fin (now - m)))
      then None else seen_at d j)"
  by (auto simp: seen_def dedup_fresh_def split: option.splits)

lemma seen_at_mark:
  "seen_at (mark ttl now k d) j =
     (if fl_le ttl (Fin 0) then seen_at d j
      else if j = k then (if Suc (marks_since_gc d) \<ge> dedup_gc_interval \<and> fl_le ttl (Fin 0)
                          then None else Some now)
      else (case seen_at d j of None \<Rightarrow> None | Some m \<Rightarrow>
        if Suc (marks_since_gc d) \<ge> dedup_gc_interval \<and> fl_le ttl (Fin (now - m)) then None else Some m))"
  by (auto simp: mark_def dedup_gc_def Let_def fl_le_sub_iff split: option.splits)

interpretation dd: recently_woke "seen ttl" "mark ttl" seen_at "dedup_fresh ttl" for ttl
proof (unfold_locales, goal_cases)
  case (1 now k s)
  show ?case by (rule seen_simps)
next
  case (2 s j m now k)
  then show ?case by (auto simp: seen_simps dedup_fresh_def)
next
  case (3 now k s)
  then show ?case by (simp add: seen_at_mark dedup_fresh_def)
next
  case (4 s j m now k)
  then show ?case by (simp add: seen_at_mark dedup_fresh_def)
next
  case (5 t m t')
  then show ?case using not_fl_le_mono[of ttl "t - m" "t' - m"] by (auto simp: dedup_fresh_def)
next
  case (6 t m m')
  then show ?case using not_fl_le_mono[of ttl "t - m" "t - m'"] by (auto simp: dedup_fresh_def)
qed

subsection \<open>The abstract specification: the history of marks\<close>

text \<open>The store is a function of nothing but the history: the last mark of each key.\<close>

datatype dedup_op = Seen rat string | Mark rat string

fun op_time :: "dedup_op \<Rightarrow> rat" where
  "op_time (Seen t _) = t"
| "op_time (Mark t _) = t"

fun run_dedup :: "pyfloat \<Rightarrow> deduper \<Rightarrow> dedup_op list \<Rightarrow> bool list" where
  "run_dedup ttl d [] = []"
| "run_dedup ttl d (Seen t k # ops) = (let (r, d') = seen ttl t k d in r # run_dedup ttl d' ops)"
| "run_dedup ttl d (Mark t k # ops) = run_dedup ttl (mark ttl t k d) ops"

fun spec_dedup :: "pyfloat \<Rightarrow> (string \<Rightarrow> rat option) \<Rightarrow> dedup_op list \<Rightarrow> bool list" where
  "spec_dedup ttl h [] = []"
| "spec_dedup ttl h (Seen t k # ops) =
     (case h k of None \<Rightarrow> False | Some m \<Rightarrow> dedup_fresh ttl t m) # spec_dedup ttl h ops"
| "spec_dedup ttl h (Mark t k # ops) = spec_dedup ttl (h(k \<mapsto> t)) ops"

definition dedup_sim :: "pyfloat \<Rightarrow> rat \<Rightarrow> deduper \<Rightarrow> (string \<Rightarrow> rat option) \<Rightarrow> bool" where
  "dedup_sim ttl T d h \<longleftrightarrow> fl_le ttl (Fin 0) \<or>
     (\<forall>k. case seen_at d k of Some m \<Rightarrow> h k = Some m
        | None \<Rightarrow> (\<forall>m. h k = Some m \<longrightarrow> \<not> dedup_fresh ttl T m))"

lemma dedup_sim_later:
  assumes "dedup_sim ttl T d h" and "T \<le> now"
  shows "dedup_sim ttl now d h"
proof (cases "fl_le ttl (Fin 0)")
  case True
  then show ?thesis by (simp add: dedup_sim_def)
next
  case False
  have "case seen_at d k of Some m \<Rightarrow> h k = Some m
      | None \<Rightarrow> (\<forall>m. h k = Some m \<longrightarrow> \<not> dedup_fresh ttl now m)" for k
  proof -
    have "case seen_at d k of Some m \<Rightarrow> h k = Some m
      | None \<Rightarrow> (\<forall>m. h k = Some m \<longrightarrow> \<not> dedup_fresh ttl T m)"
      using assms(1) False by (simp add: dedup_sim_def)
    then show ?thesis
      using dd.fresh_earlier[of ttl now _ T] assms(2) by (cases "seen_at d k") auto
  qed
  then show ?thesis by (simp add: dedup_sim_def)
qed

lemma dedup_sim_seen:
  assumes "dedup_sim ttl now d h"
  shows "fst (seen ttl now k d) = (case h k of None \<Rightarrow> False | Some m \<Rightarrow> dedup_fresh ttl now m)"
    and "dedup_sim ttl now (snd (seen ttl now k d)) h"
proof -
  consider (off) "fl_le ttl (Fin 0)" | (none) "\<not> fl_le ttl (Fin 0)" "seen_at d k = None"
    | (some) m where "\<not> fl_le ttl (Fin 0)" "seen_at d k = Some m" by fastforce
  then have "fst (seen ttl now k d) = (case h k of None \<Rightarrow> False | Some m \<Rightarrow> dedup_fresh ttl now m)
    \<and> dedup_sim ttl now (snd (seen ttl now k d)) h"
  proof cases
    case off
    then show ?thesis by (auto simp: seen_def dedup_fresh_def dedup_sim_def split: option.splits)
  next
    case none
    with assms show ?thesis
      by (auto simp: seen_def dedup_sim_def split: option.splits dest!: spec[of _ k])
  next
    case (some m)
    with assms have "h k = Some m" by (auto simp: dedup_sim_def dest!: spec[of _ k])
    with some assms show ?thesis
      by (auto simp: seen_def dedup_fresh_def dedup_sim_def)
  qed
  then show "fst (seen ttl now k d) = (case h k of None \<Rightarrow> False | Some m \<Rightarrow> dedup_fresh ttl now m)"
    and "dedup_sim ttl now (snd (seen ttl now k d)) h" by blast+
qed

lemma dedup_sim_mark:
  assumes "dedup_sim ttl now d h"
  shows "dedup_sim ttl now (mark ttl now k d) (h(k \<mapsto> now))"
proof (cases "fl_le ttl (Fin 0)")
  case True
  then show ?thesis by (simp add: dedup_sim_def)
next
  case False
  have "case seen_at (mark ttl now k d) j of Some m \<Rightarrow> (h(k \<mapsto> now)) j = Some m
      | None \<Rightarrow> (\<forall>m. (h(k \<mapsto> now)) j = Some m \<longrightarrow> \<not> dedup_fresh ttl now m)" for j
  proof (cases "j = k")
    case True
    with False show ?thesis by (simp add: seen_at_mark)
  next
    case jk: False
    have "case seen_at d j of Some m \<Rightarrow> h j = Some m
      | None \<Rightarrow> (\<forall>m. h j = Some m \<longrightarrow> \<not> dedup_fresh ttl now m)"
      using assms False by (auto simp: dedup_sim_def)
    then show ?thesis using False jk
      by (cases "seen_at d j") (auto simp: seen_at_mark dedup_fresh_def)
  qed
  then show ?thesis by (simp add: dedup_sim_def)
qed

lemma dedup_run_sim:
  "dedup_sim ttl T d h \<Longrightarrow> sorted (map op_time ops) \<Longrightarrow> \<forall>x\<in>set ops. T \<le> op_time x
    \<Longrightarrow> run_dedup ttl d ops = spec_dedup ttl h ops"
proof (induction ops arbitrary: T d h)
  case Nil
  then show ?case by simp
next
  case (Cons x ops)
  have so: "sorted (map op_time ops)" "\<forall>y\<in>set ops. op_time x \<le> op_time y"
    using Cons.prems(2) by auto
  have sim: "dedup_sim ttl (op_time x) d h" using dedup_sim_later Cons.prems(1,3) by auto
  show ?case
  proof (cases x)
    case (Seen t k)
    with sim have sim: "dedup_sim ttl t d h" by simp
    obtain r d' where rd: "seen ttl t k d = (r, d')" by (cases "seen ttl t k d")
    have "dedup_sim ttl t d' h" using dedup_sim_seen(2)[OF sim, of k] by (simp add: rd)
    from Cons.IH[OF this so(1)] so(2) dedup_sim_seen(1)[OF sim, of k] show ?thesis
      by (simp add: Seen rd split: option.splits)
  next
    case (Mark t k)
    with sim have sim: "dedup_sim ttl t d h" by simp
    have "run_dedup ttl (mark ttl t k d) ops = spec_dedup ttl (h(k \<mapsto> t)) ops"
      by (rule Cons.IH[OF dedup_sim_mark[OF sim, of k] so(1)]) (use so(2) Mark in simp)
    then show ?thesis by (simp only: Mark run_dedup.simps spec_dedup.simps)
  qed
qed

text \<open>
  C10. The cache refines its specification: with a clock that does not go back, every
  \<open>seen\<close> answers whether the last mark of that key is younger than the TTL, so the eager
  reclaim and the periodic sweep can neither forget a fresh key nor keep an expired one.
\<close>

theorem dedup_refines:
  assumes "sorted (map op_time ops)"
  shows "run_dedup ttl init_deduper ops = spec_dedup ttl (\<lambda>_. None) ops"
proof -
  obtain T where "\<forall>x\<in>set ops. T \<le> op_time x" using assms by (cases ops) auto
  moreover have "dedup_sim ttl T init_deduper (\<lambda>_. None)"
    by (simp add: dedup_sim_def init_deduper_def)
  ultimately show ?thesis using dedup_run_sim assms by blast
qed

definition demo_dedup_ops :: "dedup_op list" where
  "demo_dedup_ops = [Seen 0 ''g:a:1'', Mark 5 ''g:a:1'', Seen 6 ''g:a:1'', Seen 605 ''g:a:1'']"

lemma dedup_refines_witness:
  "run_dedup (Fin 600) init_deduper demo_dedup_ops
     = spec_dedup (Fin 600) (\<lambda>_. None) demo_dedup_ops
   \<and> run_dedup (Fin 600) init_deduper demo_dedup_ops = [False, True, False]"
proof -
  have so: "sorted (map op_time demo_dedup_ops)" by (simp add: demo_dedup_ops_def)
  have "spec_dedup (Fin 600) (\<lambda>_. None) demo_dedup_ops = [False, True, False]"
    by (simp add: demo_dedup_ops_def dedup_fresh_def)
  with dedup_refines[OF so, of "Fin 600"] show ?thesis by simp
qed

end
