(* ===== verification/Models.thy ===== *)
theory Models
  imports Prelude
begin

text \<open>
  \<open>models.py\<close> and \<open>marker.py\<close>: the source-agnostic data of the router, an event and
  the agent it wakes, each built by a constructor that validates its fields
  (\<open>__post_init__\<close>) and raises a \<open>ValueError\<close>, here the left of a sum with the
  message. A field that arrives as arbitrary JSON is a \<open>string option\<close>, \<open>None\<close> for a
  value that is no string.
\<close>

datatype event_kind = Handoff | PlatformEvent | SyntheticProbe

datatype wake_kind = Claude | Harness

definition event_kind_value :: "event_kind \<Rightarrow> string" where
  "event_kind_value k = (case k of Handoff \<Rightarrow> ''handoff'' | PlatformEvent \<Rightarrow> ''platform_event''
     | SyntheticProbe \<Rightarrow> ''synthetic_probe'')"

definition synthetic_kinds :: "event_kind list" where
  "synthetic_kinds = [SyntheticProbe]"

subsection \<open>Validation\<close>

definition nonblank :: "string \<Rightarrow> bool" where
  "nonblank s = (py_strip s \<noteq> [])"

definition require :: "string option \<Rightarrow> string \<Rightarrow> string + string" where
  "require v fld = (case v of
     Some s \<Rightarrow> (if nonblank s then Inr s else Inl (fld @ '' must be a non-empty string''))
   | None \<Rightarrow> Inl (fld @ '' must be a non-empty string''))"

text \<open>\<open>value.partition("/")\<close>, owner and name, both nonempty and the name without a slash.\<close>

definition partition_char :: "char \<Rightarrow> string \<Rightarrow> string \<times> string" where
  "partition_char sep s =
     (takeWhile (\<lambda>c. c \<noteq> sep) s, drop 1 (dropWhile (\<lambda>c. c \<noteq> sep) s))"

definition require_repo :: "string option \<Rightarrow> string \<Rightarrow> string + string" where
  "require_repo v fld = (case require v fld of Inl e \<Rightarrow> Inl e | Inr s \<Rightarrow>
     (let (owner, name) = partition_char (CHR 0x2F) s in
      if owner = [] \<or> name = [] \<or> CHR 0x2F \<in> set name
      then Inl (fld @ '' must be 'owner/name', got '' @ py_repr s) else Inr s))"

subsection \<open>Records and their constructors\<close>

record issue_ref =
  ref_repo :: string
  ref_number :: int
  ref_url :: string
  ref_title :: string

definition mk_issue_ref ::
  "string option \<Rightarrow> int option \<Rightarrow> string option \<Rightarrow> string option \<Rightarrow> string + issue_ref" where
  "mk_issue_ref repo number url title =
     (case require_repo repo ''IssueRef.repo'' of Inl e \<Rightarrow> Inl e | Inr r \<Rightarrow>
      (case number of
         None \<Rightarrow> Inl ''IssueRef.number must be a positive int''
       | Some n \<Rightarrow>
         if n \<le> 0 then Inl (''IssueRef.number must be a positive int, got '' @ str_int n)
         else (case require url ''IssueRef.url'' of Inl e \<Rightarrow> Inl e | Inr u \<Rightarrow>
              (case require title ''IssueRef.title'' of Inl e \<Rightarrow> Inl e | Inr t \<Rightarrow>
                 Inr \<lparr>ref_repo = r, ref_number = n, ref_url = u, ref_title = t\<rparr>))))"

record recipient =
  rec_by :: string
  rec_value :: string

definition mk_recipient :: "string \<Rightarrow> string \<Rightarrow> string + recipient" where
  "mk_recipient b v = (case require (Some b) ''Recipient.by'' of Inl e \<Rightarrow> Inl e | Inr _ \<Rightarrow>
     (case require (Some v) ''Recipient.value'' of Inl e \<Rightarrow> Inl e | Inr _ \<Rightarrow>
        Inr \<lparr>rec_by = b, rec_value = v\<rparr>))"

record agent =
  ag_key :: string
  ag_os_user :: string
  ag_clone_path :: string
  ag_wake_kind :: wake_kind
  ag_bot_slug :: "string option"
  ag_recipient_uuid :: "string option"
  ag_wake_bin :: "string option"

text \<open>
  \<open>bot_slug\<close>, \<open>wake_bin\<close> and \<open>recipient_uuid\<close> are required of the kind that uses them;
  the other kind's loader never sets them.
\<close>

definition mk_agent ::
  "string \<Rightarrow> string option \<Rightarrow> string option \<Rightarrow> wake_kind \<Rightarrow> string option \<Rightarrow> string option
    \<Rightarrow> string option \<Rightarrow> string + agent" where
  "mk_agent key os_user clone_path kind bot_slug recipient_uuid wake_bin =
     (case require (Some key) ''Agent.key'' of Inl e \<Rightarrow> Inl e | Inr k \<Rightarrow>
      (case require os_user ''Agent.os_user'' of Inl e \<Rightarrow> Inl e | Inr u \<Rightarrow>
       (case require clone_path ''Agent.clone_path'' of Inl e \<Rightarrow> Inl e | Inr c \<Rightarrow>
        (let a = \<lparr>ag_key = k, ag_os_user = u, ag_clone_path = c, ag_wake_kind = kind,
                  ag_bot_slug = bot_slug, ag_recipient_uuid = recipient_uuid,
                  ag_wake_bin = wake_bin\<rparr> in
         case kind of
           Claude \<Rightarrow> (case require bot_slug ''Agent.bot_slug'' of Inl e \<Rightarrow> Inl e | Inr _ \<Rightarrow> Inr a)
         | Harness \<Rightarrow> (case require wake_bin ''Agent.wake_bin'' of Inl e \<Rightarrow> Inl e | Inr _ \<Rightarrow>
             (case require recipient_uuid ''Agent.recipient_uuid'' of
                Inl e \<Rightarrow> Inl e | Inr _ \<Rightarrow> Inr a))))))"

definition harness_key :: "agent \<Rightarrow> string" where
  "harness_key a = ag_os_user a"

record event =
  ev_source :: string
  ev_kind :: event_kind
  ev_recipient :: recipient
  ev_wake_arg :: string
  ev_delivery_id :: string
  ev_origin :: "issue_ref option"
  ev_occurred_at :: "int option"
  ev_type :: "string option"

definition mk_event ::
  "string \<Rightarrow> event_kind \<Rightarrow> recipient \<Rightarrow> string \<Rightarrow> string \<Rightarrow> issue_ref option \<Rightarrow> int option
    \<Rightarrow> string option \<Rightarrow> string + event" where
  "mk_event source kind rcp wake_arg delivery origin occurred etype =
     (case require (Some source) ''Event.source'' of Inl e \<Rightarrow> Inl e | Inr _ \<Rightarrow>
      (case require (Some wake_arg) ''Event.wake_arg'' of Inl e \<Rightarrow> Inl e | Inr _ \<Rightarrow>
       (case require (Some delivery) ''Event.delivery_id'' of Inl e \<Rightarrow> Inl e | Inr _ \<Rightarrow>
        (let ev = \<lparr>ev_source = source, ev_kind = kind, ev_recipient = rcp, ev_wake_arg = wake_arg,
                   ev_delivery_id = delivery, ev_origin = origin, ev_occurred_at = occurred,
                   ev_type = etype\<rparr> in
         case etype of None \<Rightarrow> Inr ev
         | Some t \<Rightarrow> (case require (Some t) ''Event.event_type'' of Inl e \<Rightarrow> Inl e | Inr _ \<Rightarrow> Inr ev)))))"

definition synthetic :: "event \<Rightarrow> bool" where
  "synthetic ev = (ev_kind ev \<in> set synthetic_kinds)"

definition dedup_key :: "event \<Rightarrow> string" where
  "dedup_key ev = ev_source ev @ '':'' @ rec_value (ev_recipient ev) @ '':'' @ ev_delivery_id ev"

definition stream_key :: "event \<Rightarrow> string" where
  "stream_key ev = (case ev_origin ev of Some r \<Rightarrow> ref_url r | None \<Rightarrow> ev_wake_arg ev)"

subsection \<open>The probe marker\<close>

text \<open>
  \<open>MARKER_RE\<close>: the scheme, one space, a nonce of 1 to 128 characters of
  \<open>[A-Za-z0-9_-]\<close>, one space, 64 lower-case hexadecimal digits, and nothing else.
\<close>

definition scheme :: string where "scheme = ''BCNOC1''"

definition is_nonce_char :: "char \<Rightarrow> bool" where
  "is_nonce_char c = (is_alnum_ascii c \<or> c = CHR ''_'' \<or> c = CHR ''-'')"

definition match_marker :: "string \<Rightarrow> (string \<times> string) option" where
  "match_marker v =
     (if \<not> starts_with (scheme @ '' '') v then None
      else let rest = drop (length (scheme @ '' '')) v;
               nonce = takeWhile is_nonce_char rest;
               after = dropWhile is_nonce_char rest
           in if nonce = [] \<or> length nonce > 128 \<or> \<not> starts_with '' '' after then None
              else let mac = drop 1 after
                   in if length mac = 64 \<and> list_all is_hex_lower mac then Some (nonce, mac)
                      else None)"

definition is_marker :: "string \<Rightarrow> bool" where
  "is_marker v = (match_marker v \<noteq> None)"

definition nonce_of :: "string \<Rightarrow> string option" where
  "nonce_of v = map_option fst (match_marker v)"

text \<open>The characters a value must stay within to cross \<open>sudo\<close> as one argument.\<close>

definition inert :: "char \<Rightarrow> bool" where
  "inert c = (is_nonce_char c \<or> c = CHR '' '')"

subsection \<open>Lemmas\<close>

named_theorems mk_defs \<open>the validating constructors\<close>

lemmas [mk_defs] = mk_issue_ref_def mk_recipient_def mk_agent_def mk_event_def
  require_def require_repo_def

lemma require_Inr: "require v fld = Inr s \<longleftrightarrow> v = Some s \<and> nonblank s"
  by (auto simp: require_def split: option.splits)

lemma require_repo_Inr:
  assumes "require_repo v fld = Inr s"
  shows "v = Some s \<and> nonblank s \<and> CHR 0x2F \<in> set s"
proof (cases "require v fld")
  case (Inl e)
  with assms show ?thesis by (simp add: require_repo_def)
next
  case (Inr t)
  with assms have t: "t = s" and name: "snd (partition_char (CHR 0x2F) t) \<noteq> []"
    by (auto simp: require_repo_def case_prod_unfold Let_def split: if_splits)
  have "CHR 0x2F \<in> set t"
  proof (rule ccontr)
    assume "CHR 0x2F \<notin> set t"
    then have "dropWhile (\<lambda>c. c \<noteq> CHR 0x2F) t = []" by (auto simp: dropWhile_eq_Nil_conv)
    with name show False by (simp add: partition_char_def)
  qed
  with Inr t show ?thesis by (simp add: require_Inr)
qed

lemma mk_recipient_Inr:
  "mk_recipient b v = Inr r \<longleftrightarrow> nonblank b \<and> nonblank v \<and> r = \<lparr>rec_by = b, rec_value = v\<rparr>"
  by (simp add: mk_recipient_def require_def) blast

lemma mk_event_Inr:
  assumes "mk_event source kind rcp wake_arg delivery origin occurred etype = Inr ev"
  shows "ev = \<lparr>ev_source = source, ev_kind = kind, ev_recipient = rcp, ev_wake_arg = wake_arg,
               ev_delivery_id = delivery, ev_origin = origin, ev_occurred_at = occurred,
               ev_type = etype\<rparr>"
    and "nonblank source" and "nonblank wake_arg" and "nonblank delivery"
  using assms by (auto simp: mk_event_def Let_def require_Inr split: sum.splits option.splits)

lemma mk_issue_ref_Inr:
  assumes "mk_issue_ref repo number url title = Inr r"
  shows "repo = Some (ref_repo r) \<and> number = Some (ref_number r) \<and> url = Some (ref_url r)
     \<and> title = Some (ref_title r) \<and> ref_number r > 0 \<and> nonblank (ref_url r)"
  using assms
  by (auto simp: mk_issue_ref_def require_Inr dest!: require_repo_Inr
      split: sum.splits option.splits if_splits)

lemma match_marker_shape:
  assumes "match_marker v = Some (nonce, mac)"
  shows "v = scheme @ '' '' @ nonce @ '' '' @ mac
    \<and> 1 \<le> length nonce \<and> length nonce \<le> 128 \<and> list_all is_nonce_char nonce
    \<and> length mac = 64 \<and> list_all is_hex_lower mac"
proof -
  define rest where "rest = drop (length (scheme @ '' '')) v"
  have sw: "starts_with (scheme @ '' '') v"
    using assms by (auto simp: match_marker_def split: if_splits)
  then have v: "v = (scheme @ '' '') @ rest"
    unfolding rest_def starts_with_def by (metis append_take_drop_id)
  have m: "takeWhile is_nonce_char rest = nonce" "drop 1 (dropWhile is_nonce_char rest) = mac"
    "nonce \<noteq> []" "length nonce \<le> 128" "starts_with '' '' (dropWhile is_nonce_char rest)"
    "length mac = 64" "list_all is_hex_lower mac"
    using assms sw by (auto simp: match_marker_def rest_def Let_def split: if_splits)
  obtain t where t: "dropWhile is_nonce_char rest = '' '' @ t"
    using m(5) starts_with_iff by blast
  then have "t = mac" using m(2) by simp
  then have "rest = nonce @ '' '' @ mac"
    using m(1) t by (metis takeWhile_dropWhile_id)
  moreover have "list_all is_nonce_char nonce"
    using m(1) by (metis list_all_iff set_takeWhileD)
  ultimately show ?thesis
    using v m(3,4,6,7) by (cases nonce) auto
qed

lemma match_marker_complete:
  assumes "nonce \<noteq> []" and "length nonce \<le> 128" and "list_all is_nonce_char nonce"
    and "length mac = 64" and "list_all is_hex_lower mac"
  shows "match_marker (scheme @ '' '' @ nonce @ '' '' @ mac) = Some (nonce, mac)"
proof -
  have sp: "\<not> is_nonce_char (CHR '' '')" by (simp add: is_nonce_char_def is_alnum_ascii_def)
  have all: "\<forall>c\<in>set nonce. is_nonce_char c" using assms(3) by (simp add: list_all_iff)
  have "takeWhile is_nonce_char (nonce @ '' '' @ mac) = nonce"
    using all sp by (simp add: takeWhile_append2)
  moreover have "dropWhile is_nonce_char (nonce @ '' '' @ mac) = '' '' @ mac"
    using all sp by (simp add: dropWhile_append2)
  ultimately show ?thesis
    using assms by (simp add: match_marker_def Let_def starts_with_def)
qed

lemma hex_lower_inert: "is_hex_lower c \<Longrightarrow> inert c"
  by (auto simp: is_hex_lower_def inert_def is_nonce_char_def is_alnum_ascii_def Let_def)

lemma marker_inert: "is_marker v \<Longrightarrow> list_all inert v"
proof -
  assume "is_marker v"
  then obtain n m where nm: "match_marker v = Some (n, m)" by (auto simp: is_marker_def)
  have "list_all inert scheme" by (simp add: scheme_def inert_def is_nonce_char_def is_alnum_ascii_def)
  moreover have "list_all inert n" "list_all inert m" "inert (CHR '' '')"
    using match_marker_shape[OF nm] hex_lower_inert by (auto simp: list_all_iff inert_def)
  ultimately show ?thesis
    using match_marker_shape[OF nm] by (simp add: list_all_append)
qed

end
