(* ===== verification/Coalesce.thy ===== *)
theory Coalesce
  imports Models
begin

text \<open>
  \<open>coalesce.py\<close>: per (agent, stream), the latest successful wake and when it started, in
  an LRU of streams. \<open>covering\<close> asks whether a queued delivery happened before that
  start, so that the session already read it. An event without an event time never
  records and is never covered.
\<close>

definition default_capacity :: nat where "default_capacity = 4096"

record coverage =
  cov_delivery :: string
  cov_started_at :: int

type_synonym cov_key = "string \<times> string"

record wake_coverage =
  wc_capacity :: nat
  wc_streams :: "(cov_key \<times> coverage) list"

definition mk_wake_coverage :: "int \<Rightarrow> string + wake_coverage" where
  "mk_wake_coverage capacity =
     (if capacity < 1 then Inl (''capacity must be >= 1, got '' @ str_int capacity)
      else Inr \<lparr>wc_capacity = nat capacity, wc_streams = []\<rparr>)"

definition record_coverage :: "string \<Rightarrow> event \<Rightarrow> int \<Rightarrow> wake_coverage \<Rightarrow> wake_coverage" where
  "record_coverage agent_key ev started_at wc =
     (case ev_occurred_at ev of
        None \<Rightarrow> wc
      | Some _ \<Rightarrow>
          let key = (agent_key, stream_key ev);
              known = map_of (wc_streams wc) key;
              cov = (case known of
                       Some c \<Rightarrow> if started_at \<ge> cov_started_at c
                                  then \<lparr>cov_delivery = ev_delivery_id ev, cov_started_at = started_at\<rparr>
                                  else c
                     | None \<Rightarrow> \<lparr>cov_delivery = ev_delivery_id ev, cov_started_at = started_at\<rparr>)
          in wc\<lparr>wc_streams := od_store (wc_capacity wc) key cov (wc_streams wc)\<rparr>)"

definition covering :: "string \<Rightarrow> event \<Rightarrow> wake_coverage \<Rightarrow> coverage option" where
  "covering agent_key ev wc =
     (case ev_occurred_at ev of
        None \<Rightarrow> None
      | Some occurred \<Rightarrow>
          (case map_of (wc_streams wc) (agent_key, stream_key ev) of
             None \<Rightarrow> None
           | Some known \<Rightarrow> if occurred < cov_started_at known then Some known else None))"

subsection \<open>The ledger contract\<close>

definition record_step :: "string \<times> event \<times> int \<Rightarrow> wake_coverage \<Rightarrow> wake_coverage" where
  "record_step r = (case r of (agent_key, ev, started_at) \<Rightarrow> record_coverage agent_key ev started_at)"

lemma record_coverage_items:
  assumes "ev_occurred_at ev = Some occ"
  obtains v where "wc_streams (record_coverage a ev t wc)
      = od_store (wc_capacity wc) (a, stream_key ev) v (wc_streams wc)"
    and "t \<le> cov_started_at v"
    and "\<forall>u. map_of (wc_streams wc) (a, stream_key ev) = Some u \<longrightarrow> cov_started_at u \<le> cov_started_at v"
    and "v = \<lparr>cov_delivery = ev_delivery_id ev, cov_started_at = t\<rparr>
      \<or> map_of (wc_streams wc) (a, stream_key ev) = Some v"
proof (cases "map_of (wc_streams wc) (a, stream_key ev)")
  case None
  then show thesis using that assms by (simp add: record_coverage_def)
next
  case (Some u)
  then show thesis using that assms
    by (cases "cov_started_at u \<le> t") (simp_all add: record_coverage_def)
qed

interpretation cov: stamped_ledger wc_streams wc_capacity record_step cov_started_at
proof (unfold_locales, goal_cases)
  case (1 r s)
  show ?case
    by (cases r) (simp add: record_step_def record_coverage_def Let_def split: option.split)
next
  case (2 r s)
  obtain a ev t where r: "r = (a, ev, t)" by (cases r)
  show ?case
  proof (cases "ev_occurred_at ev")
    case None
    then show ?thesis by (simp add: r record_step_def record_coverage_def)
  next
    case (Some occ)
    from record_coverage_items[OF this, of a t s] show ?thesis
      unfolding r record_step_def prod.case by blast
  qed
qed

lemma coverage_after_record:
  assumes "cov.ok wc" and "1 \<le> wc_capacity wc" and "ev_occurred_at ev = Some occ"
  shows "\<exists>c. map_of (wc_streams (record_coverage a ev started wc)) (a, stream_key ev) = Some c
           \<and> started \<le> cov_started_at c"
proof -
  have d: "distinct (map fst (wc_streams wc))" using assms(1) by (simp add: cov.ok_def)
  from record_coverage_items[OF assms(3), of a started wc] od_store_same[OF d assms(2)]
  show ?thesis by metis
qed

text \<open>Covered means a wake of this very agent on this very stream was recorded.\<close>

definition recorded_wakes :: "(string \<times> event \<times> int) list \<Rightarrow> (cov_key \<times> coverage) set" where
  "recorded_wakes rs = {((a, stream_key ev), \<lparr>cov_delivery = ev_delivery_id ev, cov_started_at = t\<rparr>)
     | a ev t. (a, ev, t) \<in> set rs \<and> ev_occurred_at ev \<noteq> None}"

lemma record_coverage_sound:
  assumes "distinct (map fst (wc_streams wc))"
    and "map_of (wc_streams (record_coverage a ev t wc)) k = Some c"
  shows "map_of (wc_streams wc) k = Some c
     \<or> (k = (a, stream_key ev) \<and> c = \<lparr>cov_delivery = ev_delivery_id ev, cov_started_at = t\<rparr>
        \<and> ev_occurred_at ev \<noteq> None)"
proof (cases "ev_occurred_at ev")
  case None
  with assms show ?thesis by (simp add: record_coverage_def)
next
  case (Some occ)
  let ?key = "(a, stream_key ev)"
  let ?new = "\<lparr>cov_delivery = ev_delivery_id ev, cov_started_at = t\<rparr>"
  obtain v where st: "wc_streams (record_coverage a ev t wc) = od_store (wc_capacity wc) ?key v (wc_streams wc)"
    and v: "v = ?new \<or> map_of (wc_streams wc) ?key = Some v"
    using record_coverage_items[OF Some, of a t wc] by metis
  from od_store_sound[OF assms(1), of "wc_capacity wc" ?key v k c] assms(2) st
  have "if k = ?key then c = v else map_of (wc_streams wc) k = Some c" by simp
  with v Some show ?thesis by (auto split: if_splits)
qed

lemma recorded_run:
  assumes "cov.ok wc" and "map_of (wc_streams (fold record_step rs wc)) k = Some c"
  shows "map_of (wc_streams wc) k = Some c \<or> (k, c) \<in> recorded_wakes rs"
  using assms
proof (induction rs arbitrary: wc)
  case Nil
  then show ?case by simp
next
  case (Cons r rs)
  obtain a ev t where r: "r = (a, ev, t)" by (cases r)
  have d: "distinct (map fst (wc_streams wc))" using Cons.prems(1) by (simp add: cov.ok_def)
  have sub: "recorded_wakes rs \<subseteq> recorded_wakes (r # rs)" by (auto simp: recorded_wakes_def)
  have "map_of (wc_streams (fold record_step rs (record_step r wc))) k = Some c"
    using Cons.prems(2) by simp
  from Cons.IH[OF cov.obs_ok[OF Cons.prems(1)] this]
  show ?case
  proof
    assume "map_of (wc_streams (record_step r wc)) k = Some c"
    then have "map_of (wc_streams (record_coverage a ev t wc)) k = Some c"
      by (simp add: r record_step_def)
    from record_coverage_sound[OF d this] show ?thesis by (auto simp: recorded_wakes_def r)
  next
    assume "(k, c) \<in> recorded_wakes rs"
    with sub show ?thesis by blast
  qed
qed

text \<open>
  A delivery is collapsed only into a wake that covers it: \<open>covering\<close> answers with a
  wake that was recorded for the same agent on the same stream, and that started strictly
  after the delivery's event. One agent's wake never covers another's delivery.
\<close>

theorem covering_sound:
  assumes "mk_wake_coverage capacity = Inr wc"
    and "covering a ev (fold record_step rs wc) = Some c"
  shows "\<exists>ev' t occ. (a, ev', t) \<in> set rs \<and> stream_key ev' = stream_key ev
     \<and> c = \<lparr>cov_delivery = ev_delivery_id ev', cov_started_at = t\<rparr>
     \<and> ev_occurred_at ev = Some occ \<and> occ < t"
proof -
  have wc: "cov.ok wc" "wc_streams wc = []"
    using assms(1) by (auto simp: mk_wake_coverage_def cov.ok_def split: if_splits)
  obtain occ where occ: "ev_occurred_at ev = Some occ"
    and m: "map_of (wc_streams (fold record_step rs wc)) (a, stream_key ev) = Some c"
    and lt: "occ < cov_started_at c"
    using assms(2) by (auto simp: covering_def split: option.splits if_splits)
  from recorded_run[OF wc(1) m] wc(2) have "((a, stream_key ev), c) \<in> recorded_wakes rs" by simp
  with occ lt show ?thesis by (auto simp: recorded_wakes_def)
qed

text \<open>
  A success covers its stream: right after a wake of an agent on a stream is recorded,
  every stamped event of that stream that happened before the wake started is covered for
  that agent, whatever was recorded before (capacity and later starts included).
\<close>

theorem covering_complete:
  assumes "mk_wake_coverage capacity = Inr wc" and "ev_occurred_at woken \<noteq> None"
    and "stream_key ev = stream_key woken" and "ev_occurred_at ev = Some occ" and "occ < started"
  shows "\<exists>c. covering a ev (record_coverage a woken started (fold record_step rs wc)) = Some c
     \<and> started \<le> cov_started_at c"
proof -
  have wc: "cov.ok wc" "1 \<le> wc_capacity wc"
    using assms(1) by (auto simp: mk_wake_coverage_def cov.ok_def split: if_splits)
  obtain o' where "ev_occurred_at woken = Some o'" using assms(2) by blast
  from coverage_after_record[OF cov.run_ok[OF wc(1), of rs] _ this, of a started] wc(2)
  obtain c where "map_of (wc_streams (record_coverage a woken started (fold record_step rs wc)))
      (a, stream_key woken) = Some c" "started \<le> cov_started_at c"
    by (auto simp: cov.room_run)
  with assms(3,4,5) show ?thesis by (auto simp: covering_def)
qed

definition demo_stamped :: "string \<Rightarrow> int \<Rightarrow> event" where
  "demo_stamped delivery occ = \<lparr>ev_source = ''basecradle'', ev_kind = PlatformEvent,
     ev_recipient = \<lparr>rec_by = ''recipient_uuid'', rec_value = ''u1''\<rparr>, ev_wake_arg = ''timeline'',
     ev_delivery_id = delivery, ev_origin = None, ev_occurred_at = Some occ,
     ev_type = Some ''message.created''\<rparr>"

lemma covering_sound_witness:
  "\<exists>ev' t occ. (''nova'', ev', t) \<in> set [(''nova'', demo_stamped ''d1'' 5, 10)]
     \<and> stream_key ev' = stream_key (demo_stamped ''d2'' 7)
     \<and> \<lparr>cov_delivery = ''d1'', cov_started_at = 10\<rparr>
         = \<lparr>cov_delivery = ev_delivery_id ev', cov_started_at = t\<rparr>
     \<and> ev_occurred_at (demo_stamped ''d2'' 7) = Some occ \<and> occ < t"
  by (rule covering_sound[of 2 "\<lparr>wc_capacity = 2, wc_streams = []\<rparr>"])
    (simp_all add: mk_wake_coverage_def covering_def record_step_def record_coverage_def
      demo_stamped_def od_store_def od_put_last_def od_remove_def stream_key_def Let_def)

lemma covering_complete_witness:
  "\<exists>c. covering ''nova'' (demo_stamped ''d2'' 7) (record_coverage ''nova'' (demo_stamped ''d1'' 5) 10
      (fold record_step [] \<lparr>wc_capacity = 2, wc_streams = []\<rparr>)) = Some c \<and> 10 \<le> cov_started_at c"
  by (rule covering_complete[where capacity = 2 and occ = 7]) (simp_all add: mk_wake_coverage_def demo_stamped_def stream_key_def)

end
