(* ===== verification/WakeLock.thy ===== *)
theory WakeLock
  imports Logfmt
begin

text \<open>
  \<open>wakelock.py\<close>: the NOC's wake-lock file, inspected before every wake. What lies
  outside the repository is a parameter: the file system's answer to \<open>open().read()\<close>,
  the JSON decoder, \<open>datetime.fromisoformat\<close> and \<open>isoformat\<close>. An exception that leaves
  \<open>inspect\<close> is the left of a sum.
\<close>

datatype lock_state = Absent | Held | Stale | Unparseable | Unreadable

definition lock_state_value :: "lock_state \<Rightarrow> string" where
  "lock_state_value s = (case s of Absent \<Rightarrow> ''absent'' | Held \<Rightarrow> ''held'' | Stale \<Rightarrow> ''stale''
     | Unparseable \<Rightarrow> ''unparseable'' | Unreadable \<Rightarrow> ''unreadable'')"

definition wake_states :: "lock_state list" where
  "wake_states = [Absent, Stale, Unreadable]"

record lock_decision =
  ld_state :: lock_state
  ld_detail :: string
  ld_reason :: string
  ld_lock_reason :: string
  ld_expires_at :: string

definition should_wake :: "lock_decision \<Rightarrow> bool" where
  "should_wake d = (ld_state d \<in> set wake_states)"

datatype read_result = FileMissing | ReadFailed string | FileText string

record lock_env =
  le_read :: "string \<Rightarrow> read_result"
  le_loads :: "string \<Rightarrow> loads_result"
  le_iso :: "string \<Rightarrow> iso_result"
  le_isoformat :: "int \<Rightarrow> string"

definition unparseable :: "string \<Rightarrow> lock_decision" where
  "unparseable reason = \<lparr>ld_state = Unparseable, ld_detail = ''wake_lock_unparseable: '' @ reason,
     ld_reason = reason, ld_lock_reason = [], ld_expires_at = []\<rparr>"

text \<open>
  \<open>_parse_iso8601\<close>: a trailing \<open>Z\<close> or \<open>z\<close> becomes the offset, a naive value is read as
  UTC, and the conversion to UTC raises \<open>OverflowError\<close> outside years 1 to 9999.
\<close>

definition parse_iso8601 :: "lock_env \<Rightarrow> json \<Rightarrow> string + int option" where
  "parse_iso8601 env v =
     (case v of
        JStr s \<Rightarrow>
          (let text = py_strip s in
           if text = [] then Inr None
           else let text = (if last text = CHR ''Z'' \<or> last text = CHR ''z''
                            then butlast text @ ''+00:00'' else text)
                in case le_iso env text of
                     IsoInvalid \<Rightarrow> Inr None
                   | IsoNaive t \<Rightarrow> Inr (Some t)
                   | IsoAware t \<Rightarrow> if utc_min \<le> t \<and> t \<le> utc_max then Inr (Some t)
                                  else Inl ''date value out of range'')
      | _ \<Rightarrow> Inr None)"

definition path_for :: "string \<Rightarrow> string \<Rightarrow> string" where
  "path_for lock_dir slug =
     (if lock_dir \<noteq> [] \<and> last lock_dir = CHR 0x2F then lock_dir @ slug @ ''.lock''
      else if lock_dir = [] then slug @ ''.lock''
      else lock_dir @ CHR 0x2F # slug @ ''.lock'')"

definition decide :: "lock_env \<Rightarrow> int \<Rightarrow> string \<Rightarrow> string + lock_decision" where
  "decide env now raw =
     (case le_loads env raw of
        DecodeError e \<Rightarrow> Inr (unparseable (''invalid JSON: '' @ e))
      | LoadsRaised e \<Rightarrow> Inl e
      | Loaded (JObj data) \<Rightarrow>
          (case parse_iso8601 env (jget data ''expires_at'') of
             Inl e \<Rightarrow> Inl e
           | Inr None \<Rightarrow> Inr (unparseable ''missing or invalid expires_at'')
           | Inr (Some expires) \<Rightarrow>
               (let until = le_isoformat env expires in
                if now < expires
                then Inr \<lparr>ld_state = Held, ld_detail = ''wake_lock_held until '' @ until, ld_reason = [],
                          ld_lock_reason = (case jget data ''reason'' of JStr r \<Rightarrow> r | _ \<Rightarrow> []),
                          ld_expires_at = until\<rparr>
                else Inr \<lparr>ld_state = Stale, ld_detail = ''wake_lock_stale (expired '' @ until @ '')'',
                          ld_reason = [], ld_lock_reason = [], ld_expires_at = until\<rparr>))
      | Loaded _ \<Rightarrow> Inr (unparseable ''lock is not a JSON object''))"

definition safe_slug :: "string \<Rightarrow> bool" where
  "safe_slug slug = (CHR 0x2F \<notin> set slug \<and> slug \<notin> {'''', ''.'', ''..''})"

definition inspect :: "lock_env \<Rightarrow> string \<Rightarrow> int \<Rightarrow> string \<Rightarrow> string + lock_decision" where
  "inspect env lock_dir now slug =
     (if \<not> safe_slug slug
      then Inr \<lparr>ld_state = Unreadable, ld_detail = ''unsafe slug '' @ py_repr slug,
                ld_reason = ''unsafe-slug'', ld_lock_reason = [], ld_expires_at = []\<rparr>
      else case le_read env (path_for lock_dir slug) of
             FileMissing \<Rightarrow> Inr \<lparr>ld_state = Absent, ld_detail = [], ld_reason = [],
                                 ld_lock_reason = [], ld_expires_at = []\<rparr>
           | ReadFailed e \<Rightarrow> Inr \<lparr>ld_state = Unreadable, ld_detail = ''unreadable: '' @ e,
                                  ld_reason = e, ld_lock_reason = [], ld_expires_at = []\<rparr>
           | FileText raw \<Rightarrow> decide env now raw)"

text \<open>The line \<open>check\<close> logs for a decision; the common case is silent.\<close>

definition check_lines :: "string \<Rightarrow> lock_decision \<Rightarrow> log_line list" where
  "check_lines slug d = (case ld_state d of
     Absent \<Rightarrow> []
   | Unreadable \<Rightarrow> [(Error, paint ''event=wake_lock_unreadable'' @ '' '' @
       log_fields [(''agent'', VStr slug), (''detail'', VStr (ld_reason d))])]
   | Held \<Rightarrow> [(Warning, paint ''event=wake_refused'' @ '' '' @
       log_fields [(''reason'', VStr ''wake_lock_held''), (''agent'', VStr slug),
         (''lock_reason'', VStr (ld_lock_reason d)), (''expires_at'', VStr (ld_expires_at d))])]
   | Stale \<Rightarrow> [(Warning, paint ''event=wake_lock_stale'' @ '' '' @
       log_fields [(''agent'', VStr slug), (''expires_at'', VStr (ld_expires_at d))])]
   | Unparseable \<Rightarrow> [(Warning, paint ''event=wake_refused'' @ '' '' @
       log_fields [(''reason'', VStr ''wake_lock_unparseable''), (''agent'', VStr slug),
         (''detail'', VStr (ld_reason d))])])"

definition check_lock :: "lock_env \<Rightarrow> string \<Rightarrow> int \<Rightarrow> string \<Rightarrow> string + (lock_decision \<times> log_line list)" where
  "check_lock env lock_dir now slug =
     (case inspect env lock_dir now slug of
        Inl e \<Rightarrow> Inl e | Inr d \<Rightarrow> Inr (d, check_lines slug d))"

subsection \<open>The fail direction of every edge\<close>

text \<open>The expiry a lock file carries, when it has a usable one.\<close>

definition usable_expiry :: "lock_env \<Rightarrow> string \<Rightarrow> int option" where
  "usable_expiry env raw = (case le_loads env raw of
     Loaded (JObj data) \<Rightarrow> (case parse_iso8601 env (jget data ''expires_at'') of
        Inr (Some t) \<Rightarrow> Some t | _ \<Rightarrow> None)
   | _ \<Rightarrow> None)"

definition present_text :: "lock_env \<Rightarrow> string \<Rightarrow> string \<Rightarrow> string option" where
  "present_text env lock_dir slug =
     (case le_read env (path_for lock_dir slug) of FileText raw \<Rightarrow> Some raw | _ \<Rightarrow> None)"

lemma decide_refuses_iff:
  assumes "decide env now raw = Inr d"
  shows "should_wake d \<longleftrightarrow> (\<exists>t. usable_expiry env raw = Some t \<and> t \<le> now)"
  using assms
  by (auto simp: decide_def usable_expiry_def should_wake_def wake_states_def unparseable_def Let_def
      split: loads_result.splits json.splits sum.splits option.splits if_splits)

text \<open>
  The interlock's fail direction: for a registered slug, the wake is refused exactly
  when a lock file is there and readable and its expiry is not in the past, a lock
  without a usable expiry refusing for good; a missing or unreadable file never refuses.
\<close>

theorem wake_lock_refuses_iff:
  assumes "safe_slug slug" and "check_lock env lock_dir now slug = Inr (d, ls)"
  shows "\<not> should_wake d \<longleftrightarrow>
    (\<exists>raw. present_text env lock_dir slug = Some raw
       \<and> (\<forall>t. usable_expiry env raw = Some t \<longrightarrow> now < t))"
proof -
  have i: "inspect env lock_dir now slug = Inr d"
    using assms(2) by (simp add: check_lock_def split: sum.splits)
  show ?thesis
  proof (cases "le_read env (path_for lock_dir slug)")
    case (FileText raw)
    with i assms(1) have "decide env now raw = Inr d" by (simp add: inspect_def)
    from decide_refuses_iff[OF this] show ?thesis by (auto simp: present_text_def FileText not_less)
  qed (use i assms(1) in \<open>auto simp: inspect_def present_text_def should_wake_def wake_states_def\<close>)
qed

definition demo_lock_env :: lock_env where
  "demo_lock_env = \<lparr>le_read = (\<lambda>p. if p = ''/run/locks/nova.lock'' then FileText ''lock'' else FileMissing),
     le_loads = (\<lambda>_. Loaded (JObj [(''expires_at'', JStr ''2026-01-01T00:00:00Z''), (''reason'', JStr ''converge'')])),
     le_iso = (\<lambda>_. IsoAware 1000), le_isoformat = (\<lambda>_. ''2026'')\<rparr>"

lemma wake_lock_refuses_iff_witness:
  "\<not> should_wake \<lparr>ld_state = Held, ld_detail = ''wake_lock_held until 2026'', ld_reason = [],
       ld_lock_reason = ''converge'', ld_expires_at = ''2026''\<rparr> \<longleftrightarrow>
    (\<exists>raw. present_text demo_lock_env ''/run/locks'' ''nova'' = Some raw
       \<and> (\<forall>t. usable_expiry demo_lock_env raw = Some t \<longrightarrow> 999 < t))"
proof -
  have p: "path_for ''/run/locks'' ''nova'' = ''/run/locks/nova.lock''" by (simp add: path_for_def)
  have z: "py_strip ''2026-01-01T00:00:00Z'' = ''2026-01-01T00:00:00Z''"
    by (simp add: py_strip_def py_rstrip_def py_lstrip_def is_space_def)
  have c: "check_lock demo_lock_env ''/run/locks'' 999 ''nova'' =
    Inr (\<lparr>ld_state = Held, ld_detail = ''wake_lock_held until 2026'', ld_reason = [],
       ld_lock_reason = ''converge'', ld_expires_at = ''2026''\<rparr>,
      check_lines ''nova'' \<lparr>ld_state = Held, ld_detail = ''wake_lock_held until 2026'', ld_reason = [],
       ld_lock_reason = ''converge'', ld_expires_at = ''2026''\<rparr>)"
    by (simp add: check_lock_def inspect_def safe_slug_def p demo_lock_env_def decide_def jget_def
        parse_iso8601_def z utc_min_def utc_max_def Let_def)
  show ?thesis by (rule wake_lock_refuses_iff[OF _ c]) (simp add: safe_slug_def)
qed

text \<open>
  A lock never wedges an agent past its own expiry: once \<open>now\<close> reaches a usable
  expiry the file is read as stale, the wake proceeds, and so at every later time.
\<close>

theorem wake_lock_expires:
  assumes "safe_slug slug" and "present_text env lock_dir slug = Some raw"
    and "usable_expiry env raw = Some t" and "t \<le> now"
  shows "\<exists>d ls. check_lock env lock_dir now slug = Inr (d, ls) \<and> ld_state d = Stale \<and> should_wake d"
proof -
  have r: "le_read env (path_for lock_dir slug) = FileText raw"
    using assms(2) by (auto simp: present_text_def split: read_result.splits)
  obtain data where data: "le_loads env raw = Loaded (JObj data)"
    and p: "parse_iso8601 env (jget data ''expires_at'') = Inr (Some t)"
    using assms(3)
    by (auto simp: usable_expiry_def split: loads_result.splits json.splits sum.splits option.splits)
  show ?thesis
    using assms(1,4) by (simp add: check_lock_def inspect_def r decide_def data p Let_def
        should_wake_def wake_states_def)
qed

lemma wake_lock_expires_witness:
  "\<exists>d ls. check_lock demo_lock_env ''/run/locks'' 1000 ''nova'' = Inr (d, ls)
     \<and> ld_state d = Stale \<and> should_wake d"
proof -
  have z: "py_strip ''2026-01-01T00:00:00Z'' = ''2026-01-01T00:00:00Z''"
    by (simp add: py_strip_def py_rstrip_def py_lstrip_def is_space_def)
  show ?thesis
    by (rule wake_lock_expires[where raw = "''lock''" and t = 1000])
      (simp_all add: safe_slug_def present_text_def path_for_def demo_lock_env_def usable_expiry_def
        jget_def parse_iso8601_def z utc_min_def utc_max_def)
qed

end
