(* ===== verification/Concurrency.thy ===== *)
theory Concurrency
  imports Prelude
begin

text \<open>
  \<open>concurrency.py\<close>: the bounded retry around a wake, and the per-agent locks.
  The operation, the retry hook and the sleep are state transformers of an arbitrary
  state; an exception is a value, transient or any other.
\<close>

subsection \<open>Bounded retry\<close>

datatype ('a, 'e) attempt = Done 'a | Transient string | Raised 'e

datatype ('a, 'e) retry_result = Returned 'a | Exhausted nat string | Propagated 'e | BadAttempts

text \<open>The loop of \<open>with_retry\<close> from attempt \<open>n\<close> on; attempt numbers run from 1 to \<open>attempts\<close>.\<close>

function retry_from ::
  "('s \<Rightarrow> ('a, 'e) attempt \<times> 's) \<Rightarrow> (nat \<Rightarrow> nat \<Rightarrow> string \<Rightarrow> 's \<Rightarrow> 's) \<Rightarrow> (rat \<Rightarrow> 's \<Rightarrow> 's)
    \<Rightarrow> nat \<Rightarrow> rat \<Rightarrow> nat \<Rightarrow> 's \<Rightarrow> ('a, 'e) retry_result \<times> 's" where
  "retry_from operation on_retry sleep attempts base_delay n s =
     (case operation s of
        (Done a, s) \<Rightarrow> (Returned a, s)
      | (Raised e, s) \<Rightarrow> (Propagated e, s)
      | (Transient msg, s) \<Rightarrow>
          if n \<ge> attempts then (Exhausted attempts msg, s)
          else retry_from operation on_retry sleep attempts base_delay (Suc n)
                 (sleep (base_delay * 2 ^ (n - 1)) (on_retry n attempts msg s)))"
  by pat_completeness auto
termination
  by (relation "measure (\<lambda>(_, _, _, attempts, _, n, _). attempts - n)") auto

declare retry_from.simps [simp del]

definition with_retry ::
  "('s \<Rightarrow> ('a, 'e) attempt \<times> 's) \<Rightarrow> (nat \<Rightarrow> nat \<Rightarrow> string \<Rightarrow> 's \<Rightarrow> 's) \<Rightarrow> (rat \<Rightarrow> 's \<Rightarrow> 's)
    \<Rightarrow> nat \<Rightarrow> rat \<Rightarrow> 's \<Rightarrow> ('a, 'e) retry_result \<times> 's" where
  "with_retry operation on_retry sleep attempts base_delay s =
     (if attempts < 1 then (BadAttempts, s)
      else retry_from operation on_retry sleep attempts base_delay 1 s)"

text \<open>
  The schedule the loop follows, attempt by attempt: run the operation; a transient
  failure that is not the last is reported, slept on, and tried again.
\<close>

datatype trace_event = Tried | Reported nat nat string | Slept rat

text \<open>An operation instrumented with its own trace, its outcome read from a script.\<close>

type_synonym ('a, 'e) scripted = "('a, 'e) attempt list \<times> trace_event list"

definition scripted_op :: "('a, 'e) scripted \<Rightarrow> ('a, 'e) attempt \<times> ('a, 'e) scripted" where
  "scripted_op st = (case st of
     ([], tr) \<Rightarrow> (Transient [], ([], tr @ [Tried]))
   | (x # xs, tr) \<Rightarrow> (x, (xs, tr @ [Tried])))"

definition scripted_report :: "nat \<Rightarrow> nat \<Rightarrow> string \<Rightarrow> ('a, 'e) scripted \<Rightarrow> ('a, 'e) scripted" where
  "scripted_report n tot msg st = (fst st, snd st @ [Reported n tot msg])"

definition scripted_sleep :: "rat \<Rightarrow> ('a, 'e) scripted \<Rightarrow> ('a, 'e) scripted" where
  "scripted_sleep d st = (fst st, snd st @ [Slept d])"

text \<open>The trace of \<open>k\<close> transient failures from attempt \<open>n\<close> on, each followed by a retry.\<close>

fun backoff :: "rat \<Rightarrow> nat \<Rightarrow> nat \<Rightarrow> string list \<Rightarrow> trace_event list" where
  "backoff base tot n [] = []"
| "backoff base tot n (m # ms) =
     [Tried, Reported n tot m, Slept (base * 2 ^ (n - 1))] @ backoff base tot (Suc n) ms"

lemma scripted_simps [simp]:
  "scripted_op (x # xs, tr) = (x, (xs, tr @ [Tried]))"
  "scripted_report n tot msg (xs, tr) = (xs, tr @ [Reported n tot msg])"
  "scripted_sleep d (xs, tr) = (xs, tr @ [Slept d])"
  by (simp_all add: scripted_op_def scripted_report_def scripted_sleep_def)

lemma scripted_succeeds:
  assumes "n + length ms \<le> attempts" and "x = Done a \<or> x = Raised e"
  shows "retry_from scripted_op scripted_report scripted_sleep attempts base n
      (map Transient ms @ x # rest, tr)
    = ((case x of Done a \<Rightarrow> Returned a | Raised e \<Rightarrow> Propagated e | Transient m \<Rightarrow> BadAttempts),
       (rest, tr @ backoff base attempts n ms @ [Tried]))"
  using assms
proof (induction ms arbitrary: n tr)
  case Nil
  then show ?case by (auto simp: retry_from.simps)
next
  case (Cons m ms)
  then have "n < attempts" by simp
  then show ?case using Cons.IH[of "Suc n"] Cons.prems by (subst retry_from.simps) simp
qed

lemma scripted_exhausts:
  assumes "n + length ms = attempts"
  shows "retry_from scripted_op scripted_report scripted_sleep attempts base n
      (map Transient ms @ Transient m # rest, tr)
    = (Exhausted attempts m, (rest, tr @ backoff base attempts n ms @ [Tried]))"
  using assms
proof (induction ms arbitrary: n tr)
  case Nil
  then show ?case by (subst retry_from.simps) simp
next
  case (Cons m' ms)
  then have "n < attempts" by simp
  then show ?case using Cons.IH[of "Suc n"] Cons.prems by (subst retry_from.simps) simp
qed

text \<open>
  An invariant of the operation, the hook and the sleep holds wherever the loop ends.
\<close>

lemma retry_invariant:
  assumes "retry_from operation on_retry sleep attempts base n s = (r, s')" and "P s"
    and "\<And>s. P s \<Longrightarrow> P (snd (operation s))" and "\<And>k tot m s. P s \<Longrightarrow> P (on_retry k tot m s)"
    and "\<And>d s. P s \<Longrightarrow> P (sleep d s)"
  shows "P s'"
  using assms
proof (induction operation on_retry sleep attempts base n s arbitrary: r s' rule: retry_from.induct)
  case (1 operation on_retry sleep attempts base n s)
  obtain x s1 where op: "operation s = (x, s1)" by (cases "operation s")
  have s1: "P s1" using "1.prems"(2,3) op by (metis snd_conv)
  show ?case
  proof (cases "\<exists>m. x = Transient m \<and> n < attempts")
    case True
    then obtain m where m: "x = Transient m" "n < attempts" by blast
    have "retry_from operation on_retry sleep attempts base (Suc n)
        (sleep (base * 2 ^ (n - 1)) (on_retry n attempts m s1)) = (r, s')"
      using "1.prems"(1) op m by (subst (asm) retry_from.simps) simp
    moreover have "P (sleep (base * 2 ^ (n - 1)) (on_retry n attempts m s1))"
      using "1.prems"(4,5) s1 by blast
    ultimately show ?thesis using "1.IH"[OF op[symmetric] m(1)] m(2) "1.prems"(3,4,5) op by auto
  next
    case False
    then have "s' = s1"
      using "1.prems"(1) op by (subst (asm) retry_from.simps) (auto split: attempt.splits if_splits)
    with s1 show ?thesis by simp
  qed
qed

text \<open>The final state is one an attempt left.\<close>

lemma retry_final:
  "\<exists>s0. snd (retry_from operation on_retry sleep attempts base n s) = snd (operation s0)"
proof (induction operation on_retry sleep attempts base n s rule: retry_from.induct)
  case (1 operation on_retry sleep attempts base n s)
  obtain x s1 where op: "operation s = (x, s1)" by (cases "operation s")
  show ?case
  proof (cases "\<exists>m. x = Transient m \<and> n < attempts")
    case True
    then obtain m where m: "x = Transient m" "n < attempts" by blast
    then have "retry_from operation on_retry sleep attempts base n s
        = retry_from operation on_retry sleep attempts base (Suc n)
            (sleep (base * 2 ^ (n - 1)) (on_retry n attempts m s1))"
      using op by (subst retry_from.simps) simp
    with "1.IH"[OF op[symmetric] m(1)] m(2) show ?thesis by simp
  next
    case False
    then have "snd (retry_from operation on_retry sleep attempts base n s) = s1"
      using op by (subst retry_from.simps) (auto split: attempt.splits)
    then show ?thesis using op by (metis snd_conv)
  qed
qed

text \<open>The loop of at least one attempt never returns the argument error.\<close>

lemma retry_from_not_bad:
  "fst (retry_from operation on_retry sleep attempts base n s) \<noteq> BadAttempts"
proof (induction operation on_retry sleep attempts base n s rule: retry_from.induct)
  case (1 operation on_retry sleep attempts base n s)
  then show ?case by (subst retry_from.simps) (auto split: attempt.splits prod.splits)
qed

text \<open>
  \<open>with_retry\<close> follows its schedule exactly: after \<open>k\<close> transient failures below the
  bound and a success, the operation ran \<open>k + 1\<close> times, every failure was reported and
  slept on with the delay doubling from \<open>base_delay\<close>, and the success is returned.
\<close>

theorem retry_schedule:
  assumes "length ms < attempts"
  shows "with_retry scripted_op scripted_report scripted_sleep attempts base
      (map Transient ms @ Done a # rest, [])
    = (Returned a, (rest, backoff base attempts 1 ms @ [Tried]))"
  using assms by (simp add: with_retry_def scripted_succeeds)

lemma retry_schedule_witness:
  "with_retry scripted_op scripted_report scripted_sleep 3 (1/2)
      (map Transient [''busy''] @ Done (7::nat) # [Raised ()], [])
    = (Returned 7, ([Raised ()], backoff (1/2) 3 1 [''busy''] @ [Tried]))"
  by (rule retry_schedule) simp

text \<open>
  The retry is bounded: when every attempt fails transiently the operation runs
  exactly \<open>attempts\<close> times, the last failure is neither reported nor slept on, and
  \<open>RetryExhausted\<close> carries it.
\<close>

theorem retry_exhausts:
  assumes "Suc (length ms) = attempts"
  shows "with_retry scripted_op scripted_report scripted_sleep attempts base
      (map Transient ms @ Transient m # rest, [])
    = (Exhausted attempts m, (rest, backoff base attempts 1 ms @ [Tried]))"
  using assms by (simp add: with_retry_def scripted_exhausts)

lemma retry_exhausts_witness:
  "with_retry scripted_op scripted_report scripted_sleep 3 (1/2)
      (map Transient [''a'', ''b''] @ (Transient ''c'' :: (nat, unit) attempt) # [], [])
    = (Exhausted 3 ''c'', ([], backoff (1/2) 3 1 [''a'', ''b''] @ [Tried]))"
  by (rule retry_exhausts) simp

subsection \<open>Per-agent locks\<close>

text \<open>
  One lock per key, created on first use: the registry maps a key to whether its lock is
  held. Acquiring without blocking reports failure; releasing a free lock raises.
\<close>

type_synonym agent_locks = "string \<Rightarrow> bool option"

definition lock_for :: "string \<Rightarrow> agent_locks \<Rightarrow> agent_locks" where
  "lock_for key ls = (case ls key of None \<Rightarrow> ls(key \<mapsto> False) | Some _ \<Rightarrow> ls)"

definition try_acquire :: "string \<Rightarrow> agent_locks \<Rightarrow> bool \<times> agent_locks" where
  "try_acquire key ls = (let ls = lock_for key ls in
     if ls key = Some True then (False, ls) else (True, ls(key \<mapsto> True)))"

definition release_lock :: "string \<Rightarrow> agent_locks \<Rightarrow> string + agent_locks" where
  "release_lock key ls = (let ls = lock_for key ls in
     if ls key = Some True then Inr (ls(key \<mapsto> False)) else Inl ''release unlocked lock'')"

definition holds_lock :: "string \<Rightarrow> agent_locks \<Rightarrow> bool" where
  "holds_lock key ls = (ls key = Some True)"

lemma try_acquire_free:
  "\<not> holds_lock key ls \<Longrightarrow> try_acquire key ls = (True, (lock_for key ls)(key \<mapsto> True))"
  by (auto simp: try_acquire_def holds_lock_def lock_for_def Let_def split: option.splits)

lemma try_acquire_held: "holds_lock key ls \<Longrightarrow> try_acquire key ls = (False, ls)"
  by (auto simp: try_acquire_def holds_lock_def lock_for_def Let_def)

lemma try_acquire_other: "j \<noteq> key \<Longrightarrow> holds_lock j (snd (try_acquire key ls)) = holds_lock j ls"
  by (auto simp: try_acquire_def holds_lock_def lock_for_def Let_def split: option.splits)

lemma release_acquired:
  "\<not> holds_lock key ls \<Longrightarrow> try_acquire key ls = (True, ls') \<Longrightarrow>
     \<exists>ls''. release_lock key ls' = Inr ls'' \<and> \<not> holds_lock key ls''
       \<and> (\<forall>j. j \<noteq> key \<longrightarrow> holds_lock j ls'' = holds_lock j ls)"
  by (auto simp: try_acquire_def release_lock_def holds_lock_def lock_for_def Let_def
      split: option.splits if_splits)

end
