(* ===== verification/Scheduler.thy ===== *)
theory Scheduler
  imports Logfmt
begin

text \<open>
  \<open>scheduler.py\<close>: per-agent FIFO queues over a fixed number of wake lanes. Each critical
  section of the code (held under its condition variable) is one operation here:
  \<open>submit\<close>, the post-wake bookkeeping \<open>finish\<close>, and the two halves of a queue-change
  delivery, \<open>observe\<close> (the ticket's turn has come and the observer is called) and
  \<open>settle\<close>. A concurrent execution is a sequence of these operations in any order the
  guards allow, the relation \<open>sched_step\<close>.

  The dictionaries are maps, the deques lists. \<open>running\<close> is the pool's work (jobs handed
  to the executor and not yet finished), \<open>waiting\<close> the deliveries blocked on their turn,
  \<open>delivering\<close> those inside the observer. The last three fields are history variables:
  they record what was submitted, started and counted, and no operation reads them.
\<close>

record 'j sched =
  lanes :: nat
  queues :: "string \<Rightarrow> 'j list option"
  ready :: "string list"
  ready_set :: "string set"
  inflight :: "string set"
  notifying :: nat
  notify_seq :: "string \<Rightarrow> nat option"
  notify_turn :: "string \<Rightarrow> nat option"
  saturated :: bool
  running :: "(string \<times> 'j) list"
  waiting :: "(string \<times> nat \<times> nat) list"
  delivering :: "(string \<times> nat \<times> nat) list"
  observed :: "(string \<times> nat) list"
  sched_log :: "log_line list"
  submitted :: "(string \<times> 'j) list"
  started :: "(string \<times> 'j) list"
  counted :: "(string \<times> nat) list"

definition init_sched :: "nat \<Rightarrow> 'j sched" where
  "init_sched n = \<lparr>lanes = n, queues = (\<lambda>_. None), ready = [], ready_set = {}, inflight = {},
     notifying = 0, notify_seq = (\<lambda>_. None), notify_turn = (\<lambda>_. None), saturated = False,
     running = [], waiting = [], delivering = [], observed = [], sched_log = [],
     submitted = [], started = [], counted = []\<rparr>"

definition mk_sched :: "int \<Rightarrow> string + 'j sched" where
  "mk_sched n = (if n < 1 then Inl (''lanes must be >= 1, got '' @ str_int n)
                 else Inr (init_sched (nat n)))"

subsection \<open>The critical sections\<close>

definition queue_of :: "'j sched \<Rightarrow> string \<Rightarrow> 'j list" where
  "queue_of s k = (case queues s k of None \<Rightarrow> [] | Some q \<Rightarrow> q)"

definition pending :: "'j sched \<Rightarrow> string \<Rightarrow> nat" where
  "pending s k = length (queue_of s k) + (if k \<in> inflight s then 1 else 0)"

text \<open>
  The dispatch loop on the ready list; \<open>None\<close> is the \<open>KeyError\<close> or \<open>IndexError\<close> of a ready
  key without work.
\<close>

fun pump :: "string list \<Rightarrow> 'j sched \<Rightarrow> 'j sched option" where
  "pump [] s = Some (s\<lparr>ready := []\<rparr>)"
| "pump (k # rest) s =
     (if card (inflight s) < lanes s
      then (case queues s k of
              Some (j # q) \<Rightarrow>
                pump rest (s\<lparr>ready_set := ready_set s - {k},
                  queues := (queues s)(k := (if q = [] then None else Some q)),
                  inflight := insert k (inflight s),
                  running := running s @ [(k, j)], started := started s @ [(k, j)]\<rparr>)
            | _ \<Rightarrow> None)
      else Some (s\<lparr>ready := k # rest\<rparr>))"

definition note_saturation :: "'j sched \<Rightarrow> 'j sched" where
  "note_saturation s =
     (let sat = (card (inflight s) \<ge> lanes s \<and> ready s \<noteq> []);
          line = (if sat \<and> \<not> saturated s
                  then [(Info, ''wake scheduler saturated: all '' @ str_int (int (lanes s))
                         @ '' lane(s) busy, '' @ str_int (int (length (ready s)))
                         @ '' agent(s) waiting; raise BASECRADLE_ROUTER_WAKE_LANES if this persists'')]
                  else if \<not> sat \<and> saturated s
                  then [(Info, ''wake scheduler no longer saturated: a lane freed'')] else [])
      in s\<lparr>saturated := sat, sched_log := sched_log s @ line\<rparr>)"

definition pump_locked :: "'j sched \<Rightarrow> 'j sched option" where
  "pump_locked s = map_option note_saturation (pump (ready s) s)"

text \<open>The count is taken and its ticket claimed in the same critical section.\<close>

definition claim_notification :: "string \<Rightarrow> 'j sched \<Rightarrow> 'j sched" where
  "claim_notification k s =
     (let ticket = (case notify_seq s k of None \<Rightarrow> 0 | Some n \<Rightarrow> n) in
      s\<lparr>notify_seq := (notify_seq s)(k \<mapsto> Suc ticket), notifying := Suc (notifying s),
        waiting := waiting s @ [(k, pending s k, ticket)],
        counted := counted s @ [(k, pending s k)]\<rparr>)"

definition make_ready :: "string \<Rightarrow> 'j sched \<Rightarrow> 'j sched" where
  "make_ready k s = s\<lparr>ready := ready s @ [k], ready_set := insert k (ready_set s)\<rparr>"

definition submit :: "string \<Rightarrow> 'j \<Rightarrow> 'j sched \<Rightarrow> 'j sched option" where
  "submit k j s =
     (let s = s\<lparr>queues := (queues s)(k \<mapsto> queue_of s k @ [j]), submitted := submitted s @ [(k, j)]\<rparr>;
          s = (if k \<notin> inflight s \<and> k \<notin> ready_set s then make_ready k s else s)
      in map_option (claim_notification k) (pump_locked s))"

definition finish :: "string \<Rightarrow> 'j sched \<Rightarrow> 'j sched option" where
  "finish k s =
     (let s = s\<lparr>inflight := inflight s - {k}, running := filter (\<lambda>e. fst e \<noteq> k) (running s)\<rparr>;
          s = (if queue_of s k \<noteq> [] \<and> k \<notin> ready_set s then make_ready k s else s)
      in map_option (claim_notification k) (pump_locked s))"

definition turn_of :: "'j sched \<Rightarrow> string \<Rightarrow> nat" where
  "turn_of s k = (case notify_turn s k of None \<Rightarrow> 0 | Some n \<Rightarrow> n)"

definition observe :: "string \<times> nat \<times> nat \<Rightarrow> 'j sched \<Rightarrow> 'j sched" where
  "observe e s = s\<lparr>waiting := remove1 e (waiting s), delivering := delivering s @ [e],
     observed := observed s @ [(fst e, fst (snd e))]\<rparr>"

definition settle :: "string \<times> nat \<times> nat \<Rightarrow> 'j sched \<Rightarrow> 'j sched" where
  "settle e s =
     (let k = fst e; turn = Suc (snd (snd e));
          s = (if notify_seq s k = Some turn
               then s\<lparr>notify_seq := (notify_seq s)(k := None), notify_turn := (notify_turn s)(k := None)\<rparr>
               else s\<lparr>notify_turn := (notify_turn s)(k \<mapsto> turn)\<rparr>)
      in s\<lparr>notifying := notifying s - 1, delivering := remove1 e (delivering s)\<rparr>)"

definition idle :: "'j sched \<Rightarrow> bool" where
  "idle s = (inflight s = {} \<and> ready s = [] \<and> notifying s = 0)"

subsection \<open>The step relation\<close>

datatype 'j sched_op = Submit string 'j | Finish string
  | Observe "string \<times> nat \<times> nat" | Settle "string \<times> nat \<times> nat"

inductive sched_step :: "'j sched \<Rightarrow> 'j sched_op \<Rightarrow> 'j sched \<Rightarrow> bool" where
  step_submit: "submit k j s = Some s' \<Longrightarrow> sched_step s (Submit k j) s'"
| step_finish: "k \<in> fst ` set (running s) \<Longrightarrow> finish k s = Some s' \<Longrightarrow> sched_step s (Finish k) s'"
| step_observe: "(k, p, t) \<in> set (waiting s) \<Longrightarrow> turn_of s k = t \<Longrightarrow>
     sched_step s (Observe (k, p, t)) (observe (k, p, t) s)"
| step_settle: "e \<in> set (delivering s) \<Longrightarrow> sched_step s (Settle e) (settle e s)"

inductive sched_run :: "'j sched \<Rightarrow> 'j sched_op list \<Rightarrow> 'j sched \<Rightarrow> bool" where
  run_nil: "sched_run s [] s"
| run_snoc: "sched_run s as s1 \<Longrightarrow> sched_step s1 a s2 \<Longrightarrow> sched_run s (as @ [a]) s2"

inductive_cases submit_stepE: "sched_step s (Submit k j) s'"
inductive_cases finish_stepE: "sched_step s (Finish k) s'"
inductive_cases observe_stepE: "sched_step s (Observe e) s'"
inductive_cases settle_stepE: "sched_step s (Settle e) s'"

definition reachable :: "nat \<Rightarrow> 'j sched \<Rightarrow> bool" where
  "reachable n s = (\<exists>as. sched_run (init_sched n) as s)"

subsection \<open>The dispatch invariant\<close>

definition of_key :: "string \<Rightarrow> (string \<times> 'a) list \<Rightarrow> 'a list" where
  "of_key k xs = map snd (filter (\<lambda>e. fst e = k) xs)"

lemma of_key_simps [simp]:
  "of_key k [] = []"
  "of_key k (xs @ ys) = of_key k xs @ of_key k ys"
  "of_key k ((k', x) # xs) = (if k' = k then x # of_key k xs else of_key k xs)"
  by (simp_all add: of_key_def)

text \<open>The part of the state dispatch works on, the ready list given apart.\<close>

definition dispatch_ok :: "string list \<Rightarrow> 'j sched \<Rightarrow> bool" where
  "dispatch_ok rs s \<longleftrightarrow> finite (inflight s) \<and> card (inflight s) \<le> lanes s
     \<and> distinct rs \<and> set rs = ready_set s \<and> ready_set s \<inter> inflight s = {}
     \<and> (\<forall>k. queues s k \<noteq> Some []) \<and> (\<forall>k\<in>ready_set s. queues s k \<noteq> None)
     \<and> (\<forall>k. queues s k \<noteq> None \<longrightarrow> k \<in> ready_set s \<union> inflight s)
     \<and> distinct (map fst (running s)) \<and> fst ` set (running s) = inflight s
     \<and> (\<forall>k. of_key k (submitted s) = of_key k (started s) @ queue_of s k)"

definition sched_ok :: "'j sched \<Rightarrow> bool" where
  "sched_ok s \<longleftrightarrow> 1 \<le> lanes s \<and> dispatch_ok (ready s) s
     \<and> (card (inflight s) < lanes s \<longrightarrow> ready s = [])
     \<and> (saturated s \<longleftrightarrow> card (inflight s) \<ge> lanes s \<and> ready s \<noteq> [])"

text \<open>What the dispatch loop leaves alone.\<close>

definition same_notify :: "'j sched \<Rightarrow> 'j sched \<Rightarrow> bool" where
  "same_notify s s' \<longleftrightarrow> notifying s' = notifying s \<and> notify_seq s' = notify_seq s
     \<and> notify_turn s' = notify_turn s \<and> waiting s' = waiting s \<and> delivering s' = delivering s
     \<and> observed s' = observed s \<and> counted s' = counted s \<and> lanes s' = lanes s
     \<and> submitted s' = submitted s"

lemma dispatch_ok_pop:
  assumes ok: "dispatch_ok (k # rest) s" and room: "card (inflight s) < lanes s"
    and q: "queues s k = Some (j # q)"
  shows "dispatch_ok rest (s\<lparr>ready_set := ready_set s - {k},
           queues := (queues s)(k := (if q = [] then None else Some q)),
           inflight := insert k (inflight s),
           running := running s @ [(k, j)], started := started s @ [(k, j)]\<rparr>)"
proof -
  have k: "k \<in> ready_set s" "k \<notin> inflight s" "k \<notin> set rest"
    using ok by (auto simp: dispatch_ok_def)
  have fifo: "of_key k (submitted s) = of_key k (started s) @ j # q"
    using ok q by (auto simp: dispatch_ok_def queue_of_def)
  show ?thesis
    using ok room q k fifo
    by (auto simp: dispatch_ok_def card_insert_if queue_of_def split: option.splits)
qed

lemma pending_pop:
  assumes "queues s k = Some (j # q)" and "k \<notin> inflight s"
  shows "pending (s\<lparr>ready_set := R, queues := (queues s)(k := (if q = [] then None else Some q)),
           inflight := insert k (inflight s), running := X, started := Y\<rparr>) i = pending s i"
  using assms by (auto simp: pending_def queue_of_def)

text \<open>
  The loop never meets a ready key without work, keeps the invariant and the pending
  counts, dispatches a prefix of the ready list, and stops with full lanes or nothing
  ready.
\<close>

lemma pump_ok:
  "dispatch_ok rs s \<Longrightarrow> \<exists>s' popped. pump rs s = Some s' \<and> dispatch_ok (ready s') s'
     \<and> (card (inflight s') < lanes s' \<longrightarrow> ready s' = [])
     \<and> same_notify s s' \<and> saturated s' = saturated s \<and> (\<forall>i. pending s' i = pending s i)
     \<and> rs = popped @ ready s' \<and> inflight s' = inflight s \<union> set popped
     \<and> length popped \<le> lanes s - card (inflight s)
     \<and> (\<exists>ds. started s' = started s @ ds \<and> map fst ds = popped)
     \<and> (popped = [] \<longrightarrow> rs \<noteq> [] \<longrightarrow> lanes s \<le> card (inflight s))"
proof (induction rs s rule: pump.induct)
  case (1 s)
  then show ?case by (auto simp: dispatch_ok_def same_notify_def pending_def queue_of_def)
next
  case (2 k rest s)
  show ?case
  proof (cases "card (inflight s) < lanes s")
    case False
    with 2(2) show ?thesis
      by (auto simp: dispatch_ok_def same_notify_def pending_def queue_of_def)
  next
    case True
    have kr: "k \<in> ready_set s" "k \<notin> inflight s" using 2(2) by (auto simp: dispatch_ok_def)
    then have "queues s k \<noteq> None" "queues s k \<noteq> Some []" using 2(2) by (auto simp: dispatch_ok_def)
    then obtain j q where q: "queues s k = Some (j # q)" by (metis neq_Nil_conv option.exhaust)
    let ?s1 = "s\<lparr>ready_set := ready_set s - {k},
           queues := (queues s)(k := (if q = [] then None else Some q)),
           inflight := insert k (inflight s),
           running := running s @ [(k, j)], started := started s @ [(k, j)]\<rparr>"
    have c1: "card (inflight ?s1) = Suc (card (inflight s))"
      using kr 2(2) by (simp add: dispatch_ok_def)
    from 2(1)[OF True q refl dispatch_ok_pop[OF 2(2) True q]]
    obtain s' popped ds where r: "pump rest ?s1 = Some s'" "dispatch_ok (ready s') s'"
      "card (inflight s') < lanes s' \<longrightarrow> ready s' = []" "same_notify ?s1 s'"
      "saturated s' = saturated ?s1" "\<forall>i. pending s' i = pending ?s1 i"
      "rest = popped @ ready s'" "inflight s' = inflight ?s1 \<union> set popped"
      "length popped \<le> lanes ?s1 - card (inflight ?s1)"
      "started s' = started ?s1 @ ds" "map fst ds = popped"
      by blast
    have "pump (k # rest) s = Some s'" using r(1) True q by simp
    moreover have "same_notify s s'" using r(4) by (simp add: same_notify_def)
    moreover have "\<forall>i. pending s' i = pending s i"
      using r(6) pending_pop[OF q kr(2)] by simp
    moreover have "k # rest = (k # popped) @ ready s'" using r(7) by simp
    moreover have "inflight s' = inflight s \<union> set (k # popped)" using r(8) by auto
    moreover have "length (k # popped) \<le> lanes s - card (inflight s)"
      using r(9) c1 True by simp
    moreover have "started s' = started s @ ((k, j) # ds) \<and> map fst ((k, j) # ds) = k # popped"
      using r(10,11) by simp
    ultimately show ?thesis using r(2,3,5) by (intro exI[of _ s'] exI[of _ "k # popped"]) auto
  qed
qed

lemma pump_locked_ok:
  assumes "dispatch_ok (ready s) s" and "1 \<le> lanes s"
  obtains s' popped ds where "pump_locked s = Some s'" "sched_ok s'" "same_notify s s'"
    "\<forall>i. pending s' i = pending s i" "ready s = popped @ ready s'"
    "inflight s' = inflight s \<union> set popped" "length popped \<le> lanes s - card (inflight s)"
    "started s' = started s @ ds" "map fst ds = popped"
    "popped = [] \<longrightarrow> ready s \<noteq> [] \<longrightarrow> lanes s \<le> card (inflight s)"
proof -
  from pump_ok[OF assms(1)] obtain s' popped ds where r: "pump (ready s) s = Some s'"
    "dispatch_ok (ready s') s'" "card (inflight s') < lanes s' \<longrightarrow> ready s' = []"
    "same_notify s s'" "\<forall>i. pending s' i = pending s i" "ready s = popped @ ready s'"
    "inflight s' = inflight s \<union> set popped" "length popped \<le> lanes s - card (inflight s)"
    "started s' = started s @ ds" "map fst ds = popped"
    "popped = [] \<longrightarrow> ready s \<noteq> [] \<longrightarrow> lanes s \<le> card (inflight s)"
    by blast
  have frame: "ready (note_saturation s') = ready s'" "inflight (note_saturation s') = inflight s'"
    "started (note_saturation s') = started s'" "pending (note_saturation s') = pending s'"
    "same_notify s (note_saturation s') = same_notify s s'"
    by (auto simp: note_saturation_def Let_def pending_def queue_of_def same_notify_def fun_eq_iff)
  have "lanes s' = lanes s" using r(4) by (simp add: same_notify_def)
  then have ok: "sched_ok (note_saturation s')"
    using r(2,3) assms(2)
    by (auto simp: sched_ok_def note_saturation_def Let_def dispatch_ok_def queue_of_def)
  show thesis
    by (rule that[of "note_saturation s'" popped ds])
      (use r ok in \<open>simp_all add: pump_locked_def frame\<close>)
qed

lemma claim_frame [simp]:
  "lanes (claim_notification k s) = lanes s" "queues (claim_notification k s) = queues s"
  "ready (claim_notification k s) = ready s" "ready_set (claim_notification k s) = ready_set s"
  "inflight (claim_notification k s) = inflight s" "running (claim_notification k s) = running s"
  "saturated (claim_notification k s) = saturated s" "started (claim_notification k s) = started s"
  "submitted (claim_notification k s) = submitted s"
  "queue_of (claim_notification k s) = queue_of s" "pending (claim_notification k s) = pending s"
  by (auto simp: claim_notification_def Let_def queue_of_def pending_def fun_eq_iff)

lemma sched_ok_claim: "sched_ok (claim_notification k s) = sched_ok s"
  by (simp add: sched_ok_def dispatch_ok_def)

text \<open>The state each critical section hands to the dispatch loop.\<close>

definition before_submit_pump :: "string \<Rightarrow> 'j \<Rightarrow> 'j sched \<Rightarrow> 'j sched" where
  "before_submit_pump k j s =
     (let s = s\<lparr>queues := (queues s)(k \<mapsto> queue_of s k @ [j]), submitted := submitted s @ [(k, j)]\<rparr>
      in if k \<notin> inflight s \<and> k \<notin> ready_set s then make_ready k s else s)"

definition before_finish_pump :: "string \<Rightarrow> 'j sched \<Rightarrow> 'j sched" where
  "before_finish_pump k s =
     (let s = s\<lparr>inflight := inflight s - {k}, running := filter (\<lambda>e. fst e \<noteq> k) (running s)\<rparr>
      in if queue_of s k \<noteq> [] \<and> k \<notin> ready_set s then make_ready k s else s)"

lemma submit_alt: "submit k j s = map_option (claim_notification k) (pump_locked (before_submit_pump k j s))"
  by (simp add: submit_def before_submit_pump_def Let_def)

lemma finish_alt: "finish k s = map_option (claim_notification k) (pump_locked (before_finish_pump k s))"
  by (simp add: finish_def before_finish_pump_def Let_def)

lemma before_submit_ok:
  assumes "sched_ok s"
  shows "dispatch_ok (ready (before_submit_pump k j s)) (before_submit_pump k j s)"
  using assms
  by (auto simp: before_submit_pump_def sched_ok_def dispatch_ok_def make_ready_def Let_def queue_of_def
      split: option.splits)

lemma before_finish_ok:
  assumes "sched_ok s"
  shows "dispatch_ok (ready (before_finish_pump k s)) (before_finish_pump k s)"
proof -
  have ok: "dispatch_ok (ready s) s" using assms by (simp add: sched_ok_def)
  let ?f = "filter (\<lambda>e. fst e \<noteq> k) (running s)"
  have r: "distinct (map fst ?f)" "fst ` set ?f = inflight s - {k}"
    using ok by (auto simp: dispatch_ok_def distinct_map_filter)
  have c: "card (inflight s - {k}) \<le> lanes s" "finite (inflight s - {k})"
    using ok card_Diff1_le[of "inflight s" k] by (auto simp: dispatch_ok_def)
  have q: "queues s k = None \<longleftrightarrow> queue_of s k = []"
    using ok by (auto simp: dispatch_ok_def queue_of_def split: option.splits)
  show ?thesis
    using ok r c q
    by (auto simp: before_finish_pump_def dispatch_ok_def make_ready_def Let_def queue_of_def)
qed

lemma before_frame [simp]:
  "lanes (before_submit_pump k j s) = lanes s" "lanes (before_finish_pump k s) = lanes s"
  "same_notify (before_submit_pump k j s) t \<longleftrightarrow> same_notify (s\<lparr>submitted := submitted s @ [(k, j)]\<rparr>) t"
  "same_notify (before_finish_pump k s) t \<longleftrightarrow> same_notify s t"
  by (auto simp: before_submit_pump_def before_finish_pump_def make_ready_def Let_def same_notify_def)

lemma before_pending:
  "i \<noteq> k \<Longrightarrow> pending (before_submit_pump k j s) i = pending s i"
  "i \<noteq> k \<Longrightarrow> pending (before_finish_pump k s) i = pending s i"
  by (auto simp: before_submit_pump_def before_finish_pump_def make_ready_def Let_def pending_def
      queue_of_def)

lemma before_started [simp]:
  "started (before_submit_pump k j s) = started s" "started (before_finish_pump k s) = started s"
  by (auto simp: before_submit_pump_def before_finish_pump_def make_ready_def Let_def)

lemma deliver_frame [simp]:
  "sched_ok (observe e s) = sched_ok s" "sched_ok (settle e s) = sched_ok s"
  "started (observe e s) = started s" "started (settle e s) = started s"
  "ready (observe e s) = ready s" "ready (settle e s) = ready s"
  "pending (observe e s) = pending s" "pending (settle e s) = pending s"
  by (auto simp: observe_def settle_def Let_def sched_ok_def dispatch_ok_def queue_of_def pending_def
      fun_eq_iff)

lemma sched_ok_submit:
  assumes "sched_ok s"
  shows "\<exists>s'. submit k j s = Some s' \<and> sched_ok s'"
proof -
  have "1 \<le> lanes (before_submit_pump k j s)" using assms by (simp add: sched_ok_def)
  from pump_locked_ok[OF before_submit_ok[OF assms] this] show ?thesis
    unfolding submit_alt by (metis option.simps(9) sched_ok_claim)
qed

lemma sched_ok_finish:
  assumes "sched_ok s"
  shows "\<exists>s'. finish k s = Some s' \<and> sched_ok s'"
proof -
  have "1 \<le> lanes (before_finish_pump k s)" using assms by (simp add: sched_ok_def)
  from pump_locked_ok[OF before_finish_ok[OF assms] this] show ?thesis
    unfolding finish_alt by (metis option.simps(9) sched_ok_claim)
qed

lemma sched_ok_step:
  assumes "sched_step s a s'" and "sched_ok s"
  shows "sched_ok s'"
  using assms
proof (cases rule: sched_step.cases)
  case (step_submit k j)
  then show ?thesis using sched_ok_submit[OF assms(2), of k j] by auto
next
  case (step_finish k)
  then show ?thesis using sched_ok_finish[OF assms(2), of k] by auto
qed (use assms(2) in auto)

lemma sched_ok_init: "1 \<le> n \<Longrightarrow> sched_ok (init_sched n)"
  by (simp add: sched_ok_def dispatch_ok_def init_sched_def queue_of_def)

lemma sched_ok_run: "sched_run s as s' \<Longrightarrow> sched_ok s \<Longrightarrow> sched_ok s'"
  by (induction rule: sched_run.induct) (auto intro: sched_ok_step)

lemma reachable_ok: "reachable n s \<Longrightarrow> 1 \<le> n \<Longrightarrow> sched_ok s"
  using sched_ok_run sched_ok_init unfolding reachable_def by blast

end
