(* ===== verification/Scheduler_Notify.thy ===== *)
theory Scheduler_Notify
  imports Scheduler "HOL-Library.Multiset"
begin

text \<open>
  The queue-change notifications of the scheduler. Tickets are claimed under the lock
  with the count they carry and delivered in ticket order, so what the observer is told
  about an agent is always a prefix of the counts that were true, in order.
\<close>

subsection \<open>The notification invariant\<close>

definition seq_of :: "'j sched \<Rightarrow> string \<Rightarrow> nat" where
  "seq_of s k = (case notify_seq s k of None \<Rightarrow> 0 | Some n \<Rightarrow> n)"

definition ticket :: "string \<times> nat \<times> nat \<Rightarrow> nat" where
  "ticket e = snd (snd e)"

definition outstanding :: "'j sched \<Rightarrow> (string \<times> nat \<times> nat) multiset" where
  "outstanding s = mset (waiting s) + mset (delivering s)"

definition tickets :: "'j sched \<Rightarrow> string \<Rightarrow> nat multiset" where
  "tickets s k = image_mset ticket (filter_mset (\<lambda>e. fst e = k) (outstanding s))"

definition n_waiting :: "'j sched \<Rightarrow> string \<Rightarrow> nat" where
  "n_waiting s k = size (filter_mset (\<lambda>e. fst e = k) (mset (waiting s)))"

definition counts :: "'j sched \<Rightarrow> string \<Rightarrow> nat list" where
  "counts s k = of_key k (counted s)"

text \<open>The tickets of one agent: exactly those from its turn to its next number.\<close>

definition key_ok :: "'j sched \<Rightarrow> string \<Rightarrow> bool" where
  "key_ok s k \<longleftrightarrow>
     tickets s k = mset [turn_of s k ..< seq_of s k]
   \<and> (notify_seq s k = None \<longrightarrow> notify_turn s k = None)
   \<and> (notify_seq s k \<noteq> None \<longrightarrow> turn_of s k < seq_of s k)
   \<and> seq_of s k - turn_of s k \<le> length (counts s k)
   \<and> (\<forall>e\<in>set (delivering s). fst e = k \<longrightarrow> ticket e = turn_of s k)
   \<and> (\<forall>e\<in>#outstanding s. fst e = k \<longrightarrow>
        fst (snd e) = counts s k ! (length (counts s k) - (seq_of s k - ticket e)))
   \<and> of_key k (observed s) = take (length (counts s k) - n_waiting s k) (counts s k)"

definition count_ok :: "'j sched \<Rightarrow> string \<Rightarrow> bool" where
  "count_ok s k \<longleftrightarrow> pending s k = (if counts s k = [] then 0 else last (counts s k))"

definition notify_ok :: "'j sched \<Rightarrow> bool" where
  "notify_ok s \<longleftrightarrow> notifying s = size (outstanding s) \<and> (\<forall>k. key_ok s k) \<and> (\<forall>k. count_ok s k)"

lemma key_ok_same_notify: "same_notify s s' \<Longrightarrow> key_ok s' k = key_ok s k"
  by (simp add: same_notify_def key_ok_def tickets_def outstanding_def turn_of_def seq_of_def
      counts_def n_waiting_def)

lemma ticket_in_range:
  assumes "key_ok s k" and "e \<in># outstanding s" and "fst e = k"
  shows "turn_of s k \<le> ticket e \<and> ticket e < seq_of s k"
proof -
  have "ticket e \<in># tickets s k" using assms(2,3) by (auto simp: tickets_def)
  with assms(1) show ?thesis by (simp add: key_ok_def)
qed

lemma tickets_split:
  "size (tickets s k) = n_waiting s k + size (filter_mset (\<lambda>e. fst e = k) (mset (delivering s)))"
  by (simp add: tickets_def outstanding_def n_waiting_def)

lemma count_distinct: "distinct xs \<Longrightarrow> count (mset xs) t \<le> 1"
  by (induction xs) auto

lemma count_ticket: "key_ok s k \<Longrightarrow> count (tickets s k) t \<le> 1"
  using count_distinct[of "[turn_of s k ..< seq_of s k]" t] by (simp add: key_ok_def)

subsection \<open>Claiming\<close>

lemma claim_turn [simp]: "turn_of (claim_notification k s) j = turn_of s j"
  by (simp add: turn_of_def claim_notification_def Let_def)

lemma claim_seq: "seq_of (claim_notification k s) j = (if j = k then Suc (seq_of s k) else seq_of s j)"
  by (simp add: seq_of_def claim_notification_def Let_def split: option.split)

lemma claim_outstanding:
  "outstanding (claim_notification k s) = add_mset (k, pending s k, seq_of s k) (outstanding s)"
  by (simp add: outstanding_def claim_notification_def Let_def seq_of_def)

lemma claim_counts:
  "counts (claim_notification k s) j = (if j = k then counts s k @ [pending s k] else counts s j)"
  by (simp add: counts_def claim_notification_def Let_def)

lemma key_ok_claim_other: "j \<noteq> k \<Longrightarrow> key_ok s j \<Longrightarrow> key_ok (claim_notification k s) j"
  by (auto simp: key_ok_def tickets_def claim_outstanding claim_seq claim_counts n_waiting_def)
    (auto simp: claim_notification_def Let_def)

lemma key_ok_claim:
  assumes ok: "key_ok s k"
  shows "key_ok (claim_notification k s) k"
proof -
  let ?s = "claim_notification k s" and ?n = "seq_of s k" and ?c = "counts s k"
  have turn: "turn_of s k \<le> ?n"
    using ok by (cases "notify_seq s k") (auto simp: key_ok_def seq_of_def turn_of_def)
  have tk: "tickets ?s k = mset [turn_of ?s k ..< seq_of ?s k]"
    using ok turn by (simp add: tickets_def claim_outstanding claim_seq key_ok_def ticket_def)
  have len: "seq_of ?s k - turn_of ?s k \<le> length (counts ?s k)"
    using ok by (auto simp: claim_seq claim_counts key_ok_def)
  have val: "fst (snd e) = counts ?s k ! (length (counts ?s k) - (seq_of ?s k - ticket e))"
    if e: "e \<in># outstanding ?s" "fst e = k" for e
  proof (cases "e \<in># outstanding s")
    case True
    from ticket_in_range[OF ok True e(2)]
    have r: "turn_of s k \<le> ticket e" "ticket e < ?n" by auto
    have l: "?n - ticket e \<le> length ?c" using ok r unfolding key_ok_def by linarith
    have "fst (snd e) = ?c ! (length ?c - (?n - ticket e))"
      using ok True e(2) by (simp add: key_ok_def)
    moreover have "length ?c - (?n - ticket e) < length ?c" using r l by simp
    moreover have "Suc (length ?c) - (Suc ?n - ticket e) = length ?c - (?n - ticket e)"
      using r by simp
    ultimately show ?thesis by (simp add: claim_seq claim_counts nth_append)
  next
    case False
    then have "e = (k, pending s k, ?n)" using e(1) by (auto simp: claim_outstanding)
    then show ?thesis by (simp add: claim_seq claim_counts ticket_def)
  qed
  have obs: "of_key k (observed ?s) = take (length (counts ?s k) - n_waiting ?s k) (counts ?s k)"
  proof -
    have "n_waiting ?s k = Suc (n_waiting s k)" "observed ?s = observed s"
      by (simp_all add: n_waiting_def claim_notification_def Let_def)
    then show ?thesis using ok by (simp add: claim_counts key_ok_def)
  qed
  have del: "\<forall>e\<in>set (delivering ?s). fst e = k \<longrightarrow> ticket e = turn_of ?s k"
    using ok by (simp add: key_ok_def claim_notification_def Let_def turn_of_def)
  have seqs: "notify_seq ?s k \<noteq> None" "turn_of ?s k < seq_of ?s k"
    using turn by (simp_all add: claim_seq) (simp add: claim_notification_def Let_def)
  show ?thesis unfolding key_ok_def using tk len val obs del seqs by auto
qed

lemma count_ok_claim: "count_ok (claim_notification k s) k"
  by (simp add: count_ok_def claim_counts)

lemma count_ok_claim_other: "j \<noteq> k \<Longrightarrow> count_ok s j \<Longrightarrow> count_ok (claim_notification k s) j"
  by (simp add: count_ok_def claim_counts)

lemma notify_ok_claim:
  assumes "notifying s = size (outstanding s)" and "\<forall>j. key_ok s j" and "\<forall>j. j \<noteq> k \<longrightarrow> count_ok s j"
  shows "notify_ok (claim_notification k s)"
proof -
  have "notifying (claim_notification k s) = Suc (notifying s)"
    by (simp add: claim_notification_def Let_def)
  moreover have "key_ok (claim_notification k s) j" for j
    using assms(2) by (cases "j = k") (simp_all add: key_ok_claim key_ok_claim_other)
  moreover have "count_ok (claim_notification k s) j" for j
    using assms(3) by (cases "j = k") (simp_all add: count_ok_claim count_ok_claim_other)
  ultimately show ?thesis using assms(1) by (simp add: notify_ok_def claim_outstanding)
qed

subsection \<open>Observing and settling\<close>

lemma observe_frame:
  assumes "e \<in> set (waiting s)"
  shows "outstanding (observe e s) = outstanding s" "seq_of (observe e s) = seq_of s"
    "turn_of (observe e s) = turn_of s" "counts (observe e s) = counts s"
    "tickets (observe e s) = tickets s" "notify_seq (observe e s) = notify_seq s"
    "notify_turn (observe e s) = notify_turn s" "notifying (observe e s) = notifying s"
    "n_waiting (observe e s) j = (if fst e = j then n_waiting s j - 1 else n_waiting s j)"
proof -
  show o: "outstanding (observe e s) = outstanding s"
    using assms by (simp add: outstanding_def observe_def)
  show "tickets (observe e s) = tickets s" by (simp add: tickets_def o fun_eq_iff)
  show "n_waiting (observe e s) j = (if fst e = j then n_waiting s j - 1 else n_waiting s j)"
    using assms by (simp add: n_waiting_def observe_def size_Diff_singleton)
qed (simp_all add: observe_def seq_of_def turn_of_def counts_def fun_eq_iff)

text \<open>While a ticket whose turn has come waits, no other delivery of its agent is under way.\<close>

lemma turn_waiting_exclusive:
  assumes ok: "key_ok s k" and e: "e \<in> set (waiting s)" "fst e = k" "ticket e = turn_of s k"
  shows "filter_mset (\<lambda>e. fst e = k) (mset (delivering s)) = {#}"
proof (rule ccontr)
  assume "filter_mset (\<lambda>e. fst e = k) (mset (delivering s)) \<noteq> {#}"
  then obtain d where d: "d \<in># filter_mset (\<lambda>e. fst e = k) (mset (delivering s))" by auto
  then have td: "ticket d = turn_of s k" using ok by (auto simp: key_ok_def)
  have "{#e#} + {#d#} \<subseteq># filter_mset (\<lambda>e. fst e = k) (outstanding s)"
    unfolding outstanding_def filter_union_mset
    by (rule subset_mset.add_mono) (use e d in auto)
  then have "image_mset ticket ({#e#} + {#d#}) \<subseteq># tickets s k"
    unfolding tickets_def by (rule image_mset_subseteq_mono)
  then have "count (image_mset ticket ({#e#} + {#d#})) (turn_of s k) \<le> count (tickets s k) (turn_of s k)"
    by (rule mset_subset_eq_count)
  with count_ticket[OF ok, of "turn_of s k"] e(3) td show False by simp
qed

lemma key_ok_observe:
  assumes ok: "\<forall>j. key_ok s j" and e: "e \<in> set (waiting s)" "ticket e = turn_of s (fst e)"
  shows "key_ok (observe e s) j"
proof (cases "fst e = j")
  case False
  then have "of_key j (observed (observe e s)) = of_key j (observed s)" by (simp add: observe_def)
  with ok False show ?thesis
    by (auto simp: key_ok_def observe_frame[OF e(1)]) (auto simp: observe_def)
next
  case True
  let ?c = "counts s j"
  have okj: "key_ok s j" using ok by blast
  have w: "n_waiting s j = seq_of s j - turn_of s j"
    using tickets_split[of s j] turn_waiting_exclusive[OF okj e(1) True] e(2) True okj
    by (simp add: key_ok_def)
  have eo: "e \<in># outstanding s" using e(1) by (simp add: outstanding_def)
  have range: "turn_of s j < seq_of s j" using ticket_in_range[OF okj eo True] e(2) True by simp
  have len: "n_waiting s j \<le> length ?c" "0 < n_waiting s j"
    using okj w range by (simp_all add: key_ok_def)
  have v: "fst (snd e) = ?c ! (length ?c - n_waiting s j)"
    using okj eo True e(2) w by (simp add: key_ok_def)
  have "of_key j (observed (observe e s)) = of_key j (observed s) @ [fst (snd e)]"
    using True by (simp add: observe_def)
  also have "\<dots> = take (Suc (length ?c - n_waiting s j)) ?c"
    using okj v len by (simp add: key_ok_def take_Suc_conv_app_nth)
  also have "Suc (length ?c - n_waiting s j) = length ?c - n_waiting (observe e s) j"
    using len by (simp add: observe_frame[OF e(1)] True)
  finally have obs: "of_key j (observed (observe e s)) = take (length ?c - n_waiting (observe e s) j) ?c" .
  have del: "\<forall>d\<in>set (delivering (observe e s)). fst d = j \<longrightarrow> ticket d = turn_of s j"
    using okj e(2) True by (auto simp: key_ok_def observe_def)
  from okj obs del show ?thesis unfolding key_ok_def by (simp add: observe_frame[OF e(1)])
qed

lemma settle_fields:
  "waiting (settle e s) = waiting s" "observed (settle e s) = observed s"
  "delivering (settle e s) = remove1 e (delivering s)" "counted (settle e s) = counted s"
  "notifying (settle e s) = notifying s - 1"
  by (simp_all add: settle_def Let_def)

lemma settle_frame:
  assumes "e \<in> set (delivering s)"
  shows "outstanding (settle e s) = outstanding s - {#e#}" "counts (settle e s) = counts s"
    "waiting (settle e s) = waiting s" "observed (settle e s) = observed s"
    "n_waiting (settle e s) = n_waiting s" "notifying (settle e s) = notifying s - 1"
    "fst e \<noteq> j \<Longrightarrow> notify_seq (settle e s) j = notify_seq s j"
    "fst e \<noteq> j \<Longrightarrow> notify_turn (settle e s) j = notify_turn s j"
proof -
  show "outstanding (settle e s) = outstanding s - {#e#}"
    using assms unfolding settle_fields outstanding_def mset_remove1
    by (metis add_diff_cancel_left' set_mset_mset diff_union_single_conv)
  show "fst e \<noteq> j \<Longrightarrow> notify_seq (settle e s) j = notify_seq s j"
    and "fst e \<noteq> j \<Longrightarrow> notify_turn (settle e s) j = notify_turn s j"
    by (simp_all add: settle_def Let_def)
qed (simp_all add: settle_fields counts_def n_waiting_def fun_eq_iff)

lemma tickets_settle:
  assumes "e \<in> set (delivering s)"
  shows "tickets (settle e s) j = (if fst e = j then tickets s j - {#ticket e#} else tickets s j)"
proof -
  have eo: "e \<in># outstanding s" using assms by (simp add: outstanding_def)
  have i: "image_mset ticket (filter_mset P (outstanding s) - {#e#})
      = image_mset ticket (filter_mset P (outstanding s)) - {#ticket e#}" if "P e" for P
    using eo that by (simp add: image_mset_Diff)
  show ?thesis
  proof (cases "fst e = j")
    case True
    then show ?thesis
      by (simp add: tickets_def settle_frame(1)[OF assms] i)
  next
    case False
    then show ?thesis by (simp add: tickets_def settle_frame(1)[OF assms])
  qed
qed

lemma key_ok_settle:
  assumes ok: "\<forall>j. key_ok s j" and e: "e \<in> set (delivering s)"
  shows "key_ok (settle e s) j"
proof (cases "fst e = j")
  case False
  have sub: "d \<in># outstanding s - {#e#} \<Longrightarrow> d \<in># outstanding s" for d by (meson in_diffD)
  from False ok have "key_ok s j" by blast
  with False show ?thesis
    unfolding key_ok_def turn_of_def seq_of_def
    by (auto simp: settle_frame[OF e] tickets_settle[OF e] settle_fields dest: sub
        notin_set_remove1)
next
  case True
  have okj: "key_ok s j" using ok by blast
  have eo: "e \<in># outstanding s" using e by (simp add: outstanding_def)
  have te: "ticket e = turn_of s j" using okj e True by (simp add: key_ok_def)
  have range: "turn_of s j < seq_of s j" using ticket_in_range[OF okj eo True] te by simp
  then obtain n where n: "notify_seq s j = Some n" "seq_of s j = n"
    by (auto simp: seq_of_def split: option.splits)
  have tk: "tickets (settle e s) j = mset [Suc (turn_of s j) ..< n]"
    using okj True te range n(2) by (simp add: tickets_settle[OF e] key_ok_def upt_conv_Cons)
  have nodel: "fst d \<noteq> j" if d: "d \<in> set (remove1 e (delivering s))" for d
  proof
    assume fd: "fst d = j"
    have "d \<in> set (delivering s)" using d by (meson notin_set_remove1)
    then have "ticket d = turn_of s j" using okj fd by (simp add: key_ok_def)
    moreover have "d \<in># outstanding (settle e s)"
      using d by (simp add: outstanding_def settle_fields flip: mset_remove1)
    then have "ticket d \<in># tickets (settle e s) j" using fd by (auto simp: tickets_def)
    ultimately show False by (simp add: tk)
  qed
  have vals: "fst (snd d) = counts s j ! (length (counts s j) - (n - ticket d))"
    if "d \<in># outstanding (settle e s)" "fst d = j" for d
  proof -
    have "d \<in># outstanding s" using that(1) unfolding settle_frame(1)[OF e] by (rule in_diffD)
    then show ?thesis using okj that(2) n(2) by (simp add: key_ok_def)
  qed
  have obs: "of_key j (observed (settle e s)) = take (length (counts s j) - n_waiting s j) (counts s j)"
    using okj by (simp add: settle_frame[OF e] key_ok_def)
  have nodel': "\<forall>d\<in>set (delivering (settle e s)). fst d \<noteq> j"
    using nodel by (simp add: settle_fields)
  show ?thesis
  proof (cases "n = Suc (turn_of s j)")
    case last: True
    have sq: "notify_seq (settle e s) j = None" "notify_turn (settle e s) j = None"
      using last n(1) True te by (simp_all add: settle_def Let_def ticket_def)
    have noout: "fst d \<noteq> j" if "d \<in># outstanding (settle e s)" for d
      using tk last that by (auto simp: tickets_def filter_mset_eq_conv)
    show ?thesis
      unfolding key_ok_def turn_of_def seq_of_def sq
      using tk last obs nodel' noout by (auto simp: settle_frame[OF e])
  next
    case more: False
    have sq: "notify_seq (settle e s) j = Some n" "notify_turn (settle e s) j = Some (Suc (turn_of s j))"
      using more n(1) True te by (simp_all add: settle_def Let_def ticket_def)
    have "Suc (turn_of s j) < n" using more range n(2) by simp
    moreover have "n - Suc (turn_of s j) \<le> length (counts s j)"
    proof -
      have "n - turn_of s j \<le> length (counts s j)" using okj n(2) by (simp add: key_ok_def)
      then show ?thesis by linarith
    qed
    moreover have ts: "turn_of (settle e s) j = Suc (turn_of s j)" "seq_of (settle e s) j = n"
      by (simp_all add: turn_of_def seq_of_def sq)
    moreover have "counts (settle e s) = counts s" "n_waiting (settle e s) = n_waiting s"
      using settle_frame[OF e] by simp_all
    moreover have "\<forall>d\<in>#outstanding (settle e s). fst d = j \<longrightarrow>
        fst (snd d) = counts s j ! (length (counts s j) - (n - ticket d))"
      using vals by blast
    ultimately show ?thesis unfolding key_ok_def using tk obs nodel' sq by simp
  qed
qed

lemma notify_ok_observe:
  assumes "notify_ok s" and "e \<in> set (waiting s)" and "ticket e = turn_of s (fst e)"
  shows "notify_ok (observe e s)"
  using assms key_ok_observe[of s e] by (simp add: notify_ok_def observe_frame[OF assms(2)] count_ok_def)

lemma notify_ok_settle:
  assumes "notify_ok s" and "e \<in> set (delivering s)"
  shows "notify_ok (settle e s)"
proof -
  have "e \<in># outstanding s" using assms(2) by (simp add: outstanding_def)
  then show ?thesis
    using assms key_ok_settle[of s e]
    by (simp add: notify_ok_def settle_frame[OF assms(2)] count_ok_def size_Diff_singleton)
qed

text \<open>A critical section that pumps and then claims, from any state the pump accepts.\<close>

lemma notify_ok_pumped:
  assumes p: "pump_locked s = Some s'" "dispatch_ok (ready s) s" "1 \<le> lanes s"
    and n: "notifying s = size (outstanding s)" "\<forall>j. key_ok s j" "\<forall>j. j \<noteq> k \<longrightarrow> count_ok s j"
  shows "notify_ok (claim_notification k s')"
proof -
  from pump_locked_ok[OF p(2,3)] p(1) have s: "same_notify s s'" "\<forall>i. pending s' i = pending s i"
    by (metis option.inject)+
  have k: "\<forall>j. key_ok s' j" using n(2) key_ok_same_notify[OF s(1)] by simp
  show ?thesis
    by (rule notify_ok_claim)
      (use n s k in \<open>simp_all add: key_ok_same_notify count_ok_def same_notify_def counts_def outstanding_def\<close>)
qed

lemma before_submit_notify [simp]:
  "notifying (before_submit_pump k j s) = notifying s" "outstanding (before_submit_pump k j s) = outstanding s"
  "key_ok (before_submit_pump k j s) i = key_ok s i" "counts (before_submit_pump k j s) = counts s"
  by (auto simp: before_submit_pump_def make_ready_def Let_def outstanding_def key_ok_def tickets_def
      turn_of_def seq_of_def counts_def n_waiting_def fun_eq_iff)

lemma before_finish_notify [simp]:
  "notifying (before_finish_pump k s) = notifying s" "outstanding (before_finish_pump k s) = outstanding s"
  "key_ok (before_finish_pump k s) i = key_ok s i" "counts (before_finish_pump k s) = counts s"
  by (auto simp: before_finish_pump_def make_ready_def Let_def outstanding_def key_ok_def tickets_def
      turn_of_def seq_of_def counts_def n_waiting_def fun_eq_iff)

lemma notify_ok_submit:
  assumes "notify_ok s" and "sched_ok s" and "submit k j s = Some s'"
  shows "notify_ok s'"
proof -
  from assms(3) obtain t where t: "pump_locked (before_submit_pump k j s) = Some t"
    "s' = claim_notification k t"
    by (auto simp: submit_alt)
  show ?thesis unfolding t(2)
    by (rule notify_ok_pumped[OF t(1) before_submit_ok[OF assms(2)]])
      (use assms(1,2) in \<open>simp_all add: sched_ok_def notify_ok_def count_ok_def before_pending\<close>)
qed

lemma notify_ok_finish:
  assumes "notify_ok s" and "sched_ok s" and "finish k s = Some s'"
  shows "notify_ok s'"
proof -
  from assms(3) obtain t where t: "pump_locked (before_finish_pump k s) = Some t"
    "s' = claim_notification k t"
    by (auto simp: finish_alt)
  show ?thesis unfolding t(2)
    by (rule notify_ok_pumped[OF t(1) before_finish_ok[OF assms(2)]])
      (use assms(1,2) in \<open>simp_all add: sched_ok_def notify_ok_def count_ok_def before_pending\<close>)
qed

lemma notify_ok_step:
  assumes "sched_step s a s'" and "sched_ok s" and "notify_ok s"
  shows "notify_ok s'"
  using assms
proof (cases rule: sched_step.cases)
  case (step_observe k p t)
  then show ?thesis using notify_ok_observe[OF assms(3)] by (simp add: ticket_def)
next
  case (step_submit k j)
  from notify_ok_submit[OF assms(3,2) this(2)] show ?thesis .
next
  case (step_finish k)
  from notify_ok_finish[OF assms(3,2) this(3)] show ?thesis .
next
  case (step_settle e)
  with notify_ok_settle[OF assms(3) this(3)] show ?thesis by simp
qed

lemma notify_ok_init: "notify_ok (init_sched n)"
  by (simp add: notify_ok_def init_sched_def outstanding_def key_ok_def tickets_def turn_of_def
      seq_of_def counts_def n_waiting_def count_ok_def pending_def queue_of_def)

lemma notify_ok_run: "sched_run s as s' \<Longrightarrow> sched_ok s \<Longrightarrow> notify_ok s \<Longrightarrow> notify_ok s'"
proof (induction rule: sched_run.induct)
  case (run_snoc s as s1 a s2)
  then show ?case using notify_ok_step sched_ok_run by blast
qed

lemma reachable_notify: "reachable n s \<Longrightarrow> 1 \<le> n \<Longrightarrow> notify_ok s"
  unfolding reachable_def by (elim exE) (erule notify_ok_run[OF _ sched_ok_init notify_ok_init])

end
