(* ===== verification/Scheduler_Props.thy ===== *)
theory Scheduler_Props
  imports Scheduler_Notify
begin

text \<open>
  What the scheduler promises, over every reachable state: per-agent order and
  exclusion, bounded lanes, bounded waiting, and truthful queue counts.
\<close>

subsection \<open>Lanes are constant\<close>

lemma lanes_pump: "pump rs s = Some s' \<Longrightarrow> lanes s' = lanes s"
  by (induction rs s rule: pump.induct) (auto split: if_splits option.splits list.splits)

lemma lanes_pump_locked: "pump_locked s = Some s' \<Longrightarrow> lanes s' = lanes s"
  by (auto simp: pump_locked_def note_saturation_def Let_def dest: lanes_pump)

lemma lanes_step: "sched_step s a s' \<Longrightarrow> lanes s' = lanes s"
proof (induction rule: sched_step.induct)
  case (step_submit k j s s')
  then show ?case by (auto simp: submit_alt dest: lanes_pump_locked)
next
  case (step_finish k s s')
  then show ?case by (auto simp: finish_alt dest: lanes_pump_locked)
qed (simp_all add: observe_def settle_def Let_def)

lemma lanes_run: "sched_run s as s' \<Longrightarrow> lanes s' = lanes s"
  by (induction rule: sched_run.induct) (simp_all add: lanes_step)

lemma reachable_lanes: "reachable n s \<Longrightarrow> lanes s = n"
  unfolding reachable_def by (auto dest: lanes_run simp: init_sched_def)

lemma reachable_dispatch:
  assumes "reachable n s" and "1 \<le> n"
  shows "dispatch_ok (ready s) s"
  using reachable_ok[OF assms] by (simp add: sched_ok_def)

text \<open>A run to evaluate the properties on: two lanes, three agents, four jobs.\<close>

definition demo_after :: "nat sched option" where
  "demo_after = Option.bind (submit ''a'' 1 (init_sched 2)) (\<lambda>s.
     Option.bind (submit ''a'' 2 s) (\<lambda>s. Option.bind (submit ''b'' 3 s) (submit ''c'' 4)))"

lemma run_submit:
  "sched_run s0 as s \<Longrightarrow> submit k j s = Some s' \<Longrightarrow> sched_run s0 (as @ [Submit k j]) s'"
  by (rule run_snoc, assumption, rule step_submit)

lemma demo_reachable: "demo_after = Some s \<Longrightarrow> reachable 2 s"
  unfolding demo_after_def reachable_def
  by (auto simp: bind_eq_Some_conv intro!: exI run_submit run_nil)

lemma demo_value:
  "map_option (\<lambda>s. (queue_of s ''a'', started s, ready s, counted s)) demo_after
     = Some ([2], [(''a'', 1), (''b'', 3)], [''c''],
             [(''a'', 1), (''a'', 2), (''b'', 1), (''c'', 1)])"
  unfolding demo_after_def by code_simp

lemma demo_waiting: "map_option (\<lambda>s. queue_of s ''c'') demo_after = Some [4]"
  unfolding demo_after_def by code_simp

lemma demo_state:
  obtains s where "reachable 2 s" "demo_after = Some s" "queue_of s ''a'' = [2]" "ready s = [''c'']"
    "started s = [(''a'', 1), (''b'', 3)]"
  using demo_value demo_reachable by (auto simp: map_option_eq_Some)

subsection \<open>Per-agent order\<close>

text \<open>
  Per-agent FIFO. In every reachable state, what was submitted for an agent is, in
  order, what was started for it followed by its queue: no job is lost, duplicated,
  reordered or handed to another agent.
\<close>

theorem scheduler_fifo:
  assumes "reachable n s" and "1 \<le> n"
  shows "of_key k (submitted s) = of_key k (started s) @ queue_of s k"
  using reachable_dispatch[OF assms] by (simp add: dispatch_ok_def)

theorem scheduler_fifo_witness:
  "\<exists>s. demo_after = Some s \<and> of_key ''a'' (submitted s) = [1, 2::nat]"
proof -
  obtain s where s: "reachable 2 s" "demo_after = Some s" "queue_of s ''a'' = [2]"
    "started s = [(''a'', 1), (''b'', 3)]"
    by (rule demo_state)
  from scheduler_fifo[OF s(1), of "''a''"] s show ?thesis by auto
qed

subsection \<open>Lanes and exclusion\<close>

text \<open>
  C6. Dispatch is safe and work-conserving. In every reachable state at most \<open>n\<close> wakes
  run, at most one per agent, and an agent with queued work is either being woken or
  waits because every lane is busy; the next submission or completion is accepted (the
  dispatch loop never raises).
\<close>

theorem scheduler_dispatch_safe:
  assumes "reachable n s" and "1 \<le> n"
  shows "length (running s) \<le> n \<and> distinct (map fst (running s))
    \<and> (\<forall>k. queue_of s k = [] \<or> k \<in> fst ` set (running s)
           \<or> (k \<in> set (ready s) \<and> length (running s) = n))
    \<and> (\<forall>k j. submit k j s \<noteq> None) \<and> (\<forall>k. finish k s \<noteq> None)"
proof -
  have ok: "sched_ok s" by (rule reachable_ok[OF assms])
  then have d: "dispatch_ok (ready s) s" by (simp add: sched_ok_def)
  have n: "lanes s = n" by (rule reachable_lanes[OF assms(1)])
  have len: "length (running s) = card (inflight s)"
    using d by (metis dispatch_ok_def distinct_card length_map set_map)
  have r: "fst ` set (running s) = inflight s" "set (ready s) = ready_set s"
    using d by (auto simp: dispatch_ok_def)
  have "queue_of s k = [] \<or> k \<in> inflight s \<or> (k \<in> ready_set s \<and> card (inflight s) = n)" for k
  proof (cases "queue_of s k = [] \<or> k \<in> inflight s")
    case False
    then have "queues s k \<noteq> None" by (cases "queues s k") (auto simp: queue_of_def)
    then have k: "k \<in> ready_set s" using False d by (auto simp: dispatch_ok_def)
    then have "ready s \<noteq> []" using r(2) by auto
    then have "card (inflight s) = n"
      using ok n d by (force simp: sched_ok_def dispatch_ok_def)
    with k show ?thesis by simp
  qed blast
  moreover have "submit k j s \<noteq> None" "finish k s \<noteq> None" for k j
    using sched_ok_submit[OF ok] sched_ok_finish[OF ok] by fastforce+
  moreover have "card (inflight s) \<le> n" "distinct (map fst (running s))"
    using d n by (simp_all add: dispatch_ok_def)
  ultimately show ?thesis unfolding len r by blast
qed

theorem scheduler_dispatch_safe_witness:
  "\<exists>s. demo_after = Some s \<and> length (running s) \<le> 2 \<and> queue_of s ''c'' \<noteq> []"
proof -
  obtain s where s: "reachable 2 s" "demo_after = Some s" "ready s = [''c'']"
    by (rule demo_state)
  have "queue_of s ''c'' \<noteq> []"
    using demo_waiting by (simp add: s(2))
  moreover have "length (running s) \<le> 2" using scheduler_dispatch_safe[OF s(1)] by simp
  ultimately show ?thesis using s(2) by blast
qed

subsection \<open>Bounded waiting\<close>

fun is_finish :: "'j sched_op \<Rightarrow> bool" where
  "is_finish (Finish k) = True"
| "is_finish _ = False"

definition finishes :: "'j sched_op list \<Rightarrow> nat" where
  "finishes as = length (filter is_finish as)"

text \<open>
  The progress of a waiting agent: dispatched since \<open>s0\<close>, or at most \<open>b\<close> agents ahead
  of it.
\<close>

definition ahead_le :: "'j sched \<Rightarrow> string \<Rightarrow> 'j sched \<Rightarrow> nat \<Rightarrow> bool" where
  "ahead_le s0 k s b \<longleftrightarrow> (\<exists>ds. started s = started s0 @ ds
     \<and> (k \<in> fst ` set ds \<or> (\<exists>xs ys. ready s = xs @ k # ys \<and> length xs \<le> b)))"

lemma ahead_le_mono: "ahead_le s0 k s b \<Longrightarrow> b \<le> c \<Longrightarrow> ahead_le s0 k s c"
  unfolding ahead_le_def by (metis le_trans)

lemma append_eq_mid:
  assumes "xs @ k # ys = popped @ r"
  shows "k \<in> set popped \<or> (\<exists>xs'. r = xs' @ k # ys \<and> xs = popped @ xs')"
  using assms by (auto simp: append_eq_append_conv2 Cons_eq_append_conv append_eq_Cons_conv)

lemma ahead_pump:
  assumes ahead: "ready b = xs @ k # ys" "started b = started s0 @ ds"
    and p: "ready b = popped @ ready s'" "started s' = started b @ ds'" "map fst ds' = popped"
  shows "ahead_le s0 k s' (length xs - length popped)
       \<and> (k \<in> fst ` set (ds @ ds') \<or> length popped \<le> length xs)"
proof -
  from append_eq_mid[of xs k ys popped "ready s'"] ahead(1) p(1)
  consider "k \<in> set popped" | xs' where "ready s' = xs' @ k # ys" "xs = popped @ xs'" by auto
  then show ?thesis
  proof cases
    case 1
    then have "k \<in> fst ` set ds'" using p(3) by (metis set_map)
    then show ?thesis using ahead(2) p(2) by (auto simp: ahead_le_def)
  next
    case 2
    then show ?thesis using ahead(2) p(2) by (auto simp: ahead_le_def)
  qed
qed

lemma ahead_dispatched:
  assumes "started s = started s0 @ ds" and "k \<in> fst ` set ds" and "started s' = started s @ ds'"
  shows "ahead_le s0 k s' b"
  unfolding ahead_le_def using assms by (intro exI[of _ "ds @ ds'"]) auto

lemma ready_before:
  "\<exists>zs. ready (before_submit_pump k j s) = ready s @ zs"
  "\<exists>zs. ready (before_finish_pump k s) = ready s @ zs"
  by (auto simp: before_submit_pump_def before_finish_pump_def make_ready_def Let_def)

lemma ahead_section:
  assumes ahead: "ahead_le s0 k s b"
    and z: "ready t = ready s @ zs" "started t = started s"
    and p: "ready t = popped @ ready s'" "started s' = started t @ ds" "map fst ds = popped"
    and d: "c = 0 \<or> (popped \<noteq> [] \<and> c = 1) \<or> ready s = []"
  shows "ahead_le s0 k s' (b - c) \<and> (b < c \<longrightarrow> (\<exists>ds. started s' = started s0 @ ds \<and> k \<in> fst ` set ds))"
proof -
  from ahead obtain es where es: "started s = started s0 @ es"
    and alt: "k \<in> fst ` set es \<or> (\<exists>xs ys. ready s = xs @ k # ys \<and> length xs \<le> b)"
    by (auto simp: ahead_le_def)
  have s': "started s' = started s0 @ es @ ds" using es z(2) p(2) by simp
  show ?thesis
  proof (cases "k \<in> fst ` set es")
    case True
    then show ?thesis using s' by (auto simp: ahead_le_def)
  next
    case False
    then obtain xs ys where x: "ready s = xs @ k # ys" "length xs \<le> b" using alt by auto
    have rt: "ready t = xs @ k # (ys @ zs)" using x z(1) by simp
    have st: "started t = started s0 @ es" using es z(2) by simp
    from ahead_pump[OF rt st p] have a: "ahead_le s0 k s' (length xs - length popped)"
      "k \<in> fst ` set (es @ ds) \<or> length popped \<le> length xs" by auto
    have c: "c = 0 \<or> (popped \<noteq> [] \<and> c = 1)" using d x(1) by auto
    then have "length xs - length popped \<le> b - c"
      using x(2) by (cases popped) auto
    then have "ahead_le s0 k s' (b - c)" by (rule ahead_le_mono[OF a(1)])
    moreover have "k \<in> fst ` set (es @ ds)" if "b < c"
      using a(2) that c x(2) by (cases popped) auto
    ultimately show ?thesis using s' by blast
  qed
qed

lemma submit_sections:
  assumes "sched_ok s" and "submit k j s = Some s'"
  obtains zs popped ds where "ready (before_submit_pump k j s) = ready s @ zs"
    "ready (before_submit_pump k j s) = popped @ ready s'"
    "started s' = started (before_submit_pump k j s) @ ds" "map fst ds = popped"
proof -
  have l: "1 \<le> lanes (before_submit_pump k j s)" using assms(1) by (simp add: sched_ok_def)
  obtain zs where z: "ready (before_submit_pump k j s) = ready s @ zs" using ready_before(1)[of k j s] by auto
  obtain t where t: "pump_locked (before_submit_pump k j s) = Some t" "s' = claim_notification k t"
    using assms(2) by (auto simp: submit_alt)
  from pump_locked_ok[OF before_submit_ok[OF assms(1)] l] t(1) obtain popped ds where
    "ready (before_submit_pump k j s) = popped @ ready t"
    "started t = started (before_submit_pump k j s) @ ds" "map fst ds = popped"
    by (metis option.inject)
  with that z t(2) show thesis by (metis claim_frame(3,8))
qed

lemma finish_sections:
  assumes ok: "sched_ok s" and fin: "finish k s = Some s'" and run: "k \<in> fst ` set (running s)"
  obtains zs popped ds where "ready (before_finish_pump k s) = ready s @ zs"
    "ready (before_finish_pump k s) = popped @ ready s'"
    "started s' = started (before_finish_pump k s) @ ds" "map fst ds = popped"
    "popped \<noteq> [] \<or> ready s = []"
proof -
  have d: "dispatch_ok (ready s) s" using ok by (simp add: sched_ok_def)
  have l: "1 \<le> lanes (before_finish_pump k s)" using ok by (simp add: sched_ok_def)
  obtain zs where z: "ready (before_finish_pump k s) = ready s @ zs" using ready_before(2)[of k s] by auto
  obtain t where t: "pump_locked (before_finish_pump k s) = Some t" "s' = claim_notification k t"
    using fin by (auto simp: finish_alt)
  have infl: "inflight (before_finish_pump k s) = inflight s - {k}"
    by (simp add: before_finish_pump_def make_ready_def Let_def)
  have "k \<in> inflight s" "finite (inflight s)" "card (inflight s) \<le> lanes s"
    using d run by (auto simp: dispatch_ok_def)
  then have room: "card (inflight (before_finish_pump k s)) < lanes (before_finish_pump k s)"
    using card_Diff1_less[of "inflight s" k] by (simp add: infl)
  from pump_locked_ok[OF before_finish_ok[OF ok] l] t(1) obtain popped ds where r:
    "ready (before_finish_pump k s) = popped @ ready t"
    "started t = started (before_finish_pump k s) @ ds" "map fst ds = popped"
    "popped = [] \<longrightarrow> ready (before_finish_pump k s) \<noteq> [] \<longrightarrow>
       lanes (before_finish_pump k s) \<le> card (inflight (before_finish_pump k s))"
    by (metis option.inject)
  have "popped \<noteq> [] \<or> ready s = []" using r(4) room z by auto
  with that z r(1-3) t(2) show thesis by (metis claim_frame(3,8))
qed

lemma ahead_step:
  assumes st: "sched_step s a s'" and ok: "sched_ok s" and ah: "ahead_le s0 k s b"
    and c: "c = (if is_finish a then 1 else 0)"
  shows "ahead_le s0 k s' (b - c) \<and> (b < c \<longrightarrow> (\<exists>ds. started s' = started s0 @ ds \<and> k \<in> fst ` set ds))"
  using st
proof (cases rule: sched_step.cases)
  case (step_submit i j)
  from submit_sections[OF ok this(2)] obtain zs popped ds where
    "ready (before_submit_pump i j s) = ready s @ zs" "ready (before_submit_pump i j s) = popped @ ready s'"
    "started s' = started (before_submit_pump i j s) @ ds" "map fst ds = popped" by blast
  from ahead_section[OF ah this(1) before_started(1) this(2-4), of c] show ?thesis
    by (simp add: c step_submit)
next
  case (step_finish i)
  from finish_sections[OF ok step_finish(3,2)] obtain zs popped ds where
    "ready (before_finish_pump i s) = ready s @ zs" "ready (before_finish_pump i s) = popped @ ready s'"
    "started s' = started (before_finish_pump i s) @ ds" "map fst ds = popped"
    "popped \<noteq> [] \<or> ready s = []" by blast
  from ahead_section[OF ah this(1) before_started(2) this(2-4), of c] this(5) show ?thesis
    by (simp add: c step_finish)
next
  case (step_observe i p t)
  then show ?thesis using ah c by (simp add: ahead_le_def)
next
  case (step_settle e)
  then show ?thesis using ah c by (simp add: ahead_le_def)
qed

lemma started_grows:
  assumes "sched_step s a s'" and "sched_ok s"
  shows "\<exists>es. started s' = started s @ es"
  using assms(1)
proof (cases rule: sched_step.cases)
  case (step_submit k j)
  from submit_sections[OF assms(2) this(2)] show ?thesis by (metis before_started(1))
next
  case (step_finish k)
  from finish_sections[OF assms(2) step_finish(3,2)] show ?thesis by (metis before_started(2))
qed auto

lemma ahead_run:
  "sched_run s as s' \<Longrightarrow> sched_ok s \<Longrightarrow> ahead_le s k s b \<Longrightarrow>
     ahead_le s k s' (b - finishes as)
     \<and> (b < finishes as \<longrightarrow> (\<exists>ds. started s' = started s @ ds \<and> k \<in> fst ` set ds))"
proof (induction rule: sched_run.induct)
  case (run_nil s)
  then show ?case by (simp add: finishes_def)
next
  case (run_snoc s as s1 a s2)
  let ?c = "if is_finish a then 1 else 0 :: nat"
  have f: "finishes (as @ [a]) = finishes as + ?c" by (simp add: finishes_def)
  have ok: "sched_ok s1" using run_snoc sched_ok_run by blast
  have ih: "ahead_le s k s1 (b - finishes as)"
    "b < finishes as \<longrightarrow> (\<exists>ds. started s1 = started s @ ds \<and> k \<in> fst ` set ds)"
    using run_snoc by auto
  have st: "ahead_le s k s2 (b - finishes as - ?c)"
    "b - finishes as < ?c \<longrightarrow> (\<exists>ds. started s2 = started s @ ds \<and> k \<in> fst ` set ds)"
    using ahead_step[OF run_snoc(2) ok ih(1) refl] by auto
  show ?case
  proof (cases "b < finishes as")
    case True
    with ih(2) obtain ds where ds: "started s1 = started s @ ds" "k \<in> fst ` set ds" by auto
    have "ahead_le s k s1 0" using ds by (auto simp: ahead_le_def)
    from ahead_step[OF run_snoc(2) ok this refl] obtain ds' where "started s2 = started s @ ds'"
      by (auto simp: ahead_le_def)
    moreover obtain es where "started s2 = started s1 @ es"
      using started_grows[OF run_snoc(2) ok] by blast
    ultimately show ?thesis using ds f by (auto simp: ahead_le_def)
  next
    case False
    then show ?thesis using st f by auto
  qed
qed

text \<open>
  C7. Bounded waiting. An agent waiting for a lane behind \<open>length xs\<close> others has been
  dispatched once more than \<open>length xs\<close> wakes have completed, whatever else was submitted
  meanwhile.
\<close>

theorem scheduler_bounded_wait:
  assumes "reachable n s" and "1 \<le> n" and "ready s = xs @ k # ys"
    and "sched_run s as s'" and "length xs < finishes as"
  shows "\<exists>ds. started s' = started s @ ds \<and> k \<in> fst ` set ds"
proof -
  have "ahead_le s k s (length xs)" using assms(3) by (auto simp: ahead_le_def)
  from ahead_run[OF assms(4) reachable_ok[OF assms(1,2)] this] assms(5) show ?thesis by simp
qed

lemma demo_finish:
  "Option.bind demo_after (\<lambda>s. map_option (\<lambda>t. (started t, ''a'' \<in> fst ` set (running s))) (finish ''a'' s))
     = Some ([(''a'', 1), (''b'', 3), (''c'', 4)], True)"
  unfolding demo_after_def by code_simp

theorem scheduler_bounded_wait_witness:
  "\<exists>s s'. demo_after = Some s \<and> finish ''a'' s = Some s'
     \<and> (\<exists>ds. started s' = started s @ ds \<and> ''c'' \<in> fst ` set ds)"
proof -
  obtain s where s: "reachable 2 s" "demo_after = Some s" "ready s = [''c'']" by (rule demo_state)
  have "map_option (\<lambda>t. (started t, ''a'' \<in> fst ` set (running s))) (finish ''a'' s)
     = Some ([(''a'', 1), (''b'', 3), (''c'', 4)], True)"
    using demo_finish by (simp add: s(2))
  then obtain s' where f: "finish ''a'' s = Some s'" "''a'' \<in> fst ` set (running s)"
    by (auto simp: map_option_eq_Some)
  have "sched_run s ([] @ [Finish ''a'']) s'" by (rule run_snoc[OF run_nil step_finish[OF f(2,1)]])
  from scheduler_bounded_wait[OF s(1) _ _ this, of "[]" "''c''" "[]"] s f(1) show ?thesis
    by (auto simp: finishes_def)
qed

subsection \<open>Truthful counts\<close>

lemma scheduler_counts_aux:
  assumes "reachable n s" and "1 \<le> n" and "notifying s = 0"
  shows "of_key k (observed s) = of_key k (counted s)"
proof -
  have ok: "notify_ok s" by (rule reachable_notify[OF assms(1,2)])
  have "n_waiting s k = 0" using ok assms(3) by (simp add: notify_ok_def outstanding_def n_waiting_def)
  with ok show ?thesis by (simp add: notify_ok_def key_ok_def counts_def)
qed

text \<open>
  C8. What the observer is told of an agent is, at every moment, a prefix of the pending
  counts in the order they were true, each one once; when no delivery is outstanding it
  has been told all of them, and the last is the current one. So an agent that drained is
  told \<open>0\<close> last.
\<close>

theorem scheduler_counts_truthful:
  assumes "reachable n s" and "1 \<le> n"
  shows "(\<exists>rest. of_key k (counted s) = of_key k (observed s) @ rest)
    \<and> (notifying s = 0 \<longrightarrow> of_key k (observed s) = of_key k (counted s)
        \<and> pending s k = (if of_key k (observed s) = [] then 0 else last (of_key k (observed s))))"
proof -
  have ok: "notify_ok s" by (rule reachable_notify[OF assms])
  then have k: "key_ok s k" "count_ok s k" by (simp_all add: notify_ok_def)
  have obs: "of_key k (observed s) = take (length (counts s k) - n_waiting s k) (counts s k)"
    using k(1) by (simp add: key_ok_def)
  then have "counts s k = of_key k (observed s) @ drop (length (counts s k) - n_waiting s k) (counts s k)"
    by simp
  moreover have "of_key k (observed s) = counts s k" if "notifying s = 0"
    using scheduler_counts_aux[OF assms that] by (simp add: counts_def)
  ultimately show ?thesis using k(2) unfolding counts_def count_ok_def by metis
qed

theorem scheduler_counts_truthful_witness:
  "\<exists>s rest. demo_after = Some s \<and> [1, 2] = of_key ''a'' (observed s) @ rest"
proof -
  obtain s where s: "reachable 2 s" "demo_after = Some s" by (rule demo_state)
  have "of_key ''a'' (counted s) = [1, 2]"
    using demo_value by (simp add: s(2))
  with scheduler_counts_truthful[OF s(1), of "''a''"] s(2) show ?thesis by auto
qed

text \<open>
  Idle means drained: \<open>wait_idle\<close> returns true only when no agent has queued or
  running work, everything submitted was started, and every count was observed.
\<close>

theorem scheduler_idle_drained:
  assumes "reachable n s" and "1 \<le> n" and "idle s"
  shows "running s = [] \<and> (\<forall>k. queue_of s k = [] \<and> of_key k (submitted s) = of_key k (started s)
     \<and> of_key k (observed s) = of_key k (counted s))"
proof -
  have i: "inflight s = {}" "ready s = []" "notifying s = 0" using assms(3) by (simp_all add: idle_def)
  have d: "dispatch_ok (ready s) s" by (rule reachable_dispatch[OF assms(1,2)])
  have q: "queue_of s k = []" for k
  proof -
    have "queues s k = None" using d i by (auto simp: dispatch_ok_def)
    then show ?thesis by (simp add: queue_of_def)
  qed
  have "running s = []" using d i by (simp add: dispatch_ok_def)
  then show ?thesis
    using q scheduler_counts_aux[OF assms(1,2) i(3)] d by (simp add: dispatch_ok_def)
qed

lemma init_reachable: "reachable n (init_sched n)"
  unfolding reachable_def by (auto intro: run_nil)

theorem scheduler_idle_drained_witness: "queue_of (init_sched 1 :: nat sched) ''a'' = []"
proof -
  have "idle (init_sched 1 :: nat sched)" by (simp add: idle_def init_sched_def)
  from scheduler_idle_drained[OF init_reachable order_refl this] show ?thesis by blast
qed

end
