(* ===== verification/Config.thy ===== *)
theory Config
  imports Breaker Models "HOL-Library.AList"
begin

text \<open>
  \<open>config.py\<close>: the agent registry and the environment. The environment is a map, the
  registry file's text and the JSON decoder are parameters, an \<open>is\<close> comparison of two
  registered agents is equality (a registry holds one agent per key). Errors of the
  loaders are the constructors of \<open>load_error\<close>; the errors of a lookup, which the
  pipeline logs, are their messages.
\<close>

datatype load_error =
    VarRequired string
  | RegistryNotFound string
  | RegistryBadJson string string
  | RegistryNotObject string
  | EntryNotObject string
  | EntryUnknownKind string json
  | EntryInvalid string string
  | EntryMissing string string
  | UuidReused string string string
  | VarListsNothing string
  | NotAnInteger string string
  | NotANumber string string
  | BreakerInvalid breaker_refusal
  | TtlNegative string pyfloat
  | LanesBelowOne string int
  | CaptainListed "string list"
  | OtherException string

subsection \<open>Agent entries\<close>

definition is_repo_key :: "string \<Rightarrow> bool" where
  "is_repo_key key = (case require_repo (Some key) ''agent key'' of Inl _ \<Rightarrow> False | Inr _ \<Rightarrow> True)"

text \<open>\<open>fields[k]\<close> of a required field, whatever JSON value it holds.\<close>

fun missing_field :: "(string \<times> json) list \<Rightarrow> string list \<Rightarrow> string option" where
  "missing_field flds [] = None"
| "missing_field flds (k # ks) = (case map_of flds k of None \<Rightarrow> Some k | Some _ \<Rightarrow> missing_field flds ks)"

definition str_field :: "(string \<times> json) list \<Rightarrow> string \<Rightarrow> string option" where
  "str_field flds k = json_str (jget flds k)"

definition build_github_agent :: "string \<Rightarrow> (string \<times> json) list \<Rightarrow> load_error + agent" where
  "build_github_agent key flds =
     (case require_repo (Some key) ''github agent key'' of Inl e \<Rightarrow> Inl (EntryInvalid key e) | Inr _ \<Rightarrow>
      (case missing_field flds [''os_user'', ''clone_path'', ''bot_slug''] of
         Some f \<Rightarrow> Inl (EntryMissing key f)
       | None \<Rightarrow> (case mk_agent key (str_field flds ''os_user'') (str_field flds ''clone_path'') Claude
             (str_field flds ''bot_slug'') None None of
               Inl e \<Rightarrow> Inl (EntryInvalid key e) | Inr a \<Rightarrow> Inr a)))"

definition build_harness_agent :: "string \<Rightarrow> (string \<times> json) list \<Rightarrow> load_error + agent" where
  "build_harness_agent key flds =
     (if CHR 0x2F \<in> set key
      then Inl (EntryInvalid key (''a harness agent key must be a bare slug (no '/'), ''
             @ ''not an 'owner/name' repo''))
      else (case missing_field flds [''os_user'', ''clone_path'', ''recipient_uuid'', ''wake_bin''] of
         Some f \<Rightarrow> Inl (EntryMissing key f)
       | None \<Rightarrow> (case mk_agent key (str_field flds ''os_user'') (str_field flds ''clone_path'') Harness
             None (str_field flds ''recipient_uuid'') (str_field flds ''wake_bin'') of
               Inl e \<Rightarrow> Inl (EntryInvalid key e) | Inr a \<Rightarrow> Inr a)))"

subsection \<open>The registry\<close>

record config =
  cf_agents :: "(string \<times> agent) list"
  cf_enabled :: "string list"
  cf_secrets :: "string \<Rightarrow> string option"
  cf_by_recipient :: "(string \<times> agent) list"
  cf_by_harness :: "(string \<times> agent) list"

definition the_uuid :: "agent \<Rightarrow> string" where
  "the_uuid a = (case ag_recipient_uuid a of Some u \<Rightarrow> u | None \<Rightarrow> [])"

text \<open>\<open>agents[key] = agent; by_harness.setdefault(agent.harness_key, agent)\<close>.\<close>

definition add_agent :: "string \<Rightarrow> agent \<Rightarrow> config \<Rightarrow> config" where
  "add_agent key a c = c\<lparr>cf_agents := AList.update key a (cf_agents c),
     cf_by_harness := (case map_of (cf_by_harness c) (harness_key a) of
        Some _ \<Rightarrow> cf_by_harness c | None \<Rightarrow> cf_by_harness c @ [(harness_key a, a)])\<rparr>"

definition load_entry :: "string \<Rightarrow> json \<Rightarrow> config \<Rightarrow> load_error + config" where
  "load_entry key v c =
     (case v of
        JObj flds \<Rightarrow>
          (let kind = (case map_of flds ''kind'' of None \<Rightarrow> JStr ''github'' | Some k \<Rightarrow> k) in
           if kind = JStr ''github''
           then (case build_github_agent key flds of Inl e \<Rightarrow> Inl e | Inr a \<Rightarrow> Inr (add_agent key a c))
           else if kind = JStr ''harness''
           then (case build_harness_agent key flds of Inl e \<Rightarrow> Inl e
                 | Inr a \<Rightarrow> (case map_of (cf_by_recipient c) (the_uuid a) of
                      Some other \<Rightarrow> Inl (UuidReused key (the_uuid a) (ag_key other))
                    | None \<Rightarrow> Inr (add_agent key a
                        (c\<lparr>cf_by_recipient := AList.update (the_uuid a) a (cf_by_recipient c)\<rparr>))))
           else Inl (EntryUnknownKind key kind))
      | _ \<Rightarrow> Inl (EntryNotObject key))"

fun load_entries :: "(string \<times> json) list \<Rightarrow> config \<Rightarrow> load_error + config" where
  "load_entries [] c = Inr c"
| "load_entries ((key, v) # rest) c =
     (case load_entry key v c of Inl e \<Rightarrow> Inl e | Inr c' \<Rightarrow> load_entries rest c')"

definition empty_config :: config where
  "empty_config = \<lparr>cf_agents = [], cf_enabled = [], cf_secrets = (\<lambda>_. None),
     cf_by_recipient = [], cf_by_harness = []\<rparr>"

datatype file_read = NotFound | CannotRead string | Contents string

definition load_agents ::
  "(string \<Rightarrow> file_read) \<Rightarrow> (string \<Rightarrow> loads_result) \<Rightarrow> string \<Rightarrow> load_error + config" where
  "load_agents read_file loads path =
     (case read_file path of
        NotFound \<Rightarrow> Inl (RegistryNotFound path)
      | CannotRead e \<Rightarrow> Inl (OtherException e)
      | Contents text \<Rightarrow>
          (case loads text of
             DecodeError e \<Rightarrow> Inl (RegistryBadJson path e)
           | LoadsRaised e \<Rightarrow> Inl (OtherException e)
           | Loaded (JObj raw) \<Rightarrow> load_entries raw empty_config
           | Loaded _ \<Rightarrow> Inl (RegistryNotObject path)))"

subsection \<open>Lookups\<close>

definition agent_for :: "config \<Rightarrow> string \<Rightarrow> string + agent" where
  "agent_for c key = (case map_of (cf_agents c) key of
     Some a \<Rightarrow> Inr a
   | None \<Rightarrow> Inl (''no agent registered for '' @ py_repr key
       @ ''; add it to the registry at BASECRADLE_ROUTER_AGENTS''))"

definition agent_for_recipient :: "config \<Rightarrow> recipient \<Rightarrow> string + agent" where
  "agent_for_recipient c r =
     (if rec_by r = ''repo'' then agent_for c (rec_value r)
      else if rec_by r = ''recipient_uuid''
      then (case map_of (cf_by_recipient c) (rec_value r) of
              Some a \<Rightarrow> Inr a
            | None \<Rightarrow> Inl (''no agent registered for recipient_uuid '' @ py_repr (rec_value r)
                @ ''; add it to the registry at BASECRADLE_ROUTER_AGENTS''))
      else if rec_by r = ''harness_key''
      then (case map_of (cf_by_harness c) (rec_value r) of
              Some a \<Rightarrow> Inr a
            | None \<Rightarrow> Inl (''no agent registered for harness_key '' @ py_repr (rec_value r)
                @ ''; add it to the registry at BASECRADLE_ROUTER_AGENTS''))
      else Inl (''unknown recipient kind '' @ py_repr (rec_by r)))"

definition resolve_agent :: "event \<Rightarrow> config \<Rightarrow> string + agent" where
  "resolve_agent ev c = agent_for_recipient c (ev_recipient ev)"

definition resolvable_by :: "config \<Rightarrow> agent \<Rightarrow> string list" where
  "resolvable_by c a =
     (if map_of (cf_agents c) (ag_key a) = Some a \<and> is_repo_key (ag_key a) then [''repo''] else [])
   @ (if the_uuid a \<noteq> [] \<and> map_of (cf_by_recipient c) (the_uuid a) = Some a then [''recipient_uuid''] else [])
   @ (if map_of (cf_by_harness c) (harness_key a) = Some a then [''harness_key''] else [])"

definition py_upper :: "string \<Rightarrow> string" where
  "py_upper s = concat (map (\<lambda>c. let n = code_of c in
     if (97 \<le> n \<and> n \<le> 122) \<or> (224 \<le> n \<and> n \<le> 254 \<and> n \<noteq> 247) then [char_of (n - 32)]
     else if n = 223 then ''SS'' else [c]) s)"

definition route_secret_var :: "string \<Rightarrow> string" where
  "route_secret_var route = ''BASECRADLE_ROUTER_'' @ py_upper route @ ''_WEBHOOK_SECRET''"

definition webhook_secret :: "config \<Rightarrow> string \<Rightarrow> string + string" where
  "webhook_secret c route = (case cf_secrets c route of
     Some s \<Rightarrow> Inr s
   | None \<Rightarrow> Inl (''no webhook secret for route '' @ py_repr route @ ''; set '' @ route_secret_var route))"

subsection \<open>The environment\<close>

type_synonym env = "string \<Rightarrow> string option"

definition split_csv :: "string \<Rightarrow> string list" where
  "split_csv raw = remdups (filter (\<lambda>s. s \<noteq> []) (map py_strip (split_char (CHR 0x2C) raw)))"

definition load_config ::
  "(string \<Rightarrow> file_read) \<Rightarrow> (string \<Rightarrow> loads_result) \<Rightarrow> env \<Rightarrow> load_error + config" where
  "load_config read_file loads env =
     (case env ''BASECRADLE_ROUTER_AGENTS'' of
        None \<Rightarrow> Inl (VarRequired ''BASECRADLE_ROUTER_AGENTS'')
      | Some path \<Rightarrow>
          if path = [] then Inl (VarRequired ''BASECRADLE_ROUTER_AGENTS'')
          else (case load_agents read_file loads path of
             Inl e \<Rightarrow> Inl e
           | Inr c \<Rightarrow>
               (let enabled = (case env ''BASECRADLE_ROUTER_ENABLED_ROUTES'' of
                    None \<Rightarrow> [''github''] | Some raw \<Rightarrow> split_csv raw)
                in if enabled = [] then Inl (VarListsNothing ''BASECRADLE_ROUTER_ENABLED_ROUTES'')
                   else Inr (c\<lparr>cf_enabled := enabled,
                     cf_secrets := (\<lambda>r. if r \<in> set enabled
                       then (case env (route_secret_var r) of Some [] \<Rightarrow> None | s \<Rightarrow> s) else None)\<rparr>))))"

text \<open>\<open>int(text)\<close> and \<open>float(text)\<close> of the ASCII grammar are parameters of the numeric readers.\<close>

definition set_env :: "env \<Rightarrow> string \<Rightarrow> string option" where
  "set_env env var = (case env var of None \<Rightarrow> None
     | Some raw \<Rightarrow> if py_strip raw = [] then None else Some (py_strip raw))"

text \<open>The value as it was set, which the errors print.\<close>

definition raw_env :: "env \<Rightarrow> string \<Rightarrow> string" where
  "raw_env env var = (case env var of None \<Rightarrow> [] | Some raw \<Rightarrow> raw)"

definition int_env :: "(string \<Rightarrow> int option) \<Rightarrow> env \<Rightarrow> string \<Rightarrow> int \<Rightarrow> load_error + int" where
  "int_env parse_int env var dflt =
     (case set_env env var of None \<Rightarrow> Inr dflt
      | Some t \<Rightarrow> (case parse_int t of Some n \<Rightarrow> Inr n
                   | None \<Rightarrow> Inl (NotAnInteger var (raw_env env var))))"

definition float_env :: "(string \<Rightarrow> pyfloat option) \<Rightarrow> env \<Rightarrow> string \<Rightarrow> pyfloat \<Rightarrow> load_error + pyfloat" where
  "float_env parse_float env var dflt =
     (case set_env env var of None \<Rightarrow> Inr dflt
      | Some t \<Rightarrow> (case parse_float t of Some x \<Rightarrow> Inr x
                   | None \<Rightarrow> Inl (NotANumber var (raw_env env var))))"

definition load_breaker_config ::
  "(string \<Rightarrow> int option) \<Rightarrow> (string \<Rightarrow> pyfloat option) \<Rightarrow> env \<Rightarrow> load_error + breaker_config" where
  "load_breaker_config parse_int parse_float env =
     (case int_env parse_int env ''BASECRADLE_ROUTER_WAKE_BREAKER_MAX'' 20 of Inl e \<Rightarrow> Inl e | Inr m \<Rightarrow>
     (case float_env parse_float env ''BASECRADLE_ROUTER_WAKE_BREAKER_WINDOW'' (Fin 60) of Inl e \<Rightarrow> Inl e | Inr w \<Rightarrow>
     (case float_env parse_float env ''BASECRADLE_ROUTER_WAKE_BREAKER_COOLDOWN'' (Fin 60) of Inl e \<Rightarrow> Inl e | Inr c \<Rightarrow>
     (case int_env parse_int env ''BASECRADLE_ROUTER_WAKE_BREAKER_STREAM_MAX'' 15 of Inl e \<Rightarrow> Inl e | Inr s \<Rightarrow>
     (case mk_breaker_config m w c s of
        Inl e \<Rightarrow> Inl (BreakerInvalid e) | Inr cfg \<Rightarrow> Inr cfg)))))"

definition load_dedup_ttl :: "(string \<Rightarrow> pyfloat option) \<Rightarrow> env \<Rightarrow> load_error + pyfloat" where
  "load_dedup_ttl parse_float env =
     (case float_env parse_float env ''BASECRADLE_ROUTER_DEDUP_TTL'' (Fin 600) of Inl e \<Rightarrow> Inl e
      | Inr ttl \<Rightarrow> if fl_lt ttl (Fin 0) then Inl (TtlNegative ''BASECRADLE_ROUTER_DEDUP_TTL'' ttl)
                   else Inr ttl)"

definition load_wake_lanes :: "(string \<Rightarrow> int option) \<Rightarrow> env \<Rightarrow> load_error + int" where
  "load_wake_lanes parse_int env =
     (case int_env parse_int env ''BASECRADLE_ROUTER_WAKE_LANES'' 8 of Inl e \<Rightarrow> Inl e
      | Inr n \<Rightarrow> if n < 1 then Inl (LanesBelowOne ''BASECRADLE_ROUTER_WAKE_LANES'' n) else Inr n)"

definition stripped_or :: "string \<Rightarrow> env \<Rightarrow> string \<Rightarrow> string" where
  "stripped_or dflt env var = (case set_env env var of None \<Rightarrow> dflt | Some t \<Rightarrow> t)"

definition load_wake_lock_dir :: "env \<Rightarrow> string" where
  "load_wake_lock_dir env = stripped_or ''/run/basecradle-noc/wake-locks'' env ''BASECRADLE_ROUTER_WAKE_LOCK_DIR''"

definition load_admin_cmd :: "env \<Rightarrow> string" where
  "load_admin_cmd env = stripped_or ''/opt/basecradle-router/app/deploy/bin/router-admin'' env ''BASECRADLE_ROUTER_ADMIN_CMD''"

definition load_self_url :: "env \<Rightarrow> string" where
  "load_self_url env = rev (dropWhile (\<lambda>c. c = CHR 0x2F)
     (rev (stripped_or ''http://127.0.0.1:8000'' env ''BASECRADLE_ROUTER_SELF_URL'')))"

definition load_evidence_path :: "env \<Rightarrow> string option" where
  "load_evidence_path env = (case env ''BASECRADLE_ROUTER_EVIDENCE_FILE'' of
     None \<Rightarrow> Some ''/var/lib/basecradle-router/evidence.json''
   | Some raw \<Rightarrow> (let s = py_strip raw in if s = [] \<or> py_lower s = ''none'' then None else Some s))"

text \<open>
  \<open>_CAPTAIN_BOT_LOGIN.fullmatch\<close>: \<open>basecradle-.+-ai[bot]\<close>, case ignored, the dot no newline.
\<close>

definition captain_bot :: "string \<Rightarrow> bool" where
  "captain_bot login =
     (let s = py_lower login; mid = drop 11 (take (length s - 8) s) in
      20 \<le> length s \<and> starts_with ''basecradle-'' s \<and> ends_with ''-ai[bot]'' s
      \<and> list_all (\<lambda>c. c \<noteq> CHR 0x0A) mid)"

definition load_github_trusted_actors :: "env \<Rightarrow> load_error + string list" where
  "load_github_trusted_actors env =
     (case env ''BASECRADLE_ROUTER_GITHUB_TRUSTED_ACTORS'' of
        None \<Rightarrow> Inl (VarRequired ''BASECRADLE_ROUTER_GITHUB_TRUSTED_ACTORS'')
      | Some raw \<Rightarrow>
          if raw = [] then Inl (VarRequired ''BASECRADLE_ROUTER_GITHUB_TRUSTED_ACTORS'')
          else (let actors = split_csv raw; captains = sort (filter captain_bot actors) in
            if actors = [] then Inl (VarListsNothing ''BASECRADLE_ROUTER_GITHUB_TRUSTED_ACTORS'')
            else if captains \<noteq> [] then Inl (CaptainListed captains) else Inr actors))"

subsection \<open>The registry invariant\<close>

text \<open>
  Every agent sits under its own key, its kind fits the key's shape, the two indices hold
  registered agents under the keys they are looked up by, and no agent is missing from
  the index it belongs to.
\<close>

definition agent_ok :: "agent \<Rightarrow> bool" where
  "agent_ok a \<longleftrightarrow> nonblank (ag_key a) \<and> nonblank (ag_os_user a) \<and> nonblank (ag_clone_path a)
     \<and> (ag_wake_kind a = Claude \<longrightarrow> is_repo_key (ag_key a) \<and> ag_recipient_uuid a = None)
     \<and> (ag_wake_kind a = Harness \<longrightarrow> CHR 0x2F \<notin> set (ag_key a) \<and> nonblank (the_uuid a)
          \<and> ag_recipient_uuid a = Some (the_uuid a) \<and> (\<exists>b. ag_wake_bin a = Some b \<and> nonblank b))"

definition registry_ok :: "config \<Rightarrow> bool" where
  "registry_ok c \<longleftrightarrow>
     (\<forall>k a. map_of (cf_agents c) k = Some a \<longrightarrow> ag_key a = k \<and> agent_ok a
        \<and> (ag_wake_kind a = Harness \<longrightarrow> map_of (cf_by_recipient c) (the_uuid a) = Some a)
        \<and> map_of (cf_by_harness c) (harness_key a) \<noteq> None)
   \<and> (\<forall>u a. map_of (cf_by_recipient c) u = Some a \<longrightarrow> the_uuid a = u \<and> ag_wake_kind a = Harness
        \<and> map_of (cf_agents c) (ag_key a) = Some a)
   \<and> (\<forall>h a. map_of (cf_by_harness c) h = Some a \<longrightarrow> harness_key a = h
        \<and> map_of (cf_agents c) (ag_key a) = Some a)"

lemma mk_agent_Inr:
  assumes "mk_agent key u cl kind bslug uuid bin = Inr a"
  shows "ag_key a = key \<and> nonblank key \<and> nonblank (ag_os_user a) \<and> nonblank (ag_clone_path a)
    \<and> ag_wake_kind a = kind \<and> ag_recipient_uuid a = uuid \<and> ag_wake_bin a = bin
    \<and> (kind = Harness \<longrightarrow> (\<exists>s. uuid = Some s \<and> nonblank s) \<and> (\<exists>s. bin = Some s \<and> nonblank s))"
  using assms
  by (auto simp: mk_agent_def Let_def require_Inr split: sum.splits wake_kind.splits)

lemma is_repo_key_any:
  assumes "require_repo (Some key) fld = Inr s"
  shows "is_repo_key key"
  using assms
  by (auto simp: is_repo_key_def require_repo_def require_def case_prod_unfold Let_def
      split: if_splits)

lemma build_github_ok: "build_github_agent key flds = Inr a \<Longrightarrow> ag_key a = key \<and> agent_ok a \<and> ag_wake_kind a = Claude"
  by (auto simp: build_github_agent_def agent_ok_def
      split: sum.splits option.splits dest!: mk_agent_Inr dest: is_repo_key_any)

lemma build_harness_ok: "build_harness_agent key flds = Inr a \<Longrightarrow> ag_key a = key \<and> agent_ok a \<and> ag_wake_kind a = Harness"
  by (auto simp: build_harness_agent_def agent_ok_def the_uuid_def
      split: sum.splits option.splits if_splits dest!: mk_agent_Inr)

lemma add_agent_maps:
  "map_of (cf_agents (add_agent key a c)) = (map_of (cf_agents c))(key \<mapsto> a)"
  "map_of (cf_by_harness (add_agent key a c)) k =
     (if k = harness_key a \<and> map_of (cf_by_harness c) k = None then Some a else map_of (cf_by_harness c) k)"
  "cf_by_recipient (add_agent key a c) = cf_by_recipient c"
  by (auto simp: add_agent_def update_conv' map_add_def split: option.splits)

text \<open>A new key keeps the invariant, a github agent directly, a harness agent with its uuid.\<close>

lemma registry_ok_add:
  assumes ok: "registry_ok c" and new: "map_of (cf_agents c) (ag_key a) = None" and a: "agent_ok a"
    and kind: "ag_wake_kind a = Claude \<and> rs = cf_by_recipient c
       \<or> ag_wake_kind a = Harness \<and> map_of (cf_by_recipient c) (the_uuid a) = None
          \<and> rs = AList.update (the_uuid a) a (cf_by_recipient c)"
  shows "registry_ok (add_agent (ag_key a) a (c\<lparr>cf_by_recipient := rs\<rparr>))"
proof -
  let ?c = "add_agent (ag_key a) a (c\<lparr>cf_by_recipient := rs\<rparr>)"
  have ag: "map_of (cf_agents ?c) = (map_of (cf_agents c))(ag_key a \<mapsto> a)"
    and hk: "\<And>k. map_of (cf_by_harness ?c) k =
     (if k = harness_key a \<and> map_of (cf_by_harness c) k = None then Some a else map_of (cf_by_harness c) k)"
    and rc: "map_of (cf_by_recipient ?c) = (if ag_wake_kind a = Harness
        then (map_of (cf_by_recipient c))(the_uuid a \<mapsto> a) else map_of (cf_by_recipient c))"
    using kind by (auto simp: add_agent_maps update_conv')
  have old: "\<And>k b. map_of (cf_agents c) k = Some b \<Longrightarrow> ag_key b = k \<and> agent_ok b
      \<and> (ag_wake_kind b = Harness \<longrightarrow> map_of (cf_by_recipient c) (the_uuid b) = Some b)
      \<and> map_of (cf_by_harness c) (harness_key b) \<noteq> None"
    and oldr: "\<And>u b. map_of (cf_by_recipient c) u = Some b \<Longrightarrow> the_uuid b = u \<and> ag_wake_kind b = Harness
        \<and> map_of (cf_agents c) (ag_key b) = Some b"
    and oldh: "\<And>h b. map_of (cf_by_harness c) h = Some b \<Longrightarrow> harness_key b = h
        \<and> map_of (cf_agents c) (ag_key b) = Some b"
    using ok unfolding registry_ok_def by blast+
  have uniq: "ag_wake_kind a = Harness \<Longrightarrow> map_of (cf_by_recipient c) (the_uuid a) = None"
    using kind by auto
  show ?thesis
    unfolding registry_ok_def ag hk rc
    using old oldr oldh new a uniq by (fastforce split: if_splits)
qed

lemma load_entry_ok:
  assumes "load_entry key v c = Inr c'" and "registry_ok c" and "map_of (cf_agents c) key = None"
  shows "registry_ok c' \<and> (\<forall>k. k \<noteq> key \<longrightarrow> map_of (cf_agents c') k = map_of (cf_agents c) k)"
proof -
  from assms(1) obtain flds where v: "v = JObj flds"
    by (auto simp: load_entry_def split: json.splits)
  define kind where "kind = (case map_of flds ''kind'' of None \<Rightarrow> JStr ''github'' | Some k \<Rightarrow> k)"
  show ?thesis
  proof (cases "kind = JStr ''github''")
    case True
    with assms(1) obtain a where a: "build_github_agent key flds = Inr a" "c' = add_agent key a c"
      by (auto simp: load_entry_def v kind_def Let_def split: sum.splits)
    have b: "ag_key a = key" "agent_ok a" "ag_wake_kind a = Claude" using build_github_ok[OF a(1)] by auto
    have "registry_ok (add_agent (ag_key a) a (c\<lparr>cf_by_recipient := cf_by_recipient c\<rparr>))"
      by (rule registry_ok_add) (use assms b in auto)
    then show ?thesis using a(2) b(1) by (simp add: add_agent_maps)
  next
    case False
    with assms(1) obtain a where a: "build_harness_agent key flds = Inr a"
      "map_of (cf_by_recipient c) (the_uuid a) = None"
      "c' = add_agent key a (c\<lparr>cf_by_recipient := AList.update (the_uuid a) a (cf_by_recipient c)\<rparr>)"
      by (auto simp: load_entry_def v kind_def Let_def split: sum.splits if_splits option.splits)
    have b: "ag_key a = key" "agent_ok a" "ag_wake_kind a = Harness" using build_harness_ok[OF a(1)] by auto
    have "registry_ok (add_agent (ag_key a) a (c\<lparr>cf_by_recipient := AList.update (the_uuid a) a (cf_by_recipient c)\<rparr>))"
      by (rule registry_ok_add) (use assms a b in auto)
    then show ?thesis using a(3) b(1) by (simp add: add_agent_maps)
  qed
qed

lemma load_entries_ok:
  "load_entries raw c = Inr c' \<Longrightarrow> registry_ok c \<Longrightarrow> distinct (map fst raw)
    \<Longrightarrow> \<forall>k\<in>fst ` set raw. map_of (cf_agents c) k = None \<Longrightarrow> registry_ok c'"
proof (induction raw c rule: load_entries.induct)
  case (1 c)
  then show ?case by simp
next
  case (2 key v rest c)
  from "2.prems"(1) obtain c1 where c1: "load_entry key v c = Inr c1" "load_entries rest c1 = Inr c'"
    by (auto split: sum.splits)
  from load_entry_ok[OF c1(1) "2.prems"(2)] "2.prems"(4)
  have r: "registry_ok c1" "\<forall>k. k \<noteq> key \<longrightarrow> map_of (cf_agents c1) k = map_of (cf_agents c) k" by auto
  have "\<forall>k\<in>fst ` set rest. map_of (cf_agents c1) k = None"
  proof
    fix k assume k: "k \<in> fst ` set rest"
    then have "k \<noteq> key" using "2.prems"(3) by auto
    with r(2) "2.prems"(4) k show "map_of (cf_agents c1) k = None" by (auto simp del: map_of_eq_None_iff)
  qed
  with "2.IH"[OF c1(1) c1(2) r(1)] "2.prems"(3) show ?case by auto
qed

lemma registry_ok_empty: "registry_ok empty_config"
  by (simp add: registry_ok_def empty_config_def)

text \<open>What \<open>json.loads\<close> promises of an object: distinct keys.\<close>

definition object_keys_distinct :: "(string \<Rightarrow> loads_result) \<Rightarrow> bool" where
  "object_keys_distinct loads \<longleftrightarrow> (\<forall>t raw. loads t = Loaded (JObj raw) \<longrightarrow> distinct (map fst raw))"

lemma load_config_registry_ok:
  assumes "load_config read_file loads env = Inr c" and "object_keys_distinct loads"
  shows "registry_ok c"
proof -
  from assms(1) obtain path c0 where "load_agents read_file loads path = Inr c0"
    and c: "cf_agents c = cf_agents c0" "cf_by_recipient c = cf_by_recipient c0" "cf_by_harness c = cf_by_harness c0"
    by (auto simp: load_config_def Let_def split: option.splits if_splits sum.splits)
  then obtain t raw where t: "loads t = Loaded (JObj raw)" "load_entries raw empty_config = Inr c0"
    by (auto simp: load_agents_def split: file_read.splits loads_result.splits json.splits)
  have "registry_ok c0"
    by (rule load_entries_ok[OF t(2) registry_ok_empty])
      (use assms(2) t(1) in \<open>auto simp: object_keys_distinct_def empty_config_def\<close>)
  then show ?thesis by (simp add: registry_ok_def c)
qed

subsection \<open>Properties\<close>

lemma registry_agent:
  "registry_ok c \<Longrightarrow> map_of (cf_agents c) k = Some a \<Longrightarrow> ag_key a = k \<and> agent_ok a
        \<and> (ag_wake_kind a = Harness \<longrightarrow> map_of (cf_by_recipient c) (the_uuid a) = Some a)
        \<and> map_of (cf_by_harness c) (harness_key a) \<noteq> None"
  unfolding registry_ok_def by blast

lemma nonblank_nonempty: "nonblank s \<Longrightarrow> s \<noteq> []"
  by (auto simp: nonblank_def py_strip_def py_lstrip_def py_rstrip_def)

text \<open>
  C18. The loaded registry is well formed. Every agent sits under its own key, a harness
  agent's uuid resolves to it and to no other, every OS user resolves to a registered
  agent that owns it, and whatever a recipient resolves to is a registered, valid agent
  that carries the recipient's value.
\<close>

theorem registry_well_formed:
  assumes "load_config read_file loads env = Inr c" and "object_keys_distinct loads"
  shows "(\<forall>k a. map_of (cf_agents c) k = Some a \<longrightarrow> ag_key a = k \<and> agent_ok a
           \<and> (\<exists>b. agent_for_recipient c \<lparr>rec_by = ''harness_key'', rec_value = harness_key a\<rparr> = Inr b
                 \<and> harness_key b = harness_key a)
           \<and> (ag_wake_kind a = Harness \<longrightarrow>
                agent_for_recipient c \<lparr>rec_by = ''recipient_uuid'', rec_value = the_uuid a\<rparr> = Inr a))
    \<and> (\<forall>r a. agent_for_recipient c r = Inr a \<longrightarrow>
         map_of (cf_agents c) (ag_key a) = Some a \<and> agent_ok a
       \<and> rec_value r = (if rec_by r = ''repo'' then ag_key a
            else if rec_by r = ''recipient_uuid'' then the_uuid a else harness_key a))"
proof -
  have ok: "registry_ok c" by (rule load_config_registry_ok[OF assms])
  have one: "ag_key a = k \<and> agent_ok a
           \<and> (\<exists>b. agent_for_recipient c \<lparr>rec_by = ''harness_key'', rec_value = harness_key a\<rparr> = Inr b
                 \<and> harness_key b = harness_key a)
           \<and> (ag_wake_kind a = Harness \<longrightarrow>
                agent_for_recipient c \<lparr>rec_by = ''recipient_uuid'', rec_value = the_uuid a\<rparr> = Inr a)"
    if a: "map_of (cf_agents c) k = Some a" for k a
  proof -
    from registry_agent[OF ok a] obtain b where b: "map_of (cf_by_harness c) (harness_key a) = Some b"
      by auto
    moreover have "harness_key b = harness_key a" using ok b unfolding registry_ok_def by blast
    ultimately show ?thesis using registry_agent[OF ok a] by (simp add: agent_for_recipient_def)
  qed
  have two: "map_of (cf_agents c) (ag_key a) = Some a
       \<and> rec_value r = (if rec_by r = ''repo'' then ag_key a
            else if rec_by r = ''recipient_uuid'' then the_uuid a else harness_key a)"
    if a: "agent_for_recipient c r = Inr a" for r a
  proof -
    consider "rec_by r = ''repo''" "map_of (cf_agents c) (rec_value r) = Some a"
      | "rec_by r = ''recipient_uuid''" "map_of (cf_by_recipient c) (rec_value r) = Some a"
      | "rec_by r = ''harness_key''" "map_of (cf_by_harness c) (rec_value r) = Some a"
      using a by (auto simp: agent_for_recipient_def agent_for_def split: if_splits option.splits)
    then show ?thesis
    proof cases
      case 1
      then show ?thesis using registry_agent[OF ok 1(2)] by simp
    next
      case 2
      then have "the_uuid a = rec_value r \<and> map_of (cf_agents c) (ag_key a) = Some a"
        using ok unfolding registry_ok_def by blast
      with 2 show ?thesis by simp
    next
      case 3
      then have "harness_key a = rec_value r \<and> map_of (cf_agents c) (ag_key a) = Some a"
        using ok unfolding registry_ok_def by blast
      with 3 show ?thesis by simp
    qed
  qed
  show ?thesis using one two registry_agent[OF ok] by blast
qed

definition demo_entries :: "(string \<times> json) list" where
  "demo_entries =
    [(''acme/site'', JObj [(''os_user'', JStr ''site''), (''clone_path'', JStr ''/srv''), (''bot_slug'', JStr ''b'')]),
     (''jt'', JObj [(''kind'', JStr ''harness''), (''os_user'', JStr ''jt''), (''clone_path'', JStr ''/j''),
        (''recipient_uuid'', JStr ''u1''), (''wake_bin'', JStr ''/bin/w'')])]"

definition demo_env :: env where
  "demo_env = [''BASECRADLE_ROUTER_AGENTS'' \<mapsto> ''/a.json'']"

definition demo_loads :: "string \<Rightarrow> loads_result" where
  "demo_loads t = Loaded (JObj demo_entries)"

lemma demo_loads_distinct: "object_keys_distinct demo_loads"
  by (simp add: object_keys_distinct_def demo_loads_def demo_entries_def)

lemma demo_config_loads:
  "(case load_config (\<lambda>p. Contents p) demo_loads demo_env of
      Inr c \<Rightarrow> map fst (cf_by_recipient c) = [''u1''] \<and> map fst (cf_agents c) = [''acme/site'', ''jt'']
    | Inl _ \<Rightarrow> False)"
  by code_simp

lemma demo_config:
  obtains c where "load_config (\<lambda>p. Contents p) demo_loads demo_env = Inr c"
    "map fst (cf_agents c) = [''acme/site'', ''jt'']"
  using demo_config_loads by (auto split: sum.splits)

theorem registry_well_formed_witness:
  "\<exists>c a. load_config (\<lambda>p. Contents p) demo_loads demo_env = Inr c
     \<and> map_of (cf_agents c) ''jt'' = Some a \<and> ag_key a = ''jt''"
proof -
  obtain c where c: "load_config (\<lambda>p. Contents p) demo_loads demo_env = Inr c"
    "map fst (cf_agents c) = [''acme/site'', ''jt'']" by (rule demo_config)
  then have "''jt'' \<in> fst ` set (cf_agents c)" by (metis list.set_intros set_map)
  then obtain a where "map_of (cf_agents c) ''jt'' = Some a"
    by (metis map_of_eq_None_iff not_None_eq)
  with registry_well_formed[OF c(1) demo_loads_distinct] c(1) show ?thesis by blast
qed

text \<open>
  \<open>resolvable_by\<close> says what resolution does: for a registered agent, a tag is listed
  exactly when the recipient of that tag with the agent's own value resolves to this
  agent (for \<open>repo\<close>, when its key is also repo-shaped).
\<close>

theorem resolvable_by_exact:
  assumes "load_config read_file loads env = Inr c" and "object_keys_distinct loads"
    and "map_of (cf_agents c) k = Some a"
  shows "(''harness_key'' \<in> set (resolvable_by c a) \<longleftrightarrow>
            agent_for_recipient c \<lparr>rec_by = ''harness_key'', rec_value = harness_key a\<rparr> = Inr a)
       \<and> (''recipient_uuid'' \<in> set (resolvable_by c a) \<longleftrightarrow> ag_wake_kind a = Harness)
       \<and> (''repo'' \<in> set (resolvable_by c a) \<longleftrightarrow> is_repo_key k)
       \<and> (ag_wake_kind a = Claude \<longrightarrow> ''repo'' \<in> set (resolvable_by c a))"
proof -
  have ok: "registry_ok c" by (rule load_config_registry_ok[OF assms(1,2)])
  from registry_agent[OF ok assms(3)] have a: "ag_key a = k" "agent_ok a"
    "ag_wake_kind a = Harness \<longrightarrow> map_of (cf_by_recipient c) (the_uuid a) = Some a" by auto
  have h: "map_of (cf_by_harness c) (harness_key a) = Some a \<longleftrightarrow>
      agent_for_recipient c \<lparr>rec_by = ''harness_key'', rec_value = harness_key a\<rparr> = Inr a"
    by (auto simp: agent_for_recipient_def split: option.splits)
  have u: "the_uuid a \<noteq> [] \<and> map_of (cf_by_recipient c) (the_uuid a) = Some a \<longleftrightarrow> ag_wake_kind a = Harness"
    using a(2,3) ok nonblank_nonempty unfolding agent_ok_def registry_ok_def by blast
  show ?thesis
    unfolding resolvable_by_def h u
    using a assms(3) by (auto simp: agent_ok_def)
qed

theorem resolvable_by_exact_witness:
  "\<exists>c a. load_config (\<lambda>p. Contents p) demo_loads demo_env = Inr c
     \<and> map_of (cf_agents c) ''jt'' = Some a \<and> ''repo'' \<notin> set (resolvable_by c a)"
proof -
  obtain c where c: "load_config (\<lambda>p. Contents p) demo_loads demo_env = Inr c"
    "map fst (cf_agents c) = [''acme/site'', ''jt'']" by (rule demo_config)
  then have "''jt'' \<in> fst ` set (cf_agents c)" by (metis list.set_intros set_map)
  then obtain a where a: "map_of (cf_agents c) ''jt'' = Some a"
    by (metis map_of_eq_None_iff not_None_eq)
  have "\<not> is_repo_key ''jt''" by code_simp
  with resolvable_by_exact[OF c(1) demo_loads_distinct a] c(1) a show ?thesis by blast
qed

text \<open>
  The github route's trust list never holds a captain's bot: a configuration that
  names one, in any letter case, does not load.
\<close>

theorem trusted_actors_exclude_captains:
  "case load_github_trusted_actors env of
     Inl _ \<Rightarrow> True
   | Inr actors \<Rightarrow> actors \<noteq> [] \<and> (\<forall>a\<in>set actors. \<not> captain_bot a \<and> a \<noteq> [])"
proof -
  have e: "[] \<notin> set (split_csv raw)" for raw by (auto simp: split_csv_def)
  have s: "sort xs = [] \<longleftrightarrow> xs = []" for xs :: "string list" by (metis set_empty set_sort)
  show ?thesis
    using e
    by (auto simp: load_github_trusted_actors_def Let_def filter_empty_conv s split: option.splits)
qed

definition demo_trust :: env where
  "demo_trust = [''BASECRADLE_ROUTER_GITHUB_TRUSTED_ACTORS'' \<mapsto> ''drew, octo[bot]'']"

lemma demo_trust_loads: "load_github_trusted_actors demo_trust = Inr [''drew'', ''octo[bot]'']"
  by code_simp

theorem trusted_actors_exclude_captains_witness: "\<not> captain_bot ''octo[bot]''"
  using trusted_actors_exclude_captains[of demo_trust] by (simp add: demo_trust_loads)

text \<open>
  The numeric readers compare with \<open><\<close> and \<open><=\<close> only, which a NaN passes: a breaker
  whose window and cooldown are NaN, and a dedup TTL of NaN, are accepted.
\<close>

lemma nan_env_accepted:
  assumes "parse_float ''nan'' = Some NaN"
    and "env ''BASECRADLE_ROUTER_WAKE_BREAKER_COOLDOWN'' = Some ''nan''"
    and "env ''BASECRADLE_ROUTER_WAKE_BREAKER_MAX'' = None" and "env ''BASECRADLE_ROUTER_WAKE_BREAKER_WINDOW'' = None"
    and "env ''BASECRADLE_ROUTER_WAKE_BREAKER_STREAM_MAX'' = None"
  shows "load_breaker_config parse_int parse_float env
     = Inr \<lparr>max_wakes = 20, window = Fin 60, cooldown = NaN, stream_max_wakes = 15\<rparr>"
proof -
  have s: "py_strip ''nan'' = ''nan''" by code_simp
  show ?thesis
    using assms
    by (simp add: load_breaker_config_def int_env_def float_env_def set_env_def s mk_breaker_config_def)
qed

end
