(* ===== verification/Wake.thy ===== *)
theory Wake
  imports Models Logfmt
begin

text \<open>
  \<open>wake.py\<close>: the command a wake runs, the invocation that carries it through \<open>sudo\<close> and
  the wake-runner, and the classification of its exit status. Launching a process is a
  parameter, the runner: a function of the invocation that yields an exit status with its
  output, an \<open>OSError\<close> or another exception. A \<open>WakeError\<close>, a \<open>WakeStopped\<close> and any other
  exception of \<open>wake\<close> are constructors of \<open>wake_answer\<close>.
\<close>

subsection \<open>The command and the correlation id\<close>

definition wake_command :: "agent \<Rightarrow> event \<Rightarrow> string + string list" where
  "wake_command ag ev =
     (if synthetic ev
      then Inl (''refusing to build a wake command for a synthetic '' @ event_kind_value (ev_kind ev)
             @ '' event: a probe must never launch the agent's model ''
             @ em_dash @ '' it travels the wake-runner's --probe mode, which acks after the privilege ''
             @ ''drop without exec'ing anything'')
      else case ag_wake_kind ag of
             Harness \<Rightarrow> Inr [case ag_wake_bin ag of Some b \<Rightarrow> b | None \<Rightarrow> [], ''--timeline'', ev_wake_arg ev]
           | Claude \<Rightarrow> Inr [''claude'', ''-p'', ev_wake_arg ev])"

definition is_delivery_char :: "char \<Rightarrow> bool" where
  "is_delivery_char c = (is_alnum_ascii c \<or> c \<in> {CHR ''_'', CHR ''.'', CHR '':'', CHR ''-''})"

definition safe_delivery_id :: "string \<Rightarrow> bool" where
  "safe_delivery_id d = (1 \<le> length d \<and> length d \<le> 128 \<and> list_all is_delivery_char d)"

definition delivery_id_env :: string where "delivery_id_env = ''BASECRADLE_DELIVERY_ID''"

definition correlation_id :: "event \<Rightarrow> string option \<times> log_line list" where
  "correlation_id ev =
     (if safe_delivery_id (ev_delivery_id ev) then (Some (ev_delivery_id ev), [])
      else (None, [(Warning, ''event=unsafe_delivery_id '' @
             log_fields [(''source'', VStr (ev_source ev)), (''delivery'', VStr (ev_delivery_id ev))]
             @ ''; omitting '' @ delivery_id_env @ '' from the wake ''
             @ ''environment '' @ em_dash @ '' correlation is lost for this wake, which still runs'')]))"

subsection \<open>Invocations\<close>

record wake_invocation =
  inv_argv :: "string list"
  inv_cwd :: string
  inv_env :: "string \<Rightarrow> string option"
  inv_user :: string

record wake_result =
  wr_exit :: int
  wr_stdout :: string
  wr_stderr :: string

definition wake_ok :: "wake_result \<Rightarrow> bool" where
  "wake_ok r = (wr_exit r = 0)"

datatype run_answer = Ran wake_result | LaunchFailed string | RunRaised string

datatype wake_answer =
    Woke wake_result
  | WakeFailed string "int option"
  | Stopped string string int
  | WakeRaised string

text \<open>\<open>SubprocessWaker.invocation_for\<close>, with the environment provider as an argument.\<close>

definition sub_invocation ::
  "(agent \<Rightarrow> string \<Rightarrow> string option) \<Rightarrow> agent \<Rightarrow> event \<Rightarrow> (string + wake_invocation) \<times> log_line list" where
  "sub_invocation env_provider ag ev =
     (let (delivery, ls) = correlation_id ev;
          env = (case delivery of None \<Rightarrow> env_provider ag
                 | Some d \<Rightarrow> (env_provider ag)(delivery_id_env \<mapsto> d))
      in (case wake_command ag ev of
            Inl e \<Rightarrow> Inl e
          | Inr argv \<Rightarrow> Inr \<lparr>inv_argv = argv, inv_cwd = ag_clone_path ag, inv_env = env,
                             inv_user = ag_os_user ag\<rparr>, ls))"

definition wake_runner :: string where "wake_runner = ''/opt/basecradle-router/bin/wake-runner''"

definition probe_flag :: string where "probe_flag = ''--probe''"

definition mode_args :: "agent \<Rightarrow> event \<Rightarrow> string + string list" where
  "mode_args ag ev =
     (if \<not> synthetic ev
      then (case wake_command ag ev of Inl e \<Rightarrow> Inl e | Inr c \<Rightarrow> Inr (''--'' # c))
      else if \<not> is_marker (ev_wake_arg ev)
           then Inl (''refusing to wake '' @ ag_key ag @ '': probe delivery '' @ ev_delivery_id ev
                  @ '' carries a malformed BCNOC1 marker ('' @ py_repr (ev_wake_arg ev) @ '')'')
           else Inr [probe_flag, ev_wake_arg ev])"

definition home_invocation :: "string \<Rightarrow> agent \<Rightarrow> event \<Rightarrow> (string + wake_invocation) \<times> log_line list" where
  "home_invocation wrapper ag ev =
     (let (delivery, ls) = correlation_id ev
      in (case mode_args ag ev of
            Inl e \<Rightarrow> Inl e
          | Inr mode \<Rightarrow> Inr \<lparr>inv_argv = [''sudo'', wrapper, ''--user'', ag_os_user ag, ''--cwd'', ag_clone_path ag]
                @ (case delivery of None \<Rightarrow> [] | Some d \<Rightarrow> [''--delivery'', d]) @ mode,
              inv_cwd = ''/'', inv_env = (\<lambda>_. None), inv_user = ag_os_user ag\<rparr>, ls))"

subsection \<open>Running and classifying\<close>

text \<open>\<open>STOP_SIGNALS\<close>: the two statuses that mean an outside signal stopped the wake.\<close>

definition stop_signals :: "(int \<times> string) list" where
  "stop_signals = [(-15, ''TERM''), (-9, ''KILL'')]"

definition wake_detail :: "wake_result \<Rightarrow> string" where
  "wake_detail r = (if py_strip (wr_stderr r) \<noteq> [] then py_strip (wr_stderr r)
     else if py_strip (wr_stdout r) \<noteq> [] then py_strip (wr_stdout r) else ''(no output)'')"

definition result_or_raise :: "wake_result \<Rightarrow> agent \<Rightarrow> wake_answer" where
  "result_or_raise r ag =
     (if wake_ok r then Woke r
      else case map_of stop_signals (wr_exit r) of
             Some sig \<Rightarrow> Stopped (''wake of '' @ ag_key ag @ '' stopped by SIG'' @ sig @ '' (exit ''
               @ str_int (wr_exit r) @ ''): '' @ wake_detail r) sig (wr_exit r)
           | None \<Rightarrow> WakeFailed (''wake of '' @ ag_key ag @ '' exited '' @ str_int (wr_exit r) @ '': ''
               @ wake_detail r) (Some (wr_exit r)))"

text \<open>\<open>_run_subprocess\<close> turns the \<open>OSError\<close> of a launch into a \<open>WakeError\<close>.\<close>

definition run_invocation ::
  "(wake_invocation \<Rightarrow> 'w \<Rightarrow> run_answer \<times> 'w) \<Rightarrow> wake_invocation \<Rightarrow> agent \<Rightarrow> 'w \<Rightarrow> wake_answer \<times> 'w" where
  "run_invocation exec iv ag w =
     (case exec iv w of
        (Ran r, w') \<Rightarrow> (result_or_raise r ag, w')
      | (LaunchFailed e, w') \<Rightarrow>
          (WakeFailed (''could not launch wake in '' @ py_repr (inv_cwd iv) @ '': '' @ e) None, w')
      | (RunRaised e, w') \<Rightarrow> (WakeRaised e, w'))"

definition home_wake ::
  "(wake_invocation \<Rightarrow> 'w \<Rightarrow> run_answer \<times> 'w) \<Rightarrow> string \<Rightarrow> agent \<Rightarrow> event \<Rightarrow> 'w
    \<Rightarrow> wake_answer \<times> log_line list \<times> 'w" where
  "home_wake exec wrapper ag ev w =
     (case home_invocation wrapper ag ev of
        (Inl e, ls) \<Rightarrow> (WakeFailed e None, ls, w)
      | (Inr iv, ls) \<Rightarrow> (let (ans, w') = run_invocation exec iv ag w in (ans, ls, w')))"

definition sub_wake ::
  "(wake_invocation \<Rightarrow> 'w \<Rightarrow> run_answer \<times> 'w) \<Rightarrow> (agent \<Rightarrow> string \<Rightarrow> string option) \<Rightarrow> agent \<Rightarrow> event \<Rightarrow> 'w
    \<Rightarrow> wake_answer \<times> log_line list \<times> 'w" where
  "sub_wake exec env_provider ag ev w =
     (case sub_invocation env_provider ag ev of
        (Inl e, ls) \<Rightarrow> (WakeFailed e None, ls, w)
      | (Inr iv, ls) \<Rightarrow> (let (ans, w') = run_invocation exec iv ag w in (ans, ls, w')))"

subsection \<open>Lemmas\<close>

lemma correlation_safe: "correlation_id ev = (Some d, ls) \<Longrightarrow> safe_delivery_id d \<and> d = ev_delivery_id ev"
  by (auto simp: correlation_id_def split: if_splits)

lemma home_wake_run:
  "home_wake exec wrapper ag ev w =
     (case fst (home_invocation wrapper ag ev) of
        Inl e \<Rightarrow> (WakeFailed e None, snd (home_invocation wrapper ag ev), w)
      | Inr iv \<Rightarrow> (fst (run_invocation exec iv ag w), snd (home_invocation wrapper ag ev),
                     snd (run_invocation exec iv ag w)))"
  by (simp add: home_wake_def case_prod_unfold Let_def split: sum.split)

lemma home_invocation_Inr:
  "fst (home_invocation wrapper ag ev) = Inr iv \<longleftrightarrow>
     (\<exists>mode. mode_args ag ev = Inr mode \<and>
       iv = \<lparr>inv_argv = [''sudo'', wrapper, ''--user'', ag_os_user ag, ''--cwd'', ag_clone_path ag]
                @ (case fst (correlation_id ev) of None \<Rightarrow> [] | Some d \<Rightarrow> [''--delivery'', d]) @ mode,
              inv_cwd = ''/'', inv_env = (\<lambda>_. None), inv_user = ag_os_user ag\<rparr>)"
  by (auto simp: home_invocation_def case_prod_unfold Let_def split: sum.splits)

lemma mode_args_cases:
  "mode_args ag ev = Inr mode \<Longrightarrow>
     (synthetic ev \<and> is_marker (ev_wake_arg ev) \<and> mode = [''--probe'', ev_wake_arg ev])
   \<or> (\<not> synthetic ev \<and> (\<exists>c. wake_command ag ev = Inr c \<and> mode = ''--'' # c))"
  by (auto simp: mode_args_def probe_flag_def split: if_splits sum.splits)

text \<open>
  C19. A probe never launches an agent's model, and a real wake never travels the probe
  mode. Whatever \<open>HomeServerWaker\<close> hands to \<open>sudo\<close> is its fixed prefix, the correlation
  id when it is safe, and then: for a synthetic event only \<open>--probe\<close> and a well-formed
  marker, whose characters are inert; for a real event \<open>--\<close> and the agent's command. A
  synthetic event without a well-formed marker is refused before the runner is called.
\<close>

theorem probe_never_launches_model:
  "case fst (home_invocation wrapper ag ev) of
     Inl e \<Rightarrow> synthetic ev \<and> \<not> is_marker (ev_wake_arg ev)
       \<and> home_wake exec wrapper ag ev w = (WakeFailed e None, snd (correlation_id ev), w)
   | Inr iv \<Rightarrow> (\<exists>mid mode.
       inv_argv iv = [''sudo'', wrapper, ''--user'', ag_os_user ag, ''--cwd'', ag_clone_path ag] @ mid @ mode
     \<and> (mid = [] \<or> (\<exists>d. mid = [''--delivery'', d] \<and> safe_delivery_id d))
     \<and> (if synthetic ev then mode = [''--probe'', ev_wake_arg ev] \<and> list_all inert (ev_wake_arg ev)
        else wake_command ag ev = Inr (tl mode) \<and> hd mode = ''--''))"
proof (cases "fst (home_invocation wrapper ag ev)")
  case (Inl e)
  then have m: "mode_args ag ev = Inl e"
    by (auto simp: home_invocation_def case_prod_unfold Let_def split: sum.splits)
  have s: "synthetic ev"
  proof (rule ccontr)
    assume "\<not> synthetic ev"
    with m show False
      by (auto simp: mode_args_def wake_command_def split: sum.splits wake_kind.splits)
  qed
  have ls: "snd (home_invocation wrapper ag ev) = snd (correlation_id ev)"
    by (simp add: home_invocation_def case_prod_unfold Let_def)
  have "\<not> is_marker (ev_wake_arg ev)" using m s by (auto simp: mode_args_def split: if_splits)
  with Inl s ls show ?thesis by (simp add: home_wake_run)
next
  case (Inr iv)
  then obtain mode where m: "mode_args ag ev = Inr mode"
    and iv: "iv = \<lparr>inv_argv = [''sudo'', wrapper, ''--user'', ag_os_user ag, ''--cwd'', ag_clone_path ag]
                @ (case fst (correlation_id ev) of None \<Rightarrow> [] | Some d \<Rightarrow> [''--delivery'', d]) @ mode,
              inv_cwd = ''/'', inv_env = (\<lambda>_. None), inv_user = ag_os_user ag\<rparr>"
    unfolding home_invocation_Inr by blast
  define mid where "mid = (case fst (correlation_id ev) of None \<Rightarrow> [] | Some d \<Rightarrow> [''--delivery'', d])"
  have mid: "mid = [] \<or> (\<exists>d. mid = [''--delivery'', d] \<and> safe_delivery_id d)"
    unfolding mid_def using correlation_safe[of ev]
    by (cases "correlation_id ev") (auto split: option.splits)
  have argv: "inv_argv iv
      = [''sudo'', wrapper, ''--user'', ag_os_user ag, ''--cwd'', ag_clone_path ag] @ mid @ mode"
    using iv by (simp add: mid_def)
  have "if synthetic ev then mode = [''--probe'', ev_wake_arg ev] \<and> list_all inert (ev_wake_arg ev)
        else wake_command ag ev = Inr (tl mode) \<and> hd mode = ''--''"
    using mode_args_cases[OF m] marker_inert by auto
  with Inr mid argv show ?thesis unfolding Inr sum.case by blast
qed

text \<open>
  The classification of a wake's exit is total and exact: status 0 succeeds, -15 and
  -9 are an operator's stop, and every other status, 143 and 137 included, is a failure
  that carries its code.
\<close>

theorem wake_exit_classified:
  "(case result_or_raise r ag of
      Woke r' \<Rightarrow> r' = r \<and> wr_exit r = 0
    | Stopped _ sig code \<Rightarrow> code = wr_exit r \<and>
        ((code = -15 \<and> sig = ''TERM'') \<or> (code = -9 \<and> sig = ''KILL''))
    | WakeFailed _ code \<Rightarrow> code = Some (wr_exit r) \<and> wr_exit r \<notin> {0, -15, -9}
    | WakeRaised _ \<Rightarrow> False)"
  by (auto simp: result_or_raise_def wake_ok_def stop_signals_def)

end
