(* ===== verification/Evidence.thy ===== *)
theory Evidence
  imports Logfmt Dedup "HOL-Library.AList" "HOL-Library.Monad_Syntax"
begin

text \<open>
  \<open>evidence.py\<close>: the durable record of what each route delivered and each agent's wakes.
  The document is a record of ordered dictionaries, its JSON form a \<open>json\<close> value, the
  store a state with the document, the file on disk and the logged lines. The clock's
  readings (already rendered as ISO text) and the outcome of each write are streams
  indexed by counters of the store, so a reading is used once and in order.

  \<open>_rebuild\<close> copies whatever JSON value a hand-edited file holds into a field; the model
  rebuilds values of the declared types and yields \<open>None\<close> for a file that holds another.
\<close>

subsection \<open>The document\<close>

definition max_reason :: nat where "max_reason = 200"

definition reason_of :: "string \<Rightarrow> string" where
  "reason_of t = take max_reason t"

record sink =
  sk_accepted :: int
  sk_rejected :: int
  sk_woke :: int
  sk_ignored :: int
  sk_last_accepted_at :: "string option"
  sk_last_rejected_at :: "string option"
  sk_last_reject_reason :: "string option"

definition empty_sink :: sink where
  "empty_sink = \<lparr>sk_accepted = 0, sk_rejected = 0, sk_woke = 0, sk_ignored = 0,
     sk_last_accepted_at = None, sk_last_rejected_at = None, sk_last_reject_reason = None\<rparr>"

record route_wake =
  rw_ok :: int
  rw_failed :: int
  rw_refused :: int
  rw_deduped :: int
  rw_last_ok_at :: "string option"
  rw_last_ok_delivery :: "string option"
  rw_last_failed_at :: "string option"
  rw_last_failed_reason :: "string option"
  rw_last_refused_at :: "string option"
  rw_last_refused_reason :: "string option"
  rw_last_deduped_at :: "string option"

definition empty_route_wake :: route_wake where
  "empty_route_wake = \<lparr>rw_ok = 0, rw_failed = 0, rw_refused = 0, rw_deduped = 0,
     rw_last_ok_at = None, rw_last_ok_delivery = None, rw_last_failed_at = None,
     rw_last_failed_reason = None, rw_last_refused_at = None, rw_last_refused_reason = None,
     rw_last_deduped_at = None\<rparr>"

text \<open>The four outcomes share a shape: when, which route, whether synthetic.\<close>

record agent_wake =
  aw_ok :: int
  aw_failed :: int
  aw_refused :: int
  aw_deduped :: int
  aw_last_ok_at :: "string option"
  aw_last_ok_delivery :: "string option"
  aw_last_ok_route :: "string option"
  aw_last_ok_synthetic :: "bool option"
  aw_last_failed_at :: "string option"
  aw_last_failed_reason :: "string option"
  aw_last_failed_route :: "string option"
  aw_last_failed_synthetic :: "bool option"
  aw_last_refused_at :: "string option"
  aw_last_refused_reason :: "string option"
  aw_last_refused_route :: "string option"
  aw_last_refused_synthetic :: "bool option"
  aw_last_deduped_at :: "string option"
  aw_last_deduped_route :: "string option"
  aw_last_deduped_synthetic :: "bool option"
  aw_queued :: int
  aw_by_route :: "(string \<times> route_wake) list"

definition empty_agent_wake :: agent_wake where
  "empty_agent_wake = \<lparr>aw_ok = 0, aw_failed = 0, aw_refused = 0, aw_deduped = 0,
     aw_last_ok_at = None, aw_last_ok_delivery = None, aw_last_ok_route = None, aw_last_ok_synthetic = None,
     aw_last_failed_at = None, aw_last_failed_reason = None, aw_last_failed_route = None,
     aw_last_failed_synthetic = None, aw_last_refused_at = None, aw_last_refused_reason = None,
     aw_last_refused_route = None, aw_last_refused_synthetic = None, aw_last_deduped_at = None,
     aw_last_deduped_route = None, aw_last_deduped_synthetic = None, aw_queued = 0, aw_by_route = []\<rparr>"

record selftest_evidence =
  se_status :: "string option"
  se_at :: "string option"
  se_detail :: "string option"

definition empty_selftest :: selftest_evidence where
  "empty_selftest = \<lparr>se_status = None, se_at = None, se_detail = None\<rparr>"

record evidence_doc =
  dc_updated_at :: "string option"
  dc_sinks :: "(string \<times> sink) list"
  dc_wakes :: "(string \<times> agent_wake) list"
  dc_selftest :: selftest_evidence

definition empty_doc :: evidence_doc where
  "empty_doc = \<lparr>dc_updated_at = None, dc_sinks = [], dc_wakes = [], dc_selftest = empty_selftest\<rparr>"

text \<open>\<open>d.setdefault(k, dflt)\<close> followed by an update of the entry.\<close>

definition entry :: "'v \<Rightarrow> string \<Rightarrow> (string \<times> 'v) list \<Rightarrow> 'v" where
  "entry dflt k d = (case map_of d k of None \<Rightarrow> dflt | Some v \<Rightarrow> v)"

definition alter :: "'v \<Rightarrow> string \<Rightarrow> ('v \<Rightarrow> 'v) \<Rightarrow> (string \<times> 'v) list \<Rightarrow> (string \<times> 'v) list" where
  "alter dflt k f d = AList.update k (f (entry dflt k d)) d"

subsection \<open>JSON\<close>

definition json_opt :: "string option \<Rightarrow> json" where
  "json_opt s = (case s of None \<Rightarrow> JNull | Some t \<Rightarrow> JStr t)"

definition json_bool_opt :: "bool option \<Rightarrow> json" where
  "json_bool_opt b = (case b of None \<Rightarrow> JNull | Some t \<Rightarrow> JBool t)"

definition sink_json :: "sink \<Rightarrow> json" where
  "sink_json s = JObj
    [(''accepted'', JInt (sk_accepted s)), (''rejected'', JInt (sk_rejected s)),
     (''woke'', JInt (sk_woke s)), (''ignored'', JInt (sk_ignored s)),
     (''last_accepted_at'', json_opt (sk_last_accepted_at s)),
     (''last_rejected_at'', json_opt (sk_last_rejected_at s)),
     (''last_reject_reason'', json_opt (sk_last_reject_reason s))]"

definition route_wake_json :: "route_wake \<Rightarrow> json" where
  "route_wake_json w = JObj
    [(''ok'', JInt (rw_ok w)), (''failed'', JInt (rw_failed w)),
     (''refused'', JInt (rw_refused w)), (''deduped'', JInt (rw_deduped w)),
     (''last_ok_at'', json_opt (rw_last_ok_at w)), (''last_ok_delivery'', json_opt (rw_last_ok_delivery w)),
     (''last_failed_at'', json_opt (rw_last_failed_at w)),
     (''last_failed_reason'', json_opt (rw_last_failed_reason w)),
     (''last_refused_at'', json_opt (rw_last_refused_at w)),
     (''last_refused_reason'', json_opt (rw_last_refused_reason w)),
     (''last_deduped_at'', json_opt (rw_last_deduped_at w))]"

definition json_dict :: "('v \<Rightarrow> json) \<Rightarrow> (string \<times> 'v) list \<Rightarrow> json" where
  "json_dict f d = JObj (map (\<lambda>(k, v). (k, f v)) (sort_key fst d))"

definition agent_wake_json :: "agent_wake \<Rightarrow> json" where
  "agent_wake_json w = JObj
    [(''ok'', JInt (aw_ok w)), (''failed'', JInt (aw_failed w)),
     (''refused'', JInt (aw_refused w)), (''deduped'', JInt (aw_deduped w)),
     (''last_ok_at'', json_opt (aw_last_ok_at w)), (''last_ok_delivery'', json_opt (aw_last_ok_delivery w)),
     (''last_ok_route'', json_opt (aw_last_ok_route w)),
     (''last_ok_synthetic'', json_bool_opt (aw_last_ok_synthetic w)),
     (''last_failed_at'', json_opt (aw_last_failed_at w)),
     (''last_failed_reason'', json_opt (aw_last_failed_reason w)),
     (''last_failed_route'', json_opt (aw_last_failed_route w)),
     (''last_failed_synthetic'', json_bool_opt (aw_last_failed_synthetic w)),
     (''last_refused_at'', json_opt (aw_last_refused_at w)),
     (''last_refused_reason'', json_opt (aw_last_refused_reason w)),
     (''last_refused_route'', json_opt (aw_last_refused_route w)),
     (''last_refused_synthetic'', json_bool_opt (aw_last_refused_synthetic w)),
     (''last_deduped_at'', json_opt (aw_last_deduped_at w)),
     (''last_deduped_route'', json_opt (aw_last_deduped_route w)),
     (''last_deduped_synthetic'', json_bool_opt (aw_last_deduped_synthetic w)),
     (''queued'', JInt (aw_queued w)),
     (''by_route'', json_dict route_wake_json (aw_by_route w))]"

definition selftest_json :: "selftest_evidence \<Rightarrow> json" where
  "selftest_json s = JObj [(''status'', json_opt (se_status s)), (''at'', json_opt (se_at s)),
     (''detail'', json_opt (se_detail s))]"

definition doc_to_json :: "evidence_doc \<Rightarrow> json" where
  "doc_to_json d = JObj
    [(''version'', JInt 1), (''updated_at'', json_opt (dc_updated_at d)),
     (''delivery_sinks'', json_dict sink_json (dc_sinks d)),
     (''agent_wakes'', json_dict agent_wake_json (dc_wakes d)),
     (''freeze_selftest'', selftest_json (dc_selftest d))]"

subsection \<open>Rebuilding\<close>

definition get_int :: "(string \<times> json) list \<Rightarrow> string \<Rightarrow> int option" where
  "get_int flds k = (case map_of flds k of None \<Rightarrow> Some 0 | Some (JInt i) \<Rightarrow> Some i | Some _ \<Rightarrow> None)"

definition get_str :: "(string \<times> json) list \<Rightarrow> string \<Rightarrow> string option option" where
  "get_str flds k = (case map_of flds k of None \<Rightarrow> Some None | Some JNull \<Rightarrow> Some None
     | Some (JStr s) \<Rightarrow> Some (Some s) | Some _ \<Rightarrow> None)"

definition get_bool :: "(string \<times> json) list \<Rightarrow> string \<Rightarrow> bool option option" where
  "get_bool flds k = (case map_of flds k of None \<Rightarrow> Some None | Some JNull \<Rightarrow> Some None
     | Some (JBool b) \<Rightarrow> Some (Some b) | Some _ \<Rightarrow> None)"

definition rebuild_sink :: "(string \<times> json) list \<Rightarrow> sink option" where
  "rebuild_sink f = do {
     a \<leftarrow> get_int f ''accepted''; r \<leftarrow> get_int f ''rejected''; w \<leftarrow> get_int f ''woke''; i \<leftarrow> get_int f ''ignored'';
     la \<leftarrow> get_str f ''last_accepted_at''; lr \<leftarrow> get_str f ''last_rejected_at'';
     rr \<leftarrow> get_str f ''last_reject_reason'';
     Some \<lparr>sk_accepted = a, sk_rejected = r, sk_woke = w, sk_ignored = i,
       sk_last_accepted_at = la, sk_last_rejected_at = lr, sk_last_reject_reason = rr\<rparr> }"

definition rebuild_route_wake :: "(string \<times> json) list \<Rightarrow> route_wake option" where
  "rebuild_route_wake f = do {
     a \<leftarrow> get_int f ''ok''; b \<leftarrow> get_int f ''failed''; c \<leftarrow> get_int f ''refused''; d \<leftarrow> get_int f ''deduped'';
     oa \<leftarrow> get_str f ''last_ok_at''; od \<leftarrow> get_str f ''last_ok_delivery'';
     fa \<leftarrow> get_str f ''last_failed_at''; fr \<leftarrow> get_str f ''last_failed_reason'';
     ra \<leftarrow> get_str f ''last_refused_at''; rr \<leftarrow> get_str f ''last_refused_reason'';
     da \<leftarrow> get_str f ''last_deduped_at'';
     Some \<lparr>rw_ok = a, rw_failed = b, rw_refused = c, rw_deduped = d, rw_last_ok_at = oa,
       rw_last_ok_delivery = od, rw_last_failed_at = fa, rw_last_failed_reason = fr,
       rw_last_refused_at = ra, rw_last_refused_reason = rr, rw_last_deduped_at = da\<rparr> }"

text \<open>\<open>_items\<close>: the entries of an object that are themselves objects.\<close>

definition items :: "json \<Rightarrow> (string \<times> (string \<times> json) list) list" where
  "items v = (case v of JObj d \<Rightarrow> List.map_filter
      (\<lambda>(k, x). case x of JObj f \<Rightarrow> Some (k, f) | _ \<Rightarrow> None) d | _ \<Rightarrow> [])"

fun traverse :: "('a \<Rightarrow> 'b option) \<Rightarrow> (string \<times> 'a) list \<Rightarrow> (string \<times> 'b) list option" where
  "traverse f [] = Some []"
| "traverse f ((k, x) # xs) = do { y \<leftarrow> f x; ys \<leftarrow> traverse f xs; Some ((k, y) # ys) }"

text \<open>\<open>_reclassify_legacy_dedup\<close> on a route's row and on an agent's, which carries provenance.\<close>

definition reclassify_route :: "route_wake \<Rightarrow> route_wake" where
  "reclassify_route w =
     (if rw_last_refused_reason w \<noteq> Some duplicate_delivery then w
      else w\<lparr>rw_deduped := rw_deduped w + 1, rw_refused := max 0 (rw_refused w - 1),
             rw_last_deduped_at := rw_last_refused_at w, rw_last_refused_at := None,
             rw_last_refused_reason := None\<rparr>)"

definition reclassify_agent :: "agent_wake \<Rightarrow> agent_wake" where
  "reclassify_agent w =
     (if aw_last_refused_reason w \<noteq> Some duplicate_delivery then w
      else w\<lparr>aw_deduped := aw_deduped w + 1, aw_refused := max 0 (aw_refused w - 1),
             aw_last_deduped_at := aw_last_refused_at w, aw_last_refused_at := None,
             aw_last_refused_reason := None,
             aw_last_deduped_route := aw_last_refused_route w, aw_last_refused_route := None,
             aw_last_deduped_synthetic := aw_last_refused_synthetic w, aw_last_refused_synthetic := None\<rparr>)"

definition rebuild_agent_wake :: "(string \<times> json) list \<Rightarrow> agent_wake option" where
  "rebuild_agent_wake f = do {
     a \<leftarrow> get_int f ''ok''; b \<leftarrow> get_int f ''failed''; c \<leftarrow> get_int f ''refused''; d \<leftarrow> get_int f ''deduped'';
     oa \<leftarrow> get_str f ''last_ok_at''; od \<leftarrow> get_str f ''last_ok_delivery'';
     orr \<leftarrow> get_str f ''last_ok_route''; os \<leftarrow> get_bool f ''last_ok_synthetic'';
     fa \<leftarrow> get_str f ''last_failed_at''; fr \<leftarrow> get_str f ''last_failed_reason'';
     fo \<leftarrow> get_str f ''last_failed_route''; fs \<leftarrow> get_bool f ''last_failed_synthetic'';
     ra \<leftarrow> get_str f ''last_refused_at''; rr \<leftarrow> get_str f ''last_refused_reason'';
     ro \<leftarrow> get_str f ''last_refused_route''; rs \<leftarrow> get_bool f ''last_refused_synthetic'';
     da \<leftarrow> get_str f ''last_deduped_at''; dr \<leftarrow> get_str f ''last_deduped_route'';
     ds \<leftarrow> get_bool f ''last_deduped_synthetic''; q \<leftarrow> get_int f ''queued'';
     rows \<leftarrow> traverse rebuild_route_wake (items (jget f ''by_route''));
     Some (reclassify_agent \<lparr>aw_ok = a, aw_failed = b, aw_refused = c, aw_deduped = d,
       aw_last_ok_at = oa, aw_last_ok_delivery = od, aw_last_ok_route = orr, aw_last_ok_synthetic = os,
       aw_last_failed_at = fa, aw_last_failed_reason = fr, aw_last_failed_route = fo,
       aw_last_failed_synthetic = fs, aw_last_refused_at = ra, aw_last_refused_reason = rr,
       aw_last_refused_route = ro, aw_last_refused_synthetic = rs, aw_last_deduped_at = da,
       aw_last_deduped_route = dr, aw_last_deduped_synthetic = ds, aw_queued = q,
       aw_by_route = map (\<lambda>(k, w). (k, reclassify_route w)) rows\<rparr>) }"

definition rebuild_selftest :: "json \<Rightarrow> selftest_evidence option" where
  "rebuild_selftest v = (case v of
     JObj f \<Rightarrow> do { s \<leftarrow> get_str f ''status''; a \<leftarrow> get_str f ''at''; d \<leftarrow> get_str f ''detail'';
                    Some \<lparr>se_status = s, se_at = a, se_detail = d\<rparr> }
   | _ \<Rightarrow> Some empty_selftest)"

definition version_known :: "json \<Rightarrow> bool" where
  "version_known v = (v \<in> {JInt 1, JBool True, JFloat (Fin 1)})"

definition doc_from_json :: "json \<Rightarrow> evidence_doc option" where
  "doc_from_json raw = (case raw of
     JObj f \<Rightarrow>
       if \<not> version_known (jget f ''version'') then Some empty_doc
       else do { ss \<leftarrow> traverse rebuild_sink (items (jget f ''delivery_sinks''));
                 ws \<leftarrow> traverse rebuild_agent_wake (items (jget f ''agent_wakes''));
                 st \<leftarrow> rebuild_selftest (jget f ''freeze_selftest'');
                 Some \<lparr>dc_updated_at = json_str (jget f ''updated_at''), dc_sinks = ss, dc_wakes = ws,
                       dc_selftest = st\<rparr> }
   | _ \<Rightarrow> Some empty_doc)"

end
