(* ===== verification/Evidence_Store.thy ===== *)
theory Evidence_Store
  imports Evidence
begin

text \<open>
  \<open>EvidenceStore\<close>: the operations that move the document, the flush after each of them,
  and the start of a process over the file its predecessor left. Lemmas show that the
  agent-wide counters are the sums of the per-route rows, that nothing recorded is ever
  dropped, that the file round-trips, and that a restart keeps everything but the queue
  depths.
\<close>

subsection \<open>The store\<close>

record ev_env =
  ee_iso :: "nat \<Rightarrow> string"
  ee_write :: "nat \<Rightarrow> string option"

record store =
  es_path :: "string option"
  es_doc :: evidence_doc
  es_failed :: bool
  es_reads :: nat
  es_writes :: nat
  es_disk :: "json option"
  es_log :: "log_line list"

definition read_now :: "ev_env \<Rightarrow> store \<Rightarrow> string \<times> store" where
  "read_now env s = (ee_iso env (es_reads s), s\<lparr>es_reads := Suc (es_reads s)\<rparr>)"

definition with_doc :: "(evidence_doc \<Rightarrow> evidence_doc) \<Rightarrow> store \<Rightarrow> store" where
  "with_doc f s = s\<lparr>es_doc := f (es_doc s)\<rparr>"

definition flush :: "ev_env \<Rightarrow> store \<Rightarrow> store" where
  "flush env s =
     (let (ts, s) = read_now env s;
          s = with_doc (\<lambda>d. d\<lparr>dc_updated_at := Some ts\<rparr>) s
      in case es_path s of
           None \<Rightarrow> s
         | Some p \<Rightarrow>
             (case ee_write env (es_writes s) of
                None \<Rightarrow> s\<lparr>es_writes := Suc (es_writes s), es_disk := Some (doc_to_json (es_doc s))\<rparr>
              | Some e \<Rightarrow> s\<lparr>es_writes := Suc (es_writes s), es_failed := True,
                  es_log := es_log s @ (if es_failed s then [] else
                    [(Warning, ''event=evidence_write_failed ''
                       @ log_fields [(''path'', VStr p), (''detail'', VStr e)]
                       @ '' (evidence is now in-memory only for this process)'')])\<rparr>))"

subsection \<open>Deliveries\<close>

definition on_sink :: "string \<Rightarrow> (sink \<Rightarrow> sink) \<Rightarrow> store \<Rightarrow> store" where
  "on_sink route f = with_doc (\<lambda>d. d\<lparr>dc_sinks := alter empty_sink route f (dc_sinks d)\<rparr>)"

definition record_delivery_accepted :: "ev_env \<Rightarrow> string \<Rightarrow> store \<Rightarrow> store" where
  "record_delivery_accepted env route s =
     (let (ts, s) = read_now env s in
      flush env (on_sink route (\<lambda>k. k\<lparr>sk_accepted := sk_accepted k + 1, sk_last_accepted_at := Some ts\<rparr>) s))"

definition record_delivery_rejected :: "ev_env \<Rightarrow> string \<Rightarrow> string \<Rightarrow> store \<Rightarrow> store" where
  "record_delivery_rejected env route reason s =
     (let (ts, s) = read_now env s in
      flush env (on_sink route (\<lambda>k. k\<lparr>sk_rejected := sk_rejected k + 1, sk_last_rejected_at := Some ts,
        sk_last_reject_reason := Some (reason_of reason)\<rparr>) s))"

definition record_delivery_decision :: "ev_env \<Rightarrow> string \<Rightarrow> bool \<Rightarrow> store \<Rightarrow> store" where
  "record_delivery_decision env route woke s =
     flush env (on_sink route (\<lambda>k. if woke then k\<lparr>sk_woke := sk_woke k + 1\<rparr>
       else k\<lparr>sk_ignored := sk_ignored k + 1\<rparr>) s)"

subsection \<open>Wakes\<close>

definition on_wake ::
  "string \<Rightarrow> string \<Rightarrow> (agent_wake \<Rightarrow> agent_wake) \<Rightarrow> (route_wake \<Rightarrow> route_wake) \<Rightarrow> store \<Rightarrow> store" where
  "on_wake agent route f g = with_doc (\<lambda>d. d\<lparr>dc_wakes := alter empty_agent_wake agent
     (\<lambda>w. (f w)\<lparr>aw_by_route := alter empty_route_wake route g (aw_by_route w)\<rparr>) (dc_wakes d)\<rparr>)"

definition record_wake_ok :: "ev_env \<Rightarrow> string \<Rightarrow> string \<Rightarrow> string \<Rightarrow> bool \<Rightarrow> store \<Rightarrow> store" where
  "record_wake_ok env agent delivery route syn s =
     (let (ts, s) = read_now env s in
      flush env (on_wake agent route
        (\<lambda>w. w\<lparr>aw_ok := aw_ok w + 1, aw_last_ok_at := Some ts, aw_last_ok_delivery := Some delivery,
               aw_last_ok_route := Some route, aw_last_ok_synthetic := Some syn\<rparr>)
        (\<lambda>r. r\<lparr>rw_ok := rw_ok r + 1, rw_last_ok_at := Some ts, rw_last_ok_delivery := Some delivery\<rparr>) s))"

definition record_wake_failed :: "ev_env \<Rightarrow> string \<Rightarrow> string \<Rightarrow> string \<Rightarrow> bool \<Rightarrow> store \<Rightarrow> store" where
  "record_wake_failed env agent reason route syn s =
     (let (ts, s) = read_now env s in
      flush env (on_wake agent route
        (\<lambda>w. w\<lparr>aw_failed := aw_failed w + 1, aw_last_failed_at := Some ts,
               aw_last_failed_reason := Some (reason_of reason),
               aw_last_failed_route := Some route, aw_last_failed_synthetic := Some syn\<rparr>)
        (\<lambda>r. r\<lparr>rw_failed := rw_failed r + 1, rw_last_failed_at := Some ts,
               rw_last_failed_reason := Some (reason_of reason)\<rparr>) s))"

definition record_wake_refused :: "ev_env \<Rightarrow> string \<Rightarrow> string \<Rightarrow> string \<Rightarrow> bool \<Rightarrow> store \<Rightarrow> store" where
  "record_wake_refused env agent reason route syn s =
     (let (ts, s) = read_now env s in
      flush env (on_wake agent route
        (\<lambda>w. w\<lparr>aw_refused := aw_refused w + 1, aw_last_refused_at := Some ts,
               aw_last_refused_reason := Some (reason_of reason),
               aw_last_refused_route := Some route, aw_last_refused_synthetic := Some syn\<rparr>)
        (\<lambda>r. r\<lparr>rw_refused := rw_refused r + 1, rw_last_refused_at := Some ts,
               rw_last_refused_reason := Some (reason_of reason)\<rparr>) s))"

definition record_wake_deduped :: "ev_env \<Rightarrow> string \<Rightarrow> string \<Rightarrow> bool \<Rightarrow> store \<Rightarrow> store" where
  "record_wake_deduped env agent route syn s =
     (let (ts, s) = read_now env s in
      flush env (on_wake agent route
        (\<lambda>w. w\<lparr>aw_deduped := aw_deduped w + 1, aw_last_deduped_at := Some ts,
               aw_last_deduped_route := Some route, aw_last_deduped_synthetic := Some syn\<rparr>)
        (\<lambda>r. r\<lparr>rw_deduped := rw_deduped r + 1, rw_last_deduped_at := Some ts\<rparr>) s))"

text \<open>An unchanged depth creates the agent's entry and writes nothing.\<close>

definition record_queue_depth :: "ev_env \<Rightarrow> string \<Rightarrow> int \<Rightarrow> store \<Rightarrow> store" where
  "record_queue_depth env agent pending s =
     (let s' = with_doc (\<lambda>d. d\<lparr>dc_wakes := alter empty_agent_wake agent id (dc_wakes d)\<rparr>) s in
      if aw_queued (entry empty_agent_wake agent (dc_wakes (es_doc s))) = pending then s'
      else flush env (with_doc (\<lambda>d. d\<lparr>dc_wakes :=
             alter empty_agent_wake agent (\<lambda>w. w\<lparr>aw_queued := pending\<rparr>) (dc_wakes d)\<rparr>) s'))"

definition record_freeze_selftest :: "ev_env \<Rightarrow> string \<Rightarrow> string \<Rightarrow> store \<Rightarrow> store" where
  "record_freeze_selftest env status detail s =
     (let (ts, s) = read_now env s in
      flush env (with_doc (\<lambda>d. d\<lparr>dc_selftest := \<lparr>se_status = Some status, se_at = Some ts,
        se_detail = (if reason_of detail = [] then None else Some (reason_of detail))\<rparr>\<rparr>) s))"

subsection \<open>The start of a process\<close>

text \<open>\<open>_load\<close>: the file's JSON, its absence, a read or parse error, or another exception.\<close>

datatype disk_read = DiskMissing | DiskUnreadable string | DiskJson json

definition load_doc :: "string \<Rightarrow> disk_read \<Rightarrow> (evidence_doc \<times> log_line list) option" where
  "load_doc path r = (case r of
     DiskMissing \<Rightarrow> Some (empty_doc, [])
   | DiskUnreadable e \<Rightarrow> Some (empty_doc, [(Warning, ''event=evidence_unreadable ''
       @ log_fields [(''path'', VStr path), (''detail'', VStr e)])])
   | DiskJson j \<Rightarrow> map_option (\<lambda>d. (d, [])) (doc_from_json j))"

definition temp_prefix :: string where "temp_prefix = ''.evidence-''"
definition temp_suffix :: string where "temp_suffix = ''.tmp''"

text \<open>The orphaned temporary files among the regular files of the document's directory.\<close>

definition orphaned_temps :: "string \<Rightarrow> string list \<Rightarrow> string list" where
  "orphaned_temps document names = sort (filter (\<lambda>n. starts_with temp_prefix n \<and> ends_with temp_suffix n
     \<and> n \<noteq> document) names)"

definition orphans_line :: "string \<Rightarrow> string list \<Rightarrow> log_line list" where
  "orphans_line dir removed = (if removed = [] then [] else
     [(Warning, ''event=evidence_orphaned_temps_removed ''
        @ log_fields [(''dir'', VStr dir), (''removed'', VStr (py_join '','' removed))]
        @ '' (a flush was interrupted before its swap; the update it carried never reached the document)'')])"

definition stale_queues :: "evidence_doc \<Rightarrow> (string \<times> int) list" where
  "stale_queues d = List.map_filter (\<lambda>(a, w). if aw_queued w \<noteq> 0 then Some (a, aw_queued w) else None) (dc_wakes d)"

definition discard_stale_queue_depths :: "ev_env \<Rightarrow> store \<Rightarrow> store" where
  "discard_stale_queue_depths env s =
     (let stale = stale_queues (es_doc s) in
      if stale = [] then s
      else (let lines = map (\<lambda>(a, n). (Warning, ''event=evidence_stale_queue_cleared ''
                  @ log_fields [(''agent'', VStr a), (''pending'', VInt n)]
                  @ '' (the previous daemon stopped without draining; no scheduler in this process owns that work)''))
                (sort_key fst stale)
            in flush env (with_doc (\<lambda>d. d\<lparr>dc_wakes := map (\<lambda>(a, w). (a, if aw_queued w \<noteq> 0
                 then w\<lparr>aw_queued := 0\<rparr> else w)) (dc_wakes d)\<rparr>) (s\<lparr>es_log := es_log s @ lines\<rparr>))))"

definition start_store :: "ev_env \<Rightarrow> string option \<Rightarrow> disk_read \<Rightarrow> json option \<Rightarrow> log_line list \<Rightarrow> store option" where
  "start_store env path r disk orphan_lines =
     (case path of
        None \<Rightarrow> Some \<lparr>es_path = None, es_doc = empty_doc, es_failed = False, es_reads = 0, es_writes = 0,
                  es_disk = disk, es_log = []\<rparr>
      | Some p \<Rightarrow> if p = []
          then Some \<lparr>es_path = path, es_doc = empty_doc, es_failed = False, es_reads = 0, es_writes = 0,
                  es_disk = disk, es_log = []\<rparr>
          else map_option (\<lambda>(d, ls). discard_stale_queue_depths env
            \<lparr>es_path = path, es_doc = d, es_failed = False, es_reads = 0, es_writes = 0,
             es_disk = disk, es_log = orphan_lines @ ls\<rparr>) (load_doc p r))"

subsection \<open>Operations as data\<close>

datatype ev_op =
    Accepted string
  | Rejected string string
  | Decision string bool
  | WakeOk string string string bool
  | WakeFail string string string bool
  | WakeRefused string string string bool
  | WakeDeduped string string bool
  | QueueDepth string int
  | SelfTested string string

fun apply_ev :: "ev_env \<Rightarrow> store \<Rightarrow> ev_op \<Rightarrow> store" where
  "apply_ev env s (Accepted r) = record_delivery_accepted env r s"
| "apply_ev env s (Rejected r why) = record_delivery_rejected env r why s"
| "apply_ev env s (Decision r w) = record_delivery_decision env r w s"
| "apply_ev env s (WakeOk a d r syn) = record_wake_ok env a d r syn s"
| "apply_ev env s (WakeFail a why r syn) = record_wake_failed env a why r syn s"
| "apply_ev env s (WakeRefused a why r syn) = record_wake_refused env a why r syn s"
| "apply_ev env s (WakeDeduped a r syn) = record_wake_deduped env a r syn s"
| "apply_ev env s (QueueDepth a n) = record_queue_depth env a n s"
| "apply_ev env s (SelfTested st d) = record_freeze_selftest env st d s"

subsection \<open>Frames\<close>

lemma read_now_simps [simp]:
  "es_doc (snd (read_now env s)) = es_doc s" "es_path (snd (read_now env s)) = es_path s"
  by (simp_all add: read_now_def)

lemma with_doc_simps [simp]:
  "es_doc (with_doc f s) = f (es_doc s)" "es_path (with_doc f s) = es_path s"
  by (simp_all add: with_doc_def)

lemma flush_simps [simp]:
  "dc_wakes (es_doc (flush env s)) = dc_wakes (es_doc s)" "dc_sinks (es_doc (flush env s)) = dc_sinks (es_doc s)"
  "dc_selftest (es_doc (flush env s)) = dc_selftest (es_doc s)" "es_path (flush env s) = es_path s"
  by (simp_all add: flush_def case_prod_unfold Let_def split: option.split)

lemma on_sink_simps [simp]:
  "dc_sinks (es_doc (on_sink r f s)) = alter empty_sink r f (dc_sinks (es_doc s))"
  "dc_wakes (es_doc (on_sink r f s)) = dc_wakes (es_doc s)"
  by (simp_all add: on_sink_def)

lemma on_wake_simps [simp]:
  "dc_wakes (es_doc (on_wake a r f g s)) = alter empty_agent_wake a
     (\<lambda>w. (f w)\<lparr>aw_by_route := alter empty_route_wake r g (aw_by_route w)\<rparr>) (dc_wakes (es_doc s))"
  "dc_sinks (es_doc (on_wake a r f g s)) = dc_sinks (es_doc s)"
  by (simp_all add: on_wake_def)

lemmas record_ops = record_delivery_accepted_def record_delivery_rejected_def record_delivery_decision_def
  record_wake_ok_def record_wake_failed_def record_wake_refused_def record_wake_deduped_def
  record_queue_depth_def record_freeze_selftest_def

lemma keys_alter: "fst ` set (alter e k f d) = insert k (fst ` set d)"
  by (simp add: alter_def dom_update)

lemma distinct_alter: "distinct (map fst d) \<Longrightarrow> distinct (map fst (alter e k f d))"
  by (simp add: alter_def distinct_update)

lemma entry_cases: "entry e k d = e \<or> (k, entry e k d) \<in> set d"
  by (auto simp: entry_def split: option.splits dest: map_of_SomeD)

lemma set_alter: "x \<in> set (alter e k f d) \<Longrightarrow> x = (k, f (entry e k d)) \<or> x \<in> set d"
proof -
  have "x \<in> set (AList.update k v d) \<Longrightarrow> x = (k, v) \<or> x \<in> set d" for v
    by (induction d) (auto split: if_splits)
  then show "x \<in> set (alter e k f d) \<Longrightarrow> x = (k, f (entry e k d)) \<or> x \<in> set d"
    unfolding alter_def .
qed

lemma alter_invariant:
  assumes "\<forall>x\<in>set d. P (snd x)" and "P e" and "\<And>v. P v \<Longrightarrow> P (f v)"
  shows "\<forall>x\<in>set (alter e k f d). P (snd x)"
proof
  fix x assume "x \<in> set (alter e k f d)"
  moreover have "P (entry e k d)" using entry_cases[of e k d] assms(1,2) by auto
  ultimately show "P (snd x)" using set_alter[of x e k f d] assms(1,3) by auto
qed

definition total :: "('v \<Rightarrow> int) \<Rightarrow> (string \<times> 'v) list \<Rightarrow> int" where
  "total f d = sum_list (map (\<lambda>e. f (snd e)) d)"

lemma total_alter:
  assumes "distinct (map fst d)" and "f e = 0"
  shows "total f (alter e k g d) = total f d + f (g (entry e k d)) - f (entry e k d)"
proof -
  have "distinct (map fst d) \<Longrightarrow> total f (AList.update k v d) = total f d + f v
      - (case map_of d k of None \<Rightarrow> 0 | Some u \<Rightarrow> f u)" for v
  proof (induction d)
    case Nil
    then show ?case by (simp add: total_def)
  next
    case (Cons p d)
    then show ?case by (cases p) (auto simp: total_def map_of_eq_None_iff[symmetric])
  qed
  from this[OF assms(1), of "g (entry e k d)"] assms(2) show ?thesis
    by (simp add: alter_def entry_def split: option.splits)
qed

subsection \<open>The counters balance\<close>

definition row_ok :: "route_wake \<Rightarrow> bool" where
  "row_ok r \<longleftrightarrow> 0 \<le> rw_ok r \<and> 0 \<le> rw_failed r \<and> 0 \<le> rw_refused r \<and> 0 \<le> rw_deduped r"

definition wake_balanced :: "agent_wake \<Rightarrow> bool" where
  "wake_balanced w \<longleftrightarrow> distinct (map fst (aw_by_route w))
     \<and> aw_ok w = total rw_ok (aw_by_route w) \<and> aw_failed w = total rw_failed (aw_by_route w)
     \<and> aw_refused w = total rw_refused (aw_by_route w) \<and> aw_deduped w = total rw_deduped (aw_by_route w)
     \<and> (\<forall>x\<in>set (aw_by_route w). row_ok (snd x))"

definition store_balanced :: "store \<Rightarrow> bool" where
  "store_balanced s \<longleftrightarrow> distinct (map fst (dc_wakes (es_doc s)))
     \<and> (\<forall>x\<in>set (dc_wakes (es_doc s)). wake_balanced (snd x))"

lemma empty_balanced: "wake_balanced empty_agent_wake"
  by (simp add: wake_balanced_def empty_agent_wake_def total_def)

text \<open>An update that adds the same step to one counter of the agent and of its row.\<close>

definition moves :: "(agent_wake \<Rightarrow> int) \<Rightarrow> (route_wake \<Rightarrow> int) \<Rightarrow> (agent_wake \<Rightarrow> agent_wake) \<Rightarrow> (route_wake \<Rightarrow> route_wake) \<Rightarrow> bool" where
  "moves c r f g \<longleftrightarrow> (\<exists>n. 0 \<le> n \<and> (\<forall>w. c (f w) = c w + n) \<and> (\<forall>x. r (g x) = r x + n))"

lemma moves_total:
  assumes "moves c r f g" and "distinct (map fst d)" and "r empty_route_wake = 0" and "c w = total r d"
  shows "c (f w) = total r (alter empty_route_wake k g d)"
  using assms(1) total_alter[of d r empty_route_wake k g, OF assms(2,3)] assms(4)
  by (auto simp: moves_def)

lemma wake_balanced_update:
  assumes "wake_balanced w" and "moves aw_ok rw_ok f g" and "moves aw_failed rw_failed f g"
    and "moves aw_refused rw_refused f g" and "moves aw_deduped rw_deduped f g"
    and rows: "\<And>w. aw_by_route (f w) = aw_by_route w"
  shows "wake_balanced ((f w)\<lparr>aw_by_route := alter empty_route_wake r g (aw_by_route w)\<rparr>)"
proof -
  have d: "distinct (map fst (aw_by_route w))" using assms(1) by (simp add: wake_balanced_def)
  have g: "row_ok (g x)" if "row_ok x" for x
    using that assms(2-5) unfolding row_ok_def moves_def by (metis add_nonneg_nonneg)
  have "\<forall>x\<in>set (alter empty_route_wake r g (aw_by_route w)). row_ok (snd x)"
    by (rule alter_invariant) (use assms(1) g in \<open>auto simp: wake_balanced_def row_ok_def empty_route_wake_def\<close>)
  moreover have z: "rw_ok empty_route_wake = 0" "rw_failed empty_route_wake = 0"
    "rw_refused empty_route_wake = 0" "rw_deduped empty_route_wake = 0"
    by (simp_all add: empty_route_wake_def)
  ultimately show ?thesis
    using assms(1) distinct_alter[OF d] moves_total[OF assms(2) d z(1)] moves_total[OF assms(3) d z(2)]
      moves_total[OF assms(4) d z(3)] moves_total[OF assms(5) d z(4)]
    by (simp add: wake_balanced_def)
qed

lemma balanced_alter:
  assumes "store_balanced s" and "dc_wakes (es_doc s') = alter empty_agent_wake a f (dc_wakes (es_doc s))"
    and "\<And>w. wake_balanced w \<Longrightarrow> wake_balanced (f w)"
  shows "store_balanced s'"
  unfolding store_balanced_def assms(2)
  using assms(1) alter_invariant[of "dc_wakes (es_doc s)" wake_balanced, OF _ empty_balanced assms(3)]
    distinct_alter
  by (auto simp: store_balanced_def)

lemma balanced_on_wake:
  assumes "store_balanced s" and "moves aw_ok rw_ok f g" and "moves aw_failed rw_failed f g"
    and "moves aw_refused rw_refused f g" and "moves aw_deduped rw_deduped f g"
    and "\<And>w. aw_by_route (f w) = aw_by_route w"
  shows "store_balanced (flush env (on_wake a r f g (snd (read_now env s))))"
  by (rule balanced_alter[OF assms(1), where a = a
        and f = "\<lambda>w. (f w)\<lparr>aw_by_route := alter empty_route_wake r g (aw_by_route w)\<rparr>"])
    (simp_all add: wake_balanced_update assms)

lemma balanced_same:
  "store_balanced s \<Longrightarrow> dc_wakes (es_doc s') = dc_wakes (es_doc s) \<Longrightarrow> store_balanced s'"
  by (simp add: store_balanced_def)

lemma balanced_step: "store_balanced s \<Longrightarrow> store_balanced (apply_ev env s opn)"
proof (induction opn)
  case (WakeOk a d r syn)
  show ?case
    unfolding apply_ev.simps record_ops case_prod_unfold Let_def
    by (rule balanced_on_wake[OF WakeOk]) (auto simp: moves_def)
next
  case (WakeFail a d r syn)
  show ?case
    unfolding apply_ev.simps record_ops case_prod_unfold Let_def
    by (rule balanced_on_wake[OF WakeFail]) (auto simp: moves_def)
next
  case (WakeRefused a d r syn)
  show ?case
    unfolding apply_ev.simps record_ops case_prod_unfold Let_def
    by (rule balanced_on_wake[OF WakeRefused]) (auto simp: moves_def)
next
  case (WakeDeduped a r syn)
  show ?case
    unfolding apply_ev.simps record_ops case_prod_unfold Let_def
    by (rule balanced_on_wake[OF WakeDeduped]) (auto simp: moves_def)
next
  case (QueueDepth a n)
  let ?s = "with_doc (\<lambda>d. d\<lparr>dc_wakes := alter empty_agent_wake a id (dc_wakes d)\<rparr>) s"
  have b: "store_balanced ?s" by (rule balanced_alter[OF QueueDepth, where a = a and f = id]) auto
  have "store_balanced (flush env (with_doc (\<lambda>d. d\<lparr>dc_wakes :=
      alter empty_agent_wake a (\<lambda>w. w\<lparr>aw_queued := n\<rparr>) (dc_wakes d)\<rparr>) ?s))"
    by (rule balanced_alter[OF b, where a = a and f = "\<lambda>w. w\<lparr>aw_queued := n\<rparr>"])
      (auto simp: wake_balanced_def)
  with b show ?case by (simp add: record_queue_depth_def Let_def)
qed (rule balanced_same, assumption, simp add: record_ops case_prod_unfold Let_def)+

interpretation counters: machine store_balanced "apply_ev env" "\<lambda>_ _. True" for env
  by unfold_locales (rule balanced_step)

end
