(* ===== verification/Evidence_Props.thy ===== *)
theory Evidence_Props
  imports Evidence_Store
begin

text \<open>
  The promises of the evidence store: exact counts, a faithful file, a restart that loses
  nothing but queue depths, and a migration that invents nothing.
\<close>

subsection \<open>Exact counts\<close>

definition agent_row :: "store \<Rightarrow> string \<Rightarrow> agent_wake" where
  "agent_row s a = entry empty_agent_wake a (dc_wakes (es_doc s))"

definition route_row :: "store \<Rightarrow> string \<Rightarrow> string \<Rightarrow> route_wake" where
  "route_row s a r = entry empty_route_wake r (aw_by_route (agent_row s a))"

lemma entry_alter: "entry e k (alter e j f d) = (if k = j then f (entry e j d) else entry e k d)"
  by (simp add: entry_def alter_def update_conv')

lemma agent_row_on_wake:
  "agent_row (flush env (on_wake a r f g s)) b = (if b = a
     then (f (agent_row s a))\<lparr>aw_by_route := alter empty_route_wake r g (aw_by_route (agent_row s a))\<rparr>
     else agent_row s b)"
  by (simp add: agent_row_def entry_alter)

lemma route_row_on_wake:
  "route_row (flush env (on_wake a r f g s)) b q = (if b = a \<and> q = r then g (route_row s a r) else route_row s b q)"
  by (simp add: route_row_def agent_row_on_wake entry_alter)

lemma route_row_read [simp]: "route_row (snd (read_now env s)) = route_row s"
  by (simp add: route_row_def agent_row_def fun_eq_iff)

lemma route_row_same: "dc_wakes (es_doc s') = dc_wakes (es_doc s) \<Longrightarrow> route_row s' = route_row s"
  by (simp add: route_row_def agent_row_def fun_eq_iff)

fun hits :: "nat \<Rightarrow> string \<Rightarrow> string \<Rightarrow> ev_op \<Rightarrow> bool" where
  "hits n a r (WakeOk a' d r' s) = (n = 0 \<and> a' = a \<and> r' = r)"
| "hits n a r (WakeFail a' d r' s) = (n = 1 \<and> a' = a \<and> r' = r)"
| "hits n a r (WakeRefused a' d r' s) = (n = 2 \<and> a' = a \<and> r' = r)"
| "hits n a r (WakeDeduped a' r' s) = (n = 3 \<and> a' = a \<and> r' = r)"
| "hits n a r _ = False"

definition counter :: "nat \<Rightarrow> route_wake \<Rightarrow> int" where
  "counter n w = (if n = 0 then rw_ok w else if n = 1 then rw_failed w
     else if n = 2 then rw_refused w else rw_deduped w)"

lemma counter_step:
  assumes "n < 4"
  shows "counter n (route_row (apply_ev env s opn) a r)
     = counter n (route_row s a r) + (if hits n a r opn then 1 else 0)"
proof (cases opn)
  case (QueueDepth b p)
  let ?s = "with_doc (\<lambda>d. d\<lparr>dc_wakes := alter empty_agent_wake b id (dc_wakes d)\<rparr>) s"
  have 1: "route_row ?s = route_row s"
    by (simp add: route_row_def agent_row_def entry_alter fun_eq_iff)
  have "route_row (flush env (with_doc (\<lambda>d. d\<lparr>dc_wakes :=
      alter empty_agent_wake b (\<lambda>w. w\<lparr>aw_queued := p\<rparr>) (dc_wakes d)\<rparr>) ?s)) = route_row ?s"
    by (simp add: route_row_def agent_row_def entry_alter fun_eq_iff)
  with 1 QueueDepth show ?thesis by (simp add: record_queue_depth_def Let_def)
next
  case (Accepted b)
  have same: "\<not> hits n a r opn" using Accepted by simp
  from Accepted have "dc_wakes (es_doc (apply_ev env s opn)) = dc_wakes (es_doc s)"
    by (simp add: record_ops case_prod_unfold Let_def)
  from route_row_same[OF this] show ?thesis using same by simp
next
  case (Rejected b c)
  have same: "\<not> hits n a r opn" using Rejected by simp
  from Rejected have "dc_wakes (es_doc (apply_ev env s opn)) = dc_wakes (es_doc s)"
    by (simp add: record_ops case_prod_unfold Let_def)
  from route_row_same[OF this] show ?thesis using same by simp
next
  case (Decision b c)
  have same: "\<not> hits n a r opn" using Decision by simp
  from Decision have "dc_wakes (es_doc (apply_ev env s opn)) = dc_wakes (es_doc s)"
    by (simp add: record_ops case_prod_unfold Let_def)
  from route_row_same[OF this] show ?thesis using same by simp
next
  case (SelfTested b c)
  have same: "\<not> hits n a r opn" using SelfTested by simp
  from SelfTested have "dc_wakes (es_doc (apply_ev env s opn)) = dc_wakes (es_doc s)"
    by (simp add: record_ops case_prod_unfold Let_def)
  from route_row_same[OF this] show ?thesis using same by simp
qed (use assms in \<open>auto simp: record_ops case_prod_unfold Let_def route_row_on_wake counter_def\<close>)

lemma counter_run:
  "n < 4 \<Longrightarrow> counter n (route_row (foldl (apply_ev env) s ops) a r)
     = counter n (route_row s a r) + int (length (filter (hits n a r) ops))"
  by (induction ops arbitrary: s) (auto simp: counter_step)

lemma valid_always: "counters.valid_run env s ops"
  by (induction ops arbitrary: s) (simp_all add: counters.valid_run.simps)

lemma balanced_run: "store_balanced s \<Longrightarrow> store_balanced (foldl (apply_ev env) s ops)"
  by (rule counters.inv_run[OF _ valid_always])

text \<open>
  C16. The evidence counts are exact. From an empty document, whatever operations follow
  and whatever writes fail, the row of a route under an agent counts exactly the wakes of
  that agent over that route with that outcome, and each of the agent's own counters is
  the sum over its rows, so no outcome is attributed to two routes or to none.
\<close>

theorem evidence_counts_exact:
  assumes "es_doc s = empty_doc"
  shows "(let s' = foldl (apply_ev env) s ops; w = agent_row s' a in
      (\<forall>r n. n < 4 \<longrightarrow> counter n (route_row s' a r) = int (length (filter (hits n a r) ops)))
    \<and> aw_ok w = total rw_ok (aw_by_route w) \<and> aw_failed w = total rw_failed (aw_by_route w)
    \<and> aw_refused w = total rw_refused (aw_by_route w) \<and> aw_deduped w = total rw_deduped (aw_by_route w)
    \<and> distinct (map fst (aw_by_route w)))"
proof -
  let ?s = "foldl (apply_ev env) s ops"
  have "store_balanced s" using assms by (simp add: store_balanced_def empty_doc_def)
  then have b: "store_balanced ?s" by (rule balanced_run)
  have "wake_balanced (agent_row ?s a)"
    using entry_cases[of empty_agent_wake a "dc_wakes (es_doc ?s)"] b empty_balanced
    unfolding agent_row_def store_balanced_def by force
  moreover have "counter n (route_row s a r) = 0" for n r
    using assms by (simp add: counter_def route_row_def agent_row_def entry_def empty_doc_def
        empty_agent_wake_def empty_route_wake_def)
  ultimately show ?thesis by (simp add: Let_def counter_run wake_balanced_def)
qed

definition demo_store :: store where
  "demo_store = \<lparr>es_path = Some ''/e'', es_doc = empty_doc, es_failed = False, es_reads = 0,
     es_writes = 0, es_disk = None, es_log = []\<rparr>"

definition demo_ev_env :: ev_env where
  "demo_ev_env = \<lparr>ee_iso = (\<lambda>n. ''t''), ee_write = (\<lambda>n. if n = 1 then Some ''full'' else None)\<rparr>"

theorem evidence_counts_exact_witness:
  "counter 0 (route_row (foldl (apply_ev demo_ev_env) demo_store
     [WakeOk ''jt'' ''d1'' ''github'' False, WakeOk ''jt'' ''d2'' ''probe'' True,
      WakeOk ''jt'' ''d3'' ''github'' False]) ''jt'' ''github'') = 2"
proof -
  have e: "es_doc demo_store = empty_doc" by (simp add: demo_store_def)
  from evidence_counts_exact[OF e, of demo_ev_env "[WakeOk ''jt'' ''d1'' ''github'' False,
      WakeOk ''jt'' ''d2'' ''probe'' True, WakeOk ''jt'' ''d3'' ''github'' False]" "''jt''"]
  show ?thesis by (simp add: Let_def)
qed

subsection \<open>The file\<close>

text \<open>A document in the order the file has: every dictionary sorted by key.\<close>

definition canon_wake :: "agent_wake \<Rightarrow> agent_wake" where
  "canon_wake w = w\<lparr>aw_by_route := sort_key fst (aw_by_route w)\<rparr>"

definition canon :: "evidence_doc \<Rightarrow> evidence_doc" where
  "canon d = d\<lparr>dc_sinks := sort_key fst (dc_sinks d),
     dc_wakes := map (\<lambda>(a, w). (a, canon_wake w)) (sort_key fst (dc_wakes d))\<rparr>"

text \<open>No row still carries a refusal that was a dedup.\<close>

definition no_legacy :: "evidence_doc \<Rightarrow> bool" where
  "no_legacy d \<longleftrightarrow> (\<forall>(a, w)\<in>set (dc_wakes d). aw_last_refused_reason w \<noteq> Some duplicate_delivery
     \<and> (\<forall>(r, x)\<in>set (aw_by_route w). rw_last_refused_reason x \<noteq> Some duplicate_delivery))"

lemma get_json [simp]:
  "map_of f k = Some (JInt i) \<Longrightarrow> get_int f k = Some i"
  "map_of f k = Some (json_opt s) \<Longrightarrow> get_str f k = Some s"
  "map_of f k = Some (json_bool_opt b) \<Longrightarrow> get_bool f k = Some b"
  by (auto simp: get_int_def get_str_def get_bool_def json_opt_def json_bool_opt_def split: option.splits)

definition obj_fields :: "json \<Rightarrow> (string \<times> json) list" where
  "obj_fields j = (case j of JObj f \<Rightarrow> f | _ \<Rightarrow> [])"

lemma items_dict:
  assumes "\<And>v. \<exists>f. g v = JObj f"
  shows "items (json_dict g d) = map (\<lambda>(k, v). (k, obj_fields (g v))) (sort_key fst d)"
proof -
  have "List.map_filter (\<lambda>(k, x). case x of JObj f \<Rightarrow> Some (k, f) | _ \<Rightarrow> None) (map (\<lambda>(k, v). (k, g v)) xs)
      = map (\<lambda>(k, v). (k, obj_fields (g v))) xs" for xs
  proof (induction xs)
    case (Cons p xs)
    obtain f where "g (snd p) = JObj f" using assms by blast
    with Cons show ?case by (cases p) (simp add: obj_fields_def List.map_filter_simps)
  qed (simp add: List.map_filter_simps)
  then show ?thesis by (simp add: items_def json_dict_def)
qed

lemma traverse_map:
  "\<forall>(k, v)\<in>set xs. f (g v) = Some (h v) \<Longrightarrow>
     traverse f (map (\<lambda>(k, v). (k, g v)) xs) = Some (map (\<lambda>(k, v). (k, h v)) xs)"
  by (induction xs) auto

lemma rebuild_sink_json: "rebuild_sink (obj_fields (sink_json s)) = Some s"
  by (simp add: rebuild_sink_def obj_fields_def sink_json_def)

lemma rebuild_route_wake_json: "rebuild_route_wake (obj_fields (route_wake_json w)) = Some w"
  by (simp add: rebuild_route_wake_def obj_fields_def route_wake_json_def)

lemma map_pair_id: "map (\<lambda>(k, v). (k, v)) xs = xs"
  by (induction xs) auto

lemma rebuild_rows:
  "traverse rebuild_route_wake (items (json_dict route_wake_json d)) = Some (sort_key fst d)"
proof -
  have "items (json_dict route_wake_json d) = map (\<lambda>(k, v). (k, obj_fields (route_wake_json v))) (sort_key fst d)"
    by (rule items_dict) (simp add: route_wake_json_def)
  then show ?thesis
    using traverse_map[of "sort_key fst d" rebuild_route_wake "\<lambda>v. obj_fields (route_wake_json v)" "\<lambda>v. v"]
    by (simp add: rebuild_route_wake_json map_pair_id)
qed

text \<open>What reading back makes of a row and of a document: sorted, and migrated.\<close>

definition migrate_wake :: "agent_wake \<Rightarrow> agent_wake" where
  "migrate_wake w = reclassify_agent
     (w\<lparr>aw_by_route := map (\<lambda>(r, x). (r, reclassify_route x)) (sort_key fst (aw_by_route w))\<rparr>)"

definition migrate :: "evidence_doc \<Rightarrow> evidence_doc" where
  "migrate d = d\<lparr>dc_sinks := sort_key fst (dc_sinks d),
     dc_wakes := map (\<lambda>(a, w). (a, migrate_wake w)) (sort_key fst (dc_wakes d))\<rparr>"

lemma rebuild_agent_wake_json: "rebuild_agent_wake (obj_fields (agent_wake_json w)) = Some (migrate_wake w)"
proof -
  have j: "jget (obj_fields (agent_wake_json w)) ''by_route'' = json_dict route_wake_json (aw_by_route w)"
    by (simp add: jget_def obj_fields_def agent_wake_json_def)
  show ?thesis
    unfolding rebuild_agent_wake_def j rebuild_rows
    by (cases w) (simp add: obj_fields_def agent_wake_json_def migrate_wake_def)
qed

lemma selftest_roundtrip: "rebuild_selftest (selftest_json s) = Some s"
  by (simp add: rebuild_selftest_def selftest_json_def)

lemma doc_reload: "doc_from_json (doc_to_json d) = Some (migrate d)"
proof -
  have s: "traverse rebuild_sink (items (json_dict sink_json (dc_sinks d))) = Some (sort_key fst (dc_sinks d))"
  proof -
    have "items (json_dict sink_json (dc_sinks d)) = map (\<lambda>(k, v). (k, obj_fields (sink_json v))) (sort_key fst (dc_sinks d))"
      by (rule items_dict) (simp add: sink_json_def)
    then show ?thesis
      using traverse_map[of "sort_key fst (dc_sinks d)" rebuild_sink "\<lambda>v. obj_fields (sink_json v)" "\<lambda>v. v"]
      by (simp add: rebuild_sink_json map_pair_id)
  qed
  have w: "traverse rebuild_agent_wake (items (json_dict agent_wake_json (dc_wakes d)))
      = Some (map (\<lambda>(a, w). (a, migrate_wake w)) (sort_key fst (dc_wakes d)))"
  proof -
    have "items (json_dict agent_wake_json (dc_wakes d)) = map (\<lambda>(k, v). (k, obj_fields (agent_wake_json v))) (sort_key fst (dc_wakes d))"
      by (rule items_dict) (simp add: agent_wake_json_def)
    then show ?thesis by (simp add: traverse_map rebuild_agent_wake_json)
  qed
  have u: "json_str (json_opt x) = x" for x by (cases x) (simp_all add: json_opt_def)
  show ?thesis
    by (simp add: doc_from_json_def doc_to_json_def jget_def version_known_def s w u selftest_roundtrip migrate_def)
qed

lemma migrate_wake_current:
  assumes "aw_last_refused_reason w \<noteq> Some duplicate_delivery"
    and "\<forall>(r, x)\<in>set (aw_by_route w). rw_last_refused_reason x \<noteq> Some duplicate_delivery"
  shows "migrate_wake w = canon_wake w"
proof -
  have "map (\<lambda>(r, x). (r, reclassify_route x)) (sort_key fst (aw_by_route w)) = sort_key fst (aw_by_route w)"
    by (rule map_idI) (use assms(2) in \<open>auto simp: reclassify_route_def\<close>)
  with assms(1) show ?thesis by (simp add: migrate_wake_def canon_wake_def reclassify_agent_def)
qed

lemma doc_roundtrip:
  assumes "no_legacy d"
  shows "doc_from_json (doc_to_json d) = Some (canon d)"
proof -
  have "map (\<lambda>(a, w). (a, migrate_wake w)) (sort_key fst (dc_wakes d))
      = map (\<lambda>(a, w). (a, canon_wake w)) (sort_key fst (dc_wakes d))"
    by (rule map_cong) (use assms in \<open>auto simp: no_legacy_def intro!: migrate_wake_current\<close>)
  then show ?thesis by (simp add: doc_reload migrate_def canon_def)
qed

subsection \<open>A delivery on record was recorded\<close>

text \<open>Every acknowledged delivery a document shows is one of the given wakes.\<close>

definition acks_recorded :: "ev_op set \<Rightarrow> evidence_doc \<Rightarrow> bool" where
  "acks_recorded ops d \<longleftrightarrow> (\<forall>(a, w)\<in>set (dc_wakes d). \<forall>(r, x)\<in>set (aw_by_route w).
     \<forall>i. rw_last_ok_delivery x = Some i \<longrightarrow> (\<exists>syn. WakeOk a i r syn \<in> ops))"

lemma acks_alter:
  assumes "acks_recorded ops d" and "\<And>w r x i. (r, x) \<in> set (aw_by_route (f w)) \<Longrightarrow> rw_last_ok_delivery x = Some i
      \<Longrightarrow> (r, x) \<in> set (aw_by_route w) \<or> (\<exists>syn. WakeOk a i r syn \<in> ops)
        \<or> (\<exists>y. (r, y) \<in> set (aw_by_route w) \<and> rw_last_ok_delivery y = Some i)"
  shows "acks_recorded ops (d\<lparr>dc_wakes := alter empty_agent_wake a f (dc_wakes d)\<rparr>)"
proof -
  have "\<exists>syn. WakeOk b i r syn \<in> ops" if m: "(b, w) \<in> set (alter empty_agent_wake a f (dc_wakes d))"
    and x: "(r, x) \<in> set (aw_by_route w)" "rw_last_ok_delivery x = Some i" for b w r x i
  proof (cases "(b, w) \<in> set (dc_wakes d)")
    case True
    with assms(1) x show ?thesis by (fastforce simp: acks_recorded_def)
  next
    case False
    with set_alter[OF m] have bw: "b = a" "w = f (entry empty_agent_wake a (dc_wakes d))" by auto
    have "\<exists>syn. WakeOk a i r syn \<in> ops" if "(r, y) \<in> set (aw_by_route (entry empty_agent_wake a (dc_wakes d)))"
      "rw_last_ok_delivery y = Some i" for y
      using that assms(1) entry_cases[of empty_agent_wake a "dc_wakes d"]
      by (fastforce simp: acks_recorded_def empty_agent_wake_def)
    with assms(2) x show ?thesis unfolding bw by blast
  qed
  then show ?thesis unfolding acks_recorded_def by auto
qed

lemma acks_empty: "acks_recorded ops empty_doc"
  by (simp add: acks_recorded_def empty_doc_def)

lemma acks_same_wakes: "dc_wakes d' = dc_wakes d \<Longrightarrow> acks_recorded ops d' = acks_recorded ops d"
  by (simp add: acks_recorded_def)

lemma acks_mono: "acks_recorded A d \<Longrightarrow> A \<subseteq> B \<Longrightarrow> acks_recorded B d"
  unfolding acks_recorded_def by fast

lemma acks_on_wake:
  assumes "acks_recorded ops (es_doc s)" and "\<And>w. aw_by_route (f w) = aw_by_route w"
    and "\<And>x i. rw_last_ok_delivery (g x) = Some i \<Longrightarrow> rw_last_ok_delivery x = Some i \<or> (\<exists>syn. WakeOk a i r syn \<in> ops)"
  shows "acks_recorded ops (es_doc (flush env (on_wake a r f g s)))"
proof -
  have "acks_recorded ops (es_doc s\<lparr>dc_wakes := alter empty_agent_wake a
     (\<lambda>w. (f w)\<lparr>aw_by_route := alter empty_route_wake r g (aw_by_route w)\<rparr>) (dc_wakes (es_doc s))\<rparr>)"
  proof (rule acks_alter[OF assms(1)])
    fix w q x i
    assume "(q, x) \<in> set (aw_by_route ((f w)\<lparr>aw_by_route := alter empty_route_wake r g (aw_by_route w)\<rparr>))"
      and x: "rw_last_ok_delivery x = Some i"
    then consider "(q, x) \<in> set (aw_by_route w)"
      | "q = r" "x = g (entry empty_route_wake r (aw_by_route w))"
      by (auto dest: set_alter)
    then show "(q, x) \<in> set (aw_by_route w) \<or> (\<exists>syn. WakeOk a i q syn \<in> ops)
        \<or> (\<exists>y. (q, y) \<in> set (aw_by_route w) \<and> rw_last_ok_delivery y = Some i)"
    proof cases
      case 2
      with x assms(3) entry_cases[of empty_route_wake r "aw_by_route w"] show ?thesis
        by (fastforce simp: empty_route_wake_def)
    qed simp
  qed
  then show ?thesis by (simp add: acks_recorded_def)
qed

lemma acks_step:
  assumes "acks_recorded ops (es_doc s)"
  shows "acks_recorded (insert opn ops) (es_doc (apply_ev env s opn))"
proof -
  have a: "acks_recorded (insert opn ops) (es_doc s)" using acks_mono[OF assms] by blast
  have r: "acks_recorded (insert opn ops) (es_doc (snd (read_now env s)))" using a by simp
  show ?thesis
  proof (cases opn)
    case (QueueDepth b n)
    have 1: "acks_recorded (insert opn ops) (es_doc s\<lparr>dc_wakes := alter empty_agent_wake b id (dc_wakes (es_doc s))\<rparr>)"
      by (rule acks_alter[OF a]) auto
    have 2: "acks_recorded (insert opn ops) (es_doc s\<lparr>dc_wakes :=
        alter empty_agent_wake b (\<lambda>w. w\<lparr>aw_queued := n\<rparr>) (alter empty_agent_wake b id (dc_wakes (es_doc s)))\<rparr>)"
      using acks_alter[OF 1, of "\<lambda>w. w\<lparr>aw_queued := n\<rparr>" b] by simp
    show ?thesis using 1 2 by (simp add: QueueDepth record_queue_depth_def Let_def acks_recorded_def)
  qed (use a r in \<open>auto simp: record_ops case_prod_unfold Let_def intro!: acks_on_wake\<close>,
       auto simp: acks_recorded_def)
qed

lemma acks_run: "acks_recorded ops (es_doc s) \<Longrightarrow> acks_recorded (ops \<union> set evs) (es_doc (foldl (apply_ev env) s evs))"
proof (induction evs arbitrary: s ops)
  case (Cons e evs)
  show ?case using Cons.IH[OF acks_step[OF Cons.prems, of e env]] by simp
qed simp

lemma acks_reload: "acks_recorded ops d \<Longrightarrow> acks_recorded ops (migrate d)"
proof -
  assume a: "acks_recorded ops d"
  have r: "rw_last_ok_delivery (reclassify_route x) = rw_last_ok_delivery x" for x
    by (simp add: reclassify_route_def)
  have b: "aw_by_route (reclassify_agent w) = aw_by_route w" for w by (simp add: reclassify_agent_def)
  show ?thesis using a by (fastforce simp: acks_recorded_def migrate_def migrate_wake_def r b)
qed

text \<open>Whoever reads the file a process has written sees only deliveries that process woke for.\<close>

lemma ack_on_disk_recorded:
  assumes "es_doc s = empty_doc" and "doc_from_json (doc_to_json (es_doc (foldl (apply_ev env) s evs))) = Some d"
    and "map_of (dc_wakes d) a = Some w" and "map_of (aw_by_route w) r = Some x" and "rw_last_ok_delivery x = Some i"
  shows "\<exists>syn. WakeOk a i r syn \<in> set evs"
proof -
  have "acks_recorded (set evs) (es_doc (foldl (apply_ev env) s evs))"
    using acks_run[of "{}" s evs env] acks_empty by (simp add: assms(1))
  from acks_reload[OF this] assms(2) have "acks_recorded (set evs) d" by (simp add: doc_reload)
  with map_of_SomeD[OF assms(3)] map_of_SomeD[OF assms(4)] assms(5) show ?thesis
    by (fastforce simp: acks_recorded_def)
qed

subsection \<open>A restart\<close>

lemma map_of_sort:
  assumes "distinct (map fst d)"
  shows "map_of (sort_key fst d) = map_of d"
proof (rule map_of_inject_set[THEN iffD2])
  show "distinct (map fst d)" by (rule assms)
  show "distinct (map fst (sort_key fst d))" using assms by (metis distinct_map distinct_sort set_sort)
qed simp

lemma map_of_map_snd: "map_of (map (\<lambda>(a, w). (a, f w)) d) k = map_option f (map_of d k)"
  by (induction d) auto

lemma flush_syncs:
  assumes "es_path s = Some p" and "ee_write env (es_writes s) = None"
  shows "es_disk (flush env s) = Some (doc_to_json (es_doc (flush env s)))"
  using assms by (simp add: flush_def read_now_def with_doc_def Let_def)

lemma discard_wakes:
  "dc_wakes (es_doc (discard_stale_queue_depths env s))
     = map (\<lambda>(a, w). (a, if aw_queued w \<noteq> 0 then w\<lparr>aw_queued := 0\<rparr> else w)) (dc_wakes (es_doc s))"
  "dc_sinks (es_doc (discard_stale_queue_depths env s)) = dc_sinks (es_doc s)"
  "dc_selftest (es_doc (discard_stale_queue_depths env s)) = dc_selftest (es_doc s)"
proof -
  have z: "map (\<lambda>(a, w). (a, if aw_queued w \<noteq> 0 then w\<lparr>aw_queued := 0\<rparr> else w)) d = d"
    if "List.map_filter (\<lambda>(a, w). if aw_queued w \<noteq> 0 then Some (a, aw_queued w) else None) d = []"
    for d :: "(string \<times> agent_wake) list"
    using that by (induction d) (auto simp: List.map_filter_simps split: if_splits)
  show "dc_wakes (es_doc (discard_stale_queue_depths env s))
     = map (\<lambda>(a, w). (a, if aw_queued w \<noteq> 0 then w\<lparr>aw_queued := 0\<rparr> else w)) (dc_wakes (es_doc s))"
    using z[of "dc_wakes (es_doc s)"]
    by (simp add: discard_stale_queue_depths_def Let_def stale_queues_def)
qed (simp_all add: discard_stale_queue_depths_def Let_def)

text \<open>
  C17. A restart keeps the evidence and drops the queue depths. When the file holds the
  document (every successful flush leaves it so), the next process starts with the same
  sinks, the same self-test and, for every agent, the same counters, times, reasons and
  rows, and a queue depth of 0: no work of the dead process is still reported as queued.
\<close>

theorem evidence_restart:
  assumes "no_legacy (es_doc s)" and "distinct (map fst (dc_sinks (es_doc s)))"
    and "distinct (map fst (dc_wakes (es_doc s)))" and "p \<noteq> []"
  shows "\<exists>s'. start_store env (Some p) (DiskJson (doc_to_json (es_doc s))) disk ls = Some s'
     \<and> map_of (dc_sinks (es_doc s')) = map_of (dc_sinks (es_doc s))
     \<and> dc_selftest (es_doc s') = dc_selftest (es_doc s)
     \<and> (\<forall>a. map_of (dc_wakes (es_doc s')) a
          = map_option (\<lambda>w. (canon_wake w)\<lparr>aw_queued := 0\<rparr>) (map_of (dc_wakes (es_doc s)) a))"
proof -
  let ?d = "canon (es_doc s)"
  let ?s0 = "\<lparr>es_path = Some p, es_doc = ?d, es_failed = False, es_reads = 0, es_writes = 0,
             es_disk = disk, es_log = ls\<rparr>"
  have st: "start_store env (Some p) (DiskJson (doc_to_json (es_doc s))) disk ls
      = Some (discard_stale_queue_depths env ?s0)"
    using assms(4) by (simp add: start_store_def load_doc_def doc_roundtrip[OF assms(1)])
  have q: "(if aw_queued w \<noteq> 0 then w\<lparr>aw_queued := 0\<rparr> else w) = w\<lparr>aw_queued := 0\<rparr>" for w :: agent_wake
    by simp
  have w: "map_of (dc_wakes (es_doc (discard_stale_queue_depths env ?s0))) a
          = map_option (\<lambda>w. (canon_wake w)\<lparr>aw_queued := 0\<rparr>) (map_of (dc_wakes (es_doc s)) a)" for a
    unfolding discard_wakes q map_of_map_snd
    by (simp add: canon_def map_of_map_snd map_of_sort[OF assms(3)] option.map_comp comp_def del: map_map)
  show ?thesis
    by (intro exI[of _ "discard_stale_queue_depths env ?s0"] conjI st)
      (use w in \<open>simp_all add: discard_wakes canon_def map_of_sort[OF assms(2)]\<close>)
qed

definition demo_busy_store :: store where
  "demo_busy_store = foldl (apply_ev demo_ev_env) demo_store
     [Accepted ''github'', WakeOk ''jt'' ''d1'' ''github'' False, QueueDepth ''jt'' 3]"

theorem evidence_restart_witness:
  "\<exists>s'. start_store demo_ev_env (Some ''/e'') (DiskJson (doc_to_json (es_doc demo_busy_store))) None [] = Some s'
     \<and> map_option aw_queued (map_of (dc_wakes (es_doc s')) ''jt'') = Some 0"
proof -
  have h: "no_legacy (es_doc demo_busy_store) \<and> distinct (map fst (dc_sinks (es_doc demo_busy_store)))
    \<and> distinct (map fst (dc_wakes (es_doc demo_busy_store)))
    \<and> map fst (dc_wakes (es_doc demo_busy_store)) = [''jt'']"
    by code_simp
  then have "map_of (dc_wakes (es_doc demo_busy_store)) ''jt'' \<noteq> None"
    by (metis list.set_intros(1) map_of_eq_None_iff set_map)
  with evidence_restart[of demo_busy_store "''/e''" demo_ev_env None "[]"] h show ?thesis
    by (force simp: option.map_comp)
qed

subsection \<open>The migration\<close>

text \<open>
  The migration of a pre-#218 row invents nothing. After it no row files a dedup as
  its last refusal, a second pass changes nothing, successes and failures are untouched,
  refusals never grow, and a row that counted the refusal keeps \<open>refused + deduped\<close>.
\<close>

theorem evidence_migration:
  "rw_last_refused_reason (reclassify_route w) \<noteq> Some duplicate_delivery
   \<and> reclassify_route (reclassify_route w) = reclassify_route w
   \<and> rw_ok (reclassify_route w) = rw_ok w \<and> rw_failed (reclassify_route w) = rw_failed w
   \<and> (rw_refused w < 0 \<or> rw_refused (reclassify_route w) \<le> rw_refused w)
   \<and> (rw_refused w < 1
      \<or> rw_refused (reclassify_route w) + rw_deduped (reclassify_route w) = rw_refused w + rw_deduped w)
   \<and> aw_last_refused_reason (reclassify_agent v) \<noteq> Some duplicate_delivery
   \<and> reclassify_agent (reclassify_agent v) = reclassify_agent v
   \<and> (aw_refused v < 1
      \<or> aw_refused (reclassify_agent v) + aw_deduped (reclassify_agent v) = aw_refused v + aw_deduped v)"
  by (auto simp: reclassify_route_def reclassify_agent_def)

end
