(* ===== verification/RouteBase.thy ===== *)
theory RouteBase
  imports Models Logfmt
begin

text \<open>
  \<open>routes/base.py\<close> and \<open>routes/registry.py\<close>: the inbound request, the HMAC check, the two
  shared parsers, the accounting line, the contract a route implements and the registry
  of routes. The HMAC digest, the JSON decoder and \<open>datetime.fromisoformat\<close> are
  parameters. A route is a record of functions over a state of its own (the ledgers of
  the github route), so the core can be written against any route.
\<close>

subsection \<open>Requests\<close>

record inbound_request =
  rq_headers :: "(string \<times> string) list"
  rq_body :: string

fun header_in :: "(string \<times> string) list \<Rightarrow> string \<Rightarrow> string option" where
  "header_in [] target = None"
| "header_in ((k, v) # hs) target = (if py_lower k = target then Some v else header_in hs target)"

definition header :: "inbound_request \<Rightarrow> string \<Rightarrow> string option" where
  "header rq name = header_in (rq_headers rq) (py_lower name)"

subsection \<open>The signature\<close>

definition hmac_prefix :: string where "hmac_prefix = ''sha256=''"

text \<open>A \<open>SignatureError\<close> is \<open>Some\<close> of its message.\<close>

definition verify_hmac_sha256 ::
  "(string \<Rightarrow> string \<Rightarrow> string) \<Rightarrow> inbound_request \<Rightarrow> string option \<Rightarrow> string \<Rightarrow> string option" where
  "verify_hmac_sha256 hexdigest rq secret hdr =
     (case secret of
        None \<Rightarrow> Some (''no signing key is configured to verify '' @ hdr)
      | Some key \<Rightarrow>
          (case header rq hdr of
             None \<Rightarrow> Some (''missing '' @ hdr @ '' header'')
           | Some provided \<Rightarrow>
               if \<not> starts_with hmac_prefix provided
               then Some (''malformed '' @ hdr @ '': expected 'sha256=<hexdigest>'' @ [CHR 0x27])
               else if provided \<noteq> hmac_prefix @ hexdigest key (rq_body rq)
                    then Some (hdr @ '' does not match the request body'')
                    else None))"

subsection \<open>Parsers\<close>

text \<open>A \<open>PayloadError\<close> is a message, another exception of the decoder is \<open>BodyRaised\<close>.\<close>

datatype 'a body_result = BodyOk 'a | BodyRejected string | BodyRaised string

definition parse_json_object :: "(string \<Rightarrow> loads_result) \<Rightarrow> string \<Rightarrow> (string \<times> json) list body_result" where
  "parse_json_object loads body =
     (case loads body of
        DecodeError e \<Rightarrow> BodyRejected (''body is not valid JSON: '' @ e)
      | LoadsRaised e \<Rightarrow> BodyRaised e
      | Loaded (JObj data) \<Rightarrow> BodyOk data
      | Loaded _ \<Rightarrow> BodyRejected ''webhook body must be a JSON object'')"

definition parse_timestamp :: "(string \<Rightarrow> iso_result) \<Rightarrow> json \<Rightarrow> int option" where
  "parse_timestamp fromiso v =
     (case v of
        JStr s \<Rightarrow>
          if s = [] then None
          else (case fromiso (if last s = CHR ''Z'' then butlast s @ ''+00:00'' else s) of
                  IsoAware t \<Rightarrow> Some t | _ \<Rightarrow> None)
      | _ \<Rightarrow> None)"

subsection \<open>The accounting line\<close>

datatype delivery_decision = DecWoke | DecIgnored | DecCoalesced | DecDropped

definition decision_value :: "delivery_decision \<Rightarrow> string" where
  "decision_value d = (case d of DecWoke \<Rightarrow> ''woke'' | DecIgnored \<Rightarrow> ''ignored''
     | DecCoalesced \<Rightarrow> ''coalesced'' | DecDropped \<Rightarrow> ''dropped'')"

definition or_else :: "string option \<Rightarrow> string \<Rightarrow> string" where
  "or_else s d = (case s of None \<Rightarrow> d | Some t \<Rightarrow> if t = [] then d else t)"

definition log_delivery_decision ::
  "string \<Rightarrow> string option \<Rightarrow> delivery_decision \<Rightarrow> string option \<Rightarrow> string option \<Rightarrow> fields \<Rightarrow> log_line" where
  "log_delivery_decision source etype dec rcp delivery detail =
     (Info, ''event=delivery_decision '' @ log_fields
       ([(''source'', VStr source), (''event_type'', VStr (or_else etype ''<none>'')),
         (''decision'', VStr (decision_value dec)), (''recipient'', VStr (or_else rcp ''<unknown>'')),
         (''delivery'', VStr (or_else delivery ''<unknown>''))] @ detail))"

subsection \<open>Routes\<close>

text \<open>
  How \<open>verify\<close> and \<open>normalize\<close> can end. \<open>NormRejected\<close> is a \<open>PayloadError\<close> or an
  \<open>UntrustedSenderError\<close>, the \<open>Raised\<close> constructors any other exception.
\<close>

datatype verify_result = Verified | BadSignature string | VerifyRaised string

datatype norm_result = NormEvent event | NormIgnored | NormRejected string | NormRaised string

record 'r route =
  rt_name :: string
  rt_kind :: string
  rt_synthetic :: bool
  rt_needs_secret :: bool
  rt_verify :: "inbound_request \<Rightarrow> string option \<Rightarrow> verify_result \<times> log_line list"
  rt_normalize :: "inbound_request \<Rightarrow> 'r \<Rightarrow> norm_result \<times> 'r \<times> log_line list"
  rt_recheck :: "(event \<Rightarrow> 'r \<Rightarrow> string + string option) option"
  rt_summary :: "string option option"
  rt_warm :: "('r \<Rightarrow> string option \<times> 'r \<times> log_line list) option"

text \<open>\<open>route_recheck\<close>: no recheck, a non-string or a blank reason all mean the wake stands.\<close>

definition route_recheck :: "'r route \<Rightarrow> event \<Rightarrow> 'r \<Rightarrow> string + string option" where
  "route_recheck rt ev st =
     (case rt_recheck rt of
        None \<Rightarrow> Inr None
      | Some f \<Rightarrow> (case f ev st of
          Inl e \<Rightarrow> Inl e
        | Inr None \<Rightarrow> Inr None
        | Inr (Some reason) \<Rightarrow> Inr (if nonblank reason then Some reason else None)))"

definition route_boot_summary :: "'r route \<Rightarrow> string option" where
  "route_boot_summary rt = (case rt_summary rt of
     None \<Rightarrow> None | Some None \<Rightarrow> None
   | Some (Some t) \<Rightarrow> if nonblank t then Some t else None)"

text \<open>\<open>route_warm\<close>: an exception of the warm-up is one line, and the daemon goes on.\<close>

definition route_warm :: "'r route \<Rightarrow> 'r \<Rightarrow> 'r \<times> log_line list" where
  "route_warm rt st =
     (case rt_warm rt of
        None \<Rightarrow> (st, [])
      | Some f \<Rightarrow> (case f st of
          (None, st, ls) \<Rightarrow> (st, ls)
        | (Some _, st, ls) \<Rightarrow>
            (st, ls @ [(Error, ''event=route_warm status=error '' @ log_fields [(''source'', VStr (rt_name rt))])])))"

text \<open>The registry, in registration order; an unknown name is an \<open>UnknownRouteError\<close>.\<close>

type_synonym 'r registry = "(string \<times> 'r route) list"

definition register_route :: "'r route \<Rightarrow> 'r registry \<Rightarrow> string + 'r registry" where
  "register_route rt reg =
     (if rt_name rt = [] then Inl ''route must declare a non-empty name''
      else if map_of reg (rt_name rt) \<noteq> None
           then Inl (''route '' @ py_repr (rt_name rt) @ '' is already registered'')
           else Inr (reg @ [(rt_name rt, rt)]))"

definition route_names :: "'r registry \<Rightarrow> string list" where
  "route_names reg = sort (map fst reg)"

definition sorted_routes :: "'r registry \<Rightarrow> 'r route list" where
  "sorted_routes reg = map (\<lambda>n. the (map_of reg n)) (route_names reg)"

definition get_route :: "'r registry \<Rightarrow> string \<Rightarrow> string + 'r route" where
  "get_route reg name =
     (case map_of reg name of
        Some rt \<Rightarrow> Inr rt
      | None \<Rightarrow> Inl (''no route registered for source '' @ py_repr name @ ''; known routes: ''
          @ (if reg = [] then ''(none)'' else py_join '', '' (route_names reg))))"

subsection \<open>Properties\<close>

lemma header_lower: "py_lower n = py_lower m \<Longrightarrow> header rq n = header rq m"
  by (simp add: header_def)

text \<open>
  A request passes the HMAC check exactly when a key is configured and the named
  header, read case-insensitively, is the prefix followed by the digest of the body under
  that key; an absent key never passes, whatever the request carries.
\<close>

theorem hmac_accepts_iff:
  "verify_hmac_sha256 hexdigest rq secret hdr = None \<longleftrightarrow>
     (\<exists>key. secret = Some key \<and> header rq hdr = Some (''sha256='' @ hexdigest key (rq_body rq)))"
  by (auto simp: verify_hmac_sha256_def hmac_prefix_def starts_with_def split: option.splits)

text \<open>
  The registry keeps distinct names, each on the route of that name.
\<close>

definition registry_distinct :: "'r registry \<Rightarrow> bool" where
  "registry_distinct reg \<longleftrightarrow> distinct (map fst reg) \<and> (\<forall>(n, rt)\<in>set reg. rt_name rt = n \<and> n \<noteq> [])"

lemma register_distinct:
  assumes "register_route rt reg = Inr reg'" and "registry_distinct reg"
  shows "registry_distinct reg' \<and> get_route reg' (rt_name rt) = Inr rt
     \<and> (\<forall>n r. get_route reg n = Inr r \<longrightarrow> get_route reg' n = Inr r)"
proof -
  have reg': "reg' = reg @ [(rt_name rt, rt)]" and new: "map_of reg (rt_name rt) = None" and ne: "rt_name rt \<noteq> []"
    using assms(1) by (auto simp: register_route_def split: if_splits)
  have "map_of reg' n = (case map_of reg n of None \<Rightarrow> map_of [(rt_name rt, rt)] n | Some r \<Rightarrow> Some r)" for n
    by (simp add: reg' map_add_def split: option.split)
  then have "get_route reg' (rt_name rt) = Inr rt" "get_route reg n = Inr r \<Longrightarrow> get_route reg' n = Inr r" for n r
    using new by (auto simp: get_route_def split: option.splits)
  moreover have "rt_name rt \<notin> fst ` set reg" using new by (simp add: map_of_eq_None_iff)
  ultimately show ?thesis using assms(2) ne by (auto simp: registry_distinct_def reg')
qed

end
