(* ===== verification/Github_Payload.thy ===== *)
theory Github_Payload
  imports RouteBase
begin

text \<open>
  \<open>routes/github.py\<close>, the readers of a payload: the fields a decision rests on, the
  issue references of a pull request's text (\<open>_ISSUE_REFERENCE\<close>) and the links of a
  listing (\<open>_NEXT_LINK\<close>). A payload is arbitrary JSON, so every reader is total over
  every shape of it.
\<close>

type_synonym json_obj = "(string \<times> json) list"

subsection \<open>Constants\<close>

definition issues_event :: string where "issues_event = ''issues''"
definition issue_comment_event :: string where "issue_comment_event = ''issue_comment''"
definition pull_request_event :: string where "pull_request_event = ''pull_request''"
definition workflow_run_event :: string where "workflow_run_event = ''workflow_run''"
definition handoff_label :: string where "handoff_label = ''handoff''"
definition do_not_work_label :: string where "do_not_work_label = ''Do Not Work''"
definition issue_closed :: string where "issue_closed = ''issue_closed''"
definition do_not_work :: string where "do_not_work = ''do_not_work''"
definition handoff_removed :: string where "handoff_removed = ''handoff_removed''"
definition state_actions :: "string list" where "state_actions = [''opened'', ''closed'', ''reopened'']"
definition label_actions :: "string list" where "label_actions = [''opened'', ''labeled'', ''unlabeled'']"
definition actionable_actions :: "string list" where "actionable_actions = [''opened'', ''labeled'']"
definition ledger_capacity :: nat where "ledger_capacity = 1024"
definition github_api :: string where "github_api = ''https://api.github.com''"

subsection \<open>Fields\<close>

text \<open>\<open>value in frozenset(...)\<close>: a list or a dictionary has no hash, a \<open>TypeError\<close>.\<close>

definition json_in :: "json \<Rightarrow> string list \<Rightarrow> string + bool" where
  "json_in v names =
     (case v of
        JStr s \<Rightarrow> Inr (s \<in> set names)
      | JList _ \<Rightarrow> Inl (''unhashable type: 'list'' @ [CHR 0x27])
      | JObj _ \<Rightarrow> Inl (''unhashable type: 'dict'' @ [CHR 0x27])
      | _ \<Rightarrow> Inr False)"

fun json_obj_of :: "json \<Rightarrow> json_obj option" where
  "json_obj_of (JObj d) = Some d"
| "json_obj_of _ = None"

text \<open>\<open>_is_int\<close>: a Python bool is no number.\<close>

fun json_int :: "json \<Rightarrow> int option" where
  "json_int (JInt i) = Some i"
| "json_int _ = None"

definition nonempty_str :: "json \<Rightarrow> string option" where
  "nonempty_str v = (case v of JStr s \<Rightarrow> if s = [] then None else Some s | _ \<Rightarrow> None)"

definition repo_full_name :: "json_obj \<Rightarrow> string option" where
  "repo_full_name data = (case jget data ''repository'' of
     JObj r \<Rightarrow> nonempty_str (jget r ''full_name'') | _ \<Rightarrow> None)"

definition author_login :: "json_obj \<Rightarrow> string \<Rightarrow> string option" where
  "author_login obj key = (case jget obj key of JObj u \<Rightarrow> nonempty_str (jget u ''login'') | _ \<Rightarrow> None)"

definition sender_login :: "json_obj \<Rightarrow> string option" where
  "sender_login data = author_login data ''sender''"

definition has_label :: "json_obj \<Rightarrow> string \<Rightarrow> bool" where
  "has_label issue name = (case jget issue ''labels'' of
     JList ls \<Rightarrow> list_ex (\<lambda>l. case l of JObj d \<Rightarrow> jget d ''name'' = JStr name | _ \<Rightarrow> False) ls
   | _ \<Rightarrow> False)"

definition is_handoff :: "string \<Rightarrow> json_obj \<Rightarrow> json_obj \<Rightarrow> bool" where
  "is_handoff action issue data =
     (if action = ''labeled''
      then (case jget data ''label'' of JObj d \<Rightarrow> jget d ''name'' = JStr handoff_label | _ \<Rightarrow> False)
      else has_label issue handoff_label)"

text \<open>\<open>_text\<close> and \<open>_int\<close>: the left is a \<open>PayloadError\<close>.\<close>

definition text_field :: "json_obj \<Rightarrow> string \<Rightarrow> string \<Rightarrow> string + string" where
  "text_field obj key label = (case jget obj key of JStr s \<Rightarrow> Inr s
     | _ \<Rightarrow> Inl (label @ '' must be a string''))"

definition int_field :: "json_obj \<Rightarrow> string \<Rightarrow> string \<Rightarrow> string + int" where
  "int_field obj key label = (case jget obj key of JInt i \<Rightarrow> Inr i
     | _ \<Rightarrow> Inl (label @ '' must be an integer''))"

definition require_issue :: "json_obj \<Rightarrow> string + json_obj" where
  "require_issue data = (case jget data ''issue'' of JObj i \<Rightarrow> Inr i
     | _ \<Rightarrow> Inl ''event payload is missing an 'issue' object'')"

text \<open>\<open>_issue_ref\<close>: a shape that makes no \<open>IssueRef\<close> makes \<open>None\<close>, never an error.\<close>

definition issue_ref_of :: "json_obj \<Rightarrow> json_obj \<Rightarrow> string \<Rightarrow> issue_ref option" where
  "issue_ref_of data issue url =
     (case (repo_full_name data, jget issue ''title'', jget issue ''number'') of
        (Some repo, JStr title, JInt number) \<Rightarrow>
          (case mk_issue_ref (Some repo) (Some number) (Some url) (Some title) of
             Inl _ \<Rightarrow> None | Inr r \<Rightarrow> Some r)
      | _ \<Rightarrow> None)"

subsection \<open>Issue references in a text\<close>

definition is_repo_char :: "char \<Rightarrow> bool" where
  "is_repo_char c = (is_word c \<or> c = CHR ''.'' \<or> c = CHR ''-'')"

definition strip_prefix :: "string \<Rightarrow> string \<Rightarrow> string option" where
  "strip_prefix p s = (if starts_with p s then Some (drop (length p) s) else None)"

text \<open>\<open>[\w.-]+/[\w.-]+\<close> and \<open>\d+\b\<close> at the head of a string: the match and the rest.\<close>

definition re_repo :: "string \<Rightarrow> (string \<times> string) option" where
  "re_repo s =
     (let owner = takeWhile is_repo_char s; rest = dropWhile is_repo_char s in
      case rest of
        [] \<Rightarrow> None
      | c # rest \<Rightarrow>
          (let name = takeWhile is_repo_char rest in
           if owner = [] \<or> c \<noteq> CHR 0x2F \<or> name = [] then None
           else Some (owner @ CHR 0x2F # name, dropWhile is_repo_char rest)))"

definition re_number :: "string \<Rightarrow> (string \<times> string) option" where
  "re_number s =
     (let ds = takeWhile is_digit s; rest = dropWhile is_digit s in
      if ds = [] \<or> (rest \<noteq> [] \<and> is_word (hd rest)) then None else Some (ds, rest))"

text \<open>
  One match of \<open>_ISSUE_REFERENCE\<close> at the head of a string, the character before it given:
  the repository it names, its digits, and the rest. Neither class can match the character
  that must follow it, so the greedy run is the only one and no backtracking remains.
\<close>

definition ref_short :: "char option \<Rightarrow> string \<Rightarrow> (string option \<times> string \<times> string) option" where
  "ref_short prev s =
     (if (case prev of None \<Rightarrow> False | Some c \<Rightarrow> is_repo_char c \<or> c = CHR 0x2F) then None
      else (let (repo, t) = (case re_repo s of None \<Rightarrow> (None, s) | Some (r, t) \<Rightarrow> (Some r, t)) in
        case strip_prefix ''#'' t of
          None \<Rightarrow> None
        | Some t \<Rightarrow> map_option (\<lambda>(ds, rest). (repo, ds, rest)) (re_number t)))"

definition ref_url_form :: "string \<Rightarrow> (string option \<times> string \<times> string) option" where
  "ref_url_form s =
     (case strip_prefix ''github.com/'' s of
        None \<Rightarrow> None
      | Some t \<Rightarrow>
          (case re_repo t of
             None \<Rightarrow> None
           | Some (r, t) \<Rightarrow>
               (case strip_prefix ''/issues/'' t of
                  None \<Rightarrow> None
                | Some t \<Rightarrow> map_option (\<lambda>(ds, rest). (Some r, ds, rest)) (re_number t))))"

definition ref_match :: "char option \<Rightarrow> string \<Rightarrow> (string option \<times> string \<times> string) option" where
  "ref_match prev s = (case ref_short prev s of None \<Rightarrow> ref_url_form s | m \<Rightarrow> m)"

lemma strip_prefix_length: "strip_prefix p s = Some t \<Longrightarrow> length t \<le> length s"
  by (auto simp: strip_prefix_def split: if_splits)

lemma re_number_length: "re_number s = Some (ds, rest) \<Longrightarrow> length rest < length s \<and> ds \<noteq> []"
proof -
  assume "re_number s = Some (ds, rest)"
  then have "takeWhile is_digit s = ds" "dropWhile is_digit s = rest" "ds \<noteq> []"
    by (auto simp: re_number_def Let_def split: if_splits)
  moreover have "length s = length (takeWhile is_digit s) + length (dropWhile is_digit s)"
    by (metis length_append takeWhile_dropWhile_id)
  ultimately show ?thesis by (cases ds) auto
qed

lemma re_repo_length: "re_repo s = Some (r, t) \<Longrightarrow> length t \<le> length s"
  by (auto simp: re_repo_def Let_def split: list.splits if_splits)
    (metis length_Cons length_dropWhile_le le_SucI order_trans)

lemma ref_match_length: "ref_match prev s = Some (w, ds, rest) \<Longrightarrow> length rest < length s"
  by (fastforce simp: ref_match_def ref_short_def ref_url_form_def case_prod_unfold
      dest: re_number_length re_repo_length strip_prefix_length split: option.splits if_splits)

text \<open>\<open>finditer\<close>: leftmost first, the search resumed at the end of a match.\<close>

function ref_scan :: "char option \<Rightarrow> string \<Rightarrow> (string option \<times> string) list" where
  "ref_scan prev [] = []"
| "ref_scan prev (c # cs) =
     (case ref_match prev (c # cs) of
        Some (w, ds, rest) \<Rightarrow> (w, ds) # ref_scan (Some (last ds)) rest
      | None \<Rightarrow> ref_scan (Some c) cs)"
  by pat_completeness auto
termination
  by (relation "measure (length \<circ> snd)") (auto dest: ref_match_length)

text \<open>\<open>int(digits)\<close>: the interpreter refuses more than 4300 digits with a \<open>ValueError\<close>.\<close>

definition int_of_digits :: "string \<Rightarrow> string + int" where
  "int_of_digits ds =
     (if length ds > 4300
      then Inl (''Exceeds the limit (4300 digits) for integer string conversion: value has ''
        @ str_int (int (length ds)) @ '' digits; use sys.set_int_max_str_digits() to increase the limit'')
      else Inr (foldl (\<lambda>n c. 10 * n + (int (code_of c) - 48)) 0 ds))"

fun collect_named :: "string \<Rightarrow> (string option \<times> string) list \<Rightarrow> string + int list" where
  "collect_named repo [] = Inr []"
| "collect_named repo ((w, ds) # ms) =
     (if (case w of None \<Rightarrow> True | Some r \<Rightarrow> py_lower r = py_lower repo)
      then (case int_of_digits ds of
              Inl e \<Rightarrow> Inl e
            | Inr n \<Rightarrow> (case collect_named repo ms of Inl e \<Rightarrow> Inl e | Inr ns \<Rightarrow> Inr (n # ns)))
      else collect_named repo ms)"

definition named_issues :: "json_obj \<Rightarrow> string \<Rightarrow> string + int list" where
  "named_issues pull repo =
     (let texts = concat (map (\<lambda>v. case v of JStr s \<Rightarrow> [s] | _ \<Rightarrow> []) [jget pull ''title'', jget pull ''body''])
      in collect_named repo (ref_scan None (py_join '' '' texts)))"

subsection \<open>A run's pull requests, and the issue a merge is about\<close>

definition run_pull_number :: "string \<Rightarrow> json \<Rightarrow> int list" where
  "run_pull_number here pull =
     (case pull of
        JObj p \<Rightarrow>
          (case (json_int (jget p ''number''),
                 Option.bind (json_obj_of (jget p ''base'')) (\<lambda>b.
                 Option.bind (json_obj_of (jget b ''repo'')) (\<lambda>r. json_str (jget r ''url'')))) of
             (Some n, Some url) \<Rightarrow> if py_lower url = here then [n] else []
           | _ \<Rightarrow> [])
      | _ \<Rightarrow> [])"

definition run_pull_numbers :: "json_obj \<Rightarrow> string \<Rightarrow> int list" where
  "run_pull_numbers run repo =
     (case jget run ''pull_requests'' of
        JList pulls \<Rightarrow> concat (map (run_pull_number (py_lower (github_api @ ''/repos/'' @ repo))) pulls)
      | _ \<Rightarrow> [])"

definition merge_target :: "issue_ref list \<Rightarrow> int list \<Rightarrow> string + issue_ref" where
  "merge_target candidates named =
     (case (if named = [] then candidates else filter (\<lambda>r. ref_number r \<in> set named) candidates) of
        [] \<Rightarrow> Inl ''no_open_handoff''
      | [r] \<Rightarrow> Inr r
      | _ \<Rightarrow> Inl ''ambiguous_handoff'')"

subsection \<open>Listings\<close>

definition issue_repo :: "json_obj \<Rightarrow> string \<Rightarrow> string" where
  "issue_repo issue registered =
     (case jget issue ''repository_url'' of
        JStr url \<Rightarrow>
          (case strip_prefix (github_api @ ''/repos/'') url of
             Some name \<Rightarrow> if py_lower name = py_lower registered then name else registered
           | None \<Rightarrow> registered)
      | _ \<Rightarrow> registered)"

text \<open>\<open>_NEXT_LINK\<close>: the first \<open><url>; rel="next"\<close>.\<close>

fun next_link :: "string \<Rightarrow> string option" where
  "next_link [] = None"
| "next_link (c # cs) =
     (let url = takeWhile (\<lambda>x. x \<noteq> CHR 0x3E) cs;
          rest = strip_prefix [CHR 0x3E, CHR 0x3B] (dropWhile (\<lambda>x. x \<noteq> CHR 0x3E) cs);
          rest = Option.bind rest (\<lambda>t. strip_prefix (''rel='' @ [CHR 0x22] @ ''next'' @ [CHR 0x22]) (py_lstrip t))
      in if c = CHR 0x3C \<and> url \<noteq> [] \<and> rest \<noteq> None then Some url else next_link cs)"

definition next_page :: "string option \<Rightarrow> string + string option" where
  "next_page link =
     (case next_link (case link of None \<Rightarrow> [] | Some l \<Rightarrow> l) of
        None \<Rightarrow> Inr None
      | Some url \<Rightarrow> if starts_with (github_api @ ''/'') url then Inr (Some url)
                    else Inl (''refusing a pagination link off '' @ github_api @ '': '' @ url))"

subsection \<open>Lemmas\<close>

lemma nonempty_str_Some: "nonempty_str v = Some s \<longleftrightarrow> v = JStr s \<and> s \<noteq> []"
  by (auto simp: nonempty_str_def split: json.splits if_splits)

lemma issue_ref_of_url: "issue_ref_of data issue url = Some r \<Longrightarrow> ref_url r = url"
  by (auto simp: issue_ref_of_def dest!: mk_issue_ref_Inr split: option.splits json.splits sum.splits)

lemma merge_target_Inr:
  "merge_target cs named = Inr r \<Longrightarrow> r \<in> set cs \<and> (named \<noteq> [] \<longrightarrow> ref_number r \<in> set named)"
proof -
  assume m: "merge_target cs named = Inr r"
  let ?xs = "if named = [] then cs else filter (\<lambda>r. ref_number r \<in> set named) cs"
  have "?xs = [r]" using m by (auto simp: merge_target_def split: list.splits)
  then have "r \<in> set ?xs" by simp
  then show ?thesis by (auto split: if_splits)
qed

lemma next_page_api: "next_page link = Inr (Some url) \<Longrightarrow> starts_with (github_api @ ''/'') url"
  by (auto simp: next_page_def split: option.splits if_splits)

end
