(* ===== verification/Github_Ledger.thy ===== *)
theory Github_Ledger
  imports Github_Payload
begin

text \<open>
  \<open>routes/github.py\<close>, the two ledgers: the newest reported state of each handoff issue
  and of each pull request, ordered by the payload's own \<open>updated_at\<close>, each an LRU. Both
  are instances of the stamped-ledger contract. An observation that raises (an
  unhashable action, a reference with too many digits) raises before the ledger changes.
\<close>

subsection \<open>Issues\<close>

record issue_state =
  is_updated_at :: int
  is_open :: bool
  is_labels :: "string list"
  is_state_first_hand :: bool
  is_labels_first_hand :: bool
  is_ref :: "issue_ref option"

record issue_ledger =
  il_capacity :: nat
  il_issues :: "(string \<times> issue_state) list"

definition mk_issue_ledger :: "int \<Rightarrow> string + issue_ledger" where
  "mk_issue_ledger capacity =
     (if capacity < 1 then Inl (''capacity must be >= 1, got '' @ str_int capacity)
      else Inr \<lparr>il_capacity = nat capacity, il_issues = []\<rparr>)"

definition settle_tie :: "issue_state \<Rightarrow> issue_state \<Rightarrow> issue_state" where
  "settle_tie known report =
     (let keep_state = is_state_first_hand known \<and> \<not> is_state_first_hand report;
          keep_labels = is_labels_first_hand known \<and> \<not> is_labels_first_hand report
      in \<lparr>is_updated_at = is_updated_at report,
          is_open = (if keep_state then is_open known else is_open report),
          is_labels = (if keep_labels then is_labels known else is_labels report),
          is_state_first_hand = (is_state_first_hand known \<or> is_state_first_hand report),
          is_labels_first_hand = (is_labels_first_hand known \<or> is_labels_first_hand report),
          is_ref = (case is_ref report of None \<Rightarrow> is_ref known | r \<Rightarrow> r)\<rparr>)"

text \<open>The report a payload makes, with its key; \<open>None\<close> for a payload that makes none.\<close>

definition issue_report ::
  "(string \<Rightarrow> iso_result) \<Rightarrow> json_obj \<Rightarrow> string \<Rightarrow> string + (string \<times> issue_state) option" where
  "issue_report fromiso data etype =
     (case jget data ''issue'' of
        JObj issue \<Rightarrow>
          (if jget issue ''pull_request'' \<noteq> JNull then Inr None
           else (case (nonempty_str (jget issue ''html_url''), jget issue ''labels'',
                       parse_timestamp fromiso (jget issue ''updated_at'')) of
                   (Some url, JList labels, Some updated_at) \<Rightarrow>
                     (if jget issue ''state'' \<notin> {JStr ''open'', JStr ''closed''} then Inr None
                      else (let names = remdups (concat (map (\<lambda>l. case l of
                                  JObj d \<Rightarrow> (case jget d ''name'' of JStr s \<Rightarrow> [s] | _ \<Rightarrow> []) | _ \<Rightarrow> []) labels));
                                action = (if etype = issues_event then jget data ''action'' else JNull)
                            in case (json_in action state_actions, json_in action label_actions) of
                                 (Inr sf, Inr lf) \<Rightarrow> Inr (Some (url,
                                   \<lparr>is_updated_at = updated_at, is_open = (jget issue ''state'' = JStr ''open''),
                                    is_labels = names, is_state_first_hand = sf, is_labels_first_hand = lf,
                                    is_ref = issue_ref_of data issue url\<rparr>))
                               | (Inl e, _) \<Rightarrow> Inl e
                               | (_, Inl e) \<Rightarrow> Inl e))
                 | _ \<Rightarrow> Inr None))
      | _ \<Rightarrow> Inr None)"

definition issue_record :: "string \<times> issue_state \<Rightarrow> issue_ledger \<Rightarrow> issue_ledger" where
  "issue_record rep led =
     (let (url, report) = rep in
      case map_of (il_issues led) url of
        None \<Rightarrow>
          (if handoff_label \<notin> set (is_labels report) then led
           else led\<lparr>il_issues := od_store (il_capacity led) url report (il_issues led)\<rparr>)
      | Some known \<Rightarrow>
          (if is_updated_at report < is_updated_at known then led
           else led\<lparr>il_issues := od_store (il_capacity led) url
                  (if is_updated_at report = is_updated_at known then settle_tie known report else report)
                  (il_issues led)\<rparr>))"

definition observe_issue ::
  "(string \<Rightarrow> iso_result) \<Rightarrow> json_obj \<Rightarrow> string \<Rightarrow> issue_ledger \<Rightarrow> string + issue_ledger" where
  "observe_issue fromiso data etype led =
     (case issue_report fromiso data etype of
        Inl e \<Rightarrow> Inl e
      | Inr None \<Rightarrow> Inr led
      | Inr (Some rep) \<Rightarrow> Inr (issue_record rep led))"

definition reason_to_drop :: "string \<Rightarrow> issue_ledger \<Rightarrow> string option" where
  "reason_to_drop url led =
     (case map_of (il_issues led) url of
        None \<Rightarrow> None
      | Some known \<Rightarrow>
          if \<not> is_open known then Some issue_closed
          else if do_not_work_label \<in> set (is_labels known) then Some do_not_work
          else if handoff_label \<notin> set (is_labels known) then Some handoff_removed
          else None)"

definition open_handoffs :: "string \<Rightarrow> issue_ledger \<Rightarrow> issue_ref list" where
  "open_handoffs repo led =
     concat (map (\<lambda>(_, s). case is_ref s of
         None \<Rightarrow> []
       | Some r \<Rightarrow> if py_lower (ref_repo r) = py_lower repo \<and> is_open s \<and> handoff_label \<in> set (is_labels s)
                   then [r] else []) (il_issues led))"

subsection \<open>Pull requests\<close>

record pull_state =
  ps_updated_at :: int
  ps_open :: bool
  ps_author :: string
  ps_number :: int
  ps_url :: string
  ps_named :: "int list"

record pull_ledger =
  pl_capacity :: nat
  pl_pulls :: "((string \<times> int) \<times> pull_state) list"

definition mk_pull_ledger :: "int \<Rightarrow> string + pull_ledger" where
  "mk_pull_ledger capacity =
     (if capacity < 1 then Inl (''capacity must be >= 1, got '' @ str_int capacity)
      else Inr \<lparr>pl_capacity = nat capacity, pl_pulls = []\<rparr>)"

definition pull_report ::
  "(string \<Rightarrow> iso_result) \<Rightarrow> string \<Rightarrow> json \<Rightarrow> string + ((string \<times> int) \<times> pull_state) option" where
  "pull_report fromiso repo pull =
     (case pull of
        JObj p \<Rightarrow>
          (case (json_int (jget p ''number''), nonempty_str (jget p ''html_url''), author_login p ''user'',
                 parse_timestamp fromiso (jget p ''updated_at'')) of
             (Some number, Some url, Some login, Some updated_at) \<Rightarrow>
               (if jget p ''state'' \<notin> {JStr ''open'', JStr ''closed''} then Inr None
                else (case named_issues p repo of
                        Inl e \<Rightarrow> Inl e
                      | Inr named \<Rightarrow> Inr (Some ((py_lower repo, number),
                          \<lparr>ps_updated_at = updated_at, ps_open = (jget p ''state'' = JStr ''open''),
                           ps_author = login, ps_number = number, ps_url = url, ps_named = named\<rparr>))))
           | _ \<Rightarrow> Inr None)
      | _ \<Rightarrow> Inr None)"

definition pull_record :: "(string \<times> int) \<times> pull_state \<Rightarrow> pull_ledger \<Rightarrow> pull_ledger" where
  "pull_record rep led =
     (let (key, report) = rep in
      case map_of (pl_pulls led) key of
        Some known \<Rightarrow>
          (if ps_updated_at report < ps_updated_at known
              \<or> (ps_updated_at report = ps_updated_at known \<and> \<not> ps_open known \<and> ps_open report)
           then led
           else led\<lparr>pl_pulls := od_store (pl_capacity led) key report (pl_pulls led)\<rparr>)
      | None \<Rightarrow> led\<lparr>pl_pulls := od_store (pl_capacity led) key report (pl_pulls led)\<rparr>)"

definition observe_pull ::
  "(string \<Rightarrow> iso_result) \<Rightarrow> string \<Rightarrow> json \<Rightarrow> pull_ledger \<Rightarrow> string + pull_ledger" where
  "observe_pull fromiso repo pull led =
     (case pull_report fromiso repo pull of
        Inl e \<Rightarrow> Inl e
      | Inr None \<Rightarrow> Inr led
      | Inr (Some rep) \<Rightarrow> Inr (pull_record rep led))"

definition get_pull :: "string \<Rightarrow> int \<Rightarrow> pull_ledger \<Rightarrow> pull_state option" where
  "get_pull repo number led = map_of (pl_pulls led) (py_lower repo, number)"

subsection \<open>The ledger contract\<close>

lemma settle_tie_stamp [simp]: "is_updated_at (settle_tie known report) = is_updated_at report"
  by (simp add: settle_tie_def Let_def)

interpretation il: stamped_ledger il_issues il_capacity issue_record is_updated_at
proof (unfold_locales, goal_cases)
  case (1 r s)
  show ?case by (auto simp: issue_record_def case_prod_unfold split: option.split)
next
  case (2 r s)
  obtain url report where r: "r = (url, report)" by (cases r)
  show ?case
  proof (cases "il_issues (issue_record r s) = il_issues s")
    case False
    then obtain v where "il_issues (issue_record r s) = od_store (il_capacity s) url v (il_issues s)"
      "\<forall>u. map_of (il_issues s) url = Some u \<longrightarrow> is_updated_at u \<le> is_updated_at v"
      by (auto simp: r issue_record_def split: option.splits if_splits)
    then show ?thesis by blast
  qed simp
qed

interpretation pl: stamped_ledger pl_pulls pl_capacity pull_record ps_updated_at
proof (unfold_locales, goal_cases)
  case (1 r s)
  show ?case by (auto simp: pull_record_def case_prod_unfold split: option.split)
next
  case (2 r s)
  obtain key report where r: "r = (key, report)" by (cases r)
  show ?case
  proof (cases "pl_pulls (pull_record r s) = pl_pulls s")
    case False
    then have "pl_pulls (pull_record r s) = od_store (pl_capacity s) key report (pl_pulls s)"
      "\<forall>u. map_of (pl_pulls s) key = Some u \<longrightarrow> ps_updated_at u \<le> ps_updated_at report"
      by (auto simp: r pull_record_def split: option.splits if_splits)
    then show ?thesis by blast
  qed simp
qed

end
