(* ===== verification/Github_Warm.thy ===== *)
theory Github_Warm
  imports Github
begin

text \<open>
  \<open>routes/github.py\<close>, the warm-up at startup: the paged reading of a listing and the two
  passes that fill the ledgers. The transport (\<open>urlopen\<close> with the JSON decoder) and the
  rendering \<open>:g\<close> of a float are parameters, the clock is a sequence of readings with the
  index of the next one threaded through.
\<close>

subsection \<open>Reading a listing\<close>

datatype read_exn = HttpFailed int | UrlFailed string | ReadRaised string string

definition describe_failure :: "read_exn \<Rightarrow> string" where
  "describe_failure e = (case e of HttpFailed code \<Rightarrow> ''HTTP '' @ str_int code
     | UrlFailed reason \<Rightarrow> ''unreachable: '' @ reason | ReadRaised ty msg \<Rightarrow> ty @ '': '' @ msg)"

definition warm_max_pages :: nat where "warm_max_pages = 10"

text \<open>\<open>urllib.parse.quote(s, safe='/')\<close>: the unreserved characters stay, the rest as UTF-8.\<close>

definition hex_upper :: "nat \<Rightarrow> char" where
  "hex_upper n = (if n < 10 then char_of (48 + n) else char_of (55 + n))"

definition quote_byte :: "nat \<Rightarrow> string" where
  "quote_byte n = [CHR ''%'', hex_upper (n div 16), hex_upper (n mod 16)]"

definition quote_char :: "char \<Rightarrow> string" where
  "quote_char c = (let n = code_of c in
     if is_alnum_ascii c \<or> c \<in> {CHR ''_'', CHR ''.'', CHR ''-'', CHR ''~'', CHR 0x2F} then [c]
     else if n < 128 then quote_byte n
     else quote_byte (192 + n div 64) @ quote_byte (128 + n mod 64))"

definition url_quote :: "string \<Rightarrow> string" where
  "url_quote s = concat (map quote_char s)"

type_synonym transport = "string \<Rightarrow> rat \<Rightarrow> read_exn + json \<times> string option"

definition dict_items :: "json list \<Rightarrow> json_obj list" where
  "dict_items page = concat (map (\<lambda>v. case v of JObj d \<Rightarrow> [d] | _ \<Rightarrow> []) page)"

text \<open>The result of a reading and the index of the next clock reading.\<close>

fun read_pages ::
  "transport \<Rightarrow> (rat \<Rightarrow> string) \<Rightarrow> (nat \<Rightarrow> rat) \<Rightarrow> string \<Rightarrow> rat \<Rightarrow> rat \<Rightarrow> nat \<Rightarrow> string \<Rightarrow> nat
    \<Rightarrow> (read_exn + json_obj list) \<times> nat" where
  "read_pages urlopen fmt_g clk what timeout deadline 0 url n =
     (Inl (ReadRaised ''ValueError'' (''more than '' @ str_int (int warm_max_pages) @ '' pages of '' @ what)), n)"
| "read_pages urlopen fmt_g clk what timeout deadline (Suc k) url n =
     (let remaining = deadline - clk n in
      if remaining \<le> 0
      then (Inl (ReadRaised ''TimeoutError'' (''no time left of the '' @ fmt_g timeout @ ''s budget'')), Suc n)
      else (case urlopen url remaining of
              Inl e \<Rightarrow> (Inl e, Suc n)
            | Inr (JList page, link) \<Rightarrow>
                (case next_page link of
                   Inl e \<Rightarrow> (Inl (ReadRaised ''ValueError'' e), Suc n)
                 | Inr None \<Rightarrow> (Inr (dict_items page), Suc n)
                 | Inr (Some url2) \<Rightarrow>
                     (case read_pages urlopen fmt_g clk what timeout deadline k url2 (Suc n) of
                        (Inl e, n) \<Rightarrow> (Inl e, n)
                      | (Inr tail, n) \<Rightarrow> (Inr (dict_items page @ tail), n)))
            | Inr (_, link) \<Rightarrow>
                (Inl (ReadRaised ''ValueError'' (''the listing of '' @ what @ '' is not a JSON array'')), Suc n)))"

definition read_listing ::
  "transport \<Rightarrow> (rat \<Rightarrow> string) \<Rightarrow> (nat \<Rightarrow> rat) \<Rightarrow> string \<Rightarrow> string \<Rightarrow> string \<Rightarrow> rat \<Rightarrow> nat
    \<Rightarrow> (read_exn + json_obj list) \<times> nat" where
  "read_listing urlopen fmt_g clk repo path what timeout n =
     read_pages urlopen fmt_g clk what timeout (clk n + timeout) warm_max_pages
       (github_api @ ''/repos/'' @ url_quote repo @ ''/'' @ path) (Suc n)"

definition read_open_handoffs ::
  "transport \<Rightarrow> (rat \<Rightarrow> string) \<Rightarrow> (nat \<Rightarrow> rat) \<Rightarrow> string \<Rightarrow> rat \<Rightarrow> nat \<Rightarrow> (read_exn + json_obj list) \<times> nat" where
  "read_open_handoffs urlopen fmt_g clk repo =
     read_listing urlopen fmt_g clk repo ''issues?state=open&labels=handoff&per_page=100'' ''open handoff issues''"

definition read_open_pulls ::
  "transport \<Rightarrow> (rat \<Rightarrow> string) \<Rightarrow> (nat \<Rightarrow> rat) \<Rightarrow> string \<Rightarrow> rat \<Rightarrow> nat \<Rightarrow> (read_exn + json_obj list) \<times> nat" where
  "read_open_pulls urlopen fmt_g clk repo =
     read_listing urlopen fmt_g clk repo ''pulls?state=open&per_page=100'' ''open pull requests''"

subsection \<open>The two passes\<close>

type_synonym reader = "string \<Rightarrow> rat \<Rightarrow> nat \<Rightarrow> (read_exn + json_obj list) \<times> nat"

record warm_env =
  wm_clock :: "nat \<Rightarrow> rat"
  wm_issues :: reader
  wm_pulls :: reader
  wm_deadline :: rat
  wm_fmt_g :: "rat \<Rightarrow> string"

definition warm_deadline :: rat where "warm_deadline = 3"
definition warm_up :: string where "warm_up = ''warm_up''"

definition log_cold :: "string \<Rightarrow> string \<Rightarrow> string option \<Rightarrow> log_line" where
  "log_cold repo reason listing = (Warning, ''event=ledger_warm_failed '' @ log_fields
     [(''repo'', VStr repo), (''listing'', opt_str listing), (''reason'', VStr reason)])"

definition warm_read ::
  "warm_env \<Rightarrow> reader \<Rightarrow> string \<Rightarrow> rat \<Rightarrow> string option \<Rightarrow> nat \<Rightarrow> json_obj list option \<times> log_line list \<times> nat" where
  "warm_read env rd repo deadline listing n =
     (let budget = deadline - wm_clock env n in
      if budget \<le> 0
      then (None, [log_cold repo (''no time left of the '' @ wm_fmt_g env (wm_deadline env) @ ''s warm-up'') listing], Suc n)
      else (case rd repo budget (Suc n) of
              (Inl e, n) \<Rightarrow> (None, [log_cold repo (describe_failure e) listing], n)
            | (Inr items, n) \<Rightarrow> (Some items, [], n)))"

text \<open>\<open>Some e\<close> is an exception that leaves the warm-up; what was observed before it stays.\<close>

fun warm_issues ::
  "github_config \<Rightarrow> string \<Rightarrow> json_obj list \<Rightarrow> github_state \<Rightarrow> string option \<times> github_state" where
  "warm_issues cfg repo [] st = (None, st)"
| "warm_issues cfg repo (issue # rest) st =
     (case observe_issue (gh_iso cfg)
             [(''issue'', JObj issue), (''repository'', JObj [(''full_name'', JStr (issue_repo issue repo))])]
             warm_up (gs_issues st) of
        Inl e \<Rightarrow> (Some e, st)
      | Inr led \<Rightarrow> warm_issues cfg repo rest (st\<lparr>gs_issues := led\<rparr>))"

fun warm_pulls ::
  "github_config \<Rightarrow> string \<Rightarrow> json_obj list \<Rightarrow> github_state \<Rightarrow> string option \<times> github_state" where
  "warm_pulls cfg repo [] st = (None, st)"
| "warm_pulls cfg repo (pull # rest) st =
     (case observe_pull (gh_iso cfg) repo (JObj pull) (gs_pulls st) of
        Inl e \<Rightarrow> (Some e, st)
      | Inr led \<Rightarrow> warm_pulls cfg repo rest (st\<lparr>gs_pulls := led\<rparr>))"

type_synonym warm_state = "github_state \<times> log_line list \<times> nat"

fun warm_handoff_repos ::
  "github_config \<Rightarrow> warm_env \<Rightarrow> rat \<Rightarrow> string list \<Rightarrow> warm_state \<Rightarrow> string option \<times> warm_state" where
  "warm_handoff_repos cfg env deadline [] ws = (None, ws)"
| "warm_handoff_repos cfg env deadline (repo # rest) (st, ls, n) =
     (case warm_read env (wm_issues env) repo deadline None n of
        (None, l, n) \<Rightarrow> warm_handoff_repos cfg env deadline rest (st, ls @ l, n)
      | (Some issues, l, n) \<Rightarrow>
          (case warm_issues cfg repo issues st of
             (Some e, st) \<Rightarrow> (Some e, (st, ls @ l, n))
           | (None, st) \<Rightarrow> warm_handoff_repos cfg env deadline rest
               (st, ls @ l @ [(Info, ''event=ledger_warm '' @ log_fields [(''repo'', VStr repo),
                  (''open_handoffs'', VInt (int (length (open_handoffs repo (gs_issues st)))))])], n)))"

definition warm_recorded :: "string \<Rightarrow> json_obj list \<Rightarrow> pull_ledger \<Rightarrow> pull_state list" where
  "warm_recorded repo pulls led = concat (map (\<lambda>p. case json_int (jget p ''number'') of
     None \<Rightarrow> [] | Some n \<Rightarrow> (case get_pull repo n led of None \<Rightarrow> [] | Some s \<Rightarrow> [s])) pulls)"

fun warm_pull_repos ::
  "github_config \<Rightarrow> warm_env \<Rightarrow> rat \<Rightarrow> string list \<Rightarrow> warm_state \<Rightarrow> string option \<times> warm_state" where
  "warm_pull_repos cfg env deadline [] ws = (None, ws)"
| "warm_pull_repos cfg env deadline (repo # rest) (st, ls, n) =
     (if open_handoffs repo (gs_issues st) = [] then warm_pull_repos cfg env deadline rest (st, ls, n)
      else (case warm_read env (wm_pulls env) repo deadline (Some ''pulls'') n of
        (None, l, n) \<Rightarrow> warm_pull_repos cfg env deadline rest (st, ls @ l, n)
      | (Some pulls, l, n) \<Rightarrow>
          (case warm_pulls cfg repo pulls st of
             (Some e, st) \<Rightarrow> (Some e, (st, ls @ l, n))
           | (None, st) \<Rightarrow>
               (let recorded = warm_recorded repo pulls (gs_pulls st);
                    own = length (filter (\<lambda>s. is_captain_bot cfg repo (ps_author s)) recorded)
                in warm_pull_repos cfg env deadline rest
                  (st, ls @ l @ [(Info, ''event=pull_ledger_warm '' @ log_fields [(''repo'', VStr repo),
                     (''open_pull_requests'', VInt (int (length recorded))),
                     (''captain_pull_requests'', VInt (int own))])], n)))))"

definition warm :: "github_config \<Rightarrow> warm_env \<Rightarrow> warm_state \<Rightarrow> string option \<times> warm_state" where
  "warm cfg env ws =
     (let (st, ls, n) = ws;
          deadline = wm_clock env n + wm_deadline env
      in case warm_handoff_repos cfg env deadline (gh_repos cfg) (st, ls, Suc n) of
           (Some e, ws) \<Rightarrow> (Some e, ws)
         | (None, ws) \<Rightarrow> warm_pull_repos cfg env deadline (gh_repos cfg) ws)"

subsection \<open>The route\<close>

definition github_warm :: "github_config \<Rightarrow> warm_env \<Rightarrow> github_state \<Rightarrow> string option \<times> github_state \<times> log_line list" where
  "github_warm cfg wenv st = (let (x, st, ls, n) = warm cfg wenv (st, [], 0) in (x, st, ls))"

definition github_route :: "github_config \<Rightarrow> warm_env \<Rightarrow> github_state route" where
  "github_route cfg wenv =
     \<lparr>rt_name = ''github'', rt_kind = ''repo'', rt_synthetic = False, rt_needs_secret = True,
      rt_verify = github_verify cfg, rt_normalize = github_normalize cfg,
      rt_recheck = Some (\<lambda>ev st. Inr (github_recheck ev st)), rt_summary = None,
      rt_warm = Some (github_warm cfg wenv)\<rparr>"

end
