(* ===== verification/Github_Props.thy ===== *)
theory Github_Props
  imports Github_Warm
begin

text \<open>
  What the github route guarantees: who can cause a wake, what a ledger remembers, and
  where the warm-up may read.
\<close>

subsection \<open>What a decision that wakes has checked\<close>

text \<open>The event a decision builds: source, recipient and stream are the origin's own.\<close>

definition gh_event_ok :: "event \<Rightarrow> issue_ref \<Rightarrow> string \<Rightarrow> bool" where
  "gh_event_ok ev origin etype \<longleftrightarrow> ev_source ev = ''github'' \<and> ev_kind ev = Handoff
     \<and> ev_recipient ev = \<lparr>rec_by = ''repo'', rec_value = ref_repo origin\<rparr> \<and> ev_origin ev = Some origin
     \<and> ev_type ev = Some etype \<and> (\<exists>note. ev_wake_arg ev = handoff_trigger (ref_url origin) @ note)"

lemma build_event_wakes:
  assumes "build_event origin (handoff_trigger (ref_url origin) @ note) etype delivery occurred = (NormEvent ev, ls)"
  shows "gh_event_ok ev origin etype"
  using assms
  by (auto simp: build_event_def gh_event_ok_def mk_recipient_Inr dest!: mk_event_Inr(1)
      split: option.splits if_splits sum.splits)

lemma wake_event_wakes:
  assumes "wake_event data issue etype delivery occurred = (NormEvent ev, ls)"
  obtains origin where "gh_event_ok ev origin etype" "jget issue ''html_url'' = JStr (ref_url origin)"
proof -
  from assms obtain repo number url title origin where
    t: "text_field issue ''html_url'' ''issue.html_url'' = Inr url"
    and o: "mk_issue_ref (Some repo) (Some number) (Some url) (Some title) = Inr origin"
    and b: "build_event origin (handoff_trigger (ref_url origin)) etype delivery occurred = (NormEvent ev, ls)"
    by (auto simp: wake_event_def split: json.splits sum.splits)
  have "jget issue ''html_url'' = JStr (ref_url origin)"
    using t mk_issue_ref_Inr[OF o] by (auto simp: text_field_def split: json.splits)
  moreover have "gh_event_ok ev origin etype"
    using build_event_wakes[of origin "[]"] b by simp
  ultimately show thesis using that by blast
qed

lemma no_event [simp]:
  "gh_ignore t d \<noteq> (NormEvent ev, ls)" "skip_do_not_work u e d \<noteq> (NormEvent ev, ls)"
  "skip_pull_wake l r e d \<noteq> (NormEvent ev, ls)"
  by (simp_all add: gh_ignore_def skip_do_not_work_def skip_pull_wake_def)

lemma decide_issues_wakes:
  assumes "decide_issues cfg data etype delivery = (NormEvent ev, ls)"
  obtains issue origin where "jget data ''issue'' = JObj issue" "\<not> has_label issue do_not_work_label"
    "require_trusted_login cfg (sender_login data) = None" "gh_event_ok ev origin etype"
    "jget issue ''html_url'' = JStr (ref_url origin)"
  using assms
  by (auto simp: decide_issues_def require_issue_def Let_def elim!: wake_event_wakes
      split: sum.splits bool.splits if_splits option.splits json.splits)

lemma decide_comment_wakes:
  assumes "decide_comment cfg data etype delivery = (NormEvent ev, ls)"
  obtains issue origin where "jget data ''issue'' = JObj issue" "\<not> has_label issue do_not_work_label"
    "has_label issue handoff_label" "\<not> sender_is_captain_bot cfg data"
    "require_trusted_login cfg (sender_login data) = None" "gh_event_ok ev origin etype"
    "jget issue ''html_url'' = JStr (ref_url origin)"
  using assms
  by (auto simp: decide_comment_def require_issue_def Let_def elim!: wake_event_wakes
      split: sum.splits if_splits option.splits json.splits)

text \<open>An actor is authorised for a repository as a trusted login or as its captain's bot.\<close>

definition authorised :: "github_config \<Rightarrow> string \<Rightarrow> string option \<Rightarrow> bool" where
  "authorised cfg repo actor \<longleftrightarrow> (\<exists>a. actor = Some a
     \<and> (py_lower a \<in> set (gh_trusted cfg) \<or> is_captain_bot cfg repo a))"

lemma trusted_login:
  "require_trusted_login cfg actor = None \<longleftrightarrow> (\<exists>a. actor = Some a \<and> py_lower a \<in> set (gh_trusted cfg))"
  by (auto simp: require_trusted_login_def split: option.splits if_splits)

lemma open_handoffs_ref:
  "r \<in> set (open_handoffs repo led) \<Longrightarrow> py_lower (ref_repo r) = py_lower repo"
  by (auto simp: open_handoffs_def split: option.splits if_splits)

lemma wake_on_own_pull_wakes:
  assumes "wake_on_own_pull cfg led repo named actor note skip etype delivery occurred = (NormEvent ev, ls)"
  obtains origin where "authorised cfg repo actor" "gh_event_ok ev origin etype"
    "origin \<in> set (open_handoffs repo led)" "reason_to_drop (ref_url origin) led \<noteq> Some do_not_work"
    "named \<noteq> [] \<longrightarrow> ref_number origin \<in> set named"
proof -
  from assms obtain origin where m: "merge_target (open_handoffs repo led) named = Inr origin"
    and d: "reason_to_drop (ref_url origin) led \<noteq> Some do_not_work"
    and a: "authorised cfg repo actor"
    and b: "build_event origin (handoff_trigger (ref_url origin) @ note) etype delivery occurred = (NormEvent ev, ls)"
    by (auto simp: wake_on_own_pull_def Let_def authorised_def trusted_login
        split: sum.splits if_splits option.splits)
  show thesis
    using that[OF a build_event_wakes[OF b] _ d] merge_target_Inr[OF m] by blast
qed

lemma decide_pull_request_wakes:
  assumes "decide_pull_request cfg st data etype delivery = (NormEvent ev, ls)"
  obtains repo origin where "repo_full_name data = Some repo" "authorised cfg repo (sender_login data)"
    "gh_event_ok ev origin etype" "origin \<in> set (open_handoffs repo (gs_issues st))"
    "reason_to_drop (ref_url origin) (gs_issues st) \<noteq> Some do_not_work"
  using assms
  by (auto simp: decide_pull_request_def elim!: wake_on_own_pull_wakes
      split: sum.splits if_splits option.splits json.splits)

lemma decide_workflow_run_wakes:
  assumes "decide_workflow_run cfg st data etype delivery = (NormEvent ev, ls)"
  obtains repo run origin where "repo_full_name data = Some repo" "jget data ''workflow_run'' = JObj run"
    "authorised cfg repo (author_login run ''triggering_actor'')"
    "gh_event_ok ev origin etype" "origin \<in> set (open_handoffs repo (gs_issues st))"
    "reason_to_drop (ref_url origin) (gs_issues st) \<noteq> Some do_not_work"
  using assms
  by (auto simp: decide_workflow_run_def Let_def elim!: wake_on_own_pull_wakes
      split: sum.splits if_splits option.splits json.splits list.splits)

text \<open>Whose act a delivery is: a run's triggering actor, otherwise the sender.\<close>

definition wake_actor :: "string \<Rightarrow> json_obj \<Rightarrow> string option" where
  "wake_actor etype data =
     (if etype = workflow_run_event
      then (case jget data ''workflow_run'' of JObj run \<Rightarrow> author_login run ''triggering_actor'' | _ \<Rightarrow> None)
      else sender_login data)"

lemma event_names:
  "issues_event \<noteq> pull_request_event" "issues_event \<noteq> workflow_run_event" "issues_event \<noteq> issue_comment_event"
  "issue_comment_event \<noteq> pull_request_event" "issue_comment_event \<noteq> workflow_run_event"
  "pull_request_event \<noteq> workflow_run_event"
  by (simp_all add: issues_event_def pull_request_event_def workflow_run_event_def issue_comment_event_def)

lemma github_normalize_wakes:
  assumes "github_normalize cfg rq st = (NormEvent ev, st', ls)"
  obtains etype data where "header rq event_header = Some etype"
    "etype \<in> {issues_event, issue_comment_event, pull_request_event, workflow_run_event}"
    "parse_json_object (gh_loads cfg) (rq_body rq) = BodyOk data"
    "observe_payload cfg etype data st = Inr st'"
    "decide_payload cfg st' data etype (header rq delivery_header) = (NormEvent ev, ls)"
  using assms
  by (auto simp: github_normalize_def Let_def gh_ignore_def
      split: option.splits if_splits body_result.splits sum.splits prod.splits)

text \<open>
  C20. No wake without authority. An event of the github route is built only from a payload
  whose actor is on the allow-list or, for a merge or a failed run, is that repository's
  own captain bot; a comment of the captain's bot never wakes; an issue labelled
  \<open>Do Not Work\<close> never wakes; and the recipient, the origin and the prompt are those of one
  issue, which for a merge or a run is an open handoff of the payload's own repository.
\<close>

theorem github_wake_authorised:
  assumes "github_normalize cfg rq st = (NormEvent ev, st', ls)"
  shows "\<exists>etype data origin. header rq event_header = Some etype
     \<and> parse_json_object (gh_loads cfg) (rq_body rq) = BodyOk data
     \<and> gh_event_ok ev origin etype
     \<and> (if etype = issues_event \<or> etype = issue_comment_event
        then require_trusted_login cfg (wake_actor etype data) = None
           \<and> (\<exists>issue. jget data ''issue'' = JObj issue \<and> \<not> has_label issue do_not_work_label
                \<and> jget issue ''html_url'' = JStr (ref_url origin))
           \<and> \<not> (etype = issue_comment_event \<and> sender_is_captain_bot cfg data)
        else (\<exists>repo. repo_full_name data = Some repo \<and> authorised cfg repo (wake_actor etype data)
           \<and> origin \<in> set (open_handoffs repo (gs_issues st'))
           \<and> reason_to_drop (ref_url origin) (gs_issues st') \<noteq> Some do_not_work))"
proof -
  from assms obtain etype data where h: "header rq event_header = Some etype"
    "etype \<in> {issues_event, issue_comment_event, pull_request_event, workflow_run_event}"
    "parse_json_object (gh_loads cfg) (rq_body rq) = BodyOk data"
    and d: "decide_payload cfg st' data etype (header rq delivery_header) = (NormEvent ev, ls)"
    by (rule github_normalize_wakes)
  from h(2) consider "etype = issues_event" | "etype = issue_comment_event"
    | "etype = pull_request_event" | "etype = workflow_run_event" by blast
  then show ?thesis
  proof cases
    case 1
    with d have "decide_issues cfg data etype (header rq delivery_header) = (NormEvent ev, ls)"
      by (simp add: decide_payload_def)
    from decide_issues_wakes[OF this] h 1 event_names show ?thesis by (metis wake_actor_def)
  next
    case 2
    with d event_names have "decide_comment cfg data etype (header rq delivery_header) = (NormEvent ev, ls)"
      by (simp add: decide_payload_def)
    from decide_comment_wakes[OF this] h 2 event_names show ?thesis by (metis wake_actor_def)
  next
    case 3
    with d event_names have "decide_pull_request cfg st' data etype (header rq delivery_header) = (NormEvent ev, ls)"
      by (simp add: decide_payload_def)
    from decide_pull_request_wakes[OF this] h 3 event_names show ?thesis by (metis wake_actor_def)
  next
    case 4
    with d event_names have "decide_workflow_run cfg st' data etype (header rq delivery_header) = (NormEvent ev, ls)"
      by (simp add: decide_payload_def)
    from decide_workflow_run_wakes[OF this] obtain repo run origin where r:
      "repo_full_name data = Some repo" "jget data ''workflow_run'' = JObj run"
      "authorised cfg repo (author_login run ''triggering_actor'')"
      "gh_event_ok ev origin etype" "origin \<in> set (open_handoffs repo (gs_issues st'))"
      "reason_to_drop (ref_url origin) (gs_issues st') \<noteq> Some do_not_work" .
    then have "authorised cfg repo (wake_actor etype data)" using 4 by (simp add: wake_actor_def)
    with r h 4 event_names show ?thesis by metis
  qed
qed

subsection \<open>What a ledger remembers\<close>

text \<open>With room for every key that can come, storing evicts nothing.\<close>

lemma od_trim_room: "length d \<le> cap \<Longrightarrow> od_trim cap d = d"
  by (cases d) auto

lemma od_store_roomy:
  assumes "distinct (map fst d)" and "fst ` set d \<subseteq> U" and "k \<in> U" and "finite U" and "card U \<le> cap"
  shows "od_store cap k v d = od_put_last k v d"
proof -
  have dd: "distinct (map fst (od_put_last k v d))"
    using distinct_od_remove[OF assms(1), of k] by (auto simp: od_put_last_def od_remove_def)
  have "length (od_put_last k v d) = card (set (map fst (od_put_last k v d)))"
    using distinct_card[OF dd] by simp
  also have "\<dots> \<le> card U"
    using assms(2,3) by (intro card_mono[OF assms(4)]) (auto simp: od_put_last_def od_remove_def)
  finally show ?thesis unfolding od_store_def using assms(5) by (simp add: od_trim_room)
qed

lemma issue_record_known:
  assumes "distinct (map fst (il_issues led))" and "fst ` set (il_issues led) \<union> {fst rep} \<subseteq> U"
    and "finite U" and "card U \<le> il_capacity led"
  shows "fst ` set (il_issues (issue_record rep led)) \<subseteq> U"
    and "url \<noteq> fst rep \<Longrightarrow> map_of (il_issues (issue_record rep led)) url = map_of (il_issues led) url"
    and "map_of (il_issues led) (fst rep) = Some k \<Longrightarrow>
       map_of (il_issues (issue_record rep led)) (fst rep) = Some
         (if is_updated_at (snd rep) < is_updated_at k then k
          else if is_updated_at (snd rep) = is_updated_at k then settle_tie k (snd rep) else snd rep)"
proof -
  have s: "od_store (il_capacity led) (fst rep) v (il_issues led) = od_put_last (fst rep) v (il_issues led)" for v
    using od_store_roomy[of "il_issues led" U "fst rep" "il_capacity led" v] assms by blast
  show "fst ` set (il_issues (issue_record rep led)) \<subseteq> U"
    using assms(2) by (auto simp: issue_record_def case_prod_unfold s od_put_last_def od_remove_def split: option.splits)
  show "map_of (il_issues (issue_record rep led)) url = map_of (il_issues led) url" if "url \<noteq> fst rep"
    using that by (auto simp: issue_record_def case_prod_unfold s map_of_od_put_last split: option.splits)
  show "map_of (il_issues (issue_record rep led)) (fst rep) = Some
         (if is_updated_at (snd rep) < is_updated_at k then k
          else if is_updated_at (snd rep) = is_updated_at k then settle_tie k (snd rep) else snd rep)"
    if "map_of (il_issues led) (fst rep) = Some k"
    using that by (auto simp: issue_record_def case_prod_unfold s map_of_od_put_last)
qed

text \<open>A report that cannot reopen what is known: older, or of the same second and second-hand.\<close>

definition outranked :: "issue_state \<Rightarrow> issue_state \<Rightarrow> bool" where
  "outranked k report \<longleftrightarrow> is_updated_at report < is_updated_at k
     \<or> (is_updated_at report = is_updated_at k \<and> \<not> is_state_first_hand report)"

lemma closed_stays_closed:
  assumes "distinct (map fst (il_issues led))" and "map_of (il_issues led) url = Some k"
    and "\<not> is_open k" and "is_state_first_hand k"
    and "list_all (\<lambda>(u, rep). u = url \<longrightarrow> outranked k rep) rs"
    and "fst ` set (il_issues led) \<union> fst ` set rs \<subseteq> U" and "finite U" and "card U \<le> il_capacity led"
  shows "reason_to_drop url (fold issue_record rs led) = Some issue_closed"
  using assms
proof (induction rs arbitrary: led k)
  case Nil
  then show ?case by (simp add: reason_to_drop_def)
next
  case (Cons rep rs)
  let ?led = "issue_record rep led"
  have room: "fst ` set (il_issues led) \<union> {fst rep} \<subseteq> U" using Cons.prems(6) by auto
  note known = issue_record_known[OF Cons.prems(1) room Cons.prems(7,8)]
  have d: "distinct (map fst (il_issues ?led))"
    using il.obs_items[of rep led] Cons.prems(1) by (auto simp: distinct_od_store)
  have c: "card U \<le> il_capacity ?led" using Cons.prems(8) by (simp add: il.room_obs)
  obtain k' where k': "map_of (il_issues ?led) url = Some k'" "\<not> is_open k'" "is_state_first_hand k'"
    "is_updated_at k' = is_updated_at k"
  proof (cases "fst rep = url")
    case False
    then show ?thesis using that[of k] known(2)[of url] Cons.prems(2-4) by simp
  next
    case True
    then have "outranked k (snd rep)" using Cons.prems(5) by (cases rep) simp
    with True known(3)[of k] Cons.prems(2-4) show ?thesis
      by (intro that[of "if is_updated_at (snd rep) < is_updated_at k then k else settle_tie k (snd rep)"])
        (auto simp: outranked_def settle_tie_def Let_def)
  qed
  have "list_all (\<lambda>(u, rep). u = url \<longrightarrow> outranked k' rep) rs"
    using Cons.prems(5) k'(4) by (simp add: outranked_def)
  from Cons.IH[OF d k'(1-3) this _ Cons.prems(7) c] known(1) Cons.prems(6) show ?case by auto
qed

subsection \<open>Where the warm-up reads\<close>

lemma read_pages_on_api:
  assumes "\<And>u t. starts_with (github_api @ ''/'') u \<Longrightarrow> net1 u t = net2 u t"
    and "starts_with (github_api @ ''/'') url"
  shows "read_pages net1 f clk what tmo dl k url n = read_pages net2 f clk what tmo dl k url n"
  using assms(2)
proof (induction k arbitrary: url n)
  case (Suc k)
  have "read_pages net1 f clk what tmo dl k u (Suc n) = read_pages net2 f clk what tmo dl k u (Suc n)"
    if "next_page link = Inr (Some u)" for link u
    using Suc.IH[of u "Suc n"] next_page_api[OF that] by simp
  then show ?case
    by (auto simp: assms(1)[OF Suc.prems] Let_def split: sum.split json.split option.split prod.split)
qed simp

text \<open>
  C23. The warm-up reads GitHub's API and nothing else. A listing asks the transport only
  for URLs under \<open>https://api.github.com/\<close>: two transports that agree there give the same
  result, whatever pagination links the pages carry.
\<close>

theorem listing_stays_on_api:
  assumes "\<And>url t. starts_with (github_api @ ''/'') url \<Longrightarrow> net1 url t = net2 url t"
  shows "read_listing net1 fmt_g clk repo path what timeout n = read_listing net2 fmt_g clk repo path what timeout n"
  unfolding read_listing_def
  by (rule read_pages_on_api[OF assms])
    (simp_all add: starts_with_def)

subsection \<open>The ledgers stay bounded\<close>

definition ledgers_ok :: "github_state \<Rightarrow> bool" where
  "ledgers_ok st \<longleftrightarrow> il.ok (gs_issues st) \<and> il_capacity (gs_issues st) = ledger_capacity
     \<and> pl.ok (gs_pulls st) \<and> pl_capacity (gs_pulls st) = ledger_capacity"

lemma init_ledgers_ok: "ledgers_ok init_github_state"
  by (simp add: ledgers_ok_def init_github_state_def il.ok_def pl.ok_def)

lemma observe_issue_ok:
  assumes "observe_issue fromiso data etype (gs_issues st) = Inr led" and "ledgers_ok st"
  shows "ledgers_ok (st\<lparr>gs_issues := led\<rparr>)"
  using assms
  by (auto simp: observe_issue_def ledgers_ok_def il.obs_ok il.room_obs split: sum.splits option.splits)

lemma observe_pull_ok:
  assumes "observe_pull fromiso repo pull (gs_pulls st) = Inr led" and "ledgers_ok st"
  shows "ledgers_ok (st\<lparr>gs_pulls := led\<rparr>)"
  using assms
  by (auto simp: observe_pull_def ledgers_ok_def pl.obs_ok pl.room_obs split: sum.splits option.splits)

lemma observe_payload_ok: "observe_payload cfg etype data st = Inr st' \<Longrightarrow> ledgers_ok st \<Longrightarrow> ledgers_ok st'"
  by (auto simp: observe_payload_def observe_issue_ok observe_pull_ok split: if_splits sum.splits option.splits)

lemma github_normalize_ok: "ledgers_ok st \<Longrightarrow> ledgers_ok (fst (snd (github_normalize cfg rq st)))"
  by (auto simp: github_normalize_def Let_def observe_payload_ok
      split: option.splits if_splits body_result.splits sum.splits prod.splits)

text \<open>The route as a machine: one step per delivery.\<close>

definition gh_step :: "github_config \<Rightarrow> github_state \<Rightarrow> inbound_request \<Rightarrow> github_state" where
  "gh_step cfg st rq = fst (snd (github_normalize cfg rq st))"

interpretation gh: machine ledgers_ok "gh_step cfg" "\<lambda>_ _. True"
  by unfold_locales (simp add: gh_step_def github_normalize_ok)

lemma gh_valid: "gh.valid_run cfg st rqs"
  by (induction rqs arbitrary: st) auto

lemma warm_issues_ok: "ledgers_ok st \<Longrightarrow> ledgers_ok (snd (warm_issues cfg repo is st))"
  by (induction cfg repo "is" st rule: warm_issues.induct) (auto simp: observe_issue_ok split: sum.splits)

lemma warm_pulls_ok: "ledgers_ok st \<Longrightarrow> ledgers_ok (snd (warm_pulls cfg repo ps st))"
  by (induction cfg repo ps st rule: warm_pulls.induct) (auto simp: observe_pull_ok split: sum.splits)

lemma warm_handoff_repos_ok:
  "ledgers_ok (fst ws) \<Longrightarrow> ledgers_ok (fst (snd (warm_handoff_repos cfg env deadline repos ws)))"
proof (induction cfg env deadline repos ws rule: warm_handoff_repos.induct)
  case (2 cfg env deadline repo rest st ls n)
  show ?case
  proof -
    obtain r l m where rd: "warm_read env (wm_issues env) repo deadline None n = (r, l, m)" by (metis prod_cases3)
    show ?thesis
    proof (cases r)
      case None
      then show ?thesis using "2.IH"(1) "2.prems" by (simp add: rd)
    next
      case (Some xs)
      obtain x st' where w: "warm_issues cfg repo xs st = (x, st')" by (metis surj_pair)
      then have "ledgers_ok st'" using warm_issues_ok[of st cfg repo xs] "2.prems" by simp
      then show ?thesis using "2.IH"(2) Some by (cases x) (simp_all add: rd w)
    qed
  qed
qed simp

lemma warm_pull_repos_ok:
  "ledgers_ok (fst ws) \<Longrightarrow> ledgers_ok (fst (snd (warm_pull_repos cfg env deadline repos ws)))"
proof (induction cfg env deadline repos ws rule: warm_pull_repos.induct)
  case (2 cfg env deadline repo rest st ls n)
  show ?case
  proof (cases "open_handoffs repo (gs_issues st) = []")
    case True
    then show ?thesis using "2.IH"(1) "2.prems" by simp
  next
    case False
    obtain r l m where rd: "warm_read env (wm_pulls env) repo deadline (Some ''pulls'') n = (r, l, m)"
      by (metis prod_cases3)
    show ?thesis
    proof (cases r)
      case None
      then show ?thesis using "2.IH"(2) "2.prems" False by (simp add: rd)
    next
      case (Some xs)
      obtain x st' where w: "warm_pulls cfg repo xs st = (x, st')" by (metis surj_pair)
      then have "ledgers_ok st'" using warm_pulls_ok[of st cfg repo xs] "2.prems" by simp
      then show ?thesis using "2.IH"(3) Some False by (cases x) (simp_all add: rd w Let_def)
    qed
  qed
qed simp

lemma warm_ok: "ledgers_ok (fst ws) \<Longrightarrow> ledgers_ok (fst (snd (warm cfg env ws)))"
proof -
  assume o: "ledgers_ok (fst ws)"
  obtain st ls n where ws: "ws = (st, ls, n)" by (metis prod_cases3)
  obtain x ws' where w: "warm_handoff_repos cfg env (wm_clock env n + wm_deadline env) (gh_repos cfg) (st, ls, Suc n) = (x, ws')"
    by (metis surj_pair)
  have "ledgers_ok (fst ws')"
    using warm_handoff_repos_ok[of "(st, ls, Suc n)" cfg env "wm_clock env n + wm_deadline env" "gh_repos cfg"] o
    by (simp add: w ws)
  then show ?thesis using warm_pull_repos_ok[of ws'] by (cases x) (simp_all add: warm_def ws w)
qed

lemma route_warm_ok: "ledgers_ok st \<Longrightarrow> ledgers_ok (fst (route_warm (github_route cfg wenv) st))"
  using warm_ok[of "(st, [], 0)" cfg wenv]
  by (auto simp: route_warm_def github_route_def github_warm_def split: prod.splits option.splits)

text \<open>
  C22. The ledgers are bounded for the life of the daemon. After the warm-up, whatever the
  listings held and even when it raised, and after any sequence of deliveries, each
  ledger holds at most 1024 entries under distinct keys.
\<close>

theorem github_ledgers_bounded:
  "let st = foldl (gh_step cfg) (fst (route_warm (github_route cfg wenv) init_github_state)) rqs in
     length (il_issues (gs_issues st)) \<le> 1024 \<and> distinct (map fst (il_issues (gs_issues st)))
   \<and> length (pl_pulls (gs_pulls st)) \<le> 1024 \<and> distinct (map fst (pl_pulls (gs_pulls st)))"
proof -
  have "ledgers_ok (fst (route_warm (github_route cfg wenv) init_github_state))"
    by (rule route_warm_ok) (simp add: init_ledgers_ok)
  from gh.inv_run[OF this gh_valid]
  have "ledgers_ok (foldl (gh_step cfg) (fst (route_warm (github_route cfg wenv) init_github_state)) rqs)" .
  then show ?thesis
    by (simp add: ledgers_ok_def il.ok_def pl.ok_def ledger_capacity_def Let_def)
qed

subsection \<open>What raises\<close>

lemma json_in_raises: "json_in v names = Inl e \<Longrightarrow> \<not> json_hashable v"
  by (auto simp: json_in_def split: json.splits)

lemma wake_answer_no_raise:
  "wake_event data issue etype delivery occurred \<noteq> (NormRaised e, ls)"
  "build_event origin arg etype delivery occurred \<noteq> (NormRaised e, ls)"
  "gh_ignore t d \<noteq> (NormRaised e, ls)" "skip_do_not_work u et d \<noteq> (NormRaised e, ls)"
  "skip_pull_wake l r et d \<noteq> (NormRaised e, ls)"
  by (auto simp: wake_event_def build_event_def gh_ignore_def skip_do_not_work_def skip_pull_wake_def
      split: json.splits sum.splits option.splits)

lemma own_pull_no_raise:
  "wake_on_own_pull cfg led repo named actor note skip etype delivery occurred \<noteq> (NormRaised e, ls)"
  by (auto simp: wake_on_own_pull_def Let_def wake_answer_no_raise split: sum.splits option.splits)

lemma decide_raises:
  assumes "decide_payload cfg st data etype delivery = (NormRaised e, ls)"
    and "etype \<in> {issues_event, issue_comment_event, pull_request_event, workflow_run_event}"
  shows "(etype = issues_event \<and> \<not> json_hashable (jget data ''action''))
     \<or> (etype = pull_request_event \<and> (\<exists>pull repo. jget data ''pull_request'' = JObj pull
          \<and> repo_full_name data = Some repo \<and> named_issues pull repo = Inl e))"
proof -
  from assms(2) consider "etype = issues_event" | "etype = issue_comment_event"
    | "etype = pull_request_event" | "etype = workflow_run_event" by blast
  then show ?thesis
  proof cases
    case 1
    then show ?thesis using assms(1)
      by (auto simp: decide_payload_def decide_issues_def wake_answer_no_raise Let_def
          dest: json_in_raises split: sum.splits bool.splits if_splits option.splits)
  next
    case 2
    then show ?thesis using assms(1) event_names
      by (auto simp: decide_payload_def decide_comment_def wake_answer_no_raise
          split: sum.splits if_splits option.splits)
  next
    case 3
    then show ?thesis using assms(1) event_names
      by (auto simp: decide_payload_def decide_pull_request_def wake_answer_no_raise own_pull_no_raise
          split: sum.splits if_splits option.splits json.splits)
  next
    case 4
    then show ?thesis using assms(1) event_names
      by (auto simp: decide_payload_def decide_workflow_run_def wake_answer_no_raise own_pull_no_raise Let_def
          split: sum.splits if_splits option.splits json.splits list.splits)
  qed
qed

lemma observe_raises:
  assumes "observe_payload cfg etype data st = Inl e"
  shows "(etype = issues_event \<and> \<not> json_hashable (jget data ''action''))
     \<or> (etype = pull_request_event \<and> (\<exists>pull repo. jget data ''pull_request'' = JObj pull
          \<and> repo_full_name data = Some repo \<and> named_issues pull repo = Inl e))"
proof -
  have i: "etype = issues_event \<and> \<not> json_hashable (jget data ''action'')"
    if "observe_issue f data etype led = Inl e" for f led
  proof -
    from that obtain a where "json_in (if etype = issues_event then jget data ''action'' else JNull) a = Inl e"
      by (auto simp: observe_issue_def issue_report_def Let_def
          split: json.splits if_splits option.splits sum.splits)
    from json_in_raises[OF this] show ?thesis by (simp split: if_splits)
  qed
  have p: "\<exists>d. pull = JObj d \<and> named_issues d repo = Inl e" if "observe_pull f repo pull led = Inl e" for f repo pull led
    using that by (auto simp: observe_pull_def pull_report_def split: json.splits option.splits if_splits sum.splits)
  show ?thesis
    using assms i p by (fastforce simp: observe_payload_def split: if_splits sum.splits option.splits)
qed

text \<open>
  C24. The errors the route does not turn into a rejection are three: a body the decoder
  fails on otherwise than with a JSON error, an \<open>issues\<close> payload whose \<open>action\<close> is a list
  or an object, and a pull request whose text holds a reference that \<open>int\<close> refuses. They
  reach the pipeline's last-resort handler.
\<close>

theorem github_raise_causes:
  assumes "github_normalize cfg rq st = (NormRaised e, st', ls)"
  shows "parse_json_object (gh_loads cfg) (rq_body rq) = BodyRaised e
     \<or> (\<exists>data. parse_json_object (gh_loads cfg) (rq_body rq) = BodyOk data
          \<and> ((header rq event_header = Some issues_event \<and> \<not> json_hashable (jget data ''action''))
            \<or> (header rq event_header = Some pull_request_event
               \<and> (\<exists>pull repo. jget data ''pull_request'' = JObj pull \<and> repo_full_name data = Some repo
                    \<and> named_issues pull repo = Inl e))))"
proof -
  from assms obtain t where t: "header rq event_header = Some t"
    "t \<in> {issues_event, issue_comment_event, pull_request_event, workflow_run_event}"
    by (auto simp: github_normalize_def gh_ignore_def Let_def split: option.splits if_splits)
  consider e' where "parse_json_object (gh_loads cfg) (rq_body rq) = BodyRejected e'"
    | e' where "parse_json_object (gh_loads cfg) (rq_body rq) = BodyRaised e'"
    | data where "parse_json_object (gh_loads cfg) (rq_body rq) = BodyOk data"
    by (cases "parse_json_object (gh_loads cfg) (rq_body rq)") auto
  then show ?thesis
  proof cases
    case (3 data)
    have c: "(t = issues_event \<and> \<not> json_hashable (jget data ''action''))
     \<or> (t = pull_request_event \<and> (\<exists>pull repo. jget data ''pull_request'' = JObj pull
          \<and> repo_full_name data = Some repo \<and> named_issues pull repo = Inl e))"
    proof (cases "observe_payload cfg t data st")
      case (Inl x)
      then have "x = e" using assms t 3 by (simp add: github_normalize_def)
      with observe_raises Inl show ?thesis by blast
    next
      case (Inr s)
      then have "fst (decide_payload cfg s data t (header rq delivery_header)) = NormRaised e"
        using assms t 3 by (auto simp: github_normalize_def Let_def case_prod_unfold)
      with decide_raises[OF _ t(2)] show ?thesis by (metis prod.collapse)
    qed
    with 3 t(1) show ?thesis by simp
  qed (use assms t in \<open>simp_all add: github_normalize_def Let_def\<close>)
qed

text \<open>A reference of 4301 digits does raise: the guard of the interpreter, not of the route.\<close>

lemma long_reference_raises:
  "\<exists>e. named_issues [(''title'', JStr (CHR ''#'' # replicate 4301 (CHR ''1'')))] repo = Inl e"
proof -
  let ?ds = "replicate 4301 (CHR ''1'')"
  have d: "takeWhile is_digit ?ds = ?ds" "dropWhile is_digit ?ds = []"
    by (simp_all add: takeWhile_eq_all_conv dropWhile_eq_Nil_conv is_digit_def)
  have "\<not> is_repo_char (CHR ''#'')" by (simp add: is_repo_char_def is_word_def is_alnum_ascii_def)
  then have "re_repo (CHR ''#'' # ?ds) = None" by (simp add: re_repo_def)
  moreover have "re_number ?ds = Some (?ds, [])" unfolding re_number_def d by simp
  ultimately have "ref_match None (CHR ''#'' # ?ds) = Some (None, ?ds, [])"
    by (simp add: ref_match_def ref_short_def strip_prefix_def starts_with_def)
  then have "ref_scan None (CHR ''#'' # ?ds) = [(None, ?ds)]" by simp
  then show ?thesis by (simp add: named_issues_def jget_def int_of_digits_def)
qed

end
