(* ===== verification/Pipeline.thy ===== *)
theory Pipeline
  imports RouteBase Config Wake WakeLock Coalesce Concurrency Evidence_Store
begin

text \<open>
  \<open>pipeline.py\<close>: the core, from an inbound request to a recorded wake. \<open>accept\<close> is the
  fast half (route, verify, normalize, resolve), \<open>execute\<close> the slow half (lock, dedup,
  coalesce, recheck, wake lock, breaker, wake), both ending in the last-resort handler.
  Every collaborator is the component's own model; the waker and the routes are
  parameters. The world holds what the collaborators mutate, the logged lines and how
  many readings each clock has given.
\<close>

subsection \<open>Stages, outcomes, results\<close>

datatype stage = SRoute | SVerify | SNormalize | SResolve | SLock | SDedup | SCoalesce
  | SRecheck | SWakeLock | SBreaker | SWake

definition stage_value :: "stage \<Rightarrow> string" where
  "stage_value s = (case s of SRoute \<Rightarrow> ''route'' | SVerify \<Rightarrow> ''verify'' | SNormalize \<Rightarrow> ''normalize''
     | SResolve \<Rightarrow> ''resolve'' | SLock \<Rightarrow> ''lock'' | SDedup \<Rightarrow> ''dedup'' | SCoalesce \<Rightarrow> ''coalesce''
     | SRecheck \<Rightarrow> ''recheck'' | SWakeLock \<Rightarrow> ''wake_lock'' | SBreaker \<Rightarrow> ''breaker'' | SWake \<Rightarrow> ''wake'')"

datatype outcome = OOk | OIgnored | ORejected | OFailed | OStopped

definition outcome_value :: "outcome \<Rightarrow> string" where
  "outcome_value x = (case x of OOk \<Rightarrow> ''ok'' | OIgnored \<Rightarrow> ''ignored'' | ORejected \<Rightarrow> ''rejected''
     | OFailed \<Rightarrow> ''failed'' | OStopped \<Rightarrow> ''stopped'')"

record stage_record =
  sr_stage :: stage
  sr_outcome :: outcome
  sr_detail :: string

record presult =
  pr_records :: "stage_record list"
  pr_event :: "event option"
  pr_agent :: "agent option"

definition new_result :: presult where
  "new_result = \<lparr>pr_records = [], pr_event = None, pr_agent = None\<rparr>"

definition stages :: "presult \<Rightarrow> (stage \<times> outcome) list" where
  "stages r = map (\<lambda>x. (sr_stage x, sr_outcome x)) (pr_records r)"

definition terminal :: "presult \<Rightarrow> outcome option" where
  "terminal r = (if pr_records r = [] then None else Some (sr_outcome (last (pr_records r))))"

subsection \<open>The collaborators\<close>

record ('w, 'r) penv =
  pe_registry :: "'r registry"
  pe_config :: config
  pe_waker :: "agent \<Rightarrow> event \<Rightarrow> 'w \<Rightarrow> wake_answer \<times> log_line list \<times> 'w"
  pe_lock_env :: lock_env
  pe_lock_dir :: string
  pe_breaker :: breaker_config
  pe_breaker_src :: string
  pe_ttl :: pyfloat
  pe_attempts :: nat
  pe_mono :: "nat \<Rightarrow> rat"
  pe_wall :: "nat \<Rightarrow> int"
  pe_instant :: "int \<Rightarrow> string"
  pe_ev :: ev_env

record ('w, 'r) world =
  w_ext :: 'w
  w_routes :: 'r
  w_locks :: agent_locks
  w_breaker :: breaker
  w_dedup :: deduper
  w_cov :: wake_coverage
  w_ev :: store
  w_log :: "log_line list"
  w_mono :: nat
  w_wall :: nat
  w_slept :: "rat list"

text \<open>A state and a result, threaded through the stages.\<close>

type_synonym ('w, 'r) run_state = "('w, 'r) world \<times> presult"

definition emit :: "log_line list \<Rightarrow> ('w, 'r) world \<Rightarrow> ('w, 'r) world" where
  "emit ls w = w\<lparr>w_log := w_log w @ ls\<rparr>"

definition read_mono :: "('w, 'r) penv \<Rightarrow> ('w, 'r) world \<Rightarrow> rat \<times> ('w, 'r) world" where
  "read_mono env w = (pe_mono env (w_mono w), w\<lparr>w_mono := Suc (w_mono w)\<rparr>)"

definition read_wall :: "('w, 'r) penv \<Rightarrow> ('w, 'r) world \<Rightarrow> int \<times> ('w, 'r) world" where
  "read_wall env w = (pe_wall env (w_wall w), w\<lparr>w_wall := Suc (w_wall w)\<rparr>)"

definition on_evidence :: "(store \<Rightarrow> store) \<Rightarrow> ('w, 'r) world \<Rightarrow> ('w, 'r) world" where
  "on_evidence f w = w\<lparr>w_ev := f (w_ev w)\<rparr>"

text \<open>\<open>_record\<close>: the record, and its line at the level of its outcome.\<close>

definition record_line :: "stage \<Rightarrow> outcome \<Rightarrow> fields \<Rightarrow> log_line" where
  "record_line st oc detail =
     (if oc \<in> {ORejected, OFailed} then Warning else Info,
      log_fields [(''stage'', VStr (stage_value st))] @ '' '' @ paint (''outcome='' @ outcome_value oc)
        @ (if log_fields detail = [] then [] else '' '' @ log_fields detail))"

definition record_stage :: "stage \<Rightarrow> outcome \<Rightarrow> fields \<Rightarrow> ('w, 'r) run_state \<Rightarrow> ('w, 'r) run_state" where
  "record_stage st oc detail ws =
     (emit [record_line st oc detail] (fst ws),
      (snd ws)\<lparr>pr_records := pr_records (snd ws)
         @ [\<lparr>sr_stage = st, sr_outcome = oc, sr_detail = log_fields detail\<rparr>]\<rparr>)"

definition who :: "agent \<Rightarrow> event \<Rightarrow> fields" where
  "who ag ev = [(''delivery'', VStr (ev_delivery_id ev)), (''agent'', VStr (harness_key ag)),
     (''source'', VStr (ev_source ev))]"

definition seconds :: "rat \<Rightarrow> string" where
  "seconds d = fmt1 d @ ''s''"

text \<open>\<open>_instant\<close>: the conversion to UTC raises outside years 1 to 9999.\<close>

definition instant :: "('w, 'r) penv \<Rightarrow> int \<Rightarrow> string + string" where
  "instant env t = (if utc_min \<le> t \<and> t \<le> utc_max then Inr (pe_instant env t)
     else Inl ''date value out of range'')"

subsection \<open>The fast half\<close>

definition route_secret :: "('w, 'r) penv \<Rightarrow> 'r route \<Rightarrow> string \<Rightarrow> string + string option" where
  "route_secret env rt source =
     (if rt_needs_secret rt
      then (case webhook_secret (pe_config env) source of Inl e \<Rightarrow> Inl e | Inr s \<Rightarrow> Inr (Some s))
      else Inr (cf_secrets (pe_config env) source))"

text \<open>\<open>Inl\<close> is an exception on its way to the last-resort handler.\<close>

definition accept_steps ::
  "('w, 'r) penv \<Rightarrow> string \<Rightarrow> inbound_request \<Rightarrow> ('w, 'r) run_state
    \<Rightarrow> (string + (agent \<times> event) option) \<times> ('w, 'r) run_state" where
  "accept_steps env source rq ws =
   (let src = (''source'', VStr source) in
    case get_route (pe_registry env) source of
      Inl e \<Rightarrow> (Inr None, record_stage SRoute ORejected [src, (''error'', VStr e)] ws)
    | Inr rt \<Rightarrow>
      (let ws = record_stage SRoute OOk [src] ws in
       case route_secret env rt source of
         Inl e \<Rightarrow>
           (let (w, r) = ws;
                w = on_evidence (record_delivery_rejected (pe_ev env) source (''no secret configured: '' @ e)) w
            in (Inr None, record_stage SVerify OFailed [src, (''error'', VStr e)] (w, r)))
       | Inr secret \<Rightarrow>
         (let (verdict, ls) = rt_verify rt rq secret; ws = (emit ls (fst ws), snd ws) in
          case verdict of
            VerifyRaised e \<Rightarrow> (Inl e, ws)
          | BadSignature e \<Rightarrow>
              (let (w, r) = ws;
                   w = on_evidence (record_delivery_rejected (pe_ev env) source e) w
               in (Inr None, record_stage SVerify ORejected [src, (''error'', VStr e)] (w, r)))
          | Verified \<Rightarrow>
              (let (w, r) = ws;
                   w = on_evidence (record_delivery_accepted (pe_ev env) source) w;
                   (w, r) = record_stage SVerify OOk [src] (w, r);
                   (res, st, ls) = rt_normalize rt rq (w_routes w);
                   w = emit ls (w\<lparr>w_routes := st\<rparr>)
               in case res of
                    NormRaised e \<Rightarrow> (Inl e, (w, r))
                  | NormRejected e \<Rightarrow>
                      (Inr None, record_stage SNormalize ORejected [src, (''error'', VStr e)] (w, r))
                  | NormIgnored \<Rightarrow>
                      (let w = on_evidence (record_delivery_decision (pe_ev env) source False) w
                       in (Inr None, record_stage SNormalize OIgnored [src] (w, r)))
                  | NormEvent ev \<Rightarrow>
                      (let w = on_evidence (record_delivery_decision (pe_ev env) source True) w;
                           r = r\<lparr>pr_event := Some ev\<rparr>;
                           dl = (''delivery'', VStr (ev_delivery_id ev));
                           (w, r) = record_stage SNormalize OOk
                             [src, dl, (''kind'', VStr (event_kind_value (ev_kind ev)))] (w, r)
                       in case resolve_agent ev (pe_config env) of
                            Inl e \<Rightarrow> (Inr None, record_stage SResolve OFailed [src, dl, (''error'', VStr e)] (w, r))
                          | Inr ag \<Rightarrow>
                              (let r = r\<lparr>pr_agent := Some ag\<rparr> in
                               (Inr (Some (ag, ev)),
                                record_stage SResolve OOk [src, dl, (''agent'', VStr (harness_key ag))] (w, r))))))))"

definition accept ::
  "('w, 'r) penv \<Rightarrow> string \<Rightarrow> inbound_request \<Rightarrow> ('w, 'r) world
    \<Rightarrow> (agent \<times> event) option \<times> ('w, 'r) run_state" where
  "accept env source rq w =
     (case accept_steps env source rq (w, new_result) of
        (Inr pending, ws) \<Rightarrow> (pending, ws)
      | (Inl e, ws) \<Rightarrow>
          (None, record_stage SRoute OFailed [(''source'', VStr source), (''error'', VStr (''unexpected: '' @ e))] ws))"

subsection \<open>The wake\<close>

text \<open>One half of the lifecycle bracket; nothing for a synthetic event.\<close>

definition bookend_line :: "fields \<Rightarrow> string \<Rightarrow> outcome option \<Rightarrow> fields \<Rightarrow> log_line" where
  "bookend_line idf phase oc verdict =
     (if oc = Some OFailed then Warning else Info,
      py_join '' '' (filter (\<lambda>p. p \<noteq> [])
        ([paint (''event='' @ phase), log_fields idf]
         @ (case oc of None \<Rightarrow> [] | Some x \<Rightarrow> [paint (''outcome='' @ outcome_value x)])
         @ [log_fields verdict])))"

definition bookend :: "agent \<Rightarrow> event \<Rightarrow> string \<Rightarrow> outcome option \<Rightarrow> fields \<Rightarrow> ('w, 'r) world \<Rightarrow> ('w, 'r) world" where
  "bookend ag ev phase oc verdict w =
     (if synthetic ev then w else emit [bookend_line (who ag ev) phase oc verdict] w)"

datatype wake_exn = ExStopped string int | ExOther string

record ('w, 'r) attempt_state =
  as_world :: "('w, 'r) world"
  as_duration :: rat
  as_started :: "int option"

text \<open>One attempt: the clocks are read, then the waker answers and the clock is read again.\<close>

definition begin_attempt :: "('w, 'r) penv \<Rightarrow> ('w, 'r) world \<Rightarrow> (int \<times> rat) \<times> ('w, 'r) world" where
  "begin_attempt env w =
     (let (at_start, w) = read_wall env w; (t0, w) = read_mono env w in ((at_start, t0), w))"

definition end_attempt ::
  "('w, 'r) penv \<Rightarrow> agent \<Rightarrow> event \<Rightarrow> int \<Rightarrow> rat \<Rightarrow> ('w, 'r) world
    \<Rightarrow> (wake_result, wake_exn) attempt \<times> ('w, 'r) attempt_state" where
  "end_attempt env ag ev at_start t0 w =
     (let (ans, ls, ext) = pe_waker env ag ev (w_ext w);
          w = emit ls (w\<lparr>w_ext := ext\<rparr>);
          (t1, w) = read_mono env w;
          st = \<lparr>as_world = w, as_duration = t1 - t0, as_started = Some at_start\<rparr>
      in (case ans of
            Woke r \<Rightarrow> Done r
          | WakeFailed msg _ \<Rightarrow> Transient msg
          | Stopped _ sig code \<Rightarrow> Raised (ExStopped sig code)
          | WakeRaised e \<Rightarrow> Raised (ExOther e), st))"

definition attempt_wake ::
  "('w, 'r) penv \<Rightarrow> agent \<Rightarrow> event \<Rightarrow> ('w, 'r) attempt_state
    \<Rightarrow> (wake_result, wake_exn) attempt \<times> ('w, 'r) attempt_state" where
  "attempt_wake env ag ev st =
     (let ((at_start, t0), w) = begin_attempt env (as_world st) in end_attempt env ag ev at_start t0 w)"

definition report_retry ::
  "agent \<Rightarrow> event \<Rightarrow> nat \<Rightarrow> nat \<Rightarrow> string \<Rightarrow> ('w, 'r) attempt_state \<Rightarrow> ('w, 'r) attempt_state" where
  "report_retry ag ev failed tot msg st = st\<lparr>as_world := emit [(Warning, paint ''event=wake_retry'' @ '' ''
     @ log_fields ([(''attempt'', VStr (str_int (int failed) @ ''/'' @ str_int (int tot)))] @ who ag ev
         @ [(''duration'', VStr (seconds (as_duration st))), (''error'', VStr msg)]))] (as_world st)\<rparr>"

definition sleep_retry :: "rat \<Rightarrow> ('w, 'r) attempt_state \<Rightarrow> ('w, 'r) attempt_state" where
  "sleep_retry d st = st\<lparr>as_world := (as_world st)\<lparr>w_slept := w_slept (as_world st) @ [d]\<rparr>\<rparr>"

definition cover :: "agent \<Rightarrow> event \<Rightarrow> int option \<Rightarrow> ('w, 'r) world \<Rightarrow> ('w, 'r) world" where
  "cover ag ev started w = (case started of None \<Rightarrow> w
     | Some t \<Rightarrow> w\<lparr>w_cov := record_coverage (harness_key ag) ev t (w_cov w)\<rparr>)"

text \<open>How the loop of attempts ends: what is recorded, and the bracket closed on every branch.\<close>

definition end_wake ::
  "('w, 'r) penv \<Rightarrow> agent \<Rightarrow> event \<Rightarrow> nat \<Rightarrow> (wake_result, wake_exn) retry_result \<Rightarrow> ('w, 'r) attempt_state
    \<Rightarrow> presult \<Rightarrow> (string + bool) \<times> ('w, 'r) run_state" where
  "end_wake env ag ev attempts res st r =
   (let idf = who ag ev;
        w = as_world st;
        dur = (''duration'', VStr (seconds (as_duration st)));
        raised = (\<lambda>e. (Inl e, (bookend ag ev ''wake_end'' (Some OFailed)
                   [dur, (''error'', VStr ''unexpected: the wake path raised'')] w, r)))
    in case res of
         Returned k \<Rightarrow>
           (let w = on_evidence (record_wake_ok (pe_ev env) (harness_key ag) (ev_delivery_id ev)
                      (ev_source ev) (synthetic ev)) w;
                w = cover ag ev (as_started st) w;
                how = [(''exit'', VInt (wr_exit k)), dur];
                (w, r) = record_stage SWake OOk (idf @ how) (w, r)
            in (Inr True, (bookend ag ev ''wake_end'' (Some OOk) how w, r)))
       | Exhausted n msg \<Rightarrow>
           (let w = on_evidence (record_wake_failed (pe_ev env) (harness_key ag) msg
                      (ev_source ev) (synthetic ev)) w;
                how = [(''attempts'', VInt (int attempts)), dur, (''error'', VStr msg)];
                (w, r) = record_stage SWake OFailed (idf @ how) (w, r)
            in (Inr False, (bookend ag ev ''wake_end'' (Some OFailed) how w, r)))
       | Propagated (ExStopped sig code) \<Rightarrow>
           (let stop = [(''signal'', VStr sig), (''exit'', VInt code), dur];
                w = emit [(Warning, paint ''event=wake_stopped'' @ '' '' @ log_fields (idf @ stop))] w;
                w = cover ag ev (as_started st) w;
                (w, r) = record_stage SWake OStopped (idf @ stop) (w, r)
            in (Inr True, (bookend ag ev ''wake_end'' (Some OStopped) stop w, r)))
       | Propagated (ExOther e) \<Rightarrow> raised e
       | BadAttempts \<Rightarrow> raised (''attempts must be >= 1, got '' @ str_int (int attempts)))"

text \<open>A synthetic event is attempted once.\<close>

definition attempts_for :: "('w, 'r) penv \<Rightarrow> event \<Rightarrow> nat" where
  "attempts_for env ev = (if synthetic ev then 1 else pe_attempts env)"

text \<open>\<open>Inr True\<close>: woken or stopped, the delivery is done.\<close>

definition dispatch_wake ::
  "('w, 'r) penv \<Rightarrow> agent \<Rightarrow> event \<Rightarrow> ('w, 'r) run_state \<Rightarrow> (string + bool) \<times> ('w, 'r) run_state" where
  "dispatch_wake env ag ev ws =
   (let (w, r) = ws;
        w = bookend ag ev ''wake_start'' None [] w;
        (res, st) = with_retry (attempt_wake env ag ev) (report_retry ag ev) sleep_retry (attempts_for env ev) (1 / 2)
                      \<lparr>as_world = w, as_duration = 0, as_started = None\<rparr>
    in end_wake env ag ev (attempts_for env ev) res st r)"

subsection \<open>The slow half\<close>

definition recheck :: "('w, 'r) penv \<Rightarrow> event \<Rightarrow> ('w, 'r) world \<Rightarrow> string + string option" where
  "recheck env ev w = (case get_route (pe_registry env) (ev_source ev) of
     Inl _ \<Rightarrow> Inr None | Inr rt \<Rightarrow> route_recheck rt ev (w_routes w))"

definition decide_later :: "event \<Rightarrow> delivery_decision \<Rightarrow> fields \<Rightarrow> ('w, 'r) run_state \<Rightarrow> ('w, 'r) run_state" where
  "decide_later ev dec detail ws =
     (emit [log_delivery_decision (ev_source ev) (ev_type ev) dec (Some (rec_value (ev_recipient ev)))
              (Some (ev_delivery_id ev)) detail] (fst ws), snd ws)"

text \<open>The gates, in order, under the agent's lock. \<open>Some e\<close> is an exception.\<close>

definition gate_breaker ::
  "('w, 'r) penv \<Rightarrow> agent \<Rightarrow> event \<Rightarrow> ('w, 'r) run_state \<Rightarrow> string option \<times> ('w, 'r) run_state" where
  "gate_breaker env ag ev ws =
     (let (w, r) = ws;
          (now, w) = read_mono env w;
          (out, b, ls) = admit (pe_breaker env) (pe_breaker_src env) now (harness_key ag)
                           (Some (stream_key ev)) (w_breaker w);
          w = emit ls (w\<lparr>w_breaker := b\<rparr>)
      in if \<not> admitted out
         then (let w = on_evidence (record_wake_refused (pe_ev env) (harness_key ag) (bo_detail out)
                         (ev_source ev) (synthetic ev)) w
               in (None, record_stage SBreaker OIgnored (who ag ev @ [(''reason'', VStr (bo_detail out))]) (w, r)))
         else (case dispatch_wake env ag ev (w, r) of
                 (Inl e, ws) \<Rightarrow> (Some e, ws)
               | (Inr done, (w, r)) \<Rightarrow>
                   if done
                   then (let (now, w) = read_mono env w
                         in (None, (w\<lparr>w_dedup := mark (pe_ttl env) now (dedup_key ev) (w_dedup w)\<rparr>, r)))
                   else (None, (w, r))))"

definition gate_lock_file ::
  "('w, 'r) penv \<Rightarrow> agent \<Rightarrow> event \<Rightarrow> ('w, 'r) run_state \<Rightarrow> string option \<times> ('w, 'r) run_state" where
  "gate_lock_file env ag ev ws =
     (let (w, r) = ws;
          (now, w) = read_wall env w
      in case check_lock (pe_lock_env env) (pe_lock_dir env) now (harness_key ag) of
           Inl e \<Rightarrow> (Some e, (w, r))
         | Inr (d, ls) \<Rightarrow>
             (let w = emit ls w in
              if \<not> should_wake d
              then (let w = on_evidence (record_wake_refused (pe_ev env) (harness_key ag) (ld_detail d)
                              (ev_source ev) (synthetic ev)) w
                    in (None, record_stage SWakeLock OIgnored (who ag ev @ [(''reason'', VStr (ld_detail d))]) (w, r)))
              else gate_breaker env ag ev (w, r)))"

definition gate_recheck ::
  "('w, 'r) penv \<Rightarrow> agent \<Rightarrow> event \<Rightarrow> ('w, 'r) run_state \<Rightarrow> string option \<times> ('w, 'r) run_state" where
  "gate_recheck env ag ev ws =
     (case recheck env ev (fst ws) of
        Inl e \<Rightarrow> (Some e, ws)
      | Inr (Some gone) \<Rightarrow>
          (None, decide_later ev DecDropped [(''reason'', VStr gone)]
                   (record_stage SRecheck OIgnored (who ag ev @ [(''reason'', VStr gone)]) ws))
      | Inr None \<Rightarrow> gate_lock_file env ag ev ws)"

definition gate_coalesce ::
  "('w, 'r) penv \<Rightarrow> agent \<Rightarrow> event \<Rightarrow> ('w, 'r) run_state \<Rightarrow> string option \<times> ('w, 'r) run_state" where
  "gate_coalesce env ag ev ws =
     (let (w, r) = ws in
      case covering (harness_key ag) ev (w_cov w) of
        None \<Rightarrow> gate_recheck env ag ev (w, r)
      | Some c \<Rightarrow>
          (let w = on_evidence (record_wake_deduped (pe_ev env) (harness_key ag) (ev_source ev) (synthetic ev)) w in
           case (case ev_occurred_at ev of None \<Rightarrow> Inr None | Some t \<Rightarrow> map_sum id Some (instant env t)) of
             Inl e \<Rightarrow> (Some e, (w, r))
           | Inr occurred \<Rightarrow>
               (case instant env (cov_started_at c) of
                  Inl e \<Rightarrow> (Some e, (w, r))
                | Inr started \<Rightarrow>
                    (None, decide_later ev DecCoalesced [(''into'', VStr (cov_delivery c))]
                       (record_stage SCoalesce OIgnored
                          (who ag ev @ [(''into'', VStr (cov_delivery c)), (''occurred'', opt_str occurred),
                             (''wake_started'', VStr started)]) (w, r))))))"

definition gate_dedup ::
  "('w, 'r) penv \<Rightarrow> agent \<Rightarrow> event \<Rightarrow> ('w, 'r) run_state \<Rightarrow> string option \<times> ('w, 'r) run_state" where
  "gate_dedup env ag ev ws =
     (let (w, r) = ws;
          (now, w) = read_mono env w;
          (dup, d) = seen (pe_ttl env) now (dedup_key ev) (w_dedup w);
          w = w\<lparr>w_dedup := d\<rparr>
      in if dup
         then (let w = on_evidence (record_wake_deduped (pe_ev env) (harness_key ag) (ev_source ev) (synthetic ev)) w
               in (None, record_stage SDedup OIgnored (who ag ev @ [(''reason'', VStr duplicate_delivery)]) (w, r)))
         else gate_coalesce env ag ev (w, r))"

text \<open>
  \<open>execute\<close>: acquire the agent's lock (\<open>None\<close>: it is held, the thread waits), run the
  gates, release the lock on every path, record an escaped exception.
\<close>

definition execute ::
  "('w, 'r) penv \<Rightarrow> agent \<Rightarrow> event \<Rightarrow> ('w, 'r) run_state \<Rightarrow> ('w, 'r) run_state option" where
  "execute env ag ev ws =
     (let (w, r) = ws;
          (got, locks) = try_acquire (harness_key ag) (w_locks w)
      in if \<not> got then None
         else (let (exn, (w, r)) = gate_dedup env ag ev
                     (record_stage SLock OOk (who ag ev) (w\<lparr>w_locks := locks\<rparr>, r));
                   (exn, w) = (case release_lock (harness_key ag) (w_locks w) of
                       Inr ls \<Rightarrow> (exn, w\<lparr>w_locks := ls\<rparr>) | Inl e \<Rightarrow> (Some e, w))
               in Some (case exn of None \<Rightarrow> (w, r)
                        | Some e \<Rightarrow> record_stage SWake OFailed (who ag ev @ [(''error'', VStr (''unexpected: '' @ e))]) (w, r))))"

definition handle ::
  "('w, 'r) penv \<Rightarrow> string \<Rightarrow> inbound_request \<Rightarrow> ('w, 'r) world \<Rightarrow> ('w, 'r) run_state option" where
  "handle env source rq w =
     (case accept env source rq w of
        (None, ws) \<Rightarrow> Some ws
      | (Some (ag, ev), ws) \<Rightarrow> execute env ag ev ws)"

end
