(* ===== verification/Pipeline_Frame.thy ===== *)
theory Pipeline_Frame
  imports Pipeline
begin

text \<open>
  What each step of the pipeline leaves alone, and the one way every execution ends: with
  a decisive record after the lock's.
\<close>

subsection \<open>Projections\<close>

lemma emit_simps [simp]:
  "w_ext (emit ls w) = w_ext w" "w_routes (emit ls w) = w_routes w" "w_locks (emit ls w) = w_locks w"
  "w_breaker (emit ls w) = w_breaker w" "w_dedup (emit ls w) = w_dedup w" "w_cov (emit ls w) = w_cov w"
  "w_ev (emit ls w) = w_ev w" "w_mono (emit ls w) = w_mono w" "w_wall (emit ls w) = w_wall w"
  "w_slept (emit ls w) = w_slept w" "w_log (emit ls w) = w_log w @ ls"
  by (simp_all add: emit_def)

lemma on_evidence_simps [simp]:
  "w_ext (on_evidence f w) = w_ext w" "w_routes (on_evidence f w) = w_routes w"
  "w_locks (on_evidence f w) = w_locks w" "w_breaker (on_evidence f w) = w_breaker w"
  "w_dedup (on_evidence f w) = w_dedup w" "w_cov (on_evidence f w) = w_cov w"
  "w_ev (on_evidence f w) = f (w_ev w)" "w_mono (on_evidence f w) = w_mono w"
  "w_wall (on_evidence f w) = w_wall w" "w_slept (on_evidence f w) = w_slept w"
  "w_log (on_evidence f w) = w_log w"
  by (simp_all add: on_evidence_def)

lemma read_simps [simp]:
  "w_ext (snd (read_mono env w)) = w_ext w" "w_routes (snd (read_mono env w)) = w_routes w"
  "w_locks (snd (read_mono env w)) = w_locks w" "w_breaker (snd (read_mono env w)) = w_breaker w"
  "w_dedup (snd (read_mono env w)) = w_dedup w" "w_cov (snd (read_mono env w)) = w_cov w"
  "w_ev (snd (read_mono env w)) = w_ev w" "w_mono (snd (read_mono env w)) = Suc (w_mono w)"
  "w_wall (snd (read_mono env w)) = w_wall w" "w_slept (snd (read_mono env w)) = w_slept w"
  "w_log (snd (read_mono env w)) = w_log w" "fst (read_mono env w) = pe_mono env (w_mono w)"
  "w_ext (snd (read_wall env w)) = w_ext w" "w_routes (snd (read_wall env w)) = w_routes w"
  "w_locks (snd (read_wall env w)) = w_locks w" "w_breaker (snd (read_wall env w)) = w_breaker w"
  "w_dedup (snd (read_wall env w)) = w_dedup w" "w_cov (snd (read_wall env w)) = w_cov w"
  "w_ev (snd (read_wall env w)) = w_ev w" "w_mono (snd (read_wall env w)) = w_mono w"
  "w_wall (snd (read_wall env w)) = Suc (w_wall w)" "w_slept (snd (read_wall env w)) = w_slept w"
  "w_log (snd (read_wall env w)) = w_log w" "fst (read_wall env w) = pe_wall env (w_wall w)"
  by (simp_all add: read_mono_def read_wall_def)

lemma record_stage_simps [simp]:
  "fst (record_stage st oc d ws) = emit [record_line st oc d] (fst ws)"
  "pr_records (snd (record_stage st oc d ws)) = pr_records (snd ws)
     @ [\<lparr>sr_stage = st, sr_outcome = oc, sr_detail = log_fields d\<rparr>]"
  "pr_event (snd (record_stage st oc d ws)) = pr_event (snd ws)"
  "pr_agent (snd (record_stage st oc d ws)) = pr_agent (snd ws)"
  "stages (snd (record_stage st oc d ws)) = stages (snd ws) @ [(st, oc)]"
  by (simp_all add: record_stage_def stages_def)

lemma decide_later_simps [simp]:
  "snd (decide_later ev dec d ws) = snd ws"
  "fst (decide_later ev dec d ws) = emit [log_delivery_decision (ev_source ev) (ev_type ev) dec
     (Some (rec_value (ev_recipient ev))) (Some (ev_delivery_id ev)) d] (fst ws)"
  by (simp_all add: decide_later_def)

lemma bookend_simps [simp]:
  "w_ext (bookend ag ev ph oc v w) = w_ext w" "w_routes (bookend ag ev ph oc v w) = w_routes w"
  "w_locks (bookend ag ev ph oc v w) = w_locks w" "w_breaker (bookend ag ev ph oc v w) = w_breaker w"
  "w_dedup (bookend ag ev ph oc v w) = w_dedup w" "w_cov (bookend ag ev ph oc v w) = w_cov w"
  "w_ev (bookend ag ev ph oc v w) = w_ev w" "w_mono (bookend ag ev ph oc v w) = w_mono w"
  "w_wall (bookend ag ev ph oc v w) = w_wall w" "w_slept (bookend ag ev ph oc v w) = w_slept w"
  by (simp_all add: bookend_def)

lemma cover_simps [simp]:
  "w_ext (cover ag ev t w) = w_ext w" "w_routes (cover ag ev t w) = w_routes w"
  "w_locks (cover ag ev t w) = w_locks w" "w_breaker (cover ag ev t w) = w_breaker w"
  "w_dedup (cover ag ev t w) = w_dedup w" "w_ev (cover ag ev t w) = w_ev w"
  "w_mono (cover ag ev t w) = w_mono w" "w_wall (cover ag ev t w) = w_wall w"
  "w_slept (cover ag ev t w) = w_slept w" "w_log (cover ag ev t w) = w_log w"
  by (simp_all add: cover_def split: option.splits)

subsection \<open>The wake\<close>

text \<open>A wake touches neither the gates' memories nor the locks, and only adds lines and readings.\<close>

definition wake_frame :: "('w, 'r) world \<Rightarrow> ('w, 'r) world \<Rightarrow> bool" where
  "wake_frame w w' \<longleftrightarrow> w_locks w' = w_locks w \<and> w_routes w' = w_routes w \<and> w_dedup w' = w_dedup w
     \<and> w_breaker w' = w_breaker w \<and> w_mono w \<le> w_mono w'"

lemma wake_frame_refl [simp]: "wake_frame w w"
  by (simp add: wake_frame_def)

lemma wake_frame_trans: "wake_frame a b \<Longrightarrow> wake_frame b c \<Longrightarrow> wake_frame a c"
  by (simp add: wake_frame_def)

text \<open>The loop of attempts, named.\<close>

definition wake_loop ::
  "('w, 'r) penv \<Rightarrow> agent \<Rightarrow> event \<Rightarrow> ('w, 'r) world
    \<Rightarrow> (wake_result, wake_exn) retry_result \<times> ('w, 'r) attempt_state" where
  "wake_loop env ag ev w = with_retry (attempt_wake env ag ev) (report_retry ag ev) sleep_retry
     (if synthetic ev then 1 else pe_attempts env) (1 / 2)
     \<lparr>as_world = bookend ag ev ''wake_start'' None [] w, as_duration = 0, as_started = None\<rparr>"

lemma attempt_world:
  "as_world (snd (attempt_wake env ag ev st)) =
     (let w = snd (read_mono env (snd (read_wall env (as_world st)))) in
      snd (read_mono env (emit (fst (snd (pe_waker env ag ev (w_ext w))))
        (w\<lparr>w_ext := snd (snd (pe_waker env ag ev (w_ext w)))\<rparr>))))"
  by (simp add: attempt_wake_def begin_attempt_def end_attempt_def case_prod_unfold Let_def)

lemma attempt_started [simp]:
  "as_started (snd (attempt_wake env ag ev st)) = Some (pe_wall env (w_wall (as_world st)))"
  by (simp add: attempt_wake_def begin_attempt_def end_attempt_def case_prod_unfold Let_def)

lemma wake_loop_invariant:
  assumes "wake_loop env ag ev w = (res, st)"
    and "P \<lparr>as_world = bookend ag ev ''wake_start'' None [] w, as_duration = 0, as_started = None\<rparr>"
    and "\<And>s. P s \<Longrightarrow> P (snd (attempt_wake env ag ev s))" and "\<And>k tot m s. P s \<Longrightarrow> P (report_retry ag ev k tot m s)"
    and "\<And>d s. P s \<Longrightarrow> P (sleep_retry d s)"
  shows "P st"
proof (cases "(if synthetic ev then 1 else pe_attempts env) < 1")
  case True
  then show ?thesis using assms(1,2) by (auto simp: wake_loop_def with_retry_def)
next
  case False
  then have "retry_from (attempt_wake env ag ev) (report_retry ag ev) sleep_retry
     (if synthetic ev then 1 else pe_attempts env) (1 / 2) 1
     \<lparr>as_world = bookend ag ev ''wake_start'' None [] w, as_duration = 0, as_started = None\<rparr> = (res, st)"
    using assms(1) by (simp add: wake_loop_def with_retry_def)
  from retry_invariant[OF this assms(2,3,4,5)] show ?thesis by blast
qed

lemma wake_loop_frame:
  assumes "wake_loop env ag ev w = (res, st)"
  shows "wake_frame w (as_world st)"
proof (rule wake_loop_invariant[OF assms, where P = "\<lambda>s. wake_frame w (as_world s)"])
  show "wake_frame w (as_world (snd (attempt_wake env ag ev s)))" if "wake_frame w (as_world s)" for s
    using that by (simp add: attempt_world Let_def wake_frame_def)
qed (simp_all add: wake_frame_def report_retry_def sleep_retry_def)

text \<open>How a dispatch ends: one record, a closed bracket, and a frame.\<close>

lemma dispatch_ends:
  "\<exists>res st. wake_loop env ag ev (fst ws) = (res, st)
     \<and> wake_frame (fst ws) (fst (snd (dispatch_wake env ag ev ws)))
     \<and> w_ext (fst (snd (dispatch_wake env ag ev ws))) = w_ext (as_world st)
     \<and> w_wall (fst (snd (dispatch_wake env ag ev ws))) = w_wall (as_world st)
     \<and> w_slept (fst (snd (dispatch_wake env ag ev ws))) = w_slept (as_world st)
     \<and> (case res of
          Returned k \<Rightarrow> fst (dispatch_wake env ag ev ws) = Inr True
            \<and> stages (snd (snd (dispatch_wake env ag ev ws))) = stages (snd ws) @ [(SWake, OOk)]
            \<and> w_cov (fst (snd (dispatch_wake env ag ev ws))) = w_cov (cover ag ev (as_started st) (as_world st))
            \<and> w_ev (fst (snd (dispatch_wake env ag ev ws))) = record_wake_ok (pe_ev env) (harness_key ag)
                 (ev_delivery_id ev) (ev_source ev) (synthetic ev) (w_ev (as_world st))
        | Exhausted n msg \<Rightarrow> fst (dispatch_wake env ag ev ws) = Inr False
            \<and> stages (snd (snd (dispatch_wake env ag ev ws))) = stages (snd ws) @ [(SWake, OFailed)]
            \<and> w_cov (fst (snd (dispatch_wake env ag ev ws))) = w_cov (as_world st)
            \<and> w_ev (fst (snd (dispatch_wake env ag ev ws))) = record_wake_failed (pe_ev env) (harness_key ag)
                 msg (ev_source ev) (synthetic ev) (w_ev (as_world st))
        | Propagated (ExStopped sig code) \<Rightarrow> fst (dispatch_wake env ag ev ws) = Inr True
            \<and> stages (snd (snd (dispatch_wake env ag ev ws))) = stages (snd ws) @ [(SWake, OStopped)]
            \<and> w_cov (fst (snd (dispatch_wake env ag ev ws))) = w_cov (cover ag ev (as_started st) (as_world st))
            \<and> w_ev (fst (snd (dispatch_wake env ag ev ws))) = w_ev (as_world st)
        | _ \<Rightarrow> (\<exists>e. fst (dispatch_wake env ag ev ws) = Inl e)
            \<and> stages (snd (snd (dispatch_wake env ag ev ws))) = stages (snd ws)
            \<and> w_cov (fst (snd (dispatch_wake env ag ev ws))) = w_cov (as_world st)
            \<and> w_ev (fst (snd (dispatch_wake env ag ev ws))) = w_ev (as_world st))"
proof -
  obtain res st where rs: "wake_loop env ag ev (fst ws) = (res, st)" by (cases "wake_loop env ag ev (fst ws)")
  have fr: "wake_frame (fst ws) (as_world st)" by (rule wake_loop_frame[OF rs])
  have cv: "w_cov (cover ag ev t (emit ls w)) = w_cov (cover ag ev t w)"
    "w_cov (cover ag ev t (on_evidence f w)) = w_cov (cover ag ev t w)" for t ls f and w :: "('a, 'b) world"
    by (simp_all add: cover_def split: option.split)
  note d = dispatch_wake_def[of env ag ev ws] end_wake_def attempts_for_def rs[unfolded wake_loop_def]
  have "case res of
          Returned k \<Rightarrow> True | Exhausted n m \<Rightarrow> True | Propagated e \<Rightarrow> True | BadAttempts \<Rightarrow> True"
    by (simp split: retry_result.split)
  show ?thesis
  proof (cases res)
    case (Propagated e)
    show ?thesis
      by (intro exI[of _ res] exI[of _ st])
        (cases e; use rs fr Propagated in \<open>simp add: d case_prod_unfold Let_def wake_frame_def cv\<close>)
  qed (intro exI[of _ res] exI[of _ st];
      use rs fr in \<open>simp add: d case_prod_unfold Let_def wake_frame_def cv\<close>)+
qed

end
