(* ===== verification/Pipeline_Gates.thy ===== *)
theory Pipeline_Gates
  imports Pipeline_Frame
begin

text \<open>
  The gates as one condition. \<open>wake_allowed\<close> says, over the components alone, that no gate
  stands in the way; an execution dispatches the wake exactly then, and otherwise leaves
  everything a wake would touch as it was.
\<close>

definition wake_allowed :: "('w, 'r) penv \<Rightarrow> agent \<Rightarrow> event \<Rightarrow> ('w, 'r) world \<Rightarrow> bool" where
  "wake_allowed env ag ev w \<longleftrightarrow>
     \<not> fst (seen (pe_ttl env) (pe_mono env (w_mono w)) (dedup_key ev) (w_dedup w))
   \<and> covering (harness_key ag) ev (w_cov w) = None
   \<and> recheck env ev w = Inr None
   \<and> (\<exists>d ls. check_lock (pe_lock_env env) (pe_lock_dir env) (pe_wall env (w_wall w)) (harness_key ag) = Inr (d, ls)
        \<and> should_wake d)
   \<and> admitted (fst (admit (pe_breaker env) (pe_breaker_src env) (pe_mono env (Suc (w_mono w)))
        (harness_key ag) (Some (stream_key ev)) (w_breaker w)))"

text \<open>The dispatch and the mark, as the last gate runs them.\<close>

definition launch ::
  "('w, 'r) penv \<Rightarrow> agent \<Rightarrow> event \<Rightarrow> ('w, 'r) run_state \<Rightarrow> string option \<times> ('w, 'r) run_state" where
  "launch env ag ev ws =
     (case dispatch_wake env ag ev ws of
        (Inl e, ws) \<Rightarrow> (Some e, ws)
      | (Inr done, (w, r)) \<Rightarrow>
          if done
          then (None, (w\<lparr>w_mono := Suc (w_mono w),
                  w_dedup := mark (pe_ttl env) (pe_mono env (w_mono w)) (dedup_key ev) (w_dedup w)\<rparr>, r))
          else (None, (w, r)))"

lemma launch_mark: "(snd (read_mono env w))\<lparr>w_dedup := d\<rparr> = w\<lparr>w_mono := Suc (w_mono w), w_dedup := d\<rparr>"
  by (simp add: read_mono_def)

text \<open>What the open gates hand to the dispatch, from the state they started in.\<close>

definition handed :: "('w, 'r) penv \<Rightarrow> event \<Rightarrow> ('w, 'r) world \<Rightarrow> ('w, 'r) world \<Rightarrow> bool" where
  "handed env ev w wd \<longleftrightarrow> w_ext wd = w_ext w \<and> w_locks wd = w_locks w \<and> w_cov wd = w_cov w
     \<and> w_routes wd = w_routes w \<and> w_ev wd = w_ev w \<and> w_slept wd = w_slept w \<and> w_mono w < w_mono wd
     \<and> w_wall w < w_wall wd
     \<and> w_dedup wd = snd (seen (pe_ttl env) (pe_mono env (w_mono w)) (dedup_key ev) (w_dedup w))"

lemma gate_breaker_open:
  assumes "admitted (fst (admit (pe_breaker env) (pe_breaker_src env) (pe_mono env (w_mono (fst ws)))
        (harness_key ag) (Some (stream_key ev)) (w_breaker (fst ws))))"
  shows "\<exists>wd. gate_breaker env ag ev ws = launch env ag ev (wd, snd ws)
     \<and> w_ext wd = w_ext (fst ws) \<and> w_locks wd = w_locks (fst ws) \<and> w_cov wd = w_cov (fst ws)
     \<and> w_routes wd = w_routes (fst ws) \<and> w_ev wd = w_ev (fst ws) \<and> w_slept wd = w_slept (fst ws)
     \<and> w_mono (fst ws) \<le> w_mono wd \<and> w_wall wd = w_wall (fst ws) \<and> w_dedup wd = w_dedup (fst ws)"
proof -
  let ?ad = "admit (pe_breaker env) (pe_breaker_src env) (pe_mono env (w_mono (fst ws)))
        (harness_key ag) (Some (stream_key ev)) (w_breaker (fst ws))"
  let ?wd = "emit (snd (snd ?ad)) ((snd (read_mono env (fst ws)))\<lparr>w_breaker := fst (snd ?ad)\<rparr>)"
  have "gate_breaker env ag ev ws = launch env ag ev (?wd, snd ws)"
    using assms
    by (cases "dispatch_wake env ag ev (?wd, snd ws)")
      (auto simp: gate_breaker_def launch_def case_prod_unfold Let_def launch_mark split: sum.split)
  then show ?thesis by (intro exI[of _ ?wd]) simp
qed

lemma gates_open:
  assumes "wake_allowed env ag ev (fst ws)"
  shows "\<exists>wd. gate_dedup env ag ev ws = launch env ag ev (wd, snd ws) \<and> handed env ev (fst ws) wd"
proof -
  let ?w = "fst ws"
  let ?w1 = "(snd (read_mono env ?w))\<lparr>w_dedup := snd (seen (pe_ttl env) (pe_mono env (w_mono ?w)) (dedup_key ev) (w_dedup ?w))\<rparr>"
  from assms obtain d ls where a:
    "\<not> fst (seen (pe_ttl env) (pe_mono env (w_mono ?w)) (dedup_key ev) (w_dedup ?w))"
    "covering (harness_key ag) ev (w_cov ?w) = None" "recheck env ev ?w = Inr None"
    "check_lock (pe_lock_env env) (pe_lock_dir env) (pe_wall env (w_wall ?w)) (harness_key ag) = Inr (d, ls)"
    "should_wake d"
    "admitted (fst (admit (pe_breaker env) (pe_breaker_src env) (pe_mono env (Suc (w_mono ?w)))
        (harness_key ag) (Some (stream_key ev)) (w_breaker ?w)))"
    unfolding wake_allowed_def by blast
  have "gate_dedup env ag ev ws = gate_coalesce env ag ev (?w1, snd ws)"
    using a(1) by (simp add: gate_dedup_def case_prod_unfold Let_def)
  also have "\<dots> = gate_recheck env ag ev (?w1, snd ws)"
    using a(2) by (simp add: gate_coalesce_def)
  also have "\<dots> = gate_lock_file env ag ev (?w1, snd ws)"
  proof -
    have "recheck env ev ?w1 = Inr None" using a(3) by (simp add: recheck_def split: sum.splits)
    then show ?thesis by (simp add: gate_recheck_def)
  qed
  also have "\<dots> = gate_breaker env ag ev (emit ls (snd (read_wall env ?w1)), snd ws)"
    using a(4,5) by (simp add: gate_lock_file_def case_prod_unfold Let_def)
  finally have g: "gate_dedup env ag ev ws = gate_breaker env ag ev (emit ls (snd (read_wall env ?w1)), snd ws)" .
  have "admitted (fst (admit (pe_breaker env) (pe_breaker_src env)
      (pe_mono env (w_mono (fst (emit ls (snd (read_wall env ?w1)), snd ws))))
        (harness_key ag) (Some (stream_key ev)) (w_breaker (fst (emit ls (snd (read_wall env ?w1)), snd ws)))))"
    using a(6) by simp
  from gate_breaker_open[OF this] show ?thesis
    unfolding g handed_def by (auto simp: Suc_le_eq)
qed

text \<open>How a closed gate ends an execution.\<close>

definition closed_end :: "('w, 'r) penv \<Rightarrow> event \<Rightarrow> ('w, 'r) run_state \<Rightarrow> string option \<Rightarrow> ('w, 'r) run_state \<Rightarrow> bool" where
  "closed_end env ev ws exn ws' \<longleftrightarrow> w_ext (fst ws') = w_ext (fst ws) \<and> w_locks (fst ws') = w_locks (fst ws)
     \<and> w_cov (fst ws') = w_cov (fst ws) \<and> w_routes (fst ws') = w_routes (fst ws)
     \<and> w_slept (fst ws') = w_slept (fst ws) \<and> w_mono (fst ws) < w_mono (fst ws')
     \<and> w_dedup (fst ws') = snd (seen (pe_ttl env) (pe_mono env (w_mono (fst ws))) (dedup_key ev) (w_dedup (fst ws)))
     \<and> (case exn of
          None \<Rightarrow> (\<exists>st\<in>{SDedup, SCoalesce, SRecheck, SWakeLock, SBreaker}.
                     stages (snd ws') = stages (snd ws) @ [(st, OIgnored)])
        | Some _ \<Rightarrow> stages (snd ws') = stages (snd ws))"

lemma gate_breaker_closed:
  assumes "\<not> admitted (fst (admit (pe_breaker env) (pe_breaker_src env) (pe_mono env (w_mono (fst ws)))
        (harness_key ag) (Some (stream_key ev)) (w_breaker (fst ws))))"
    and "gate_breaker env ag ev ws = (exn, ws')"
  shows "exn = None \<and> w_ext (fst ws') = w_ext (fst ws) \<and> w_locks (fst ws') = w_locks (fst ws)
     \<and> w_cov (fst ws') = w_cov (fst ws) \<and> w_routes (fst ws') = w_routes (fst ws)
     \<and> w_slept (fst ws') = w_slept (fst ws) \<and> w_mono (fst ws) \<le> w_mono (fst ws') \<and> w_dedup (fst ws') = w_dedup (fst ws)
     \<and> stages (snd ws') = stages (snd ws) @ [(SBreaker, OIgnored)]"
  using assms by (cases ws) (auto simp: gate_breaker_def case_prod_unfold Let_def)

lemma gates_closed:
  assumes closed: "\<not> wake_allowed env ag ev (fst ws)" and run: "gate_dedup env ag ev ws = (exn, ws')"
  shows "closed_end env ev ws exn ws'"
proof -
  let ?w = "fst ws"
  let ?w1 = "(snd (read_mono env ?w))\<lparr>w_dedup := snd (seen (pe_ttl env) (pe_mono env (w_mono ?w)) (dedup_key ev) (w_dedup ?w))\<rparr>"
  show ?thesis
  proof (cases "fst (seen (pe_ttl env) (pe_mono env (w_mono ?w)) (dedup_key ev) (w_dedup ?w))")
    case True
    then show ?thesis using run
      by (auto simp: gate_dedup_def case_prod_unfold Let_def closed_end_def)
  next
    case fresh: False
    then have r1: "gate_coalesce env ag ev (?w1, snd ws) = (exn, ws')"
      using run by (simp add: gate_dedup_def case_prod_unfold Let_def)
    show ?thesis
    proof (cases "covering (harness_key ag) ev (w_cov ?w)")
      case (Some c)
      then show ?thesis using r1
        by (auto simp: gate_coalesce_def Let_def closed_end_def split: sum.splits)
    next
      case None
      then have r2: "gate_recheck env ag ev (?w1, snd ws) = (exn, ws')"
        using r1 by (simp add: gate_coalesce_def)
      have rc: "recheck env ev ?w1 = recheck env ev ?w" by (simp add: recheck_def split: sum.split)
      show ?thesis
      proof (cases "recheck env ev ?w = Inr None")
        case False
        then show ?thesis using r2 rc
          by (auto simp: gate_recheck_def closed_end_def split: sum.splits option.splits)
      next
        case True
        then have r3: "gate_lock_file env ag ev (?w1, snd ws) = (exn, ws')"
          using r2 rc by (simp add: gate_recheck_def)
        show ?thesis
        proof (cases "\<exists>d ls. check_lock (pe_lock_env env) (pe_lock_dir env) (pe_wall env (w_wall ?w)) (harness_key ag)
            = Inr (d, ls) \<and> should_wake d")
          case False
          then show ?thesis using r3
            by (auto simp: gate_lock_file_def case_prod_unfold Let_def closed_end_def split: sum.splits if_splits)
        next
          case ok: True
          then obtain d ls where d: "check_lock (pe_lock_env env) (pe_lock_dir env) (pe_wall env (w_wall ?w))
            (harness_key ag) = Inr (d, ls)" "should_wake d" by blast
          then have r4: "gate_breaker env ag ev (emit ls (snd (read_wall env ?w1)), snd ws) = (exn, ws')"
            using r3 by (simp add: gate_lock_file_def case_prod_unfold Let_def)
          have na: "\<not> admitted (fst (admit (pe_breaker env) (pe_breaker_src env) (pe_mono env (Suc (w_mono ?w)))
              (harness_key ag) (Some (stream_key ev)) (w_breaker ?w)))"
            using closed fresh None True ok unfolding wake_allowed_def by blast
          have "\<not> admitted (fst (admit (pe_breaker env) (pe_breaker_src env)
              (pe_mono env (w_mono (fst (emit ls (snd (read_wall env ?w1)), snd ws))))
              (harness_key ag) (Some (stream_key ev)) (w_breaker (fst (emit ls (snd (read_wall env ?w1)), snd ws)))))"
            using na by simp
          from gate_breaker_closed[OF this r4] show ?thesis by (auto simp: closed_end_def)
        qed
      qed
    qed
  qed
qed

subsection \<open>The whole slow half\<close>

lemma dispatch_stages:
  "wake_frame (fst ws) (fst (snd (dispatch_wake env ag ev ws)))
   \<and> ((\<exists>e. fst (dispatch_wake env ag ev ws) = Inl e
          \<and> stages (snd (snd (dispatch_wake env ag ev ws))) = stages (snd ws))
      \<or> (\<exists>oc\<in>{OOk, OFailed, OStopped}. fst (dispatch_wake env ag ev ws) = Inr (oc \<noteq> OFailed)
          \<and> stages (snd (snd (dispatch_wake env ag ev ws))) = stages (snd ws) @ [(SWake, oc)]))"
proof -
  from dispatch_ends[where env = env and ag = ag and ev = ev and ws = ws] show ?thesis
    by (elim exE conjE) (auto split: retry_result.splits wake_exn.splits)
qed

lemma launch_frame:
  assumes "launch env ag ev ws = (exn, ws')"
  shows "w_locks (fst ws') = w_locks (fst ws) \<and> w_routes (fst ws') = w_routes (fst ws)
     \<and> w_mono (fst ws) \<le> w_mono (fst ws')
     \<and> (case exn of
          None \<Rightarrow> (\<exists>oc. stages (snd ws') = stages (snd ws) @ [(SWake, oc)] \<and> oc \<in> {OOk, OFailed, OStopped}
             \<and> fst (dispatch_wake env ag ev ws) = Inr (oc \<noteq> OFailed)
             \<and> (if oc = OFailed then w_dedup (fst ws') = w_dedup (fst ws)
                else (\<exists>n. w_mono (fst ws) \<le> n \<and> w_mono (fst ws') = Suc n \<and>
                  w_dedup (fst ws') = mark (pe_ttl env) (pe_mono env n) (dedup_key ev) (w_dedup (fst ws)))))
        | Some _ \<Rightarrow> stages (snd ws') = stages (snd ws) \<and> w_dedup (fst ws') = w_dedup (fst ws))"
proof -
  obtain x w r where x: "dispatch_wake env ag ev ws = (x, (w, r))" by (metis surj_pair)
  from dispatch_stages[of ws env ag ev] show ?thesis
  proof (elim conjE disjE exE bexE)
    fix e
    assume "wake_frame (fst ws) (fst (snd (dispatch_wake env ag ev ws)))"
      "fst (dispatch_wake env ag ev ws) = Inl e"
      "stages (snd (snd (dispatch_wake env ag ev ws))) = stages (snd ws)"
    then show ?thesis using assms by (auto simp: x launch_def wake_frame_def)
  next
    fix oc
    assume "wake_frame (fst ws) (fst (snd (dispatch_wake env ag ev ws)))" "oc \<in> {OOk, OFailed, OStopped}"
      "fst (dispatch_wake env ag ev ws) = Inr (oc \<noteq> OFailed)"
      "stages (snd (snd (dispatch_wake env ag ev ws))) = stages (snd ws) @ [(SWake, oc)]"
    note f = this
    show ?thesis
    proof (cases "oc = OFailed")
      case True
      then have "exn = None" "ws' = (w, r)" using f(3) assms by (simp_all add: x launch_def)
      then show ?thesis using f True by (simp add: x wake_frame_def)
    next
      case False
      then have e: "exn = None" "ws' = (w\<lparr>w_mono := Suc (w_mono w),
                  w_dedup := mark (pe_ttl env) (pe_mono env (w_mono w)) (dedup_key ev) (w_dedup w)\<rparr>, r)"
        using f(3) assms by (simp_all add: x launch_def)
      have "w_mono (fst ws) \<le> w_mono w" "w_dedup w = w_dedup (fst ws)" using f(1) by (simp_all add: x wake_frame_def)
      then show ?thesis using f e False by (simp add: x wake_frame_def)
    qed
  qed
qed

lemma wake_allowed_locked [simp]:
  "wake_allowed env ag ev (emit ls (w\<lparr>w_locks := l\<rparr>)) = wake_allowed env ag ev w"
proof -
  have "recheck env ev (emit ls (w\<lparr>w_locks := l\<rparr>)) = recheck env ev w"
    by (simp add: recheck_def split: sum.split)
  then show ?thesis by (simp add: wake_allowed_def)
qed

text \<open>An execution of a free agent, in terms of its gates.\<close>

lemma execute_unfold:
  assumes "\<not> holds_lock (harness_key ag) (w_locks w)"
  obtains locks exn w1 r1 ls where
    "try_acquire (harness_key ag) (w_locks w) = (True, locks)"
    "gate_dedup env ag ev (record_stage SLock OOk (who ag ev) (w\<lparr>w_locks := locks\<rparr>, r)) = (exn, (w1, r1))"
    "w_locks w1 = locks" "release_lock (harness_key ag) locks = Inr ls"
    "\<not> holds_lock (harness_key ag) ls" "\<forall>j. j \<noteq> harness_key ag \<longrightarrow> holds_lock j ls = holds_lock j (w_locks w)"
    "execute env ag ev (w, r) = Some (case exn of None \<Rightarrow> (w1\<lparr>w_locks := ls\<rparr>, r1)
        | Some e \<Rightarrow> record_stage SWake OFailed (who ag ev @ [(''error'', VStr (''unexpected: '' @ e))]) (w1\<lparr>w_locks := ls\<rparr>, r1))"
proof -
  obtain locks where locks: "try_acquire (harness_key ag) (w_locks w) = (True, locks)"
    using try_acquire_free[OF assms] by simp
  let ?ws = "record_stage SLock OOk (who ag ev) (w\<lparr>w_locks := locks\<rparr>, r)"
  obtain exn w1 r1 where g: "gate_dedup env ag ev ?ws = (exn, (w1, r1))" by (metis surj_pair)
  have wl: "w_locks w1 = locks"
  proof (cases "wake_allowed env ag ev (fst ?ws)")
    case True
    from gates_open[OF this] obtain wd where wd: "launch env ag ev (wd, snd ?ws) = (exn, (w1, r1))"
      "handed env ev (fst ?ws) wd" unfolding g by metis
    from launch_frame[OF wd(1)] wd(2) show ?thesis by (simp add: handed_def)
  next
    case False
    from gates_closed[OF this g] show ?thesis by (simp add: closed_end_def)
  qed
  from release_acquired[OF assms locks] obtain ls where ls: "release_lock (harness_key ag) locks = Inr ls"
    "\<not> holds_lock (harness_key ag) ls" "\<forall>j. j \<noteq> harness_key ag \<longrightarrow> holds_lock j ls = holds_lock j (w_locks w)"
    by blast
  have "execute env ag ev (w, r) = Some (case exn of None \<Rightarrow> (w1\<lparr>w_locks := ls\<rparr>, r1)
        | Some e \<Rightarrow> record_stage SWake OFailed (who ag ev @ [(''error'', VStr (''unexpected: '' @ e))]) (w1\<lparr>w_locks := ls\<rparr>, r1))"
    by (simp add: execute_def locks g wl ls(1))
  with locks g wl ls show thesis by (rule that)
qed

end
