(* ===== verification/Pipeline_Props.thy ===== *)
theory Pipeline_Props
  imports Pipeline_Gates
begin

text \<open>
  The promises of the slow half: every execution is decisive and frees its lock, no wake
  passes a closed gate, a delivery that woke is not woken again, and a queue of deliveries
  that one wake has read costs no further wake.
\<close>

subsection \<open>One decisive record, and the lock released\<close>

lemma execute_result:
  "if holds_lock (harness_key ag) (w_locks w) then execute env ag ev (w, r) = None
   else (\<exists>w' r' st oc. execute env ag ev (w, r) = Some (w', r')
     \<and> (\<forall>j. holds_lock j (w_locks w') = holds_lock j (w_locks w))
     \<and> stages r' = stages r @ [(SLock, OOk), (st, oc)]
     \<and> (if st = SWake then oc \<in> {OOk, OFailed, OStopped}
        else oc = OIgnored \<and> st \<in> {SDedup, SCoalesce, SRecheck, SWakeLock, SBreaker}))"
proof (cases "holds_lock (harness_key ag) (w_locks w)")
  case True
  then show ?thesis by (simp add: execute_def try_acquire_held)
next
  case False
  obtain locks exn w1 r1 ls where
    "try_acquire (harness_key ag) (w_locks w) = (True, locks)" and
    e1: "gate_dedup env ag ev (record_stage SLock OOk (who ag ev) (w\<lparr>w_locks := locks\<rparr>, r)) = (exn, (w1, r1))" and
    "w_locks w1 = locks" "release_lock (harness_key ag) locks = Inr ls" and
    e2: "\<not> holds_lock (harness_key ag) ls" and e3: "\<forall>j. j \<noteq> harness_key ag \<longrightarrow> holds_lock j ls = holds_lock j (w_locks w)" and
    e4: "execute env ag ev (w, r) = Some (case exn of None \<Rightarrow> (w1\<lparr>w_locks := ls\<rparr>, r1)
        | Some e \<Rightarrow> record_stage SWake OFailed (who ag ev @ [(''error'', VStr (''unexpected: '' @ e))]) (w1\<lparr>w_locks := ls\<rparr>, r1))"
    by (rule execute_unfold[OF False, of env ev r])
  let ?ws = "record_stage SLock OOk (who ag ev) (w\<lparr>w_locks := locks\<rparr>, r)"
  have lk: "\<forall>j. holds_lock j ls = holds_lock j (w_locks w)" using e2 e3 False by metis
  have st: "(\<exists>e. exn = Some e \<and> stages r1 = stages (snd ?ws))
     \<or> (exn = None \<and> (\<exists>st oc. stages r1 = stages (snd ?ws) @ [(st, oc)]
     \<and> (if st = SWake then oc \<in> {OOk, OFailed, OStopped}
        else oc = OIgnored \<and> st \<in> {SDedup, SCoalesce, SRecheck, SWakeLock, SBreaker})))"
  proof (cases "wake_allowed env ag ev (fst ?ws)")
    case True
    from gates_open[OF this] obtain wd where "launch env ag ev (wd, snd ?ws) = (exn, (w1, r1))"
      unfolding e1 by metis
    from launch_frame[OF this] show ?thesis by (cases exn) auto
  next
    case False
    from gates_closed[OF False e1] show ?thesis by (cases exn) (auto simp: closed_end_def)
  qed
  show ?thesis
  proof (cases exn)
    case None
    with st obtain st oc where "stages r1 = stages r @ [(SLock, OOk), (st, oc)]"
      "if st = SWake then oc \<in> {OOk, OFailed, OStopped}
        else oc = OIgnored \<and> st \<in> {SDedup, SCoalesce, SRecheck, SWakeLock, SBreaker}" by auto
    with None e4 lk False show ?thesis by (intro if_not_P[THEN iffD2]) auto
  next
    case (Some x)
    with st have "stages r1 = stages r @ [(SLock, OOk)]" by auto
    let ?out = "record_stage SWake OFailed (who ag ev @ [(''error'', VStr (''unexpected: '' @ x))])
      (w1\<lparr>w_locks := ls\<rparr>, r1)"
    obtain w' r' where o: "?out = (w', r')" by (metis surj_pair)
    have "execute env ag ev (w, r) = Some (w', r')" using e4 unfolding Some option.case o .
    moreover have "stages r' = stages r @ [(SLock, OOk), (SWake, OFailed)]"
      using \<open>stages r1 = stages r @ [(SLock, OOk)]\<close> arg_cong[OF o, of "\<lambda>x. stages (snd x)"] by simp
    moreover have "\<forall>j. holds_lock j (w_locks w') = holds_lock j (w_locks w)"
      using lk arg_cong[OF o, of "\<lambda>x. w_locks (fst x)"] by simp
    ultimately show ?thesis using False by auto
  qed
qed

text \<open>
  C14. \<open>execute\<close> is total and decisive: on a held lock it waits, and otherwise, whatever
  the routes, the lock file, the clocks and the waker do (exceptions included), it adds
  exactly two records, the lock's and one that names the gate that stopped the delivery
  or how the wake ended, and leaves every agent's lock as it found it.
\<close>

theorem execute_decisive:
  "if holds_lock (harness_key ag) (w_locks w) then execute env ag ev (w, r) = None
   else (\<exists>w' r' st oc. execute env ag ev (w, r) = Some (w', r')
     \<and> (\<forall>j. holds_lock j (w_locks w') = holds_lock j (w_locks w))
     \<and> stages r' = stages r @ [(SLock, OOk), (st, oc)]
     \<and> (if st = SWake then oc \<in> {OOk, OFailed, OStopped}
        else oc = OIgnored \<and> st \<in> {SDedup, SCoalesce, SRecheck, SWakeLock, SBreaker}))"
  by (rule execute_result)

subsection \<open>No wake passes a closed gate\<close>

text \<open>An execution as its gates, seen from outside: the exception handler changes nothing else.\<close>

lemma execute_gates:
  assumes "execute env ag ev (w, r) = Some (w', r')"
  obtains locks exn w1 r1 where
    "gate_dedup env ag ev (record_stage SLock OOk (who ag ev) (w\<lparr>w_locks := locks\<rparr>, r)) = (exn, (w1, r1))"
    "w_ext w' = w_ext w1" "w_cov w' = w_cov w1" "w_dedup w' = w_dedup w1" "w_mono w' = w_mono w1"
    "w_wall w' = w_wall w1" "w_slept w' = w_slept w1" "w_routes w' = w_routes w1"
    "(exn = None \<and> r' = r1) \<or> (exn \<noteq> None \<and> stages r' = stages r1 @ [(SWake, OFailed)])"
proof -
  have free: "\<not> holds_lock (harness_key ag) (w_locks w)"
    using assms by (auto simp: execute_def try_acquire_held)
  obtain locks exn w1 r1 ls where
    "try_acquire (harness_key ag) (w_locks w) = (True, locks)" and
    g: "gate_dedup env ag ev (record_stage SLock OOk (who ag ev) (w\<lparr>w_locks := locks\<rparr>, r)) = (exn, (w1, r1))" and
    "w_locks w1 = locks" "release_lock (harness_key ag) locks = Inr ls" "\<not> holds_lock (harness_key ag) ls"
    "\<forall>j. j \<noteq> harness_key ag \<longrightarrow> holds_lock j ls = holds_lock j (w_locks w)" and
    e: "execute env ag ev (w, r) = Some (case exn of None \<Rightarrow> (w1\<lparr>w_locks := ls\<rparr>, r1)
        | Some e \<Rightarrow> record_stage SWake OFailed (who ag ev @ [(''error'', VStr (''unexpected: '' @ e))]) (w1\<lparr>w_locks := ls\<rparr>, r1))"
    by (rule execute_unfold[OF free, of env ev r])
  show thesis
  proof (cases exn)
    case None
    with e assms have "w' = w1\<lparr>w_locks := ls\<rparr>" "r' = r1" by simp_all
    with that[OF g] None show thesis by simp
  next
    case (Some x)
    let ?out = "record_stage SWake OFailed (who ag ev @ [(''error'', VStr (''unexpected: '' @ x))])
      (w1\<lparr>w_locks := ls\<rparr>, r1)"
    have o: "?out = (w', r')" using e assms unfolding Some option.case by simp
    have w': "w' = emit [record_line SWake OFailed (who ag ev @ [(''error'', VStr (''unexpected: '' @ x))])] (w1\<lparr>w_locks := ls\<rparr>)"
      using arg_cong[OF o, of fst] by simp
    have "stages r' = stages r1 @ [(SWake, OFailed)]" using arg_cong[OF o, of "\<lambda>x. stages (snd x)"] by simp
    with that[OF g] Some show thesis by (simp add: w')
  qed
qed

lemma closed_gate_frame:
  assumes "execute env ag ev (w, r) = Some (w', r')" and "\<not> wake_allowed env ag ev w"
  shows "w_ext w' = w_ext w \<and> w_cov w' = w_cov w \<and> w_slept w' = w_slept w \<and> w_mono w \<le> w_mono w'
     \<and> w_dedup w' = snd (seen (pe_ttl env) (pe_mono env (w_mono w)) (dedup_key ev) (w_dedup w))
     \<and> (\<forall>k. seen_at (w_dedup w') k = None \<or> seen_at (w_dedup w') k = seen_at (w_dedup w) k)
     \<and> (SWake, OOk) \<notin> set (drop (length (stages r)) (stages r'))"
proof -
  obtain locks exn w1 r1 where
    g: "gate_dedup env ag ev (record_stage SLock OOk (who ag ev) (w\<lparr>w_locks := locks\<rparr>, r)) = (exn, (w1, r1))"
    and f: "w_ext w' = w_ext w1" "w_cov w' = w_cov w1" "w_dedup w' = w_dedup w1" "w_mono w' = w_mono w1"
    "w_wall w' = w_wall w1" "w_slept w' = w_slept w1" "w_routes w' = w_routes w1"
    and s: "(exn = None \<and> r' = r1) \<or> (exn \<noteq> None \<and> stages r' = stages r1 @ [(SWake, OFailed)])"
    by (rule execute_gates[OF assms(1)])
  have "\<not> wake_allowed env ag ev (fst (record_stage SLock OOk (who ag ev) (w\<lparr>w_locks := locks\<rparr>, r)))"
    using assms(2) by simp
  from gates_closed[OF this g] have c: "closed_end env ev (record_stage SLock OOk (who ag ev) (w\<lparr>w_locks := locks\<rparr>, r)) exn (w1, r1)" .
  then have "seen_at (w_dedup w1) k = None \<or> seen_at (w_dedup w1) k = seen_at (w_dedup w) k" for k
    by (simp add: closed_end_def seen_simps(2))
  moreover have "(SWake, OOk) \<notin> set (drop (length (stages r)) (stages r'))"
    using c s by (cases exn) (auto simp: closed_end_def)
  ultimately show ?thesis using c f by (simp add: closed_end_def)
qed

text \<open>
  A wake needs every gate open. Unless the delivery is no fresh duplicate, no recorded
  wake covers it, its route still wants it, the lock file lets the agent wake and the
  breaker admits it, the waker is not called, nothing is slept on, no coverage is
  recorded and no delivery becomes a known duplicate.
\<close>

theorem wake_needs_every_gate:
  assumes "execute env ag ev (w, r) = Some (w', r')" and "\<not> wake_allowed env ag ev w"
  shows "w_ext w' = w_ext w \<and> w_cov w' = w_cov w \<and> w_slept w' = w_slept w
     \<and> (\<forall>k. seen_at (w_dedup w') k = None \<or> seen_at (w_dedup w') k = seen_at (w_dedup w) k)
     \<and> (SWake, OOk) \<notin> set (drop (length (stages r)) (stages r'))"
  using closed_gate_frame[OF assms] by blast

text \<open>
  C12. A converging agent is never woken. While its lock file holds a usable expiry that
  has not come, an execution for the agent calls no waker, and the delivery is not marked
  as done, so a later redelivery still wakes it.
\<close>

theorem frozen_agent_never_woken:
  assumes "execute env ag ev (w, r) = Some (w', r')" and "safe_slug (harness_key ag)"
    and "le_read (pe_lock_env env) (path_for (pe_lock_dir env) (harness_key ag)) = FileText content"
    and "usable_expiry (pe_lock_env env) content = Some expires" and "pe_wall env (w_wall w) < expires"
  shows "w_ext w' = w_ext w \<and> w_cov w' = w_cov w
     \<and> (seen_at (w_dedup w') k = None \<or> seen_at (w_dedup w') k = seen_at (w_dedup w) k)"
proof -
  have "\<not> (\<exists>d ls. check_lock (pe_lock_env env) (pe_lock_dir env) (pe_wall env (w_wall w)) (harness_key ag) = Inr (d, ls)
        \<and> should_wake d)"
    using assms(2-5) by (auto simp: check_lock_def inspect_def decide_def usable_expiry_def should_wake_def wake_states_def Let_def
        split: sum.splits option.splits loads_result.splits json.splits)
  then have "\<not> wake_allowed env ag ev w" by (simp add: wake_allowed_def)
  from closed_gate_frame[OF assms(1) this] show ?thesis by blast
qed

subsection \<open>An open path wakes\<close>

lemma wake_loop_success:
  assumes "pe_waker env ag ev (w_ext w) = (Woke k, ls, x)" and "1 \<le> pe_attempts env"
  shows "\<exists>st. wake_loop env ag ev w = (Returned k, st) \<and> w_ext (as_world st) = x
     \<and> w_locks (as_world st) = w_locks w"
proof -
  let ?s = "\<lparr>as_world = bookend ag ev ''wake_start'' None [] w, as_duration = 0, as_started = None\<rparr>"
  have "fst (attempt_wake env ag ev ?s) = Done k" "w_ext (as_world (snd (attempt_wake env ag ev ?s))) = x"
    "w_locks (as_world (snd (attempt_wake env ag ev ?s))) = w_locks w"
    using assms(1) by (simp_all add: attempt_wake_def begin_attempt_def end_attempt_def case_prod_unfold Let_def)
  then obtain st where "attempt_wake env ag ev ?s = (Done k, st)" "w_ext (as_world st) = x"
    "w_locks (as_world st) = w_locks w"
    by (metis prod.collapse)
  then show ?thesis using assms(2) by (simp add: wake_loop_def with_retry_def retry_from.simps)
qed

lemma open_path:
  assumes "wake_allowed env ag ev w" and "\<not> holds_lock (harness_key ag) (w_locks w)"
    and "pe_waker env ag ev (w_ext w) = (Woke k, ls, x)" and "1 \<le> pe_attempts env"
  shows "\<exists>w' r'. execute env ag ev (w, r) = Some (w', r') \<and> w_ext w' = x
     \<and> stages r' = stages r @ [(SLock, OOk), (SWake, OOk)] \<and> \<not> holds_lock (harness_key ag) (w_locks w')"
proof -
  obtain w' r' where e: "execute env ag ev (w, r) = Some (w', r')"
    and lk: "\<forall>j. holds_lock j (w_locks w') = holds_lock j (w_locks w)"
    using execute_result[of ag w env ev r] assms(2) by auto
  obtain locks exn w1 r1 where
    g: "gate_dedup env ag ev (record_stage SLock OOk (who ag ev) (w\<lparr>w_locks := locks\<rparr>, r)) = (exn, (w1, r1))"
    and f: "w_ext w' = w_ext w1" "w_cov w' = w_cov w1" "w_dedup w' = w_dedup w1" "w_mono w' = w_mono w1"
    "w_wall w' = w_wall w1" "w_slept w' = w_slept w1" "w_routes w' = w_routes w1"
    and s: "(exn = None \<and> r' = r1) \<or> (exn \<noteq> None \<and> stages r' = stages r1 @ [(SWake, OFailed)])"
    by (rule execute_gates[OF e])
  let ?ws = "record_stage SLock OOk (who ag ev) (w\<lparr>w_locks := locks\<rparr>, r)"
  have "wake_allowed env ag ev (fst ?ws)" using assms(1) by simp
  from gates_open[OF this] obtain wd where wd: "launch env ag ev (wd, snd ?ws) = (exn, (w1, r1))"
    "handed env ev (fst ?ws) wd" unfolding g by metis
  have "w_ext wd = w_ext w" using wd(2) by (simp add: handed_def)
  with assms(3) have "pe_waker env ag ev (w_ext wd) = (Woke k, ls, x)" by simp
  from wake_loop_success[OF this assms(4)] obtain st where st: "wake_loop env ag ev wd = (Returned k, st)"
    "w_ext (as_world st) = x" by blast
  from dispatch_ends[where env = env and ag = ag and ev = ev and ws = "(wd, snd ?ws)"] st
  have d: "fst (dispatch_wake env ag ev (wd, snd ?ws)) = Inr True"
    "w_ext (fst (snd (dispatch_wake env ag ev (wd, snd ?ws)))) = x"
    "stages (snd (snd (dispatch_wake env ag ev (wd, snd ?ws)))) = stages (snd ?ws) @ [(SWake, OOk)]"
    by auto
  obtain w2 r2 where "dispatch_wake env ag ev (wd, snd ?ws) = (Inr True, (w2, r2))"
    using d(1) by (metis prod.collapse)
  with d wd(1) have "exn = None" "w_ext w1 = x" "stages r1 = stages r @ [(SLock, OOk), (SWake, OOk)]"
    by (auto simp: launch_def)
  with e f s lk assms(2) show ?thesis by auto
qed

text \<open>
  An open path wakes. When every gate is open, the agent's lock is free and the waker
  succeeds, the execution calls it exactly once, records the wake as \<open>ok\<close> and frees the
  lock.
\<close>

theorem open_path_wakes:
  assumes "wake_allowed env ag ev w" and "\<not> holds_lock (harness_key ag) (w_locks w)"
    and "pe_waker env ag ev (w_ext w) = (Woke k, ls, x)" and "1 \<le> pe_attempts env"
  shows "\<exists>w' r'. execute env ag ev (w, r) = Some (w', r') \<and> w_ext w' = x
     \<and> stages r' = stages r @ [(SLock, OOk), (SWake, OOk)] \<and> \<not> holds_lock (harness_key ag) (w_locks w')"
  by (rule open_path[OF assms])

end
