(* ===== verification/Pipeline_Runs.thy ===== *)
theory Pipeline_Runs
  imports Pipeline_Props
begin

text \<open>
  Runs of executions: a delivery that woke stays a known duplicate while its mark is
  fresh, and a burst of deliveries that one wake has read costs no further wake.
\<close>

text \<open>The jobs a lane runs one after the other.\<close>

fun run_jobs :: "('w, 'r) penv \<Rightarrow> (agent \<times> event \<times> presult) list \<Rightarrow> ('w, 'r) world \<Rightarrow> ('w, 'r) world option" where
  "run_jobs env [] w = Some w"
| "run_jobs env ((ag, ev, r) # js) w =
     (case execute env ag ev (w, r) of None \<Rightarrow> None | Some (w', _) \<Rightarrow> run_jobs env js w')"

subsection \<open>Duplicates\<close>

text \<open>What an execution does to the deduper: one look, and a mark when the wake is done.\<close>

lemma execute_dedup:
  assumes "execute env ag ev (w, r) = Some (w', r')"
  shows "\<exists>d. d = snd (seen (pe_ttl env) (pe_mono env (w_mono w)) (dedup_key ev) (w_dedup w))
     \<and> ((w_dedup w' = d \<and> w_mono w \<le> w_mono w' \<and> stages r' \<noteq> stages r @ [(SLock, OOk), (SWake, OOk)])
      \<or> (\<exists>n. w_mono w \<le> n \<and> w_mono w' = Suc n
           \<and> w_dedup w' = mark (pe_ttl env) (pe_mono env n) (dedup_key ev) d))"
proof -
  let ?d = "snd (seen (pe_ttl env) (pe_mono env (w_mono w)) (dedup_key ev) (w_dedup w))"
  show ?thesis
  proof (cases "wake_allowed env ag ev w")
    case False
    from closed_gate_frame[OF assms this] show ?thesis by auto
  next
    case True
    obtain locks exn w1 r1 where
      g: "gate_dedup env ag ev (record_stage SLock OOk (who ag ev) (w\<lparr>w_locks := locks\<rparr>, r)) = (exn, (w1, r1))"
      and f: "w_ext w' = w_ext w1" "w_cov w' = w_cov w1" "w_dedup w' = w_dedup w1" "w_mono w' = w_mono w1"
      "w_wall w' = w_wall w1" "w_slept w' = w_slept w1" "w_routes w' = w_routes w1"
      and s: "(exn = None \<and> r' = r1) \<or> (exn \<noteq> None \<and> stages r' = stages r1 @ [(SWake, OFailed)])"
      by (rule execute_gates[OF assms])
    let ?ws = "record_stage SLock OOk (who ag ev) (w\<lparr>w_locks := locks\<rparr>, r)"
    have "wake_allowed env ag ev (fst ?ws)" using True by simp
    from gates_open[OF this] obtain wd where wd: "launch env ag ev (wd, snd ?ws) = (exn, (w1, r1))"
      "handed env ev (fst ?ws) wd" unfolding g by metis
    have h: "w_dedup wd = ?d" "w_mono w \<le> w_mono wd" using wd(2) by (simp_all add: handed_def)
    note l = launch_frame[OF wd(1)]
    show ?thesis
    proof (cases exn)
      case (Some e)
      with l h f s show ?thesis by auto
    next
      case None
      with l obtain oc where oc: "stages r1 = stages r @ [(SLock, OOk), (SWake, oc)]"
        "if oc = OFailed then w_dedup w1 = w_dedup wd
         else (\<exists>n. w_mono wd \<le> n \<and> w_mono w1 = Suc n \<and>
                  w_dedup w1 = mark (pe_ttl env) (pe_mono env n) (dedup_key ev) (w_dedup wd))"
        "w_mono wd \<le> w_mono w1" by auto
      show ?thesis
      proof (cases "oc = OFailed")
        case True
        with oc None s h f show ?thesis by auto
      next
        case False
        with oc obtain n where n: "w_mono wd \<le> n" "w_mono w1 = Suc n"
          "w_dedup w1 = mark (pe_ttl env) (pe_mono env n) (dedup_key ev) (w_dedup wd)" by auto
        have "w_mono w \<le> n" using n(1) h(2) by simp
        with n h f show ?thesis by (intro exI[of _ ?d]) auto
      qed
    qed
  qed
qed

definition dup_held :: "('w, 'r) penv \<Rightarrow> rat \<Rightarrow> string \<Rightarrow> ('w, 'r) world \<Rightarrow> bool" where
  "dup_held env t0 k w \<longleftrightarrow> dd.holds_from t0 (pe_mono env (w_mono w)) k (w_dedup w)"

lemma execute_dup_held:
  assumes m: "mono (pe_mono env)" and ex: "execute env ag ev (w, r) = Some (w', r')" and h: "dup_held env t0 k w"
    and fresh: "dedup_fresh (pe_ttl env) now t0" and now: "pe_mono env (w_mono w') \<le> now"
  shows "dup_held env t0 k w'"
proof -
  let ?d = "snd (seen (pe_ttl env) (pe_mono env (w_mono w)) (dedup_key ev) (w_dedup w))"
  from execute_dedup[OF ex] have le: "w_mono w \<le> w_mono w'" by auto
  have t: "pe_mono env (w_mono w) \<le> pe_mono env (w_mono w')" using m le by (simp add: monoD)
  have h1: "dd.holds_from t0 (pe_mono env (w_mono w)) k ?d"
    using dd.apply_op_holds[of t0 "pe_mono env (w_mono w)" k "w_dedup w" "pe_ttl env" now
        "pe_mono env (w_mono w)" "dedup_key ev" False] h fresh t now
    by (simp add: dup_held_def)
  have weaken: "dd.holds_from t0 u k d \<Longrightarrow> u \<le> v \<Longrightarrow> dd.holds_from t0 v k d" for u v d
    by (auto simp: dd.holds_from_def)
  from execute_dedup[OF ex] consider "w_dedup w' = ?d"
    | n where "w_mono w \<le> n" "w_mono w' = Suc n" "w_dedup w' = mark (pe_ttl env) (pe_mono env n) (dedup_key ev) ?d"
    by auto
  then show ?thesis
  proof cases
    case 1
    with weaken[OF h1 t] show ?thesis by (simp add: dup_held_def)
  next
    case 2
    have n: "pe_mono env (w_mono w) \<le> pe_mono env n" "pe_mono env n \<le> pe_mono env (w_mono w')"
      using m 2(1,2) by (simp_all add: monoD)
    have "dd.holds_from t0 (pe_mono env n) k (w_dedup w')"
      using dd.apply_op_holds[of t0 "pe_mono env (w_mono w)" k ?d "pe_ttl env" now "pe_mono env n" "dedup_key ev" True]
        h1 fresh n now 2(3) by simp
    with weaken n(2) show ?thesis by (simp add: dup_held_def)
  qed
qed

lemma run_jobs_mono: "run_jobs env js w = Some w' \<Longrightarrow> w_mono w \<le> w_mono w'"
proof (induction env js w rule: run_jobs.induct)
  case (2 env ag ev r js w)
  then obtain w1 r1 where e: "execute env ag ev (w, r) = Some (w1, r1)" "run_jobs env js w1 = Some w'"
    by (auto split: option.splits prod.splits)
  from execute_dedup[OF e(1)] have "w_mono w \<le> w_mono w1" by auto
  with "2.IH"[OF e(1)] e(2) show ?case by fastforce
qed simp

lemma run_jobs_dup_held:
  "run_jobs env js w = Some w' \<Longrightarrow> mono (pe_mono env) \<Longrightarrow> dup_held env t0 k w
    \<Longrightarrow> dedup_fresh (pe_ttl env) (pe_mono env (w_mono w')) t0 \<Longrightarrow> dup_held env t0 k w'"
proof (induction env js w rule: run_jobs.induct)
  case (2 env ag ev r js w)
  from "2.prems"(1) obtain w1 r1 where e: "execute env ag ev (w, r) = Some (w1, r1)" "run_jobs env js w1 = Some w'"
    by (auto split: option.splits prod.splits)
  have "pe_mono env (w_mono w1) \<le> pe_mono env (w_mono w')"
    using "2.prems"(2) run_jobs_mono[OF e(2)] by (simp add: monoD)
  from execute_dup_held[OF "2.prems"(2) e(1) "2.prems"(3,4) this]
  show ?case using "2.IH"[OF e(1) refl e(2) "2.prems"(2)] "2.prems"(4) by blast
qed simp

lemma wake_marks:
  assumes m: "mono (pe_mono env)" and ex: "execute env ag ev (w, r) = Some (w1, r1)"
    and woke: "stages r1 = stages r @ [(SLock, OOk), (SWake, OOk)]"
    and ttl: "\<not> fl_le (pe_ttl env) (Fin 0)"
  shows "\<exists>n. w_mono w1 = Suc n \<and> w_mono w \<le> n \<and> dup_held env (pe_mono env n) (dedup_key ev) w1"
proof -
  let ?d = "snd (seen (pe_ttl env) (pe_mono env (w_mono w)) (dedup_key ev) (w_dedup w))"
  from execute_dedup[OF ex] woke obtain n where n: "w_mono w \<le> n" "w_mono w1 = Suc n"
    "w_dedup w1 = mark (pe_ttl env) (pe_mono env n) (dedup_key ev) ?d" by auto
  have "dedup_fresh (pe_ttl env) (pe_mono env n) (pe_mono env n)" using ttl by (simp add: dedup_fresh_def)
  from dd.note_same[OF this, of "dedup_key ev" ?d]
  have "seen_at (w_dedup w1) (dedup_key ev) = Some (pe_mono env n)" using n(3) by simp
  moreover have "pe_mono env n \<le> pe_mono env (w_mono w1)" using m n(2) by (simp add: monoD)
  ultimately show ?thesis using n by (auto simp: dup_held_def dd.holds_from_def)
qed

text \<open>
  C11. A delivery wakes at most once while its mark is fresh. After an execution that woke
  the agent, and whatever other executions ran since, a redelivery of the same delivery
  (its source, recipient and id) within the TTL of the mark calls no waker and is recorded
  as a duplicate.
\<close>

theorem duplicate_wakes_once:
  assumes "mono (pe_mono env)" and "execute env ag ev (w, r) = Some (w1, r1)"
    and "stages r1 = stages r @ [(SLock, OOk), (SWake, OOk)]"
    and "run_jobs env js w1 = Some w2"
    and "dedup_fresh (pe_ttl env) (pe_mono env (w_mono w2)) (pe_mono env (w_mono w1 - 1))"
    and "dedup_key ev' = dedup_key ev" and "execute env ag' ev' (w2, r2) = Some (w3, r3)"
  shows "w_ext w3 = w_ext w2 \<and> stages r3 = stages r2 @ [(SLock, OOk), (SDedup, OIgnored)]"
proof -
  have ttl: "\<not> fl_le (pe_ttl env) (Fin 0)" using assms(5) by (simp add: dedup_fresh_def)
  from wake_marks[OF assms(1-3) ttl] obtain n where n: "w_mono w1 = Suc n"
    "dup_held env (pe_mono env n) (dedup_key ev) w1" by blast
  have fr: "dedup_fresh (pe_ttl env) (pe_mono env (w_mono w2)) (pe_mono env n)" using assms(5) n(1) by simp
  from run_jobs_dup_held[OF assms(4,1) n(2) fr] obtain m where
    m: "seen_at (w_dedup w2) (dedup_key ev) = Some m" "pe_mono env n \<le> m"
    by (auto simp: dup_held_def dd.holds_from_def)
  have "dedup_fresh (pe_ttl env) (pe_mono env (w_mono w2)) m" by (rule dd.fresh_newer[OF fr m(2)])
  then have s: "fst (seen (pe_ttl env) (pe_mono env (w_mono w2)) (dedup_key ev') (w_dedup w2))"
    using m(1) assms(6) by (auto simp: seen_simps)
  obtain locks exn w' r' where
    g: "gate_dedup env ag' ev' (record_stage SLock OOk (who ag' ev') (w2\<lparr>w_locks := locks\<rparr>, r2)) = (exn, (w', r'))"
    and f: "w_ext w3 = w_ext w'" "w_cov w3 = w_cov w'" "w_dedup w3 = w_dedup w'" "w_mono w3 = w_mono w'"
    "w_wall w3 = w_wall w'" "w_slept w3 = w_slept w'" "w_routes w3 = w_routes w'"
    and e: "(exn = None \<and> r3 = r') \<or> (exn \<noteq> None \<and> stages r3 = stages r' @ [(SWake, OFailed)])"
    by (rule execute_gates[OF assms(7)])
  let ?G = "gate_dedup env ag' ev' (record_stage SLock OOk (who ag' ev') (w2\<lparr>w_locks := locks\<rparr>, r2))"
  have G: "exn = fst ?G" "w' = fst (snd ?G)" "r' = snd (snd ?G)" using g by simp_all
  have "fst ?G = None" "w_ext (fst (snd ?G)) = w_ext w2"
    "stages (snd (snd ?G)) = stages r2 @ [(SLock, OOk), (SDedup, OIgnored)]"
    using s by (simp_all add: gate_dedup_def case_prod_unfold Let_def)
  then have x: "exn = None \<and> w_ext w' = w_ext w2 \<and> stages r' = stages r2 @ [(SLock, OOk), (SDedup, OIgnored)]"
    unfolding G by blast
  with e f show ?thesis by auto
qed

subsection \<open>Bursts\<close>

lemma wake_loop_started:
  fixes env :: "('a, 'b) penv"
  assumes "wake_loop env ag ev w = (res, st)"
  shows "w_cov (as_world st) = w_cov w
     \<and> (\<forall>t. as_started st = Some t \<longrightarrow> t = pe_wall env (w_wall (as_world st) - 1))
     \<and> (res = BadAttempts \<or> (\<exists>t. as_started st = Some t))"
proof -
  let ?P = "\<lambda>s :: ('a, 'b) attempt_state. w_cov (as_world s) = w_cov w
     \<and> (\<forall>t. as_started s = Some t \<longrightarrow> t = pe_wall env (w_wall (as_world s) - 1))"
  have "?P st"
  proof (rule wake_loop_invariant[OF assms(1), where P = ?P])
    fix s :: "('a, 'b) attempt_state" assume "?P s"
    then show "?P (snd (attempt_wake env ag ev s))"
      by (simp add: attempt_world Let_def)
  qed (simp_all add: report_retry_def sleep_retry_def)
  moreover have "res = BadAttempts \<or> (\<exists>t. as_started st = Some t)"
  proof (cases "(if synthetic ev then 1 else pe_attempts env) < 1")
    case True
    then show ?thesis using assms(1) by (auto simp: wake_loop_def with_retry_def split: if_splits)
  next
    case False
    let ?R = "retry_from (attempt_wake env ag ev) (report_retry ag ev) sleep_retry
     (if synthetic ev then 1 else pe_attempts env) (1 / 2) 1
     \<lparr>as_world = bookend ag ev ''wake_start'' None [] w, as_duration = 0, as_started = None\<rparr>"
    obtain s0 where "snd ?R = snd (attempt_wake env ag ev s0)"
      using retry_final[of "attempt_wake env ag ev" "report_retry ag ev" sleep_retry] by metis
    moreover have "snd ?R = st" using assms(1) False by (simp add: wake_loop_def with_retry_def)
    ultimately have "st = snd (attempt_wake env ag ev s0)" by metis
    then have "as_started st = Some (pe_wall env (w_wall (as_world s0)))"
      by (simp only: attempt_started)
    then show ?thesis by blast
  qed
  ultimately show ?thesis by blast
qed

text \<open>An agent's stream is covered from \<open>since\<close> on.\<close>

definition covered_since :: "int \<Rightarrow> string \<Rightarrow> string \<Rightarrow> ('w, 'r) world \<Rightarrow> bool" where
  "covered_since since hk sk w \<longleftrightarrow>
     (\<exists>c. map_of (wc_streams (w_cov w)) (hk, sk) = Some c \<and> since \<le> cov_started_at c)"

lemma covered_not_allowed:
  assumes "covered_since since (harness_key ag) (stream_key ev) w" and "ev_occurred_at ev = Some t" and "t < since"
  shows "\<not> wake_allowed env ag ev w"
  using assms by (auto simp: covered_since_def wake_allowed_def covering_def)

lemma dispatch_woke:
  assumes "stages (snd (snd (dispatch_wake env ag ev ws))) = stages (snd ws) @ [(SWake, OOk)]"
  shows "\<exists>k sa. wake_loop env ag ev (fst ws) = (Returned k, sa)
     \<and> w_wall (fst (snd (dispatch_wake env ag ev ws))) = w_wall (as_world sa)
     \<and> w_cov (fst (snd (dispatch_wake env ag ev ws))) = w_cov (cover ag ev (as_started sa) (as_world sa))"
  using dispatch_ends[of env ag ev ws]
proof (elim exE conjE, goal_cases)
  case (1 res sa)
  from 1(6) assms obtain k where "res = Returned k"
    by (cases res) (auto split: wake_exn.splits)
  with 1 show ?case by auto
qed

lemma woke_covers:
  assumes ex: "execute env ag ev (w, r) = Some (w1, r1)" and woke: "stages r1 = stages r @ [(SLock, OOk), (SWake, OOk)]"
    and cov: "cov.ok (w_cov w)" "1 \<le> wc_capacity (w_cov w)"
    and occ: "ev_occurred_at ev \<noteq> None"
  shows "covered_since (pe_wall env (w_wall w1 - 1)) (harness_key ag) (stream_key ev) w1"
proof -
  have al: "wake_allowed env ag ev w"
  proof (rule ccontr)
    assume "\<not> wake_allowed env ag ev w"
    from closed_gate_frame[OF ex this] woke show False by simp
  qed
  obtain locks exn w' r' where
    g: "gate_dedup env ag ev (record_stage SLock OOk (who ag ev) (w\<lparr>w_locks := locks\<rparr>, r)) = (exn, (w', r'))"
    and f: "w_ext w1 = w_ext w'" "w_cov w1 = w_cov w'" "w_dedup w1 = w_dedup w'" "w_mono w1 = w_mono w'"
    "w_wall w1 = w_wall w'" "w_slept w1 = w_slept w'" "w_routes w1 = w_routes w'"
    and s: "(exn = None \<and> r1 = r') \<or> (exn \<noteq> None \<and> stages r1 = stages r' @ [(SWake, OFailed)])"
    by (rule execute_gates[OF ex])
  let ?ws = "record_stage SLock OOk (who ag ev) (w\<lparr>w_locks := locks\<rparr>, r)"
  have "wake_allowed env ag ev (fst ?ws)" using al by simp
  from gates_open[OF this] obtain wd where wd: "launch env ag ev (wd, snd ?ws) = (exn, (w', r'))"
    "handed env ev (fst ?ws) wd" unfolding g by metis
  have h: "w_cov wd = w_cov w" using wd(2) by (simp_all add: handed_def)
  have none: "exn = None"
  proof (rule ccontr)
    assume "exn \<noteq> None"
    with s woke show False by auto
  qed
  obtain x w2 r2 where d: "dispatch_wake env ag ev (wd, snd ?ws) = (x, (w2, r2))" by (metis surj_pair)
  have st: "stages r2 = stages r @ [(SLock, OOk), (SWake, OOk)]" and x: "x = Inr True" and c2: "w_cov w' = w_cov w2"
    and wl: "w_wall w' = w_wall w2"
    using wd(1) none s woke launch_frame[OF wd(1)] by (auto simp: launch_def d split: sum.splits if_splits)
  have "stages (snd (snd (dispatch_wake env ag ev (wd, snd ?ws)))) = stages (snd (wd, snd ?ws)) @ [(SWake, OOk)]"
    by (simp add: d st)
  from dispatch_woke[OF this] obtain k sa where rs: "wake_loop env ag ev wd = (Returned k, sa)"
    and ws: "w_wall w2 = w_wall (as_world sa)"
    and k: "w_cov w2 = w_cov (cover ag ev (as_started sa) (as_world sa))" by (simp only: d fst_conv snd_conv) blast
  from wake_loop_started[OF rs] obtain t where
    t: "as_started sa = Some t" "w_cov (as_world sa) = w_cov wd" "t = pe_wall env (w_wall (as_world sa) - 1)" by blast
  obtain o' where o': "ev_occurred_at ev = Some o'" using occ by blast
  from coverage_after_record[OF cov o', of "harness_key ag" t] obtain c where
    "map_of (wc_streams (record_coverage (harness_key ag) ev t (w_cov w))) (harness_key ag, stream_key ev) = Some c"
    "t \<le> cov_started_at c" by blast
  moreover have "w_cov w1 = record_coverage (harness_key ag) ev t (w_cov w)"
    using f(2) c2 k t(1,2) h by (simp add: cover_def)
  ultimately show ?thesis using t(3) f(5) wl ws by (auto simp: covered_since_def)
qed

lemma covered_burst:
  "run_jobs env (map (\<lambda>(ev', r'). (ag, ev', r')) js) w = Some w2
    \<Longrightarrow> covered_since since (harness_key ag) sk w
    \<Longrightarrow> \<forall>(ev', r')\<in>set js. stream_key ev' = sk \<and> (\<exists>t. ev_occurred_at ev' = Some t \<and> t < since)
    \<Longrightarrow> w_ext w2 = w_ext w"
proof (induction js arbitrary: w)
  case (Cons j js)
  obtain ev' r' where j: "j = (ev', r')" by (cases j)
  from Cons.prems(1) obtain w1 r1 where e: "execute env ag ev' (w, r') = Some (w1, r1)"
    "run_jobs env (map (\<lambda>(ev', r'). (ag, ev', r')) js) w1 = Some w2"
    by (auto simp: j split: option.splits prod.splits)
  from Cons.prems(3) obtain t where t: "stream_key ev' = sk" "ev_occurred_at ev' = Some t" "t < since"
    by (auto simp: j)
  have "\<not> wake_allowed env ag ev' w"
    using covered_not_allowed[of since ag ev' w t env] Cons.prems(2) t by simp
  from closed_gate_frame[OF e(1) this] have f: "w_ext w1 = w_ext w" "w_cov w1 = w_cov w" by auto
  have "covered_since since (harness_key ag) sk w1" using Cons.prems(2) f(2) by (simp add: covered_since_def)
  from Cons.IH[OF e(2) this] Cons.prems(3) f(1) show ?case by auto
qed simp

text \<open>
  C13. A burst costs one wake. After an execution woke the agent for a stamped event, every
  stamped delivery of the same stream whose event happened before the attempt that woke
  began (the last wall-clock reading of that execution), however many were queued behind
  it, is executed without calling the waker. The wall clock may step in either direction.
\<close>

theorem queued_burst_costs_one_wake:
  assumes "execute env ag ev (w, r) = Some (w1, r1)" and "stages r1 = stages r @ [(SLock, OOk), (SWake, OOk)]"
    and "cov.ok (w_cov w)" and "1 \<le> wc_capacity (w_cov w)"
    and "ev_occurred_at ev \<noteq> None"
    and "\<forall>(ev', r')\<in>set js. stream_key ev' = stream_key ev
           \<and> (\<exists>t. ev_occurred_at ev' = Some t \<and> t < pe_wall env (w_wall w1 - 1))"
    and "run_jobs env (map (\<lambda>(ev', r'). (ag, ev', r')) js) w1 = Some w2"
  shows "w_ext w2 = w_ext w1"
  by (rule covered_burst[OF assms(7) woke_covers[OF assms(1-5)] assms(6)])

end
