(* ===== verification/Pipeline_Wakes.thy ===== *)
theory Pipeline_Wakes
  imports Pipeline_Gates
begin

text \<open>
  One dispatch of a wake, and the fast half: the attempts and their delays, the bracket
  around them, and what an accepted delivery has passed.
\<close>

subsection \<open>Attempts\<close>

lemma attempt_counts:
  "w_wall (as_world (snd (attempt_wake env ag ev s))) = Suc (w_wall (as_world s))"
  "w_slept (as_world (snd (attempt_wake env ag ev s))) = w_slept (as_world s)"
  "\<exists>ls. w_log (as_world (snd (attempt_wake env ag ev s))) = w_log (as_world s) @ ls"
  by (simp_all add: attempt_world Let_def)

lemma report_sleep_counts:
  "w_wall (as_world (report_retry ag ev k tot m s)) = w_wall (as_world s)"
  "w_slept (as_world (report_retry ag ev k tot m s)) = w_slept (as_world s)"
  "\<exists>ls. w_log (as_world (report_retry ag ev k tot m s)) = w_log (as_world s) @ ls"
  "w_wall (as_world (sleep_retry d s)) = w_wall (as_world s)"
  "w_slept (as_world (sleep_retry d s)) = w_slept (as_world s) @ [d]"
  "w_log (as_world (sleep_retry d s)) = w_log (as_world s)"
  by (simp_all add: report_retry_def sleep_retry_def)

lemma retry_counts:
  "retry_from (attempt_wake env ag ev) (report_retry ag ev) sleep_retry attempts base n s = (res, st)
    \<Longrightarrow> \<exists>k. 1 \<le> k \<and> (k = 1 \<or> n + k \<le> Suc attempts) \<and> w_wall (as_world st) = w_wall (as_world s) + k
       \<and> w_slept (as_world st) = w_slept (as_world s) @ map (\<lambda>i. base * 2 ^ (n + i - 1)) [0..<k - 1]"
proof (induction "attempts - n" arbitrary: n s)
  case 0
  then have "st = snd (attempt_wake env ag ev s)"
    by (subst (asm) retry_from.simps) (auto split: prod.splits attempt.splits)
  then show ?case by (intro exI[of _ 1]) (simp add: attempt_counts)
next
  case (Suc d)
  obtain x s1 where op: "attempt_wake env ag ev s = (x, s1)" by (cases "attempt_wake env ag ev s")
  have s1: "w_wall (as_world s1) = Suc (w_wall (as_world s))" "w_slept (as_world s1) = w_slept (as_world s)"
    using attempt_counts(1,2)[of env ag ev s] by (simp_all add: op)
  show ?case
  proof (cases "\<exists>m. x = Transient m")
    case False
    then have "st = s1" using Suc.prems op
      by (subst (asm) retry_from.simps) (auto split: attempt.splits)
    then show ?thesis using s1 by (intro exI[of _ 1]) simp
  next
    case True
    then obtain m where m: "x = Transient m" by blast
    let ?s2 = "sleep_retry (base * 2 ^ (n - 1)) (report_retry ag ev n attempts m s1)"
    have n: "n < attempts" using Suc.hyps(2) by simp
    have "retry_from (attempt_wake env ag ev) (report_retry ag ev) sleep_retry attempts base (Suc n) ?s2 = (res, st)"
      using Suc.prems op m n by (subst (asm) retry_from.simps) simp
    moreover have "d = attempts - Suc n" using Suc.hyps(2) by simp
    ultimately obtain k where k: "1 \<le> k" "k = 1 \<or> Suc n + k \<le> Suc attempts"
      "w_wall (as_world st) = w_wall (as_world ?s2) + k"
      "w_slept (as_world st) = w_slept (as_world ?s2) @ map (\<lambda>i. base * 2 ^ (Suc n + i - 1)) [0..<k - 1]"
      using Suc.hyps(1)[of "Suc n" ?s2] by blast
    have "map (\<lambda>i. base * 2 ^ (n + i - 1)) [0..<Suc k - 1]
        = base * 2 ^ (n - 1) # map (\<lambda>i. base * 2 ^ (Suc n + i - 1)) [0..<k - 1]"
    proof -
      have "[0..<Suc k - 1] = 0 # map Suc [0..<k - 1]"
        using k(1) by (cases k) (simp_all add: upt_conv_Cons map_Suc_upt del: upt_Suc)
      then show ?thesis by (simp add: comp_def)
    qed
    then show ?thesis
      using k n s1 by (intro exI[of _ "Suc k"]) (auto simp: report_sleep_counts)
  qed
qed

lemma wake_loop_counts:
  assumes "wake_loop env ag ev w = (res, st)" and "1 \<le> (if synthetic ev then 1 else pe_attempts env)"
  shows "\<exists>k. 1 \<le> k \<and> k \<le> (if synthetic ev then 1 else pe_attempts env)
     \<and> w_wall (as_world st) = w_wall w + k
     \<and> w_slept (as_world st) = w_slept w @ map (\<lambda>i. 2 ^ i / 2) [0..<k - 1]"
proof -
  have "retry_from (attempt_wake env ag ev) (report_retry ag ev) sleep_retry
     (if synthetic ev then 1 else pe_attempts env) (1 / 2) 1
     \<lparr>as_world = bookend ag ev ''wake_start'' None [] w, as_duration = 0, as_started = None\<rparr> = (res, st)"
    using assms by (simp add: wake_loop_def with_retry_def)
  from retry_counts[OF this] assms(2) show ?thesis by auto
qed

text \<open>
  A dispatch makes between one and \<open>wake_attempts\<close> attempts (each reads the wall clock
  once), exactly one for a synthetic probe, and sleeps between them 0.5 s, 1 s, 2 s, and
  so on: never before the first, never after the last.
\<close>

theorem dispatch_attempts_bounded:
  assumes "1 \<le> pe_attempts env"
  shows "\<exists>k. 1 \<le> k \<and> k \<le> (if synthetic ev then 1 else pe_attempts env)
     \<and> w_wall (fst (snd (dispatch_wake env ag ev ws))) = w_wall (fst ws) + k
     \<and> w_slept (fst (snd (dispatch_wake env ag ev ws)))
        = w_slept (fst ws) @ map (\<lambda>i. 2 ^ i / 2) [0..<k - 1]"
proof -
  from dispatch_ends[where env = env and ag = ag and ev = ev and ws = ws] obtain res st where
    "wake_loop env ag ev (fst ws) = (res, st)"
    "w_wall (fst (snd (dispatch_wake env ag ev ws))) = w_wall (as_world st)"
    "w_slept (fst (snd (dispatch_wake env ag ev ws))) = w_slept (as_world st)" by blast
  with wake_loop_counts[of env ag ev "fst ws" res st] assms show ?thesis by auto
qed

subsection \<open>The bracket\<close>

lemma wake_loop_log:
  assumes "wake_loop env ag ev w = (res, st)"
  shows "\<exists>mid. w_log (as_world st) = w_log (bookend ag ev ''wake_start'' None [] w) @ mid"
  by (rule wake_loop_invariant[OF assms, where
      P = "\<lambda>s. \<exists>mid. w_log (as_world s) = w_log (bookend ag ev ''wake_start'' None [] w) @ mid"])
    (simp, metis attempt_counts(3) append.assoc, metis report_sleep_counts(3) append.assoc,
      metis report_sleep_counts(6))

definition end_line :: "agent \<Rightarrow> event \<Rightarrow> outcome \<Rightarrow> fields \<Rightarrow> log_line list" where
  "end_line ag ev oc v = (if synthetic ev then [] else [bookend_line (who ag ev) ''wake_end'' (Some oc) v])"

lemma bookend_log:
  "w_log (bookend ag ev ''wake_end'' (Some oc) v w) = w_log w @ end_line ag ev oc v"
  "w_log (bookend ag ev ''wake_start'' None [] w)
     = w_log w @ (if synthetic ev then [] else [bookend_line (who ag ev) ''wake_start'' None []])"
  by (simp_all add: bookend_def end_line_def)

lemma dispatch_log:
  assumes "wake_loop env ag ev (fst ws) = (res, st)"
  shows "\<exists>mid oc v. w_log (fst (snd (dispatch_wake env ag ev ws))) = w_log (as_world st) @ mid @ end_line ag ev oc v
     \<and> (case fst (dispatch_wake env ag ev ws) of Inr True \<Rightarrow> oc \<in> {OOk, OStopped} | _ \<Rightarrow> oc = OFailed)"
proof -
  note d = dispatch_wake_def[of env ag ev ws] end_wake_def attempts_for_def assms[unfolded wake_loop_def] case_prod_unfold Let_def bookend_log
  let ?dur = "(''duration'', VStr (seconds (as_duration st)))"
  let ?att = "if synthetic ev then 1 else pe_attempts env"
  show ?thesis
  proof (cases res)
    case (Returned k)
    let ?how = "[(''exit'', VInt (wr_exit k)), ?dur]"
    show ?thesis
      by (rule exI[of _ "[record_line SWake OOk (who ag ev @ ?how)]"], rule exI[of _ OOk], rule exI[of _ ?how])
        (simp add: d Returned)
  next
    case (Exhausted n msg)
    let ?how = "[(''attempts'', VInt (int ?att)), ?dur, (''error'', VStr msg)]"
    show ?thesis
      by (rule exI[of _ "[record_line SWake OFailed (who ag ev @ ?how)]"], rule exI[of _ OFailed], rule exI[of _ ?how])
        (simp add: d Exhausted)
  next
    case (Propagated e)
    show ?thesis
    proof (cases e)
      case (ExStopped sig code)
      let ?how = "[(''signal'', VStr sig), (''exit'', VInt code), ?dur]"
      show ?thesis
        by (rule exI[of _ "[(Warning, paint ''event=wake_stopped'' @ '' '' @ log_fields (who ag ev @ ?how)),
              record_line SWake OStopped (who ag ev @ ?how)]"], rule exI[of _ OStopped], rule exI[of _ ?how])
          (simp add: d Propagated ExStopped)
    next
      case (ExOther x)
      show ?thesis
        by (rule exI[of _ "[]"], rule exI[of _ OFailed],
            rule exI[of _ "[?dur, (''error'', VStr ''unexpected: the wake path raised'')]"])
          (simp add: d Propagated ExOther)
    qed
  next
    case BadAttempts
    show ?thesis
      by (rule exI[of _ "[]"], rule exI[of _ OFailed],
          rule exI[of _ "[?dur, (''error'', VStr ''unexpected: the wake path raised'')]"])
        (simp add: d BadAttempts)
  qed
qed

text \<open>
  The bracket always closes. For a real event, the lines a dispatch adds begin with
  \<open>wake_start\<close> and end with \<open>wake_end\<close> under the same identity fields, on every path: the
  verdict is \<open>ok\<close> or \<open>stopped\<close> when the delivery is done, \<open>failed\<close> when it is not or when
  the path raised. A synthetic event adds no bracket.
\<close>

theorem wake_bracket_closes:
  "\<exists>mid. w_log (fst (snd (dispatch_wake env ag ev ws))) =
     (if synthetic ev then w_log (fst ws) @ mid
      else w_log (fst ws) @ [bookend_line (who ag ev) ''wake_start'' None []] @ mid
        @ [last (w_log (fst (snd (dispatch_wake env ag ev ws))))])
   \<and> (synthetic ev \<or> (\<exists>oc v. last (w_log (fst (snd (dispatch_wake env ag ev ws))))
          = bookend_line (who ag ev) ''wake_end'' (Some oc) v
        \<and> (case fst (dispatch_wake env ag ev ws) of Inr True \<Rightarrow> oc \<in> {OOk, OStopped} | _ \<Rightarrow> oc = OFailed)))"
proof -
  obtain res st where rs: "wake_loop env ag ev (fst ws) = (res, st)" by (cases "wake_loop env ag ev (fst ws)")
  from wake_loop_log[OF rs] obtain m1 where
    m1: "w_log (as_world st) = w_log (bookend ag ev ''wake_start'' None [] (fst ws)) @ m1" by blast
  from dispatch_log[OF rs] obtain m2 oc v where
    m2: "w_log (fst (snd (dispatch_wake env ag ev ws))) = w_log (as_world st) @ m2 @ end_line ag ev oc v"
      "case fst (dispatch_wake env ag ev ws) of Inr True \<Rightarrow> oc \<in> {OOk, OStopped} | _ \<Rightarrow> oc = OFailed" by blast
  show ?thesis
  proof (cases "synthetic ev")
    case True
    then show ?thesis using m1 m2(1) by (simp add: bookend_log end_line_def)
  next
    case False
    then have l: "w_log (fst (snd (dispatch_wake env ag ev ws))) = w_log (fst ws)
       @ [bookend_line (who ag ev) ''wake_start'' None []] @ (m1 @ m2) @ [bookend_line (who ag ev) ''wake_end'' (Some oc) v]"
      using m1 m2(1) by (simp add: bookend_log end_line_def)
    then have e: "last (w_log (fst (snd (dispatch_wake env ag ev ws)))) = bookend_line (who ag ev) ''wake_end'' (Some oc) v"
      by simp
    show ?thesis
      unfolding e by (rule exI[of _ "m1 @ m2"], rule conjI) (use False l m2(2) in \<open>simp, blast\<close>)
  qed
qed

subsection \<open>The fast half\<close>

lemma accept_cases:
  "(case fst (accept env source rq w) of
      Some (ag, ev) \<Rightarrow> (\<exists>rt secret. get_route (pe_registry env) source = Inr rt
         \<and> route_secret env rt source = Inr secret \<and> fst (rt_verify rt rq secret) = Verified
         \<and> fst (rt_normalize rt rq (w_routes w)) = NormEvent ev
         \<and> resolve_agent ev (pe_config env) = Inr ag
         \<and> stages (snd (snd (accept env source rq w)))
             = [(SRoute, OOk), (SVerify, OOk), (SNormalize, OOk), (SResolve, OOk)])
    | None \<Rightarrow> terminal (snd (snd (accept env source rq w))) \<in> {Some ORejected, Some OIgnored, Some OFailed})
   \<and> w_ext (fst (snd (accept env source rq w))) = w_ext w
   \<and> w_dedup (fst (snd (accept env source rq w))) = w_dedup w
   \<and> w_breaker (fst (snd (accept env source rq w))) = w_breaker w
   \<and> w_cov (fst (snd (accept env source rq w))) = w_cov w
   \<and> w_locks (fst (snd (accept env source rq w))) = w_locks w"
proof -
  have n: "stages new_result = []" by (simp add: stages_def new_result_def)
  have t: "terminal (snd (record_stage st oc dt ws)) = Some oc" for st oc dt and ws :: "('a, 'b) run_state"
    by (simp add: terminal_def)
  have e: "stages (r\<lparr>pr_event := x\<rparr>) = stages r" "stages (r\<lparr>pr_agent := y\<rparr>) = stages r" for r x y
    by (simp_all add: stages_def)
  show ?thesis
    by (auto simp: accept_def accept_steps_def case_prod_unfold Let_def n t e
        split: sum.split verify_result.split norm_result.split)
qed

text \<open>
  C15. Only a verified delivery becomes pending. What \<open>accept\<close> hands on came over a
  registered route, passed that route's own signature check under the secret the core
  holds for it, was normalized to this very event and resolved to this very agent; every
  other delivery ends in a record that is not \<open>ok\<close>. No path runs a wake or touches a
  gate's memory.
\<close>

theorem accept_only_verified:
  "(case fst (accept env source rq w) of
      Some (ag, ev) \<Rightarrow> (\<exists>rt secret. get_route (pe_registry env) source = Inr rt
         \<and> route_secret env rt source = Inr secret \<and> fst (rt_verify rt rq secret) = Verified
         \<and> fst (rt_normalize rt rq (w_routes w)) = NormEvent ev
         \<and> resolve_agent ev (pe_config env) = Inr ag
         \<and> stages (snd (snd (accept env source rq w)))
             = [(SRoute, OOk), (SVerify, OOk), (SNormalize, OOk), (SResolve, OOk)])
    | None \<Rightarrow> terminal (snd (snd (accept env source rq w))) \<in> {Some ORejected, Some OIgnored, Some OFailed})
   \<and> w_ext (fst (snd (accept env source rq w))) = w_ext w
   \<and> w_dedup (fst (snd (accept env source rq w))) = w_dedup w
   \<and> w_breaker (fst (snd (accept env source rq w))) = w_breaker w
   \<and> w_cov (fst (snd (accept env source rq w))) = w_cov w
   \<and> w_locks (fst (snd (accept env source rq w))) = w_locks w"
  by (rule accept_cases)

text \<open>A delivery refused with 401 reached its route's own check, and failed it.\<close>

lemma accept_refused:
  assumes "pr_records (snd (snd (accept env source rq w))) \<noteq> []"
    and "sr_stage (last (pr_records (snd (snd (accept env source rq w))))) = SVerify"
    and "sr_outcome (last (pr_records (snd (snd (accept env source rq w))))) = ORejected"
  shows "\<exists>rt secret e. get_route (pe_registry env) source = Inr rt
     \<and> route_secret env rt source = Inr secret \<and> fst (rt_verify rt rq secret) = BadSignature e"
  using assms
  by (auto simp: accept_def accept_steps_def case_prod_unfold Let_def record_stage_def
      split: sum.splits verify_result.splits norm_result.splits)

end
