(* ===== verification/Pipeline_Witness.thy ===== *)
theory Pipeline_Witness
  imports Pipeline_Runs Pipeline_Wakes
begin

text \<open>
  A small installation to evaluate the pipeline's properties on: one github agent, a
  waker that counts its calls and always succeeds, a monotonic clock that ticks by one and
  a wall clock that steps back.
\<close>

definition demo_agent :: agent where
  "demo_agent = \<lparr>ag_key = ''acme/site'', ag_os_user = ''site'', ag_clone_path = ''/srv'',
     ag_wake_kind = Claude, ag_bot_slug = Some ''b'', ag_recipient_uuid = None, ag_wake_bin = None\<rparr>"

definition demo_event :: "string \<Rightarrow> event" where
  "demo_event delivery = \<lparr>ev_source = ''github'', ev_kind = Handoff,
     ev_recipient = \<lparr>rec_by = ''repo'', rec_value = ''acme/site''\<rparr>, ev_wake_arg = ''issue 1'',
     ev_delivery_id = delivery, ev_origin = None, ev_occurred_at = Some (- 5), ev_type = None\<rparr>"

definition demo_no_lock :: lock_env where
  "demo_no_lock = \<lparr>le_read = (\<lambda>_. FileMissing), le_loads = (\<lambda>_. DecodeError []), le_iso = (\<lambda>_. IsoInvalid),
     le_isoformat = (\<lambda>_. [])\<rparr>"

definition demo_frozen :: lock_env where
  "demo_frozen = \<lparr>le_read = (\<lambda>_. FileText ''x''),
     le_loads = (\<lambda>_. Loaded (JObj [(''expires_at'', JStr ''later'')])),
     le_iso = (\<lambda>_. IsoAware 100), le_isoformat = (\<lambda>_. ''later'')\<rparr>"

definition demo_penv :: "lock_env \<Rightarrow> (nat, unit) penv" where
  "demo_penv le = \<lparr>pe_registry = [], pe_config = empty_config,
     pe_waker = (\<lambda>ag ev n. (Woke \<lparr>wr_exit = 0, wr_stdout = [], wr_stderr = []\<rparr>, [], Suc n)),
     pe_lock_env = le, pe_lock_dir = ''/l'', pe_breaker = default_breaker_config, pe_breaker_src = [],
     pe_ttl = Fin 600, pe_attempts = 3, pe_mono = of_nat, pe_wall = (\<lambda>n. if n = 0 then 9 else 5), pe_instant = (\<lambda>_. ''t''),
     pe_ev = \<lparr>ee_iso = (\<lambda>_. ''t''), ee_write = (\<lambda>_. None)\<rparr>\<rparr>"

definition demo_world :: "(nat, unit) world" where
  "demo_world = \<lparr>w_ext = 0, w_routes = (), w_locks = (\<lambda>_. None), w_breaker = init_breaker,
     w_dedup = init_deduper, w_cov = \<lparr>wc_capacity = 8, wc_streams = []\<rparr>,
     w_ev = \<lparr>es_path = None, es_doc = empty_doc, es_failed = False, es_reads = 0, es_writes = 0,
             es_disk = None, es_log = []\<rparr>,
     w_log = [], w_mono = 0, w_wall = 0, w_slept = []\<rparr>"

lemma demo_admits:
  "admitted (fst (admit default_breaker_config [] now a s init_breaker))"
proof -
  have t: "tick_gc default_breaker_config now init_breaker = init_breaker\<lparr>admits_since_gc := 1\<rparr>"
    by (simp add: tick_gc_def init_breaker_def gc_interval_def Let_def)
  have m: "max_wakes default_breaker_config = 20" "stream_max_wakes default_breaker_config = 15"
    by (simp_all add: default_breaker_config_def)
  have w: "windows init_breaker k = None" for k by (simp add: init_breaker_def)
  show ?thesis
    by (cases s) (simp_all add: admit_def t admit_scopes_def scopes_for_def m w
        empty_window_def prune_def set_window_def admitted_def Let_def)
qed

lemma demo_allowed: "wake_allowed (demo_penv demo_no_lock) demo_agent (demo_event d) demo_world"
proof -
  have "safe_slug ''site''" by (simp add: safe_slug_def)
  then show ?thesis
    using demo_admits
    by (simp add: wake_allowed_def demo_penv_def demo_world_def demo_agent_def demo_event_def demo_no_lock_def
        seen_def init_deduper_def covering_def recheck_def get_route_def check_lock_def inspect_def
        harness_key_def should_wake_def wake_states_def)
qed

lemma demo_free: "\<not> holds_lock k (w_locks demo_world)"
  by (simp add: demo_world_def holds_lock_def)

lemma demo_waker: "pe_waker (demo_penv le) ag ev n = (Woke \<lparr>wr_exit = 0, wr_stdout = [], wr_stderr = []\<rparr>, [], Suc n)"
  by (simp add: demo_penv_def)

lemma demo_attempts: "1 \<le> pe_attempts (demo_penv le)"
  by (simp add: demo_penv_def)

lemma demo_clock: "mono (pe_mono (demo_penv le))"
  by (simp add: demo_penv_def mono_def)

theorem open_path_wakes_witness:
  "\<exists>w' r'. execute (demo_penv demo_no_lock) demo_agent (demo_event ''d1'') (demo_world, new_result) = Some (w', r')
     \<and> w_ext w' = 1"
  using open_path_wakes[OF demo_allowed demo_free demo_waker demo_attempts, of "''d1''" new_result]
  by (auto simp: demo_world_def)

text \<open>The state after the first delivery woke the agent.\<close>

lemma demo_woken:
  obtains w1 r1 where
    "execute (demo_penv demo_no_lock) demo_agent (demo_event ''d1'') (demo_world, new_result) = Some (w1, r1)"
    "w_ext w1 = 1" "stages r1 = stages new_result @ [(SLock, OOk), (SWake, OOk)]"
    "\<not> holds_lock (harness_key demo_agent) (w_locks w1)" "w_mono w1 \<noteq> 0"
proof -
  from open_path[OF demo_allowed demo_free demo_waker demo_attempts, of "''d1''" new_result]
  obtain w1 r1 where w: "execute (demo_penv demo_no_lock) demo_agent (demo_event ''d1'') (demo_world, new_result) = Some (w1, r1)"
    "w_ext w1 = Suc (w_ext demo_world)" "stages r1 = stages new_result @ [(SLock, OOk), (SWake, OOk)]"
    "\<not> holds_lock (harness_key demo_agent) (w_locks w1)" by blast
  moreover have "w_mono w1 \<noteq> 0" using execute_dedup[OF w(1)] w(3) by auto
  ultimately show thesis using that by (simp add: demo_world_def)
qed

lemma executes:
  assumes "\<not> holds_lock (harness_key ag) (w_locks w)"
  obtains w' r' where "execute env ag ev (w, r) = Some (w', r')"
  using execute_result[of ag w env ev r] assms by auto

theorem duplicate_wakes_once_witness:
  "\<exists>w1 r1 w2 r2. execute (demo_penv demo_no_lock) demo_agent (demo_event ''d1'') (demo_world, new_result) = Some (w1, r1)
     \<and> execute (demo_penv demo_no_lock) demo_agent (demo_event ''d1'') (w1, new_result) = Some (w2, r2)
     \<and> w_ext w1 = 1 \<and> w_ext w2 = 1"
proof -
  obtain w1 r1 where w1: "execute (demo_penv demo_no_lock) demo_agent (demo_event ''d1'') (demo_world, new_result) = Some (w1, r1)"
    "w_ext w1 = 1" "stages r1 = stages new_result @ [(SLock, OOk), (SWake, OOk)]"
    "\<not> holds_lock (harness_key demo_agent) (w_locks w1)" "w_mono w1 \<noteq> 0" by (rule demo_woken)
  obtain w2 r2 where w2: "execute (demo_penv demo_no_lock) demo_agent (demo_event ''d1'') (w1, new_result) = Some (w2, r2)"
    by (rule executes[OF w1(4)])
  have "dedup_fresh (pe_ttl (demo_penv demo_no_lock)) (pe_mono (demo_penv demo_no_lock) (w_mono w1))
     (pe_mono (demo_penv demo_no_lock) (w_mono w1 - 1))"
    using w1(5) by (cases "w_mono w1") (simp_all add: dedup_fresh_def demo_penv_def)
  from duplicate_wakes_once[OF demo_clock w1(1,3) run_jobs.simps(1) this refl w2] w1 w2
  show ?thesis by auto
qed

theorem queued_burst_costs_one_wake_witness:
  "\<exists>w1 r1 w2. execute (demo_penv demo_no_lock) demo_agent (demo_event ''d1'') (demo_world, new_result) = Some (w1, r1)
     \<and> run_jobs (demo_penv demo_no_lock) [(demo_agent, demo_event ''d2'', new_result)] w1 = Some w2 \<and> w_ext w2 = 1"
proof -
  obtain w1 r1 where w1: "execute (demo_penv demo_no_lock) demo_agent (demo_event ''d1'') (demo_world, new_result) = Some (w1, r1)"
    "w_ext w1 = 1" "stages r1 = stages new_result @ [(SLock, OOk), (SWake, OOk)]"
    "\<not> holds_lock (harness_key demo_agent) (w_locks w1)" "w_mono w1 \<noteq> 0" by (rule demo_woken)
  obtain w2 r2 where w2: "execute (demo_penv demo_no_lock) demo_agent (demo_event ''d2'') (w1, new_result) = Some (w2, r2)"
    by (rule executes[OF w1(4)])
  have "w_ext w2 = w_ext w1"
    by (rule queued_burst_costs_one_wake[OF w1(1,3), where js = "[(demo_event ''d2'', new_result)]"])
      (simp_all add: demo_world_def cov.ok_def demo_event_def stream_key_def demo_penv_def w2[unfolded demo_event_def demo_penv_def])
  with w1 w2 show ?thesis by auto
qed

lemma demo_not_frozen_free:
  obtains w1 r1 where "execute (demo_penv demo_frozen) demo_agent (demo_event ''d1'') (demo_world, new_result) = Some (w1, r1)"
  by (rule executes[OF demo_free])

lemma demo_frozen_expiry: "usable_expiry demo_frozen ''x'' = Some 100"
  by (simp add: usable_expiry_def demo_frozen_def jget_def parse_iso8601_def py_strip_def py_rstrip_def
      py_lstrip_def is_space_def utc_min_def utc_max_def)

lemma demo_frozen_read: "le_read demo_frozen p = FileText ''x''"
  by (simp add: demo_frozen_def)

theorem frozen_agent_never_woken_witness:
  "\<exists>w1 r1. execute (demo_penv demo_frozen) demo_agent (demo_event ''d1'') (demo_world, new_result) = Some (w1, r1)
     \<and> w_ext w1 = 0"
proof -
  obtain w1 r1 where w1: "execute (demo_penv demo_frozen) demo_agent (demo_event ''d1'') (demo_world, new_result) = Some (w1, r1)"
    by (rule demo_not_frozen_free)
  have "w_ext w1 = w_ext demo_world"
    by (rule frozen_agent_never_woken[OF w1, where content = "''x''" and expires = 100, THEN conjunct1])
      (simp_all add: demo_frozen_expiry demo_penv_def demo_agent_def harness_key_def safe_slug_def demo_world_def
        demo_frozen_read)
  with w1 show ?thesis by (auto simp: demo_world_def)
qed

theorem wake_needs_every_gate_witness:
  "\<exists>w1 r1. execute (demo_penv demo_frozen) demo_agent (demo_event ''d1'') (demo_world, new_result) = Some (w1, r1)
     \<and> w_slept w1 = []"
proof -
  obtain w1 r1 where w1: "execute (demo_penv demo_frozen) demo_agent (demo_event ''d1'') (demo_world, new_result) = Some (w1, r1)"
    by (rule demo_not_frozen_free)
  have s: "safe_slug ''site''" by (simp add: safe_slug_def)
  have "\<not> wake_allowed (demo_penv demo_frozen) demo_agent (demo_event ''d1'') demo_world"
    using s demo_frozen_expiry
    by (auto simp: wake_allowed_def demo_penv_def demo_agent_def harness_key_def demo_world_def
        check_lock_def inspect_def decide_def usable_expiry_def should_wake_def wake_states_def demo_frozen_def Let_def
        split: sum.splits option.splits)
  from wake_needs_every_gate[OF w1 this] w1 show ?thesis by (auto simp: demo_world_def)
qed

theorem dispatch_attempts_bounded_witness:
  "w_wall (fst (snd (dispatch_wake (demo_penv demo_no_lock) demo_agent (demo_event ''d1'') (demo_world, new_result)))) \<le> 3"
proof -
  from dispatch_attempts_bounded[OF demo_attempts[of demo_no_lock], where ev = "demo_event ''d1''" and ag = demo_agent
      and ws = "(demo_world, new_result)"]
  obtain k where k: "k \<le> (if synthetic (demo_event ''d1'') then 1 else pe_attempts (demo_penv demo_no_lock))"
    "w_wall (fst (snd (dispatch_wake (demo_penv demo_no_lock) demo_agent (demo_event ''d1'') (demo_world, new_result))))
      = w_wall demo_world + k" by auto
  have "(if synthetic (demo_event ''d1'') then 1 else pe_attempts (demo_penv demo_no_lock)) = 3"
    by (simp add: synthetic_def synthetic_kinds_def demo_event_def demo_penv_def)
  with k show ?thesis by (simp add: demo_world_def)
qed

end
