(* ===== verification/Github_Pipeline.thy ===== *)
theory Github_Pipeline
  imports Github_Props Pipeline_Witness
begin

text \<open>
  The github route inside the pipeline: what its ledger says when a queued wake reaches
  the front decides whether the agent is woken. Then the concrete deliveries on which the
  route's properties are evaluated.
\<close>

lemma ledger_closes_gate:
  assumes "get_route (pe_registry env) (ev_source ev) = Inr (github_route cfg wenv)"
    and "ev_origin ev = Some origin"
    and "reason_to_drop (ref_url origin) (gs_issues (w_routes w)) = Some issue_closed"
  shows "\<not> wake_allowed env ag ev w"
proof -
  have "nonblank issue_closed" by (simp add: nonblank_def issue_closed_def py_strip_def py_lstrip_def py_rstrip_def is_space_def)
  then have "recheck env ev w = Inr (Some issue_closed)"
    using assms by (simp add: recheck_def route_recheck_def github_route_def github_recheck_def)
  then show ?thesis by (simp add: wake_allowed_def)
qed

text \<open>
  C21. A wake queued for an issue that has since been closed is dropped. Once a delivery
  that made the change reported the issue closed, no later delivery that is older, or of
  the same second and only mentions the issue, can bring the wake back: while the ledger
  has room for the issues reported, an execution for it calls no waker.
\<close>

theorem closed_issue_never_woken:
  assumes "get_route (pe_registry env) (ev_source ev) = Inr (github_route cfg wenv)"
    and "ev_origin ev = Some origin"
    and "distinct (map fst (il_issues led))" and "map_of (il_issues led) (ref_url origin) = Some k"
    and "\<not> is_open k" and "is_state_first_hand k"
    and "list_all (\<lambda>(u, rep). u = ref_url origin \<longrightarrow> outranked k rep) rs"
    and "card (fst ` set (il_issues led) \<union> fst ` set rs) \<le> il_capacity led"
    and "gs_issues (w_routes w) = fold issue_record rs led"
    and "execute env ag ev (w, r) = Some (w', r')"
  shows "w_ext w' = w_ext w \<and> (SWake, OOk) \<notin> set (drop (length (stages r)) (stages r'))"
proof -
  have "reason_to_drop (ref_url origin) (gs_issues (w_routes w)) = Some issue_closed"
    unfolding assms(9) by (rule closed_stays_closed[OF assms(3-7) subset_refl _ assms(8)]) simp
  from closed_gate_frame[OF assms(10) ledger_closes_gate[OF assms(1,2) this]] show ?thesis by blast
qed

subsection \<open>Concrete deliveries\<close>

definition demo_issue :: "string \<Rightarrow> json" where
  "demo_issue state = JObj [(''html_url'', JStr ''https://github.com/acme/site/issues/7''),
     (''state'', JStr state), (''labels'', JList [JObj [(''name'', JStr ''handoff'')]]),
     (''updated_at'', JStr ''t''), (''created_at'', JStr ''t''), (''number'', JInt 7), (''title'', JStr ''fix'')]"

definition demo_payload :: "json \<Rightarrow> json" where
  "demo_payload action = JObj [(''action'', action), (''issue'', demo_issue ''open''),
     (''sender'', JObj [(''login'', JStr ''Drew'')]), (''repository'', JObj [(''full_name'', JStr ''acme/site'')])]"

definition demo_gh :: "json \<Rightarrow> github_config" where
  "demo_gh action = mk_github_config [''drew''] (\<lambda>_. Some ''site-ai[bot]'') [''acme/site'']
     (\<lambda>_. Loaded (demo_payload action)) (\<lambda>_. IsoAware 5) (\<lambda>_ _. [])"

definition demo_rq :: inbound_request where
  "demo_rq = \<lparr>rq_headers = [(''x-github-event'', ''issues''), (''x-github-delivery'', ''d1'')], rq_body = []\<rparr>"

lemma demo_opened:
  "(case github_normalize (demo_gh (JStr ''opened'')) demo_rq init_github_state of
      (NormEvent ev, st, _) \<Rightarrow> True | _ \<Rightarrow> False)"
  by code_simp

theorem github_wake_authorised_witness:
  "\<exists>ev st ls. github_normalize (demo_gh (JStr ''opened'')) demo_rq init_github_state = (NormEvent ev, st, ls)
     \<and> ev_source ev = ''github''"
proof -
  obtain ev st ls where
    "github_normalize (demo_gh (JStr ''opened'')) demo_rq init_github_state = (NormEvent ev, st, ls)"
    using demo_opened by (auto split: prod.splits norm_result.splits)
  with github_wake_authorised[OF this] show ?thesis by (auto simp: gh_event_ok_def)
qed

lemma demo_raises:
  "(case github_normalize (demo_gh (JList [])) demo_rq init_github_state of
      (NormRaised e, st, _) \<Rightarrow> True | _ \<Rightarrow> False)"
  by code_simp

theorem github_raise_causes_witness:
  "\<exists>e st ls. github_normalize (demo_gh (JList [])) demo_rq init_github_state = (NormRaised e, st, ls)
     \<and> (\<exists>d. parse_json_object (gh_loads (demo_gh (JList []))) (rq_body demo_rq) \<in> {BodyRaised e, BodyOk d})"
proof -
  obtain e st ls where
    "github_normalize (demo_gh (JList [])) demo_rq init_github_state = (NormRaised e, st, ls)"
    using demo_raises by (auto split: prod.splits norm_result.splits)
  with github_raise_causes[OF this] show ?thesis by fast
qed

definition demo_net :: "string \<Rightarrow> transport" where
  "demo_net leak = (\<lambda>url _. if starts_with (github_api @ ''/'') url then Inr (JList [], None)
     else Inl (UrlFailed leak))"

theorem listing_stays_on_api_witness:
  "read_listing (demo_net ''a'') (\<lambda>_. []) of_nat ''acme/site'' ''issues'' ''x'' 3 0
     = read_listing (demo_net ''b'') (\<lambda>_. []) of_nat ''acme/site'' ''issues'' ''x'' 3 0"
  by (rule listing_stays_on_api) (simp add: demo_net_def)

definition demo_ref :: issue_ref where
  "demo_ref = \<lparr>ref_repo = ''acme/site'', ref_number = 7, ref_url = ''u7'', ref_title = ''fix''\<rparr>"

definition demo_closed :: "bool \<Rightarrow> issue_state" where
  "demo_closed first_hand = \<lparr>is_updated_at = 5, is_open = \<not> first_hand, is_labels = [''handoff''],
     is_state_first_hand = first_hand, is_labels_first_hand = False, is_ref = Some demo_ref\<rparr>"

definition demo_ledger :: issue_ledger where
  "demo_ledger = \<lparr>il_capacity = 8, il_issues = [(''u7'', demo_closed True)]\<rparr>"

definition demo_warm :: warm_env where
  "demo_warm = \<lparr>wm_clock = of_nat, wm_issues = read_open_handoffs (demo_net []) (\<lambda>_. []) of_nat,
     wm_pulls = read_open_pulls (demo_net []) (\<lambda>_. []) of_nat, wm_deadline = warm_deadline, wm_fmt_g = (\<lambda>_. [])\<rparr>"

definition demo_gh_penv :: "(nat, github_state) penv" where
  "demo_gh_penv = \<lparr>pe_registry = [(''github'', github_route (demo_gh JNull) demo_warm)], pe_config = empty_config,
     pe_waker = pe_waker (demo_penv demo_no_lock), pe_lock_env = demo_no_lock, pe_lock_dir = ''/l'',
     pe_breaker = default_breaker_config, pe_breaker_src = [], pe_ttl = Fin 600, pe_attempts = 3,
     pe_mono = of_nat, pe_wall = int, pe_instant = (\<lambda>_. ''t''), pe_ev = pe_ev (demo_penv demo_no_lock)\<rparr>"

definition demo_gh_world :: "(nat, github_state) world" where
  "demo_gh_world = \<lparr>w_ext = 0,
     w_routes = init_github_state\<lparr>gs_issues := fold issue_record [(''u7'', demo_closed False)] demo_ledger\<rparr>,
     w_locks = (\<lambda>_. None), w_breaker = init_breaker, w_dedup = init_deduper,
     w_cov = \<lparr>wc_capacity = 8, wc_streams = []\<rparr>, w_ev = w_ev demo_world, w_log = [], w_mono = 0, w_wall = 0,
     w_slept = []\<rparr>"

theorem closed_issue_never_woken_witness:
  "\<exists>w' r'. execute demo_gh_penv demo_agent ((demo_event ''d1'')\<lparr>ev_origin := Some demo_ref\<rparr>) (demo_gh_world, new_result)
     = Some (w', r') \<and> w_ext w' = 0"
proof -
  let ?ev = "(demo_event ''d1'')\<lparr>ev_origin := Some demo_ref\<rparr>"
  have "\<not> holds_lock (harness_key demo_agent) (w_locks demo_gh_world)"
    by (simp add: demo_gh_world_def holds_lock_def)
  then obtain w' r' where e: "execute demo_gh_penv demo_agent ?ev (demo_gh_world, new_result) = Some (w', r')"
    by (rule executes)
  have "w_ext w' = w_ext demo_gh_world \<and> (SWake, OOk) \<notin> set (drop (length (stages new_result)) (stages r'))"
    by (rule closed_issue_never_woken[where led = demo_ledger and k = "demo_closed True" and origin = demo_ref
          and cfg = "demo_gh JNull" and rs = "[(''u7'', demo_closed False)]", OF _ _ _ _ _ _ _ _ _ e])
      (simp_all add: demo_gh_penv_def get_route_def demo_event_def demo_ledger_def demo_ref_def demo_closed_def
        outranked_def demo_gh_world_def)
  with e show ?thesis by (auto simp: demo_gh_world_def)
qed

end
