(* ===== verification/Basecradle.thy ===== *)
theory Basecradle
  imports Config RouteBase
begin

text \<open>
  \<open>routes/basecradle.py\<close>: the per-recipient keyring, its loading from the environment,
  and the BaseCradle route. The environment is the list of its variables in iteration
  order, a secret is its text. The HMAC digest, the JSON decoder and
  \<open>datetime.fromisoformat\<close> are parameters.
\<close>

definition bc_signature_header :: string where "bc_signature_header = ''X-BaseCradle-Signature''"
definition bc_event_header :: string where "bc_event_header = ''X-BaseCradle-Event''"
definition bc_delivery_header :: string where "bc_delivery_header = ''X-BaseCradle-Delivery''"
definition bc_route_name :: string where "bc_route_name = ''basecradle''"

definition recipient_secret_prefix :: string where
  "recipient_secret_prefix = route_secret_var bc_route_name @ ''_''"

definition shared_fallback_var :: string where
  "shared_fallback_var = ''BASECRADLE_ROUTER_'' @ py_upper bc_route_name @ ''_SHARED_SECRET_FALLBACK''"

definition actionable_events :: "string list" where
  "actionable_events = [''message.created'', ''asset.created'', ''task.activated'', ''webhook_event.received'']"

text \<open>\<open>_RECIPIENT_UUID_RE\<close>: five runs of 8, 4, 4, 4 and 12 hexadecimal digits.\<close>

definition is_uuid :: "string \<Rightarrow> bool" where
  "is_uuid s = (length s = 36 \<and>
     list_all (\<lambda>i. if i \<in> {8, 13, 18, 23} then s ! i = CHR ''-'' else is_hex (s ! i)) [0..<36])"

subsection \<open>The keyring\<close>

record keyring =
  kr_by_recipient :: "(string \<times> string) list"
  kr_shared_fallback :: bool

definition default_keyring :: keyring where
  "default_keyring = \<lparr>kr_by_recipient = [], kr_shared_fallback = True\<rparr>"

definition key_path_recipient :: string where "key_path_recipient = ''recipient''"
definition key_path_fallback :: string where "key_path_fallback = ''fallback''"

text \<open>\<open>select\<close>: the key and the path that chose it; the left is a \<open>SignatureError\<close>.\<close>

definition select_key :: "keyring \<Rightarrow> string option \<Rightarrow> string option \<Rightarrow> string + string option \<times> string" where
  "select_key kr recipient shared =
     (case Option.bind recipient (map_of (kr_by_recipient kr)) of
        Some key \<Rightarrow> Inr (Some key, key_path_recipient)
      | None \<Rightarrow>
          if kr_shared_fallback kr then Inr (shared, key_path_fallback)
          else Inl (''no per-recipient signing key for this delivery's recipient, and the ''
            @ ''shared fallback is retired ('' @ shared_fallback_var @ '' is off)''))"

subsection \<open>Loading the keyring\<close>

definition slug_suffix :: "string \<Rightarrow> string" where
  "slug_suffix key = map (\<lambda>c. if is_alnum_ascii c \<or> c = CHR ''_'' then c else CHR ''_'') (py_upper key)"

definition key_var :: "agent \<Rightarrow> string" where
  "key_var a = recipient_secret_prefix @ slug_suffix (ag_key a)"

definition bool_env :: "(string \<times> string) list \<Rightarrow> string \<Rightarrow> bool \<Rightarrow> string + bool" where
  "bool_env env var dflt =
     (let given = (case map_of env var of None \<Rightarrow> [] | Some v \<Rightarrow> v);
          raw = py_lower (py_strip given)
      in if raw = [] then Inr dflt
         else if raw \<in> set [''1'', ''true'', ''yes'', ''on''] then Inr True
         else if raw \<in> set [''0'', ''false'', ''no'', ''off''] then Inr False
         else Inl (var @ '' must be one of ['' @ py_join '', '' (map py_repr
                [''0'', ''1'', ''false'', ''no'', ''off'', ''on'', ''true'', ''yes'']) @ ''], got '' @ py_repr given))"

text \<open>The variable of every registered recipient; two agents on one variable are refused.\<close>

fun claim_vars ::
  "(string \<times> agent) list \<Rightarrow> (string \<times> string \<times> agent) list \<Rightarrow> string + (string \<times> string \<times> agent) list" where
  "claim_vars [] acc = Inr acc"
| "claim_vars ((uuid, a) # rest) acc =
     (case map_of acc (key_var a) of
        Some (other, b) \<Rightarrow>
          if other \<noteq> uuid
          then Inl (''agent keys '' @ py_repr (ag_key b) @ '' and '' @ py_repr (ag_key a) @ '' both map to ''
            @ key_var a @ ''; per-recipient signing keys must be addressable one agent at a time'')
          else claim_vars rest (AList.update (key_var a) (uuid, a) acc)
      | None \<Rightarrow> claim_vars rest (AList.update (key_var a) (uuid, a) acc))"

fun read_keys ::
  "(string \<times> string \<times> agent) list \<Rightarrow> (string \<times> string) list \<Rightarrow> (string \<times> string) list
    \<Rightarrow> string + (string \<times> string) list" where
  "read_keys vars [] acc = Inr acc"
| "read_keys vars ((var, v) # rest) acc =
     (if \<not> starts_with recipient_secret_prefix var then read_keys vars rest acc
      else (case map_of vars var of
              None \<Rightarrow> Inl (var @ '' names no registered agent; expected one of: ''
                @ or_else (Some (py_join '', '' (sort (map fst vars)))) ''(no harness agents registered)'')
            | Some (uuid, a) \<Rightarrow>
                if \<not> nonblank v
                then Inl (var @ '' is set but empty; unset it to fall back, or give it a key'')
                else read_keys vars rest (AList.update uuid v acc)))"

definition load_keyring :: "(string \<times> agent) list \<Rightarrow> (string \<times> string) list \<Rightarrow> string + keyring" where
  "load_keyring recipients env =
     (case bool_env env shared_fallback_var True of
        Inl e \<Rightarrow> Inl e
      | Inr fallback \<Rightarrow>
          (case claim_vars recipients [] of
             Inl e \<Rightarrow> Inl e
           | Inr vars \<Rightarrow>
               (case read_keys vars env [] of
                  Inl e \<Rightarrow> Inl e
                | Inr keys \<Rightarrow>
                    (let missing = sort (map (ag_key \<circ> snd)
                           (filter (\<lambda>(uuid, _). map_of keys uuid = None) recipients))
                     in if \<not> fallback \<and> missing \<noteq> []
                        then Inl (shared_fallback_var @ '' is off but no per-recipient signing key is set for ''
                          @ py_join '', '' missing @ ''; those agents could never be verified again (set ''
                          @ recipient_secret_prefix @ ''<SLUG>, or leave the fallback on until they are rotated)'')
                        else Inr \<lparr>kr_by_recipient = keys, kr_shared_fallback = fallback\<rparr>))))"

subsection \<open>The route\<close>

record bc_config =
  bc_keyring :: keyring
  bc_loads :: "string \<Rightarrow> loads_result"
  bc_iso :: "string \<Rightarrow> iso_result"
  bc_hexdigest :: "string \<Rightarrow> string \<Rightarrow> string"

text \<open>\<open>_recipient_hint\<close>: any failure of the parse, whatever its kind, is no hint.\<close>

definition recipient_hint :: "bc_config \<Rightarrow> string \<Rightarrow> string option" where
  "recipient_hint cfg body =
     (case parse_json_object (bc_loads cfg) body of
        BodyOk data \<Rightarrow> (case jget data ''recipient_uuid'' of
          JStr u \<Rightarrow> if is_uuid u then Some u else None | _ \<Rightarrow> None)
      | _ \<Rightarrow> None)"

definition bc_verify :: "bc_config \<Rightarrow> inbound_request \<Rightarrow> string option \<Rightarrow> verify_result \<times> log_line list" where
  "bc_verify cfg rq secret =
     (let hint = recipient_hint cfg (rq_body rq) in
      case select_key (bc_keyring cfg) hint secret of
        Inl e \<Rightarrow> (BadSignature e, [])
      | Inr (key, path) \<Rightarrow>
          (case verify_hmac_sha256 (bc_hexdigest cfg) rq key bc_signature_header of
             Some e \<Rightarrow> (BadSignature (e @ '' (key_path='' @ path @ '')''), [])
           | None \<Rightarrow> (Verified, [(Info, ''event=verify_key '' @ log_fields
               [(''source'', VStr bc_route_name), (''key_path'', VStr path),
                (''recipient'', VStr (or_else hint ''<unknown>'')),
                (''delivery'', VStr (or_else (header rq bc_delivery_header) ''<unknown>''))])])))"

definition required_text :: "(string \<times> json) list \<Rightarrow> string \<Rightarrow> string + string" where
  "required_text obj key = (case jget obj key of
     JStr s \<Rightarrow> if s = [] then Inl (key @ '' must be a non-empty string'') else Inr s
   | _ \<Rightarrow> Inl (key @ '' must be a non-empty string''))"

definition bc_event :: "bc_config \<Rightarrow> (string \<times> json) list \<Rightarrow> string \<Rightarrow> string \<Rightarrow> norm_result \<times> log_line list" where
  "bc_event cfg data etype delivery =
     (case required_text data ''recipient_uuid'' of
        Inl e \<Rightarrow> (NormRejected e, [])
      | Inr uuid \<Rightarrow> (case required_text data ''timeline_uuid'' of
        Inl e \<Rightarrow> (NormRejected e, [])
      | Inr timeline \<Rightarrow>
          (case (case mk_recipient ''recipient_uuid'' uuid of
                   Inl e \<Rightarrow> Inl e
                 | Inr rcp \<Rightarrow> mk_event bc_route_name PlatformEvent rcp timeline delivery None
                     (parse_timestamp (bc_iso cfg) (jget data ''occurred_at'')) (Some etype)) of
             Inl e \<Rightarrow> (NormRejected (''malformed basecradle payload: '' @ e), [])
           | Inr ev \<Rightarrow> (NormEvent ev,
               [log_delivery_decision bc_route_name (Some etype) DecWoke (Some uuid) (Some delivery) []]))))"

definition bc_normalize :: "bc_config \<Rightarrow> inbound_request \<Rightarrow> 'r \<Rightarrow> norm_result \<times> 'r \<times> log_line list" where
  "bc_normalize cfg rq st =
     (let etype = header rq bc_event_header; delivery = header rq bc_delivery_header in
      if (case etype of None \<Rightarrow> True | Some t \<Rightarrow> t \<notin> set actionable_events)
      then (NormIgnored, st, [log_delivery_decision bc_route_name etype DecIgnored None delivery []])
      else (case parse_json_object (bc_loads cfg) (rq_body rq) of
              BodyRejected e \<Rightarrow> (NormRejected e, st, [])
            | BodyRaised e \<Rightarrow> (NormRaised e, st, [])
            | BodyOk data \<Rightarrow>
                if or_else delivery [] = []
                then (NormRejected (''missing '' @ bc_delivery_header @ '' header''), st, [])
                else (let (r, ls) = bc_event cfg data (the etype) (the delivery) in (r, st, ls))))"

definition bc_boot_summary :: "bc_config \<Rightarrow> string" where
  "bc_boot_summary cfg = log_fields
     [(''recipient_keys'', VInt (int (length (kr_by_recipient (bc_keyring cfg))))),
      (''shared_fallback'', VBool (kr_shared_fallback (bc_keyring cfg)))]"

definition bc_requires_route_secret :: "bc_config \<Rightarrow> bool" where
  "bc_requires_route_secret cfg = kr_shared_fallback (bc_keyring cfg)"

definition basecradle_route :: "bc_config \<Rightarrow> 'r route" where
  "basecradle_route cfg =
     \<lparr>rt_name = bc_route_name, rt_kind = ''recipient_uuid'', rt_synthetic = False,
      rt_needs_secret = bc_requires_route_secret cfg,
      rt_verify = bc_verify cfg, rt_normalize = bc_normalize cfg, rt_recheck = None,
      rt_summary = Some (Some (bc_boot_summary cfg)), rt_warm = None\<rparr>"

subsection \<open>The keyring as loaded\<close>

lemma update_None: "map_of (AList.update k v d) j = None \<longleftrightarrow> map_of d j = None \<and> j \<noteq> k"
  by (simp add: update_conv')

lemma sort_Nil: "sort xs = [] \<longleftrightarrow> xs = []" for xs :: "string list"
  by (metis set_empty set_sort)

text \<open>Claimed variables: each belongs to one recipient, and every recipient has its own.\<close>

lemma claim_vars_sound:
  assumes "claim_vars recipients acc = Inr vars"
    and "\<forall>v u a. map_of acc v = Some (u, a) \<longrightarrow> v = key_var a \<and> P u a"
    and "\<forall>(u, a)\<in>set recipients. P u a"
  shows "\<forall>v u a. map_of vars v = Some (u, a) \<longrightarrow> v = key_var a \<and> P u a"
  using assms
proof (induction recipients arbitrary: acc)
  case (Cons r rest)
  obtain uuid b where r: "r = (uuid, b)" by (cases r)
  let ?acc = "AList.update (key_var b) (uuid, b) acc"
  have step: "claim_vars rest ?acc = Inr vars"
    using Cons.prems(1) by (auto simp: r split: option.splits if_splits)
  have "\<forall>v u a. map_of ?acc v = Some (u, a) \<longrightarrow> v = key_var a \<and> P u a"
    using Cons.prems(2,3) by (simp add: update_conv' r)
  from Cons.IH[OF step this] Cons.prems(3) show ?case by simp
qed simp

lemma read_keys_sound:
  assumes "read_keys vars env acc = Inr keys"
    and "\<forall>u s. map_of acc u = Some s \<longrightarrow> Q u s"
    and "\<forall>(var, v)\<in>set env. \<forall>u a. map_of vars var = Some (u, a) \<longrightarrow> nonblank v \<longrightarrow> Q u v"
  shows "\<forall>u s. map_of keys u = Some s \<longrightarrow> Q u s"
  using assms
proof (induction env arbitrary: acc)
  case (Cons e rest)
  obtain var v where e: "e = (var, v)" by (cases e)
  show ?case
  proof (cases "starts_with recipient_secret_prefix var")
    case False
    then have "read_keys vars rest acc = Inr keys" using Cons.prems(1) by (simp add: e)
    from Cons.IH[OF this Cons.prems(2)] Cons.prems(3) show ?thesis by simp
  next
    case True
    have rk: "read_keys vars ((var, v) # rest) acc = Inr keys" using Cons.prems(1) by (simp only: e)
    obtain u a where k: "map_of vars var = Some (u, a)" "nonblank v"
      "read_keys vars rest (AList.update u v acc) = Inr keys"
    proof (cases "map_of vars var")
      case None
      with rk True show thesis by simp
    next
      case (Some ua)
      obtain u a where ua: "ua = (u, a)" by (cases ua)
      show thesis
      proof (cases "nonblank v")
        case False
        with rk True Some show thesis by (simp add: ua)
      next
        case b: True
        with rk True Some have "read_keys vars rest (AList.update u v acc) = Inr keys" by (simp add: ua)
        with b Some ua show thesis using that by simp
      qed
    qed
    have "\<forall>w s. map_of (AList.update u v acc) w = Some s \<longrightarrow> Q w s"
      using Cons.prems(2,3) k(1,2) by (simp add: update_conv' e)
    from Cons.IH[OF k(3) this] Cons.prems(3) show ?thesis by simp
  qed
qed simp

lemma select_key_recipient:
  assumes "select_key kr (Some u) shared = Inr (key, path)" and "map_of (kr_by_recipient kr) u = Some s"
  shows "key = Some s"
  using assms by (auto simp: select_key_def)

lemma verified_key:
  "fst (bc_verify cfg rq secret) = Verified \<longleftrightarrow>
     (\<exists>key path. select_key (bc_keyring cfg) (recipient_hint cfg (rq_body rq)) secret = Inr (Some key, path)
        \<and> header rq bc_signature_header = Some (hmac_prefix @ bc_hexdigest cfg key (rq_body rq)))"
  by (auto simp: bc_verify_def verify_hmac_sha256_def Let_def starts_with_def split: sum.splits option.splits)

lemma bc_normalize_event:
  assumes "bc_normalize cfg rq st = (NormEvent ev, st', ls)"
  obtains data uuid where "parse_json_object (bc_loads cfg) (rq_body rq) = BodyOk data"
    "jget data ''recipient_uuid'' = JStr uuid" "ev_recipient ev = \<lparr>rec_by = ''recipient_uuid'', rec_value = uuid\<rparr>"
    "ev_source ev = bc_route_name" "ev_kind ev = PlatformEvent" "st' = st"
proof -
  from assms obtain data where p: "parse_json_object (bc_loads cfg) (rq_body rq) = BodyOk data"
    and b: "fst (bc_event cfg data (the (header rq bc_event_header)) (the (header rq bc_delivery_header))) = NormEvent ev"
    and s: "st' = st"
    by (auto simp: bc_normalize_def Let_def split: if_splits body_result.splits prod.splits)
  from b obtain uuid where "jget data ''recipient_uuid'' = JStr uuid"
    "ev_recipient ev = \<lparr>rec_by = ''recipient_uuid'', rec_value = uuid\<rparr>"
    "ev_source ev = bc_route_name" "ev_kind ev = PlatformEvent"
    by (auto simp: bc_event_def required_text_def mk_recipient_Inr split: sum.splits json.splits if_splits
        dest!: mk_event_Inr(1))
  with p s show thesis using that by blast
qed

text \<open>
  C25. An agent with its own key is woken under that key only. When a delivery verifies and
  normalizes to an event for a recipient that has a provisioned signing key (and a
  uuid-shaped id), its signature is the digest of the body under that very key: neither
  the shared secret nor another agent's key can wake it.
\<close>

theorem own_key_only:
  assumes "fst (bc_verify cfg rq secret) = Verified" and "bc_normalize cfg rq st = (NormEvent ev, st', ls)"
    and "is_uuid (rec_value (ev_recipient ev))"
    and "map_of (kr_by_recipient (bc_keyring cfg)) (rec_value (ev_recipient ev)) = Some key"
  shows "header rq bc_signature_header = Some (hmac_prefix @ bc_hexdigest cfg key (rq_body rq))"
proof -
  from assms(2) obtain data uuid where d: "parse_json_object (bc_loads cfg) (rq_body rq) = BodyOk data"
    "jget data ''recipient_uuid'' = JStr uuid" "ev_recipient ev = \<lparr>rec_by = ''recipient_uuid'', rec_value = uuid\<rparr>"
    by (rule bc_normalize_event)
  then have "recipient_hint cfg (rq_body rq) = Some uuid" using assms(3) by (simp add: recipient_hint_def)
  moreover have "map_of (kr_by_recipient (bc_keyring cfg)) uuid = Some key" using assms(4) d(3) by simp
  ultimately show ?thesis
    using assms(1) select_key_recipient unfolding verified_key by fastforce
qed

text \<open>
  The keyring is exactly what the operator provisioned. A key in it was read from the
  variable of a registered agent under that agent's own uuid; and with the shared
  fallback retired every registered recipient has a key, so none is stranded.
\<close>

theorem keyring_provisioned:
  assumes "load_keyring recipients env = Inr kr"
  shows "(\<forall>u s. map_of (kr_by_recipient kr) u = Some s \<longrightarrow>
            nonblank s \<and> (\<exists>a. (u, a) \<in> set recipients \<and> (key_var a, s) \<in> set env))
     \<and> (kr_shared_fallback kr \<or> (\<forall>(u, a)\<in>set recipients. map_of (kr_by_recipient kr) u \<noteq> None))"
proof -
  obtain vars where c: "claim_vars recipients [] = Inr vars"
    and r: "read_keys vars env [] = Inr (kr_by_recipient kr)"
    and f: "kr_shared_fallback kr \<or> filter (\<lambda>(uuid, _). map_of (kr_by_recipient kr) uuid = None) recipients = []"
    using assms by (auto simp: load_keyring_def Let_def sort_Nil split: sum.splits if_splits)
  have v: "\<forall>v u a. map_of vars v = Some (u, a) \<longrightarrow> v = key_var a \<and> (u, a) \<in> set recipients"
    by (rule claim_vars_sound[OF c]) auto
  have "\<forall>u s. map_of (kr_by_recipient kr) u = Some s \<longrightarrow>
      nonblank s \<and> (\<exists>a. (u, a) \<in> set recipients \<and> (key_var a, s) \<in> set env)"
    by (rule read_keys_sound[OF r]) (use v in auto)
  with f show ?thesis by (auto simp: filter_empty_conv)
qed

subsection \<open>A concrete delivery\<close>

definition demo_uuid :: string where "demo_uuid = ''00000000-0000-4000-8000-00000000000a''"

definition demo_bc :: bc_config where
  "demo_bc = \<lparr>bc_keyring = \<lparr>kr_by_recipient = [(demo_uuid, ''k1'')], kr_shared_fallback = True\<rparr>,
     bc_loads = (\<lambda>_. Loaded (JObj [(''recipient_uuid'', JStr demo_uuid), (''timeline_uuid'', JStr ''t'')])),
     bc_iso = (\<lambda>_. IsoInvalid), bc_hexdigest = (\<lambda>key body. key)\<rparr>"

definition demo_bc_rq :: inbound_request where
  "demo_bc_rq = \<lparr>rq_headers = [(''x-basecradle-event'', ''message.created''), (''x-basecradle-delivery'', ''d''),
     (''x-basecradle-signature'', ''sha256=k1'')], rq_body = ''b''\<rparr>"

lemma demo_bc_uuid: "is_uuid demo_uuid"
  by code_simp

lemma demo_bc_headers:
  "header demo_bc_rq bc_signature_header = Some ''sha256=k1''"
  "header demo_bc_rq bc_event_header = Some ''message.created''"
  "header demo_bc_rq bc_delivery_header = Some ''d''"
  by code_simp+

lemma demo_bc_body:
  "parse_json_object (bc_loads demo_bc) (rq_body demo_bc_rq)
     = BodyOk [(''recipient_uuid'', JStr demo_uuid), (''timeline_uuid'', JStr ''t'')]"
  by (simp add: parse_json_object_def demo_bc_def)

lemma demo_bc_verifies: "fst (bc_verify demo_bc demo_bc_rq None) = Verified"
proof -
  have "recipient_hint demo_bc (rq_body demo_bc_rq) = Some demo_uuid"
    unfolding recipient_hint_def demo_bc_body by (simp add: jget_def demo_bc_uuid)
  then show ?thesis
    unfolding verified_key demo_bc_headers
    by (simp add: select_key_def demo_bc_def hmac_prefix_def)
qed

lemma demo_bc_event:
  obtains ev st ls where "bc_normalize demo_bc demo_bc_rq () = (NormEvent ev, st, ls)"
    "rec_value (ev_recipient ev) = demo_uuid"
proof -
  have n: "nonblank ''recipient_uuid''" "nonblank demo_uuid" "nonblank bc_route_name" "nonblank ''t''" "nonblank ''d''"
    "nonblank ''message.created''" "demo_uuid \<noteq> []"
    by (simp_all add: nonblank_def demo_uuid_def bc_route_name_def py_strip_def py_lstrip_def py_rstrip_def is_space_def)
  have "case bc_normalize demo_bc demo_bc_rq () of
        (NormEvent ev, _, _) \<Rightarrow> rec_value (ev_recipient ev) = demo_uuid | _ \<Rightarrow> False"
    by (simp add: bc_normalize_def demo_bc_headers demo_bc_body actionable_events_def or_else_def bc_event_def
        required_text_def jget_def mk_recipient_def mk_event_def require_def n Let_def)
  then show thesis using that by (auto split: prod.splits norm_result.splits)
qed

theorem own_key_only_witness:
  "\<exists>ev. fst (bc_normalize demo_bc demo_bc_rq ()) = NormEvent ev \<and> rec_value (ev_recipient ev) = demo_uuid
     \<and> header demo_bc_rq bc_signature_header = Some (hmac_prefix @ ''k1'')"
proof -
  obtain ev st ls where n: "bc_normalize demo_bc demo_bc_rq () = (NormEvent ev, st, ls)"
    "rec_value (ev_recipient ev) = demo_uuid"
    by (rule demo_bc_event)
  have "map_of (kr_by_recipient (bc_keyring demo_bc)) (rec_value (ev_recipient ev)) = Some ''k1''"
    by (simp add: n(2) demo_bc_def)
  then have "header demo_bc_rq bc_signature_header = Some (hmac_prefix @ bc_hexdigest demo_bc ''k1'' (rq_body demo_bc_rq))"
    using own_key_only[OF demo_bc_verifies n(1)] demo_bc_uuid n(2) by simp
  moreover have "bc_hexdigest demo_bc ''k1'' (rq_body demo_bc_rq) = ''k1''" by (simp add: demo_bc_def)
  ultimately show ?thesis using n by (metis fst_conv)
qed

definition demo_bc_agent :: agent where
  "demo_bc_agent = \<lparr>ag_key = ''glm-5.2'', ag_os_user = ''glm'', ag_clone_path = ''/g'', ag_wake_kind = Harness,
     ag_bot_slug = None, ag_recipient_uuid = Some demo_uuid, ag_wake_bin = Some ''/w''\<rparr>"

definition demo_bc_env :: "(string \<times> string) list" where
  "demo_bc_env = [(''BASECRADLE_ROUTER_BASECRADLE_WEBHOOK_SECRET_GLM_5_2'', ''k1''),
     (''BASECRADLE_ROUTER_BASECRADLE_SHARED_SECRET_FALLBACK'', ''off'')]"

lemma demo_bc_keyring:
  "load_keyring [(demo_uuid, demo_bc_agent)] demo_bc_env
     = Inr \<lparr>kr_by_recipient = [(demo_uuid, ''k1'')], kr_shared_fallback = False\<rparr>"
proof -
  have v: "key_var demo_bc_agent = ''BASECRADLE_ROUTER_BASECRADLE_WEBHOOK_SECRET_GLM_5_2''"
    by (simp add: key_var_def slug_suffix_def recipient_secret_prefix_def route_secret_var_def bc_route_name_def
        py_upper_def is_alnum_ascii_def demo_bc_agent_def, code_simp)
  have b: "bool_env demo_bc_env shared_fallback_var True = Inr False" by code_simp
  have p: "starts_with recipient_secret_prefix ''BASECRADLE_ROUTER_BASECRADLE_WEBHOOK_SECRET_GLM_5_2''"
    "\<not> starts_with recipient_secret_prefix ''BASECRADLE_ROUTER_BASECRADLE_SHARED_SECRET_FALLBACK''" by code_simp+
  have n: "nonblank ''k1''" by code_simp
  have "read_keys [(key_var demo_bc_agent, demo_uuid, demo_bc_agent)] demo_bc_env [] = Inr [(demo_uuid, ''k1'')]"
    unfolding v demo_bc_env_def by (simp add: p n)
  then show ?thesis by (simp add: load_keyring_def b)
qed

theorem keyring_provisioned_witness:
  "\<exists>a. (demo_uuid, a) \<in> set [(demo_uuid, demo_bc_agent)] \<and> (key_var a, ''k1'') \<in> set demo_bc_env"
proof -
  let ?kr = "\<lparr>kr_by_recipient = [(demo_uuid, ''k1'')], kr_shared_fallback = False\<rparr>"
  have "map_of (kr_by_recipient ?kr) demo_uuid = Some ''k1''" by simp
  then show ?thesis using keyring_provisioned[OF demo_bc_keyring, THEN conjunct1] by blast
qed

end
