(* ===== verification/Probe_Route.thy ===== *)
theory Probe_Route
  imports RouteBase Wake
begin

text \<open>
  \<open>routes/probe.py\<close>, the synthetic route, and \<open>secret.py\<close>, the wrapper that keeps a
  credential out of logs and copies. A probe carries a recipient and a marker, and
  becomes a synthetic event whose prompt is the marker itself.
\<close>

definition pr_signature_header :: string where "pr_signature_header = ''X-BaseCradle-Probe-Signature''"
definition pr_delivery_header :: string where "pr_delivery_header = ''X-BaseCradle-Probe-Delivery''"
definition pr_event_header :: string where "pr_event_header = ''X-BaseCradle-Probe-Event''"
definition wake_probe_event :: string where "wake_probe_event = ''probe.wake''"

definition pr_verify ::
  "(string \<Rightarrow> string \<Rightarrow> string) \<Rightarrow> inbound_request \<Rightarrow> string option \<Rightarrow> verify_result \<times> log_line list" where
  "pr_verify hexdigest rq secret =
     (case verify_hmac_sha256 hexdigest rq secret pr_signature_header of
        None \<Rightarrow> (Verified, []) | Some e \<Rightarrow> (BadSignature e, []))"

definition pr_text :: "(string \<times> json) list \<Rightarrow> string \<Rightarrow> string + string" where
  "pr_text obj key = (case jget obj key of
     JStr s \<Rightarrow> if s = [] then Inl (key @ '' must be a non-empty string'') else Inr s
   | _ \<Rightarrow> Inl (key @ '' must be a non-empty string''))"

definition pr_event :: "(string \<times> json) list \<Rightarrow> string \<Rightarrow> string \<Rightarrow> norm_result \<times> log_line list" where
  "pr_event data etype delivery =
     (case pr_text data ''harness_key'' of
        Inl e \<Rightarrow> (NormRejected e, [])
      | Inr target \<Rightarrow> (case pr_text data ''marker'' of
        Inl e \<Rightarrow> (NormRejected e, [])
      | Inr marker \<Rightarrow>
          if \<not> is_marker marker
          then (NormRejected (''marker is not a well-formed BCNOC1 probe marker: '' @ py_repr marker
                 @ '' (expected 'BCNOC1 <nonce> <64-hex-hmac>')''), [])
          else (case (case mk_recipient ''harness_key'' target of
                        Inl e \<Rightarrow> Inl e
                      | Inr rcp \<Rightarrow> mk_event ''probe'' SyntheticProbe rcp marker delivery None None None) of
                  Inl e \<Rightarrow> (NormRejected (''malformed probe payload: '' @ e), [])
                | Inr ev \<Rightarrow> (NormEvent ev,
                    [log_delivery_decision ''probe'' (Some etype) DecWoke (Some target) (Some delivery) []]))))"

definition pr_normalize ::
  "(string \<Rightarrow> loads_result) \<Rightarrow> inbound_request \<Rightarrow> 'r \<Rightarrow> norm_result \<times> 'r \<times> log_line list" where
  "pr_normalize loads rq st =
     (let etype = or_else (header rq pr_event_header) wake_probe_event;
          delivery = or_else (header rq pr_delivery_header) []
      in case parse_json_object loads (rq_body rq) of
           BodyRejected e \<Rightarrow> (NormRejected e, st, [])
         | BodyRaised e \<Rightarrow> (NormRaised e, st, [])
         | BodyOk data \<Rightarrow>
             if etype \<noteq> wake_probe_event
             then (NormRejected (''unknown probe event '' @ py_repr etype @ ''; this route carries only ''
                    @ py_repr wake_probe_event), st, [])
             else if delivery = []
             then (NormRejected (''missing '' @ pr_delivery_header @ '' header''), st, [])
             else (let (r, ls) = pr_event data etype delivery in (r, st, ls)))"

definition probe_route :: "(string \<Rightarrow> string \<Rightarrow> string) \<Rightarrow> (string \<Rightarrow> loads_result) \<Rightarrow> 'r route" where
  "probe_route hexdigest loads =
     \<lparr>rt_name = ''probe'', rt_kind = ''harness_key'', rt_synthetic = True, rt_needs_secret = True,
      rt_verify = pr_verify hexdigest, rt_normalize = pr_normalize loads, rt_recheck = None, rt_summary = None,
      rt_warm = None\<rparr>"

definition probe_nonce :: "event \<Rightarrow> string option" where
  "probe_nonce ev = nonce_of (ev_wake_arg ev)"

subsection \<open>Secrets\<close>

text \<open>
  A secret reveals its text to the one caller that asks; its rendering is a constant, and
  every way to copy, mutate or serialize it raises.
\<close>

datatype secret = Secret (reveal: string)

datatype secret_use = SetAttr | DelAttr | Reduce

definition redacted :: string where "redacted = ''Secret('**********')''"

definition mk_secret :: "json \<Rightarrow> string + secret" where
  "mk_secret v = (case v of JStr s \<Rightarrow> Inr (Secret s)
     | JNull \<Rightarrow> Inl ''Secret wraps a str, got NoneType'' | JBool _ \<Rightarrow> Inl ''Secret wraps a str, got bool''
     | JInt _ \<Rightarrow> Inl ''Secret wraps a str, got int'' | JFloat _ \<Rightarrow> Inl ''Secret wraps a str, got float''
     | JList _ \<Rightarrow> Inl ''Secret wraps a str, got list'' | JObj _ \<Rightarrow> Inl ''Secret wraps a str, got dict'')"

definition secret_repr :: "secret \<Rightarrow> string" where
  "secret_repr s = redacted"

definition secret_eq :: "secret \<Rightarrow> secret \<Rightarrow> bool" where
  "secret_eq a b = (reveal a = reveal b)"

text \<open>The exceptions of the three refused uses.\<close>

definition secret_refuses :: "secret_use \<Rightarrow> string" where
  "secret_refuses u = (case u of SetAttr \<Rightarrow> ''Secret is immutable'' | DelAttr \<Rightarrow> ''Secret is immutable''
     | Reduce \<Rightarrow> ''refusing to serialize or copy a Secret: pickle, copy and dataclasses.asdict ''
         @ ''would carry the plaintext credential out of this object'')"

subsection \<open>A probe stays a probe\<close>

lemma pr_normalize_event:
  assumes "pr_normalize loads rq st = (NormEvent ev, st', ls)"
  shows "synthetic ev \<and> is_marker (ev_wake_arg ev) \<and> ev_source ev = ''probe''
    \<and> rec_by (ev_recipient ev) = ''harness_key'' \<and> ev_origin ev = None \<and> ev_occurred_at ev = None"
proof -
  from assms obtain data where
    "pr_event data wake_probe_event (or_else (header rq pr_delivery_header) []) = (NormEvent ev, ls)"
    by (auto simp: pr_normalize_def Let_def split: body_result.splits if_splits prod.splits)
  then show ?thesis
    by (auto simp: pr_event_def mk_recipient_Inr synthetic_def synthetic_kinds_def
        split: sum.splits if_splits dest!: mk_event_Inr(1))
qed

text \<open>
  A verified probe runs the wrapper's probe mode and nothing else. Every event of the
  probe route is synthetic and carries a well-formed marker, so for whatever agent it
  resolves to the wake is exactly \<open>--probe\<close> with that marker, with no command of the
  agent and no refusal; and it has no event time, so it is never coalesced and covers nothing.
\<close>

theorem probe_route_probes:
  assumes "pr_normalize loads rq st = (NormEvent ev, st', ls)"
  shows "mode_args ag ev = Inr [probe_flag, ev_wake_arg ev] \<and> probe_nonce ev \<noteq> None
    \<and> ev_occurred_at ev = None \<and> st' = st"
  using pr_normalize_event[OF assms] assms
  by (auto simp: mode_args_def probe_nonce_def nonce_of_def is_marker_def pr_normalize_def Let_def
      split: body_result.splits if_splits prod.splits)

definition demo_marker :: string where
  "demo_marker = ''BCNOC1 n1 '' @ replicate 64 (CHR ''a'')"

definition demo_probe_rq :: inbound_request where
  "demo_probe_rq = \<lparr>rq_headers = [(''X-BaseCradle-Probe-Delivery'', ''p1'')], rq_body = []\<rparr>"

definition demo_probe_loads :: "string \<Rightarrow> loads_result" where
  "demo_probe_loads _ = Loaded (JObj [(''harness_key'', JStr ''jt''), (''marker'', JStr demo_marker)])"

lemma demo_probe_runs:
  "(case pr_normalize demo_probe_loads demo_probe_rq () of (NormEvent ev, _, _) \<Rightarrow> True | _ \<Rightarrow> False)"
  by code_simp

theorem probe_route_probes_witness:
  "\<exists>ev. fst (pr_normalize demo_probe_loads demo_probe_rq ()) = NormEvent ev
     \<and> (\<forall>ag. mode_args ag ev = Inr [probe_flag, ev_wake_arg ev])"
proof -
  obtain ev st ls where n: "pr_normalize demo_probe_loads demo_probe_rq () = (NormEvent ev, st, ls)"
    using demo_probe_runs by (auto split: prod.splits norm_result.splits)
  with probe_route_probes[OF n] show ?thesis by simp
qed

end
