(* ===== verification/Selftest.thy ===== *)
theory Selftest
  imports WakeLock
begin

text \<open>
  \<open>selftest.py\<close>: the freeze self-test, run at boot and by hand. The process credentials,
  the directory listing and the clock are parameters; the lock files are read through the
  wake-lock model. The severities form a linear order, and the verdict is the worst one.
\<close>

datatype status = StOk | StDegraded | StFailed

definition status_value :: "status \<Rightarrow> string" where
  "status_value s = (case s of StOk \<Rightarrow> ''ok'' | StDegraded \<Rightarrow> ''degraded'' | StFailed \<Rightarrow> ''failed'')"

fun severity :: "status \<Rightarrow> nat" where
  "severity StOk = 0" | "severity StDegraded = 1" | "severity StFailed = 2"

lemma severity_inj: "severity a = severity b \<longleftrightarrow> a = b"
  by (cases a; cases b) simp_all

instantiation status :: linorder
begin

definition less_eq_status :: "status \<Rightarrow> status \<Rightarrow> bool" where
  "less_eq_status a b \<longleftrightarrow> severity a \<le> severity b"

definition less_status :: "status \<Rightarrow> status \<Rightarrow> bool" where
  "less_status a b \<longleftrightarrow> severity a < severity b"

instance
  by standard (auto simp: less_eq_status_def less_status_def severity_inj)

end

lemmas status_order = less_eq_status_def less_status_def

lemma StOk_least [simp]: "StOk \<le> s"
  by (simp add: less_eq_status_def)

definition exit_unprovable :: int where "exit_unprovable = 75"

definition selftest_exit :: "status \<Rightarrow> int" where
  "selftest_exit s = (case s of StOk \<Rightarrow> 0 | StFailed \<Rightarrow> 1 | StDegraded \<Rightarrow> exit_unprovable)"

definition worst :: "status list \<Rightarrow> status" where
  "worst ss = (case ss of [] \<Rightarrow> StOk | s # rest \<Rightarrow> fold max rest s)"

subsection \<open>Results\<close>

record freeze_check =
  fc_target :: string
  fc_status :: status
  fc_state :: string
  fc_detail :: string

definition check_json :: "freeze_check \<Rightarrow> json" where
  "check_json c = JObj [(''target'', JStr (fc_target c)), (''status'', JStr (status_value (fc_status c))),
     (''state'', JStr (fc_state c)), (''detail'', JStr (fc_detail c))]"

record selftest =
  ft_status :: status
  ft_lock_dir :: string
  ft_ran_as :: string
  ft_checked_at :: string
  ft_checks :: "freeze_check list"

text \<open>\<open>problems\<close>: the worst first, a stable sort.\<close>

definition problems :: "selftest \<Rightarrow> freeze_check list" where
  "problems t = sort_key (\<lambda>c. 2 - severity (fc_status c)) (filter (\<lambda>c. fc_status c \<noteq> StOk) (ft_checks t))"

definition selftest_summary :: "selftest \<Rightarrow> string" where
  "selftest_summary t =
     (if problems t = [] then str_int (int (length (ft_checks t))) @ '' check(s) passed''
      else py_join ''; '' (map (\<lambda>c. fc_target c @ '': '' @ fc_state c @ '' ('' @ fc_detail c @ '')'') (problems t)))"

definition selftest_result_json :: "selftest \<Rightarrow> json" where
  "selftest_result_json t = JObj [(''probe'', JStr ''freeze-readability''),
     (''status'', JStr (status_value (ft_status t))), (''lock_dir'', JStr (ft_lock_dir t)),
     (''ran_as'', JStr (ft_ran_as t)), (''checked_at'', JStr (ft_checked_at t)),
     (''summary'', JStr (selftest_summary t)), (''checks'', JList (map check_json (ft_checks t)))]"

subsection \<open>The checks\<close>

datatype dir_listing = Listing "string list" | DirMissing | NotADir | DirFailed string

text \<open>The process: its effective user id where there is one, and the user database.\<close>

record process =
  ps_euid :: "int option"
  ps_user :: "int \<Rightarrow> string option"

definition effective_user :: "process \<Rightarrow> string" where
  "effective_user p = (case ps_euid p of
     None \<Rightarrow> ''unknown''
   | Some uid \<Rightarrow> (case ps_user p uid of
       Some name \<Rightarrow> name @ ''(uid='' @ str_int uid @ '')'' | None \<Rightarrow> ''uid='' @ str_int uid))"

definition credentials_check :: "process \<Rightarrow> freeze_check" where
  "credentials_check p =
     (if ps_euid p = Some 0
      then \<lparr>fc_target = ''process'', fc_status = StDegraded, fc_state = ''ran_as_root'',
            fc_detail = ''root bypasses file permissions, so this run cannot prove the daemon's own ''
              @ ''credentials can read the surface; re-run as the daemon's user''\<rparr>
      else \<lparr>fc_target = ''process'', fc_status = StOk, fc_state = ''ran_as_user'',
            fc_detail = ''running as '' @ effective_user p\<rparr>)"

definition lock_suffix :: string where "lock_suffix = ''.lock''"

definition scan_directory :: "string \<Rightarrow> dir_listing \<Rightarrow> string list \<times> freeze_check" where
  "scan_directory lock_dir listing =
     (case listing of
        DirMissing \<Rightarrow> ([], \<lparr>fc_target = lock_dir, fc_status = StDegraded, fc_state = ''dir_absent'',
          fc_detail = ''the wake-lock directory does not exist, so no freeze can be observed; a lock ''
            @ ''written here later would still be honoured, but a router configured for the ''
            @ ''wrong directory looks identical '' @ em_dash @ '' compare this path against the one the NOC writes''\<rparr>)
      | NotADir \<Rightarrow> ([], \<lparr>fc_target = lock_dir, fc_status = StFailed, fc_state = ''dir_not_a_directory'',
          fc_detail = ''the wake-lock path exists but is not a directory''\<rparr>)
      | DirFailed e \<Rightarrow> ([], \<lparr>fc_target = lock_dir, fc_status = StFailed, fc_state = ''dir_unreadable'',
          fc_detail = ''the wake-lock directory cannot be read with these credentials: '' @ e\<rparr>)
      | Listing entries \<Rightarrow> (entries, \<lparr>fc_target = lock_dir, fc_status = StOk, fc_state = ''dir_readable'',
          fc_detail = ''readable, '' @ str_int (int (length (filter (ends_with lock_suffix) entries)))
            @ '' lock file(s)''\<rparr>))"

definition stray_slugs :: "string list \<Rightarrow> string list \<Rightarrow> string list" where
  "stray_slugs entries known = filter (\<lambda>s. s \<notin> set known \<and> s \<notin> {'''', ''.'', ''..''})
     (remdups (map (\<lambda>e. take (length e - length lock_suffix) e) (filter (ends_with lock_suffix) entries)))"

definition lock_check :: "lock_env \<Rightarrow> string \<Rightarrow> int \<Rightarrow> string \<Rightarrow> string + freeze_check" where
  "lock_check env lock_dir now slug =
     (case inspect env lock_dir now slug of
        Inl e \<Rightarrow> Inl e
      | Inr d \<Rightarrow> Inr (case ld_state d of
          Absent \<Rightarrow> \<lparr>fc_target = path_for lock_dir slug, fc_status = StOk, fc_state = ''absent'',
            fc_detail = ''no lock; wakes for this agent are permitted''\<rparr>
        | Held \<Rightarrow> \<lparr>fc_target = path_for lock_dir slug, fc_status = StOk, fc_state = ''held'',
            fc_detail = ''live freeze honoured until '' @ ld_expires_at d
              @ (if ld_lock_reason d = [] then [] else '' ('' @ ld_lock_reason d @ '')'')\<rparr>
        | Stale \<Rightarrow> \<lparr>fc_target = path_for lock_dir slug, fc_status = StDegraded, fc_state = ''stale'',
            fc_detail = ''lock expired at '' @ ld_expires_at d @ '' and was never cleared '' @ em_dash
              @ '' the NOC may have died mid-converge; wakes proceed''\<rparr>
        | Unparseable \<Rightarrow> \<lparr>fc_target = path_for lock_dir slug, fc_status = StFailed, fc_state = ''unparseable'',
            fc_detail = ''present but malformed ('' @ ld_reason d @ '') '' @ em_dash
              @ '' every wake for this agent is being refused''\<rparr>
        | Unreadable \<Rightarrow> \<lparr>fc_target = path_for lock_dir slug, fc_status = StFailed, fc_state = ''unreadable'',
            fc_detail = ''present but unreadable with these credentials ('' @ ld_reason d @ '') '' @ em_dash
              @ '' the freeze interlock is failing open for this agent''\<rparr>))"

text \<open>One clock reading per inspected slug: \<open>now i\<close> is the one of the \<open>i\<close>-th.\<close>

fun lock_checks :: "lock_env \<Rightarrow> string \<Rightarrow> (nat \<Rightarrow> int) \<Rightarrow> nat \<Rightarrow> string list \<Rightarrow> string + freeze_check list" where
  "lock_checks env lock_dir now i [] = Inr []"
| "lock_checks env lock_dir now i (slug # rest) =
     (case lock_check env lock_dir (now i) slug of
        Inl e \<Rightarrow> Inl e
      | Inr c \<Rightarrow> (case lock_checks env lock_dir now (Suc i) rest of Inl e \<Rightarrow> Inl e | Inr cs \<Rightarrow> Inr (c # cs)))"

definition inspected_slugs :: "string \<Rightarrow> dir_listing \<Rightarrow> string list \<Rightarrow> string list" where
  "inspected_slugs lock_dir listing slugs =
     sort (remdups (slugs @ stray_slugs (fst (scan_directory lock_dir listing)) slugs))"

definition run_freeze_selftest ::
  "process \<Rightarrow> lock_env \<Rightarrow> string \<Rightarrow> dir_listing \<Rightarrow> (nat \<Rightarrow> int) \<Rightarrow> string \<Rightarrow> string list \<Rightarrow> string + selftest" where
  "run_freeze_selftest p env lock_dir listing now checked_at slugs =
     (case lock_checks env lock_dir now 0 (inspected_slugs lock_dir listing slugs) of
        Inl e \<Rightarrow> Inl e
      | Inr locks \<Rightarrow>
          (let checks = credentials_check p # snd (scan_directory lock_dir listing) # locks in
           Inr \<lparr>ft_status = worst (map fc_status checks), ft_lock_dir = lock_dir, ft_ran_as = effective_user p,
                ft_checked_at = checked_at, ft_checks = checks\<rparr>))"

definition log_freeze_selftest :: "selftest \<Rightarrow> log_line" where
  "log_freeze_selftest t =
     (case ft_status t of StOk \<Rightarrow> Info | StDegraded \<Rightarrow> Warning | StFailed \<Rightarrow> Error,
      ''event=freeze_selftest '' @ log_fields
        [(''status'', VStr (status_value (ft_status t))), (''lock_dir'', VStr (ft_lock_dir t)),
         (''ran_as'', VStr (ft_ran_as t)), (''checks'', VInt (int (length (ft_checks t)))),
         (''detail'', VStr (selftest_summary t))])"

subsection \<open>What the verdict means\<close>

lemma fold_max_le: "fold max ss s \<le> t \<longleftrightarrow> s \<le> t \<and> (\<forall>u\<in>set ss. u \<le> t)" for s :: status
  by (induction ss arbitrary: s) auto

lemma worst_le: "worst ss \<le> t \<longleftrightarrow> (\<forall>s\<in>set ss. s \<le> t)"
  by (cases ss) (auto simp: worst_def fold_max_le)

lemma status_le: "s \<le> StOk \<longleftrightarrow> s = StOk" "s \<le> StDegraded \<longleftrightarrow> s \<noteq> StFailed"
  by (cases s; simp add: less_eq_status_def)+

lemma lock_checks_nth:
  assumes "lock_checks env lock_dir now i slugs = Inr cs"
  shows "length cs = length slugs
     \<and> (\<forall>j<length slugs. lock_check env lock_dir (now (i + j)) (slugs ! j) = Inr (cs ! j))"
  using assms
proof (induction slugs arbitrary: i cs)
  case (Cons s rest)
  then obtain c cs' where c: "lock_check env lock_dir (now i) s = Inr c"
    "lock_checks env lock_dir now (Suc i) rest = Inr cs'" "cs = c # cs'"
    by (auto split: sum.splits)
  with Cons.IH[OF c(2)] show ?case by (auto simp: nth_Cons split: nat.split)
qed simp

text \<open>The states a lock can be in under a status.\<close>

definition state_status :: "lock_state \<Rightarrow> status" where
  "state_status s = (case s of Absent \<Rightarrow> StOk | Held \<Rightarrow> StOk | Stale \<Rightarrow> StDegraded
     | Unparseable \<Rightarrow> StFailed | Unreadable \<Rightarrow> StFailed)"

lemma lock_check_status:
  "lock_check env lock_dir now slug = Inr c \<Longrightarrow>
     \<exists>d. inspect env lock_dir now slug = Inr d \<and> fc_status c = state_status (ld_state d)"
  by (auto simp: lock_check_def state_status_def split: sum.splits lock_state.splits)

lemma selftest_le:
  assumes "run_freeze_selftest p env lock_dir listing now at_time slugs = Inr t"
  shows "ft_status t \<le> s \<longleftrightarrow> fc_status (credentials_check p) \<le> s
     \<and> fc_status (snd (scan_directory lock_dir listing)) \<le> s
     \<and> (\<forall>j<length (inspected_slugs lock_dir listing slugs). \<exists>d.
          inspect env lock_dir (now j) (inspected_slugs lock_dir listing slugs ! j) = Inr d
          \<and> state_status (ld_state d) \<le> s)"
proof -
  let ?ss = "inspected_slugs lock_dir listing slugs"
  from assms obtain cs where c: "lock_checks env lock_dir now 0 ?ss = Inr cs"
    and t: "ft_status t = worst (map fc_status (credentials_check p # snd (scan_directory lock_dir listing) # cs))"
    by (auto simp: run_freeze_selftest_def Let_def split: sum.splits)
  note n = lock_checks_nth[OF c, simplified]
  have "(\<exists>d. inspect env lock_dir (now j) (?ss ! j) = Inr d \<and> state_status (ld_state d) \<le> s)
      \<longleftrightarrow> fc_status (cs ! j) \<le> s" if "j < length ?ss" for j
    using lock_check_status[of env lock_dir "now j" "?ss ! j" "cs ! j"] n that by auto
  moreover have "(\<forall>x\<in>set cs. fc_status x \<le> s) \<longleftrightarrow> (\<forall>j<length ?ss. fc_status (cs ! j) \<le> s)"
    using n by (simp add: all_set_conv_all_nth)
  ultimately show ?thesis unfolding t worst_le by auto
qed

lemma registered_inspected: "slug \<in> set slugs \<Longrightarrow> slug \<in> set (inspected_slugs lock_dir listing slugs)"
  by (simp add: inspected_slugs_def)

text \<open>
  C26. A passing self-test means a working freeze interlock. The verdict is \<open>ok\<close> exactly
  when the run was not root's, the directory was listed, and every inspected lock, each
  registered agent's among them, is absent or a live freeze; it is not \<open>failed\<close> exactly
  when no lock is unreadable or malformed and the directory is listed or absent.
\<close>

theorem selftest_verdict:
  assumes "run_freeze_selftest p env lock_dir listing now at_time slugs = Inr t"
  shows "(ft_status t = StOk \<longleftrightarrow> ps_euid p \<noteq> Some 0 \<and> (\<exists>es. listing = Listing es)
       \<and> (\<forall>j<length (inspected_slugs lock_dir listing slugs). \<exists>d.
            inspect env lock_dir (now j) (inspected_slugs lock_dir listing slugs ! j) = Inr d
            \<and> ld_state d \<in> {Absent, Held}))
     \<and> (ft_status t \<noteq> StFailed \<longleftrightarrow> (listing = DirMissing \<or> (\<exists>es. listing = Listing es))
       \<and> (\<forall>j<length (inspected_slugs lock_dir listing slugs). \<exists>d.
            inspect env lock_dir (now j) (inspected_slugs lock_dir listing slugs ! j) = Inr d
            \<and> ld_state d \<in> {Absent, Held, Stale}))
     \<and> set slugs \<subseteq> set (inspected_slugs lock_dir listing slugs)"
proof -
  have c: "fc_status (credentials_check p) = (if ps_euid p = Some 0 then StDegraded else StOk)"
    by (simp add: credentials_check_def)
  have d: "fc_status (snd (scan_directory lock_dir listing)) = (case listing of Listing _ \<Rightarrow> StOk
      | DirMissing \<Rightarrow> StDegraded | _ \<Rightarrow> StFailed)"
    by (simp add: scan_directory_def split: dir_listing.split)
  have s: "state_status x = StOk \<longleftrightarrow> x \<in> {Absent, Held}" "state_status x \<noteq> StFailed \<longleftrightarrow> x \<in> {Absent, Held, Stale}" for x
    by (cases x; simp add: state_status_def)+
  show ?thesis
    using selftest_le[OF assms, of StOk] selftest_le[OF assms, of StDegraded] registered_inspected[of _ slugs]
    unfolding status_le c d s by (auto split: dir_listing.splits if_splits)
qed

definition demo_process :: process where
  "demo_process = \<lparr>ps_euid = Some 1000, ps_user = (\<lambda>_. Some ''router'')\<rparr>"

definition demo_stray_env :: lock_env where
  "demo_stray_env = \<lparr>le_read = (\<lambda>p. if p = ''/l/b.lock'' then FileText ''x'' else FileMissing),
     le_loads = (\<lambda>_. DecodeError ''e''), le_iso = (\<lambda>_. IsoInvalid), le_isoformat = (\<lambda>_. [])\<rparr>"

lemma demo_selftest_runs:
  "(case run_freeze_selftest demo_process demo_stray_env ''/l'' (Listing [''b.lock'']) int ''t'' [''a''] of
      Inr t \<Rightarrow> inspected_slugs ''/l'' (Listing [''b.lock'']) [''a''] = [''a'', ''b''] | Inl _ \<Rightarrow> False)"
  by code_simp

lemma demo_malformed: "inspect demo_stray_env ''/l'' 1 ''b'' = Inr (unparseable ''invalid JSON: e'')"
  by (simp add: inspect_def safe_slug_def demo_stray_env_def path_for_def decide_def)

theorem selftest_verdict_witness:
  "\<exists>t. run_freeze_selftest demo_process demo_stray_env ''/l'' (Listing [''b.lock'']) int ''t'' [''a''] = Inr t
     \<and> ft_status t = StFailed"
proof -
  obtain t where t: "run_freeze_selftest demo_process demo_stray_env ''/l'' (Listing [''b.lock'']) int ''t'' [''a''] = Inr t"
    and i: "inspected_slugs ''/l'' (Listing [''b.lock'']) [''a''] = [''a'', ''b'']"
    using demo_selftest_runs by (auto split: sum.splits)
  have "inspect demo_stray_env ''/l'' (int 1) ([''a'', ''b''] ! 1) = Inr (unparseable ''invalid JSON: e'')"
    by (simp add: demo_malformed)
  moreover have "ld_state (unparseable r) \<notin> {Absent, Held, Stale}" for r by (simp add: unparseable_def)
  ultimately have "\<not> (\<forall>j<2. \<exists>d. inspect demo_stray_env ''/l'' (int j) ([''a'', ''b''] ! j) = Inr d
      \<and> ld_state d \<in> {Absent, Held, Stale})"
    by (metis Inr_inject one_less_numeral_iff semiring_norm(76))
  then have "ft_status t = StFailed"
    using selftest_verdict[OF t] by (simp add: i numeral_2_eq_2) blast
  with t show ?thesis by blast
qed

end
