(* ===== verification/Server.thy ===== *)
theory Server
  imports Pipeline_Wakes Scheduler_Props Selftest
begin

text \<open>
  \<open>server.py\<close>: the ASGI surface. A request is its method, path, raw headers and the
  messages of its body; the answer is a status, a content type and a body. The server's
  state is the pipeline's world and the scheduler, whose jobs are the pending wakes.
  \<open>json.dumps\<close> and the version string are parameters.
\<close>

definition webhook_prefix :: string where "webhook_prefix = ''/webhooks/''"
definition liveness_path :: string where "liveness_path = ''/up''"

definition liveness_body :: string where
  "liveness_body = ''<!DOCTYPE html><html><body style='' @ [CHR 0x22] @ ''background-color: green'' @ [CHR 0x22]
     @ ''></body></html>''"

text \<open>
  What reading the stamp file comes to. Its docstring promises never to raise, but a file
  that is no UTF-8 raises \<open>UnicodeDecodeError\<close>, which is no \<open>OSError\<close>.
\<close>

datatype stamp_read = StampText string | StampOSError | StampUndecodable string

definition deployed_sha :: "stamp_read \<Rightarrow> string + string" where
  "deployed_sha r = (case r of
     StampText t \<Rightarrow> Inr (if py_strip t = [] then ''unknown'' else py_strip t)
   | StampOSError \<Rightarrow> Inr ''unknown''
   | StampUndecodable e \<Rightarrow> Inl e)"

subsection \<open>Logging\<close>

text \<open>The access filter keeps a record unless its third argument is the liveness path.\<close>

definition keep_access_record :: "json list option \<Rightarrow> bool" where
  "keep_access_record args =
     (case args of
        Some (a # b # JStr path # _) \<Rightarrow> takeWhile (\<lambda>c. c \<noteq> CHR ''?'') path \<noteq> liveness_path
      | _ \<Rightarrow> True)"

text \<open>A logger's handlers and filters, each with the tag of our own and its level.\<close>

record 'l log_config =
  lc_level :: 'l
  lc_handlers :: "(bool \<times> 'l) list"
  lc_access_filters :: "bool list"

definition suppress_liveness_access_log :: "'l log_config \<Rightarrow> 'l log_config" where
  "suppress_liveness_access_log c =
     (if True \<in> set (lc_access_filters c) then c
      else c\<lparr>lc_access_filters := lc_access_filters c @ [True]\<rparr>)"

fun retune :: "'l \<Rightarrow> (bool \<times> 'l) list \<Rightarrow> (bool \<times> 'l) list" where
  "retune level [] = [(True, level)]"
| "retune level ((own, l) # hs) = (if own then (own, level) # hs else (own, l) # retune level hs)"

definition configure_logging :: "'l \<Rightarrow> 'l log_config \<Rightarrow> 'l log_config" where
  "configure_logging level c =
     (suppress_liveness_access_log c)\<lparr>lc_level := level, lc_handlers := retune level (lc_handlers c)\<rparr>"

subsection \<open>Requests\<close>

datatype asgi_message = HttpRequest string bool | HttpDisconnect | OtherMessage

text \<open>\<open>_read_body\<close>: \<open>None\<close> when the messages run out first, the handler still waits.\<close>

fun read_body :: "asgi_message list \<Rightarrow> string option" where
  "read_body [] = None"
| "read_body (HttpRequest body more_body # ms) =
     (if more_body then map_option (\<lambda>rest. body @ rest) (read_body ms) else Some body)"
| "read_body (HttpDisconnect # ms) = Some []"
| "read_body (OtherMessage # ms) = read_body ms"

text \<open>\<open>setdefault\<close>: the first of two equal names stands.\<close>

fun first_headers :: "(string \<times> string) list \<Rightarrow> (string \<times> string) list \<Rightarrow> (string \<times> string) list" where
  "first_headers acc [] = acc"
| "first_headers acc ((k, v) # hs) =
     first_headers (if map_of acc k = None then acc @ [(k, v)] else acc) hs"

record http_scope =
  sc_type :: string
  sc_method :: string
  sc_path :: string
  sc_headers :: "(string \<times> string) list"
  sc_messages :: "asgi_message list"

record response =
  rs_status :: nat
  rs_type :: string
  rs_body :: string

definition json_response :: "(json \<Rightarrow> string) \<Rightarrow> nat \<Rightarrow> json \<Rightarrow> response" where
  "json_response dumps status body = \<lparr>rs_status = status, rs_type = ''application/json'', rs_body = dumps body\<rparr>"

definition liveness_response :: response where
  "liveness_response = \<lparr>rs_status = 200, rs_type = ''text/html; charset=utf-8'', rs_body = liveness_body\<rparr>"

definition status_for :: "presult \<Rightarrow> nat" where
  "status_for r =
     (if pr_records r = [] then 500
      else (let l = last (pr_records r) in
        if sr_outcome l = ORejected
        then (if sr_stage l = SVerify then 401 else if sr_stage l = SRoute then 404 else 400)
        else 200))"

definition summary_json :: "presult \<Rightarrow> json" where
  "summary_json r = JObj
     [(''outcome'', JStr (case terminal r of None \<Rightarrow> ''none'' | Some oc \<Rightarrow> outcome_value oc)),
      (''stages'', JList (map (\<lambda>(st, oc). JList [JStr (stage_value st), JStr (outcome_value oc)]) (stages r)))]"

text \<open>\<open>s.strip("/")\<close>.\<close>

definition strip_slashes :: "string \<Rightarrow> string" where
  "strip_slashes s = rev (dropWhile (\<lambda>c. c = CHR 0x2F) (rev (dropWhile (\<lambda>c. c = CHR 0x2F) s)))"

type_synonym job = "agent \<times> event \<times> presult"

record ('w, 'r) server =
  sv_world :: "('w, 'r) world"
  sv_sched :: "job sched"

text \<open>\<open>_spawn_wake\<close>: the job joins its agent's queue; \<open>None\<close> is an exception of the scheduler.\<close>

definition spawn_wake :: "agent \<times> event \<Rightarrow> presult \<Rightarrow> job sched \<Rightarrow> job sched option" where
  "spawn_wake pend r s = (case pend of (ag, ev) \<Rightarrow> submit (harness_key ag) (ag, ev, r) s)"

text \<open>
  \<open>__call__\<close> on anything but a lifespan scope. No answer: a websocket, a body that never
  ends, or an exception that leaves the handler.
\<close>

definition serve ::
  "('w, 'r) penv \<Rightarrow> (json \<Rightarrow> string) \<Rightarrow> http_scope \<Rightarrow> ('w, 'r) server \<Rightarrow> response option \<times> ('w, 'r) server" where
  "serve env dumps sc sv =
     (if sc_type sc \<noteq> ''http'' then (None, sv)
      else if sc_method sc = ''GET'' \<and> sc_path sc = liveness_path then (Some liveness_response, sv)
      else if sc_method sc \<noteq> ''POST'' \<or> \<not> starts_with webhook_prefix (sc_path sc)
           then (Some (json_response dumps 404 (JObj [(''error'', JStr ''not found'')])), sv)
      else (let source = strip_slashes (drop (length webhook_prefix) (sc_path sc)) in
        if source = [] \<or> CHR 0x2F \<in> set source
        then (Some (json_response dumps 404 (JObj [(''error'', JStr ''no route in path'')])), sv)
        else (case read_body (sc_messages sc) of
                None \<Rightarrow> (None, sv)
              | Some body \<Rightarrow>
                  (let (pend, (w, r)) = accept env source
                         \<lparr>rq_headers = first_headers [] (sc_headers sc), rq_body = body\<rparr> (sv_world sv)
                   in case pend of
                        Some p \<Rightarrow>
                          (case spawn_wake p r (sv_sched sv) of
                             None \<Rightarrow> (None, sv\<lparr>sv_world := w\<rparr>)
                           | Some s \<Rightarrow> (Some (json_response dumps 202 (summary_json r)),
                                        \<lparr>sv_world = w, sv_sched = s\<rparr>))
                      | None \<Rightarrow> (Some (json_response dumps (status_for r) (summary_json r)),
                                 sv\<lparr>sv_world := w\<rparr>)))))"

subsection \<open>Startup\<close>

definition startup_banner ::
  "('w, 'r) penv \<Rightarrow> string \<Rightarrow> string \<Rightarrow> nat \<Rightarrow> store \<Rightarrow> log_line" where
  "startup_banner env version sha n_lanes ev =
     (Info, ''event=startup '' @ log_fields
       [(''version'', VStr version), (''sha'', VStr sha),
        (''routes'', VStr (py_join '','' (sort (cf_enabled (pe_config env))))),
        (''dedup_ttl'', VStr (fmt0 (pe_ttl env) @ ''s'')), (''wake_lanes'', VInt (int n_lanes)),
        (''wake_attempts'', VInt (int (pe_attempts env))), (''breaker_max'', VInt (max_wakes (pe_breaker env))),
        (''breaker_stream_max'', VInt (stream_max_wakes (pe_breaker env))),
        (''breaker_window'', VStr (fmt0 (window (pe_breaker env)) @ ''s'')),
        (''breaker_cooldown'', VStr (fmt0 (cooldown (pe_breaker env)) @ ''s'')),
        (''wake_lock_dir'', VStr (pe_lock_dir env)),
        (''evidence'', VStr (or_else (es_path ev) ''(in-memory)''))])"

definition route_config_lines :: "('w, 'r) penv \<Rightarrow> log_line list" where
  "route_config_lines env = concat (map (\<lambda>rt. case route_boot_summary rt of
     None \<Rightarrow> []
   | Some text \<Rightarrow> [(Info, ''event=route_config '' @ log_fields [(''source'', VStr (rt_name rt))] @ '' '' @ text)])
     (sorted_routes (pe_registry env)))"

definition log_startup_banner ::
  "('w, 'r) penv \<Rightarrow> string \<Rightarrow> string \<Rightarrow> nat \<Rightarrow> ('w, 'r) world \<Rightarrow> ('w, 'r) world" where
  "log_startup_banner env version sha n_lanes w =
     emit (startup_banner env version sha n_lanes (w_ev w) # route_config_lines env) w"

text \<open>
  The boot self-test never stops the daemon: an exception is one line. It takes one
  wall-clock reading per inspected agent.
\<close>

definition run_boot_selftest ::
  "('w, 'r) penv \<Rightarrow> process \<Rightarrow> dir_listing \<Rightarrow> string \<Rightarrow> ('w, 'r) world \<Rightarrow> ('w, 'r) world" where
  "run_boot_selftest env p listing checked_at w =
     (let slugs = remdups (map (harness_key \<circ> snd) (cf_agents (pe_config env)));
          result = run_freeze_selftest p (pe_lock_env env) (pe_lock_dir env) listing
                     (\<lambda>i. pe_wall env (w_wall w + i)) checked_at slugs;
          w = w\<lparr>w_wall := w_wall w + length (inspected_slugs (pe_lock_dir env) listing slugs)\<rparr>
      in case result of
        Inl e \<Rightarrow> emit [(Error, ''event=freeze_selftest status=error '' @ log_fields [(''detail'', VStr e)])] w
      | Inr t \<Rightarrow> on_evidence (record_freeze_selftest (pe_ev env) (status_value (ft_status t)) (selftest_summary t))
          (emit [log_freeze_selftest t] w))"

definition warm_routes :: "('w, 'r) penv \<Rightarrow> ('w, 'r) world \<Rightarrow> ('w, 'r) world" where
  "warm_routes env w = fold (\<lambda>rt w. let (st, ls) = route_warm rt (w_routes w) in emit ls (w\<lparr>w_routes := st\<rparr>))
     (sorted_routes (pe_registry env)) w"

definition startup ::
  "('w, 'r) penv \<Rightarrow> string \<Rightarrow> string \<Rightarrow> nat \<Rightarrow> process \<Rightarrow> dir_listing \<Rightarrow> string \<Rightarrow> ('w, 'r) world \<Rightarrow> ('w, 'r) world" where
  "startup env version sha n_lanes p listing checked_at w =
     warm_routes env (run_boot_selftest env p listing checked_at (log_startup_banner env version sha n_lanes w))"

subsection \<open>Every request is answered, and answered right\<close>

lemma status_for_range:
  "terminal r \<in> {Some ORejected, Some OIgnored, Some OFailed} \<Longrightarrow> status_for r \<in> {200, 400, 401, 404}"
  by (auto simp: status_for_def terminal_def Let_def split: if_splits)

lemma status_for_401:
  "status_for r = 401 \<Longrightarrow> pr_records r \<noteq> [] \<and> sr_stage (last (pr_records r)) = SVerify
     \<and> sr_outcome (last (pr_records r)) = ORejected"
  by (auto simp: status_for_def Let_def split: if_splits)

text \<open>The delivery a scope carries, when it reaches the pipeline.\<close>

definition delivery_of :: "http_scope \<Rightarrow> (string \<times> inbound_request) option" where
  "delivery_of sc =
     (let source = strip_slashes (drop (length webhook_prefix) (sc_path sc)) in
      if sc_type sc = ''http'' \<and> \<not> (sc_method sc = ''GET'' \<and> sc_path sc = liveness_path)
         \<and> sc_method sc = ''POST'' \<and> starts_with webhook_prefix (sc_path sc)
         \<and> source \<noteq> [] \<and> CHR 0x2F \<notin> set source
      then map_option (\<lambda>body. (source, \<lparr>rq_headers = first_headers [] (sc_headers sc), rq_body = body\<rparr>))
             (read_body (sc_messages sc))
      else None)"

lemma serve_delivery:
  assumes "delivery_of sc = Some (source, rq)"
  shows "serve env dumps sc sv =
     (case accept env source rq (sv_world sv) of
        (Some p, (w, r)) \<Rightarrow>
          (case spawn_wake p r (sv_sched sv) of
             None \<Rightarrow> (None, sv\<lparr>sv_world := w\<rparr>)
           | Some s \<Rightarrow> (Some (json_response dumps 202 (summary_json r)), \<lparr>sv_world = w, sv_sched = s\<rparr>))
      | (None, (w, r)) \<Rightarrow> (Some (json_response dumps (status_for r) (summary_json r)), sv\<lparr>sv_world := w\<rparr>))"
proof -
  have h: "sc_type sc = ''http''" "sc_method sc = ''POST''" "starts_with webhook_prefix (sc_path sc)"
    "source = strip_slashes (drop (length webhook_prefix) (sc_path sc))" "source \<noteq> []" "CHR 0x2F \<notin> set source"
    and b: "read_body (sc_messages sc) = Some (rq_body rq)"
    and q: "rq = \<lparr>rq_headers = first_headers [] (sc_headers sc), rq_body = rq_body rq\<rparr>"
    using assms by (auto simp: delivery_of_def Let_def split: if_splits)
  have "\<not> (sc_method sc = ''GET'' \<and> sc_path sc = liveness_path)" using h(2) by simp
  then show ?thesis
    unfolding serve_def Let_def using h(1-3,5,6) b q[symmetric]
    by (auto simp: h(4)[symmetric] split: prod.split option.split)
qed

lemma reachable_submit:
  assumes "reachable n s" and "1 \<le> n"
  obtains s' where "submit k j s = Some s'" "reachable n s'"
proof -
  from sched_ok_submit[OF reachable_ok[OF assms]] obtain s' where "submit k j s = Some s'" by blast
  moreover from this assms(1) have "reachable n s'"
    unfolding reachable_def using run_snoc step_submit by metis
  ultimately show thesis by (rule that)
qed

text \<open>
  C27. Every delivery is answered at once and truthfully. Over any reachable scheduler a
  delivery gets exactly one answer and no wake runs inside the request: 202 exactly when
  its wake has been queued under its agent, after all four accept stages passed; 401 only
  when the route's own signature check refused it; otherwise 200, 400 or 404, with the
  scheduler untouched.
\<close>

theorem webhook_answered:
  assumes "delivery_of sc = Some (source, rq)" and "reachable n (sv_sched sv)" and "1 \<le> n"
  shows "\<exists>rs sv'. serve env dumps sc sv = (Some rs, sv') \<and> reachable n (sv_sched sv')
     \<and> rs_status rs \<in> {200, 202, 400, 401, 404}
     \<and> (if rs_status rs = 202
        then (\<exists>ag ev r. submit (harness_key ag) (ag, ev, r) (sv_sched sv) = Some (sv_sched sv')
           \<and> stages r = [(SRoute, OOk), (SVerify, OOk), (SNormalize, OOk), (SResolve, OOk)])
        else sv_sched sv' = sv_sched sv)
     \<and> (rs_status rs \<noteq> 401 \<or> (\<exists>rt secret e. get_route (pe_registry env) source = Inr rt
           \<and> route_secret env rt source = Inr secret \<and> fst (rt_verify rt rq secret) = BadSignature e))
     \<and> w_ext (sv_world sv') = w_ext (sv_world sv) \<and> w_locks (sv_world sv') = w_locks (sv_world sv)"
proof -
  obtain p w r where a: "accept env source rq (sv_world sv) = (p, (w, r))" by (metis prod_cases3)
  note facts = accept_cases[of env source rq "sv_world sv", unfolded a, simplified]
  show ?thesis
  proof (cases p)
    case None
    with facts have t: "terminal r \<in> {Some ORejected, Some OIgnored, Some OFailed}" by simp
    have s: "serve env dumps sc sv = (Some (json_response dumps (status_for r) (summary_json r)), sv\<lparr>sv_world := w\<rparr>)"
      by (simp add: serve_delivery[OF assms(1)] a None)
    have "status_for r \<in> {200, 400, 401, 404}" by (rule status_for_range[OF t])
    moreover have "status_for r \<noteq> 401 \<or> (\<exists>rt secret e. get_route (pe_registry env) source = Inr rt
           \<and> route_secret env rt source = Inr secret \<and> fst (rt_verify rt rq secret) = BadSignature e)"
      using accept_refused[of env source rq "sv_world sv"] status_for_401[of r] by (auto simp: a)
    ultimately show ?thesis using facts assms(2) None unfolding s by (auto simp: json_response_def)
  next
    case (Some pe)
    obtain ag ev where pe: "pe = (ag, ev)" by (cases pe)
    obtain s' where s': "submit (harness_key ag) (ag, ev, r) (sv_sched sv) = Some s'" "reachable n s'"
      by (rule reachable_submit[OF assms(2,3)])
    have "serve env dumps sc sv = (Some (json_response dumps 202 (summary_json r)), \<lparr>sv_world = w, sv_sched = s'\<rparr>)"
      by (simp add: serve_delivery[OF assms(1)] a Some pe spawn_wake_def s')
    moreover have "stages r = [(SRoute, OOk), (SVerify, OOk), (SNormalize, OOk), (SResolve, OOk)]"
      "w_ext w = w_ext (sv_world sv)" "w_locks w = w_locks (sv_world sv)"
      using facts by (auto simp: Some pe)
    ultimately show ?thesis using s' by (auto simp: json_response_def)
  qed
qed

end
