(* ===== verification/App.thy ===== *)
theory App
  imports Github_Pipeline Basecradle Probe_Route Server
begin

text \<open>
  \<open>app.py\<close>: the composition root. What the process reads from outside (its environment,
  files, parsers, transport, clocks, the runner of a command) is one record of
  parameters; the result is the pipeline's environment and the server's first state.
\<close>

text \<open>A \<open>ConfigError\<close> of the readers, one with its message, or a \<open>ValueError\<close>.\<close>

datatype app_error = AppConfig load_error | AppRefused string | AppValue string

record 'w app_deps =
  ad_env :: "(string \<times> string) list"
  ad_read :: "string \<Rightarrow> file_read"
  ad_loads :: "string \<Rightarrow> loads_result"
  ad_iso :: "string \<Rightarrow> iso_result"
  ad_hexdigest :: "string \<Rightarrow> string \<Rightarrow> string"
  ad_parse_int :: "string \<Rightarrow> int option"
  ad_parse_float :: "string \<Rightarrow> pyfloat option"
  ad_exec :: "wake_invocation \<Rightarrow> 'w \<Rightarrow> run_answer \<times> 'w"
  ad_lock_env :: lock_env
  ad_instant :: "int \<Rightarrow> string"
  ad_ev :: ev_env
  ad_disk :: disk_read
  ad_orphans :: "log_line list"
  ad_mono :: "nat \<Rightarrow> rat"
  ad_wall :: "nat \<Rightarrow> int"
  ad_warm :: warm_env

definition bot_login_for_repo :: "config \<Rightarrow> string \<Rightarrow> string option" where
  "bot_login_for_repo c repo =
     (case map_of (cf_agents c) repo of
        None \<Rightarrow> None
      | Some a \<Rightarrow> (case ag_bot_slug a of
          None \<Rightarrow> None | Some s \<Rightarrow> if s = [] then None else Some (s @ ''[bot]'')))"

definition captained_repos :: "config \<Rightarrow> string list" where
  "captained_repos c = map (ag_key \<circ> snd) (filter (\<lambda>(_, a). or_else (ag_bot_slug a) [] \<noteq> []) (cf_agents c))"

text \<open>Add a route when its source is enabled; the left is what stops the daemon.\<close>

definition add_route ::
  "config \<Rightarrow> string \<Rightarrow> app_error + 'r route \<Rightarrow> 'r registry \<Rightarrow> app_error + 'r registry" where
  "add_route c name built reg =
     (if name \<notin> set (cf_enabled c) then Inr reg
      else (case built of
              Inl e \<Rightarrow> Inl e
            | Inr rt \<Rightarrow> (case register_route rt reg of Inl e \<Rightarrow> Inl (AppValue e) | Inr reg' \<Rightarrow> Inr reg')))"

definition build_github :: "'w app_deps \<Rightarrow> config \<Rightarrow> app_error + github_state route" where
  "build_github deps c =
     (case load_github_trusted_actors (map_of (ad_env deps)) of
        Inl e \<Rightarrow> Inl (AppConfig e)
      | Inr actors \<Rightarrow> Inr (github_route
          (mk_github_config actors (bot_login_for_repo c) (captained_repos c) (ad_loads deps) (ad_iso deps)
             (ad_hexdigest deps)) (ad_warm deps)))"

definition build_basecradle :: "'w app_deps \<Rightarrow> config \<Rightarrow> app_error + 'r route" where
  "build_basecradle deps c =
     (case load_keyring (cf_by_recipient c) (ad_env deps) of
        Inl e \<Rightarrow> Inl (AppRefused e)
      | Inr kr \<Rightarrow> Inr (basecradle_route \<lparr>bc_keyring = kr, bc_loads = ad_loads deps, bc_iso = ad_iso deps,
                   bc_hexdigest = ad_hexdigest deps\<rparr>))"

fun require_route_secrets :: "config \<Rightarrow> 'r registry \<Rightarrow> string list \<Rightarrow> app_error option" where
  "require_route_secrets c reg [] = None"
| "require_route_secrets c reg (name # rest) =
     (if cf_secrets c name \<noteq> None then require_route_secrets c reg rest
      else if (case map_of reg name of None \<Rightarrow> False | Some rt \<Rightarrow> \<not> rt_needs_secret rt)
           then require_route_secrets c reg rest
      else Some (AppRefused (''route '' @ py_repr name @ '' is enabled but '' @ route_secret_var name @ '' is not set'')))"

definition build_registry :: "'w app_deps \<Rightarrow> config \<Rightarrow> app_error + github_state registry" where
  "build_registry deps c =
     (case add_route c ''github'' (build_github deps c) [] of
        Inl e \<Rightarrow> Inl e
      | Inr reg \<Rightarrow> (case add_route c ''basecradle'' (build_basecradle deps c) reg of
        Inl e \<Rightarrow> Inl e
      | Inr reg \<Rightarrow> (case add_route c ''probe'' (Inr (probe_route (ad_hexdigest deps) (ad_loads deps))) reg of
        Inl e \<Rightarrow> Inl e
      | Inr reg \<Rightarrow> (case require_route_secrets c reg (sort (cf_enabled c)) of
          Some e \<Rightarrow> Inl e | None \<Rightarrow> Inr reg))))"

definition app_penv ::
  "'w app_deps \<Rightarrow> config \<Rightarrow> github_state registry \<Rightarrow> breaker_config \<Rightarrow> pyfloat \<Rightarrow> ('w, github_state) penv" where
  "app_penv deps c reg bcfg ttl =
     \<lparr>pe_registry = reg, pe_config = c, pe_waker = home_wake (ad_exec deps) wake_runner,
      pe_lock_env = ad_lock_env deps, pe_lock_dir = load_wake_lock_dir (map_of (ad_env deps)),
      pe_breaker = bcfg, pe_breaker_src = [], pe_ttl = ttl, pe_attempts = 3, pe_mono = ad_mono deps,
      pe_wall = ad_wall deps, pe_instant = ad_instant deps, pe_ev = ad_ev deps\<rparr>"

definition first_world :: "'w \<Rightarrow> store \<Rightarrow> ('w, github_state) world" where
  "first_world ext st =
     \<lparr>w_ext = ext, w_routes = init_github_state, w_locks = (\<lambda>_. None), w_breaker = init_breaker,
      w_dedup = init_deduper, w_cov = \<lparr>wc_capacity = default_capacity, wc_streams = []\<rparr>, w_ev = st,
      w_log = [], w_mono = 0, w_wall = 0, w_slept = []\<rparr>"

definition create_app ::
  "'w app_deps \<Rightarrow> 'w \<Rightarrow> app_error + ('w, github_state) penv \<times> ('w, github_state) server" where
  "create_app deps ext =
     (let env = map_of (ad_env deps) in
      case load_config (ad_read deps) (ad_loads deps) env of
        Inl e \<Rightarrow> Inl (AppConfig e)
      | Inr c \<Rightarrow> (case build_registry deps c of
        Inl e \<Rightarrow> Inl e
      | Inr reg \<Rightarrow> (case load_breaker_config (ad_parse_int deps) (ad_parse_float deps) env of
        Inl e \<Rightarrow> Inl (AppConfig e)
      | Inr bcfg \<Rightarrow> (case load_dedup_ttl (ad_parse_float deps) env of
        Inl e \<Rightarrow> Inl (AppConfig e)
      | Inr ttl \<Rightarrow> (case mk_ttl ttl of
        Inl e \<Rightarrow> Inl (AppValue e)
      | Inr ttl \<Rightarrow> (case start_store (ad_ev deps) (load_evidence_path env) (ad_disk deps) None (ad_orphans deps) of
        None \<Rightarrow> Inl (AppValue ''the evidence document raised'')
      | Some st \<Rightarrow> (case load_wake_lanes (ad_parse_int deps) env of
        Inl e \<Rightarrow> Inl (AppConfig e)
      | Inr n \<Rightarrow> (case mk_sched n of
        Inl e \<Rightarrow> Inl (AppValue e)
      | Inr s \<Rightarrow> Inr (app_penv deps c reg bcfg ttl, \<lparr>sv_world = first_world ext st, sv_sched = s\<rparr>)))))))))"

subsection \<open>A daemon that started can verify every route\<close>

lemma add_route_ok:
  assumes "add_route c name built reg = Inr reg'" and "registry_distinct reg"
    and "\<forall>(n, rt)\<in>set reg. n \<in> set (cf_enabled c)" and "\<And>rt. built = Inr rt \<Longrightarrow> rt_name rt = name"
  shows "registry_distinct reg' \<and> (\<forall>(n, rt)\<in>set reg'. n \<in> set (cf_enabled c))"
proof (cases "name \<in> set (cf_enabled c)")
  case False
  with assms show ?thesis by (simp add: add_route_def)
next
  case True
  with assms(1) obtain rt where rt: "built = Inr rt" "register_route rt reg = Inr reg'"
    by (auto simp: add_route_def split: sum.splits)
  have "reg' = reg @ [(rt_name rt, rt)]" using rt(2) by (auto simp: register_route_def split: if_splits)
  with register_distinct[OF rt(2) assms(2)] assms(3) assms(4)[OF rt(1)] True show ?thesis by auto
qed

lemma build_registry_ok:
  assumes "build_registry deps c = Inr reg"
  shows "registry_distinct reg" and "\<forall>(n, rt)\<in>set reg. n \<in> set (cf_enabled c)"
    and "require_route_secrets c reg (sort (cf_enabled c)) = None"
proof -
  from assms obtain r1 r2 where r: "add_route c ''github'' (build_github deps c) [] = Inr r1"
    "add_route c ''basecradle'' (build_basecradle deps c) r1 = Inr r2"
    "add_route c ''probe'' (Inr (probe_route (ad_hexdigest deps) (ad_loads deps))) r2 = Inr reg"
    and q: "require_route_secrets c reg (sort (cf_enabled c)) = None"
    by (auto simp: build_registry_def split: sum.splits option.splits)
  have n: "build_github deps c = Inr rt \<Longrightarrow> rt_name rt = ''github''"
    "build_basecradle deps c = Inr rt' \<Longrightarrow> rt_name rt' = ''basecradle''"
    "Inr (probe_route (ad_hexdigest deps) (ad_loads deps)) = (Inr rt'' :: app_error + github_state route) \<Longrightarrow> rt_name rt'' = ''probe''"
    for rt and rt' :: "github_state route" and rt''
    by (auto simp: build_github_def github_route_def build_basecradle_def basecradle_route_def bc_route_name_def
        probe_route_def split: sum.splits)
  have "registry_distinct r1 \<and> (\<forall>(n, rt)\<in>set r1. n \<in> set (cf_enabled c))"
    by (rule add_route_ok[OF r(1)]) (auto simp: registry_distinct_def n)
  then have "registry_distinct r2 \<and> (\<forall>(n, rt)\<in>set r2. n \<in> set (cf_enabled c))"
    using add_route_ok[OF r(2)] n(2) by blast
  then have "registry_distinct reg \<and> (\<forall>(n, rt)\<in>set reg. n \<in> set (cf_enabled c))"
    using add_route_ok[OF r(3)] n(3) by blast
  with q show "registry_distinct reg" "\<forall>(n, rt)\<in>set reg. n \<in> set (cf_enabled c)"
    "require_route_secrets c reg (sort (cf_enabled c)) = None" by blast+
qed

lemma secrets_present:
  "require_route_secrets c reg names = None \<Longrightarrow> n \<in> set names \<Longrightarrow> map_of reg n = Some rt
     \<Longrightarrow> cf_secrets c n \<noteq> None \<or> \<not> rt_needs_secret rt"
  by (induction c reg names rule: require_route_secrets.induct) (auto split: if_splits)

lemma create_app_parts:
  assumes "create_app deps ext = Inr (env, sv)"
  obtains c reg bcfg ttl st k where "build_registry deps c = Inr reg"
    "env = app_penv deps c reg bcfg ttl" "sv = \<lparr>sv_world = first_world ext st, sv_sched = init_sched k\<rparr>" "1 \<le> k"
proof -
  from assms obtain c reg bcfg ttl st n s where p: "build_registry deps c = Inr reg"
    "env = app_penv deps c reg bcfg ttl" "mk_sched n = Inr s" "sv = \<lparr>sv_world = first_world ext st, sv_sched = s\<rparr>"
    by (auto simp: create_app_def Let_def split: sum.splits option.splits)
  from p(3) have "s = init_sched (nat n)" "1 \<le> nat n" by (auto simp: mk_sched_def split: if_splits)
  with p that show thesis by blast
qed

text \<open>
  C28. A daemon that starts can serve what it enabled. When \<open>create_app\<close> succeeds, its
  registry holds distinct routes, each an enabled source, and the secret of every one of
  them is at hand, so no delivery fails for lack of a key; the scheduler starts in its
  initial state, nothing queued or running, with at least one lane, and a wake is attempted at least once.
\<close>

theorem create_app_serves:
  assumes "create_app deps ext = Inr (env, sv)"
  shows "registry_distinct (pe_registry env)
     \<and> (\<forall>n rt. get_route (pe_registry env) n = Inr rt \<longrightarrow>
          n \<in> set (cf_enabled (pe_config env)) \<and> (\<exists>s. route_secret env rt n = Inr s))
     \<and> (\<exists>k\<ge>1. sv_sched sv = init_sched k) \<and> 1 \<le> pe_attempts env"
proof -
  from assms obtain c reg bcfg ttl st k where b: "build_registry deps c = Inr reg"
    and e: "env = app_penv deps c reg bcfg ttl"
    and s: "sv = \<lparr>sv_world = first_world ext st, sv_sched = init_sched k\<rparr>" "1 \<le> k"
    by (rule create_app_parts)
  note ok = build_registry_ok[OF b]
  have pe: "pe_registry env = reg" "pe_config env = c" "pe_attempts env = 3" by (simp_all add: e app_penv_def)
  have r: "n \<in> set (cf_enabled c) \<and> (\<exists>s. route_secret env rt n = Inr s)" if g: "get_route reg n = Inr rt" for n rt
  proof -
    from g have m: "map_of reg n = Some rt" by (simp add: get_route_def split: option.splits)
    then have en: "n \<in> set (cf_enabled c)" using ok(2) map_of_SomeD by fast
    with secrets_present[OF ok(3) _ m] have "cf_secrets c n \<noteq> None \<or> \<not> rt_needs_secret rt" by simp
    then show ?thesis using en by (auto simp: route_secret_def pe webhook_secret_def)
  qed
  show ?thesis using ok(1) r s by (auto simp: pe)
qed

end
