(* ===== verification/Probe.thy ===== *)
theory Probe
  imports Probe_Route Evidence_Props Selftest
begin

text \<open>
  \<open>probe.py\<close>: the synthetic wake. It posts a signed delivery at the daemon's own
  listener and then re-reads the daemon's evidence until the outcome of that delivery is
  on record or the deadline passes. The transport, the URL splitter, the HMAC, the readings
  of the clock and of the document are parameters; the waiting loop takes fuel, so that not
  returning is a value.
\<close>

subsection \<open>Verdicts and records\<close>

datatype verdict = Proven | Broken | Unprovable

definition verdict_value :: "verdict \<Rightarrow> string" where
  "verdict_value v = (case v of Proven \<Rightarrow> ''proven'' | Broken \<Rightarrow> ''broken'' | Unprovable \<Rightarrow> ''unprovable'')"

definition verdict_exit :: "verdict \<Rightarrow> int" where
  "verdict_exit v = (case v of Proven \<Rightarrow> 0 | Broken \<Rightarrow> 1 | Unprovable \<Rightarrow> exit_unprovable)"

definition unprovable_marker :: string where "unprovable_marker = ''could not prove:''"

record injection =
  in_status :: int
  in_stages :: "(string \<times> string) list"
  in_body :: string

definition inj_accepted :: "injection \<Rightarrow> bool" where
  "inj_accepted i = (in_status i = 202)"

definition inj_terminal :: "injection \<Rightarrow> string" where
  "inj_terminal i = (if in_stages i = [] then ''none''
     else fst (last (in_stages i)) @ ''/'' @ snd (last (in_stages i)))"

definition injection_json :: "injection \<Rightarrow> json" where
  "injection_json i = JObj [(''status'', JInt (in_status i)), (''accepted'', JBool (inj_accepted i)),
     (''stages'', JList (map (\<lambda>(a, b). JList [JStr a, JStr b]) (in_stages i))),
     (''terminal'', JStr (inj_terminal i))]"

record wake_proof =
  wp_last_ok_at :: "string option"
  wp_last_ok_route :: "string option"
  wp_last_ok_synthetic :: "bool option"
  wp_row :: route_wake
  wp_queued :: int

definition read_proof :: "evidence_doc \<Rightarrow> string \<Rightarrow> string \<Rightarrow> wake_proof" where
  "read_proof d hk route =
     (let w = entry empty_agent_wake hk (dc_wakes d)
      in \<lparr>wp_last_ok_at = aw_last_ok_at w, wp_last_ok_route = aw_last_ok_route w,
          wp_last_ok_synthetic = aw_last_ok_synthetic w,
          wp_row = entry empty_route_wake route (aw_by_route w), wp_queued = aw_queued w\<rparr>)"

definition proof_json :: "wake_proof \<Rightarrow> json" where
  "proof_json p = (let r = wp_row p in JObj
     [(''agent_last_ok_at'', json_opt (wp_last_ok_at p)), (''agent_last_ok_route'', json_opt (wp_last_ok_route p)),
      (''agent_last_ok_synthetic'', json_bool_opt (wp_last_ok_synthetic p)), (''route_ok'', JInt (rw_ok r)),
      (''route_last_ok_at'', json_opt (rw_last_ok_at r)),
      (''route_last_ok_delivery'', json_opt (rw_last_ok_delivery r)), (''route_failed'', JInt (rw_failed r)),
      (''route_last_failed_at'', json_opt (rw_last_failed_at r)),
      (''route_last_failed_reason'', json_opt (rw_last_failed_reason r)), (''route_refused'', JInt (rw_refused r)),
      (''route_last_refused_at'', json_opt (rw_last_refused_at r)),
      (''route_last_refused_reason'', json_opt (rw_last_refused_reason r)),
      (''route_deduped'', JInt (rw_deduped r)), (''queued'', JInt (wp_queued p))])"

record probe_result =
  pb_status :: verdict
  pb_harness_key :: string
  pb_route :: string
  pb_delivery_id :: string
  pb_nonce :: "string option"
  pb_detail :: string
  pb_checked_at :: string
  pb_waited :: rat
  pb_injection :: injection
  pb_before :: wake_proof
  pb_after :: wake_proof

definition opt_text :: "string option \<Rightarrow> string" where
  "opt_text s = (case s of None \<Rightarrow> ''None'' | Some t \<Rightarrow> t)"

definition probe_summary :: "probe_result \<Rightarrow> string" where
  "probe_summary r = pb_detail r @ '' [agent last_ok_at ''
     @ (if pb_status r = Proven
        then opt_text (wp_last_ok_at (pb_before r)) @ '' -> '' @ opt_text (wp_last_ok_at (pb_after r))
        else opt_text (wp_last_ok_at (pb_before r))) @ '']''"

definition probe_result_json :: "probe_result \<Rightarrow> json" where
  "probe_result_json r = JObj
     [(''probe'', JStr ''synthetic-wake''), (''status'', JStr (verdict_value (pb_status r))),
      (''harness_key'', JStr (pb_harness_key r)), (''route'', JStr (pb_route r)),
      (''delivery_id'', JStr (pb_delivery_id r)), (''nonce'', json_opt (pb_nonce r)),
      (''detail'', JStr (pb_detail r)), (''checked_at'', JStr (pb_checked_at r)),
      (''waited_seconds'', JFloat (Fin (of_int (round_even (1000 * pb_waited r)) / 1000))),
      (''injection'', injection_json (pb_injection r)), (''before'', proof_json (pb_before r)),
      (''after'', proof_json (pb_after r))]"

subsection \<open>The post\<close>

datatype probe_exn = ProbeError string | ProbeRaised string

text \<open>
  The accept half's stages. A body that does not parse yields none; the iteration over
  the parsed value is outside the guard. \<open>tostr\<close> is \<open>str\<close> of a value that is no string.
\<close>

definition stages_of :: "(string \<Rightarrow> loads_result) \<Rightarrow> (json \<Rightarrow> string) \<Rightarrow> string \<Rightarrow> string + (string \<times> string) list" where
  "stages_of loads tostr raw =
     (let str = (\<lambda>j. case j of JStr s \<Rightarrow> s | _ \<Rightarrow> tostr j);
          pair = (\<lambda>j. case j of JList [a, b] \<Rightarrow> [(str a, str b)] | _ \<Rightarrow> [])
      in case loads raw of
           DecodeError _ \<Rightarrow> Inr []
         | LoadsRaised e \<Rightarrow> Inl e
         | Loaded (JObj f) \<Rightarrow> (case map_of f ''stages'' of
               None \<Rightarrow> Inr []
             | Some (JList xs) \<Rightarrow> Inr (concat (map pair xs))
             | Some (JObj _) \<Rightarrow> Inr []
             | Some (JStr _) \<Rightarrow> Inr []
             | Some _ \<Rightarrow> Inl ''object is not iterable'')
         | Loaded _ \<Rightarrow> Inr [])"

record url_parts =
  up_scheme :: string
  up_host :: "string option"
  up_port :: "int option"
  up_path :: string

record http_request =
  hq_tls :: bool
  hq_host :: string
  hq_port :: "int option"
  hq_path :: string
  hq_body :: string
  hq_headers :: "(string \<times> string) list"

datatype http_answer = HttpReply int string | HttpOsError string | HttpRaised string

definition post_over_http ::
  "(string \<Rightarrow> string + url_parts) \<Rightarrow> (http_request \<Rightarrow> http_answer) \<Rightarrow> (string \<Rightarrow> loads_result) \<Rightarrow> (json \<Rightarrow> string)
    \<Rightarrow> string \<Rightarrow> string \<Rightarrow> (string \<times> string) list \<Rightarrow> probe_exn + injection" where
  "post_over_http urlsplit transport loads tostr url body headers =
     (case urlsplit url of
        Inl e \<Rightarrow> Inl (ProbeRaised e)
      | Inr u \<Rightarrow>
          (case transport \<lparr>hq_tls = (up_scheme u = ''https''), hq_host = or_else (up_host u) ''127.0.0.1'',
                  hq_port = up_port u, hq_path = (if up_path u = [] then ''/'' else up_path u),
                  hq_body = body, hq_headers = headers\<rparr> of
             HttpOsError e \<Rightarrow> Inl (ProbeError (''could not reach the router daemon at '' @ url @ '': '' @ e
               @ '' '' @ em_dash @ '' is basecradle-router running, and is BASECRADLE_ROUTER_SELF_URL the address it binds?''))
           | HttpRaised e \<Rightarrow> Inl (ProbeRaised e)
           | HttpReply st raw \<Rightarrow>
               (case stages_of loads tostr raw of
                  Inl e \<Rightarrow> Inl (ProbeRaised e)
                | Inr ss \<Rightarrow> Inr \<lparr>in_status = st, in_stages = ss, in_body = raw\<rparr>)))"

subsection \<open>The probe\<close>

text \<open>
  The \<open>i\<close>-th reading of the document and of the monotonic clock; a reading after a sleep
  is the next one of its sequence.
\<close>

record probe_env =
  pv_hexdigest :: "string \<Rightarrow> string \<Rightarrow> string"
  pv_secret :: secret
  pv_path :: "string option"
  pv_self_url :: string
  pv_route :: string
  pv_timeout :: pyfloat
  pv_post :: "string \<Rightarrow> string \<Rightarrow> (string \<times> string) list \<Rightarrow> probe_exn + injection"
  pv_disk :: "nat \<Rightarrow> disk_read"
  pv_clock :: "nat \<Rightarrow> rat"
  pv_mint :: string
  pv_now :: string

definition read_evidence :: "string option \<Rightarrow> disk_read \<Rightarrow> (evidence_doc \<times> log_line list) option" where
  "read_evidence path r = (case path of None \<Rightarrow> Some (empty_doc, []) | Some p \<Rightarrow> load_doc p r)"

definition body_for :: "string \<Rightarrow> string \<Rightarrow> string" where
  "body_for hk marker = ''{'' @ json_string ''harness_key'' @ '':'' @ json_string hk @ '',''
     @ json_string ''marker'' @ '':'' @ json_string marker @ ''}''"

definition headers_for :: "probe_env \<Rightarrow> string \<Rightarrow> string \<Rightarrow> (string \<times> string) list" where
  "headers_for env body delivery =
     [(''Content-Type'', ''application/json''), (''Content-Length'', str_int (int (length body))),
      (pr_signature_header, hmac_prefix @ pv_hexdigest env (reveal (pv_secret env)) body),
      (pr_delivery_header, delivery), (pr_event_header, wake_probe_event)]"

definition inject :: "probe_env \<Rightarrow> string \<Rightarrow> string \<Rightarrow> string \<Rightarrow> probe_exn + injection" where
  "inject env hk marker delivery =
     (let body = body_for hk marker
      in pv_post env (pv_self_url env @ ''/webhooks/'' @ pv_route env) body (headers_for env body delivery))"

text \<open>One reading of the proof: the document's, or the exception that reading it raised.\<close>

definition proof_at :: "probe_env \<Rightarrow> string \<Rightarrow> nat \<Rightarrow> (probe_exn + wake_proof) \<times> log_line list" where
  "proof_at env hk i =
     (case read_evidence (pv_path env) (pv_disk env i) of
        None \<Rightarrow> (Inl (ProbeRaised ''the evidence document raised''), [])
      | Some (d, ls) \<Rightarrow> (Inr (read_proof d hk (pv_route env)), ls))"

definition injection_verdict :: "injection \<Rightarrow> verdict \<times> string" where
  "injection_verdict i =
     (if in_status i = 404
      then (Unprovable, ''the daemon does not serve this route: add it to ''
        @ ''BASECRADLE_ROUTER_ENABLED_ROUTES (with its webhook secret) and restart'')
      else if in_status i = 401
      then (Broken, ''the daemon rejected the probe's signature '' @ em_dash @ '' the secret this run signed with ''
        @ ''is not the one the daemon holds for this route'')
      else (Broken, ''the daemon accepted no wake for this delivery (HTTP '' @ str_int (in_status i) @ '', terminal ''
        @ inj_terminal i @ '') '' @ em_dash @ '' most often an unregistered recipient''))"

definition str_contains :: "string \<Rightarrow> string \<Rightarrow> bool" where
  "str_contains needle s = (\<exists>i\<in>set [0..<Suc (length s)]. starts_with needle (drop i s))"

text \<open>The four outcomes a reading can show, in the order they are looked for.\<close>

definition poll_verdict :: "string \<Rightarrow> wake_proof \<Rightarrow> wake_proof \<Rightarrow> (verdict \<times> string) option" where
  "poll_verdict delivery before after =
     (let b = wp_row before; a = wp_row after in
      if rw_last_ok_delivery a = Some delivery
      then Some (Proven, ''the wake edge answered: the daemon recorded stage=wake outcome=ok for delivery ''
        @ delivery @ '' at '' @ opt_text (rw_last_ok_at a))
      else if rw_failed a \<noteq> rw_failed b
      then (let reason = or_else (rw_last_failed_reason a) [] in
        if str_contains unprovable_marker reason
        then Some (Unprovable, ''the probe could not be completed: '' @ reason)
        else Some (Broken, ''the wake was dispatched and failed: '' @ reason))
      else if rw_refused a \<noteq> rw_refused b
      then Some (Unprovable, ''the router refused the wake, so nothing was proven either way: ''
        @ opt_text (rw_last_refused_reason a))
      else if rw_deduped a \<noteq> rw_deduped b
      then Some (Unprovable, ''the router collapsed the injection as a duplicate delivery, so no ''
        @ ''wake ran and nothing was proven either way'')
      else None)"

text \<open>\<open>:.0f\<close>, with the sign a negative value keeps when it rounds to zero.\<close>

definition fmt_seconds :: "pyfloat \<Rightarrow> string" where
  "fmt_seconds x = (case x of Fin r \<Rightarrow> (if r < 0 \<and> round_even r = 0 then ''-0'' else fmt0 x) | _ \<Rightarrow> fmt0 x)"

definition deadline_detail :: "probe_env \<Rightarrow> string \<Rightarrow> wake_proof \<Rightarrow> string" where
  "deadline_detail env delivery after =
     ''no outcome recorded for delivery '' @ delivery @ '' within '' @ fmt_seconds (pv_timeout env) @ ''s''
     @ (if wp_queued after \<noteq> 0 then '', '' @ str_int (wp_queued after) @ '' wake(s) queued for this agent'' else [])
     @ ''; the wake may still be in flight '' @ em_dash @ '' re-read the evidence at ''
     @ or_else (pv_path env) ''(in-memory)''
     @ '' before treating this as a finding''"

text \<open>
  The loop: the \<open>i\<close>-th reading of the document, then the clock's reading \<open>i + 1\<close> against
  the deadline. It answers the outcome, the clock's next reading, and the lines.
\<close>

fun await_loop :: "probe_env \<Rightarrow> string \<Rightarrow> string \<Rightarrow> wake_proof \<Rightarrow> pyfloat \<Rightarrow> nat \<Rightarrow> nat
    \<Rightarrow> ((probe_exn + verdict \<times> string \<times> wake_proof) \<times> nat \<times> log_line list) option" where
  "await_loop env hk delivery before deadline 0 i = None"
| "await_loop env hk delivery before deadline (Suc fuel) i =
     (case proof_at env hk i of
        (Inl e, ls) \<Rightarrow> Some (Inl e, i + 1, ls)
      | (Inr after, ls) \<Rightarrow>
          (case poll_verdict delivery before after of
             Some (v, detail) \<Rightarrow> Some (Inr (v, detail, after), i + 1, ls)
           | None \<Rightarrow>
               if fl_le deadline (Fin (pv_clock env (i + 1)))
               then Some (Inr (Unprovable, deadline_detail env delivery after, after), i + 2, ls)
               else map_option (\<lambda>(r, j, ls'). (r, j, ls @ ls'))
                      (await_loop env hk delivery before deadline fuel (Suc i))))"

definition await_outcome :: "probe_env \<Rightarrow> nat \<Rightarrow> string \<Rightarrow> string \<Rightarrow> wake_proof \<Rightarrow> injection
    \<Rightarrow> ((probe_exn + verdict \<times> string \<times> wake_proof) \<times> nat \<times> log_line list) option" where
  "await_outcome env fuel hk delivery before injn =
     (if \<not> inj_accepted injn
      then Some (Inr (fst (injection_verdict injn), snd (injection_verdict injn), before), 1, [])
      else await_loop env hk delivery before (fl_add (pv_clock env 1) (pv_timeout env)) fuel 1)"

definition run_probe :: "probe_env \<Rightarrow> nat \<Rightarrow> string \<Rightarrow> string \<Rightarrow> ((probe_exn + probe_result) \<times> log_line list) option" where
  "run_probe env fuel hk marker =
     (if \<not> is_marker marker
      then Some (Inl (ProbeError (''marker is not a well-formed BCNOC1 probe marker ''
        @ ''(expected 'BCNOC1 <nonce> <64-hex-hmac>'); mint it with the NOC's ''
        @ ''per-agent probe secret and pipe it in on stdin'')), [])
      else (case proof_at env hk 0 of
        (Inl e, ls) \<Rightarrow> Some (Inl e, ls)
      | (Inr before, ls) \<Rightarrow>
          (case inject env hk marker (pv_mint env) of
             Inl e \<Rightarrow> Some (Inl e, ls)
           | Inr injn \<Rightarrow>
               (let line = (Info, ''event=probe_injected '' @ log_fields [(''agent'', VStr hk),
                      (''route'', VStr (pv_route env)), (''delivery'', VStr (pv_mint env)),
                      (''status'', VInt (in_status injn)), (''terminal'', VStr (inj_terminal injn))])
                in case await_outcome env fuel hk (pv_mint env) before injn of
                     None \<Rightarrow> None
                   | Some (Inl e, j, ls') \<Rightarrow> Some (Inl e, ls @ line # ls')
                   | Some (Inr (v, detail, after), j, ls') \<Rightarrow>
                       Some (Inr \<lparr>pb_status = v, pb_harness_key = hk, pb_route = pv_route env,
                         pb_delivery_id = pv_mint env, pb_nonce = nonce_of marker, pb_detail = detail,
                         pb_checked_at = pv_now env, pb_waited = pv_clock env j - pv_clock env 0,
                         pb_injection = injn, pb_before = before, pb_after = after\<rparr>, ls @ line # ls')))))"

end
