(* ===== verification/Log_Grammar.thy ===== *)
theory Log_Grammar
  imports Probe Breaker
begin

text \<open>
  \<open>log_grammar.py\<close>: the probe of the trip line's grammar. It drives a breaker of the
  default configuration, clock frozen, past its threshold, captures the line the breaker
  itself wrote, checks it against a genuine one, and hands it to the journal. A handler of
  the package logger is whether it is the daemon's; the clock of the formatter and
  \<open>systemd-cat\<close> are parameters.
\<close>

definition journal_id :: string where "journal_id = ''basecradle-router''"
definition line_class :: string where "line_class = ''breaker_tripped''"
definition synthetic_agent :: string where "synthetic_agent = ''probe''"
definition grammar_source :: string where "grammar_source = ''probe''"
definition breaker_logger :: string where "breaker_logger = ''basecradle_router.breaker''"
definition trip_event :: string where "trip_event = ''event=breaker_tripped''"
definition probe_marker :: string where "probe_marker = ''PROBE''"
definition log_format :: string where "log_format = ''%(asctime)s %(levelname)s %(name)s %(message)s''"

definition level_name :: "level \<Rightarrow> string" where
  "level_name l = (case l of Info \<Rightarrow> ''INFO'' | Warning \<Rightarrow> ''WARNING'' | Error \<Rightarrow> ''ERROR'')"

text \<open>\<open>logging.Formatter(LOG_FORMAT).format\<close> of a record of the breaker's logger.\<close>

definition render_record :: "string \<Rightarrow> log_line \<Rightarrow> string" where
  "render_record asctime l = asctime @ '' '' @ level_name (fst l) @ '' '' @ breaker_logger @ '' '' @ snd l"

record grammar_result =
  gr_status :: verdict
  gr_line_class :: string
  gr_identifier :: string
  gr_grammar :: string
  gr_rendered :: string
  gr_detail :: string
  gr_checked_at :: string

definition grammar_summary :: "grammar_result \<Rightarrow> string" where
  "grammar_summary r = gr_detail r @ '' [grammar='' @ py_repr (gr_grammar r) @ '' identifier='' @ gr_identifier r @ '']''"

definition grammar_result_json :: "grammar_result \<Rightarrow> json" where
  "grammar_result_json r = JObj
     [(''probe'', JStr ''log-grammar''), (''status'', JStr (verdict_value (gr_status r))),
      (''line_class'', JStr (gr_line_class r)), (''identifier'', JStr (gr_identifier r)),
      (''grammar'', JStr (gr_grammar r)), (''rendered'', JStr (gr_rendered r)), (''detail'', JStr (gr_detail r)),
      (''checked_at'', JStr (gr_checked_at r))]"

subsection \<open>Capturing a trip\<close>

text \<open>The admits of the capture, at most the given number, up to the trip; the lines they logged.\<close>

fun trip_loop :: "breaker_config \<Rightarrow> string \<Rightarrow> nat \<Rightarrow> breaker \<Rightarrow> log_line list" where
  "trip_loop cfg src 0 b = []"
| "trip_loop cfg src (Suc n) b =
     (let (out, b', ls) = admit cfg src 0 synthetic_agent None b
      in if bo_state out = Tripped then ls else ls @ trip_loop cfg src n b')"

text \<open>The left is a \<open>LogGrammarError\<close>.\<close>

definition capture_trip :: "bool list \<Rightarrow> bool \<Rightarrow> string + log_line" where
  "capture_trip handlers syn =
     (if (\<exists>d\<in>set handlers. d)
      then Inl ''refusing to render a trip inside the daemon: capturing would mute a real one''
      else (case trip_loop default_breaker_config (if syn then grammar_source else [])
               (nat (max_wakes default_breaker_config + 1)) init_breaker of
              [l] \<Rightarrow> Inr l
            | ls \<Rightarrow> Inl (''one trip must emit exactly one line; the breaker emitted '' @ str_int (int (length ls)))))"

definition render_trip :: "bool list \<Rightarrow> string \<Rightarrow> bool \<Rightarrow> string + string" where
  "render_trip handlers asctime syn = map_sum id (render_record asctime) (capture_trip handlers syn)"

definition trip_message :: "bool list \<Rightarrow> bool \<Rightarrow> string + string" where
  "trip_message handlers syn = map_sum id snd (capture_trip handlers syn)"

subsection \<open>The journal\<close>

datatype cat_answer = CatRan int string | CatFailed string

definition write_to_journal :: "(string list \<Rightarrow> string \<Rightarrow> cat_answer) \<Rightarrow> string \<Rightarrow> string option" where
  "write_to_journal cat line =
     (case cat [''systemd-cat'', ''--identifier='' @ journal_id, ''--priority=info''] (line @ [CHR 0x0A]) of
        CatFailed e \<Rightarrow> Some (''could not run systemd-cat: '' @ e)
      | CatRan code err \<Rightarrow> if code \<noteq> 0
          then Some (''systemd-cat exited '' @ str_int code @ '': '' @ take 200 (py_strip err)) else None)"

subsection \<open>The probe\<close>

definition grammar_fault :: "bool list \<Rightarrow> string \<Rightarrow> string + string option" where
  "grammar_fault handlers message =
     (let head = probe_marker @ '' ''; stamp = ''source='' @ grammar_source in
      if \<not> str_contains trip_event message
      then Inr (Some (''the rendered line does not carry the declared grammar '' @ py_repr trip_event))
      else if \<not> starts_with head message
      then Inr (Some (''the synthetic line does not lead with '' @ py_repr probe_marker))
      else if \<not> ends_with stamp message
      then Inr (Some (''the synthetic stamp '' @ py_repr stamp @ '' does not trail the line''))
      else (case trip_message handlers False of
              Inl e \<Rightarrow> Inl e
            | Inr genuine \<Rightarrow>
                if message \<noteq> head @ genuine @ '' '' @ stamp
                then Inr (Some (''the synthetic line is not a genuine trip between its head and its stamp ('' @ py_repr head
                  @ '' + '' @ py_repr genuine @ '' + '' @ py_repr stamp @ '')''))
                else Inr None))"

definition grammar_result_of :: "string \<Rightarrow> verdict \<Rightarrow> string \<Rightarrow> string \<Rightarrow> grammar_result" where
  "grammar_result_of now v rendered detail =
     \<lparr>gr_status = v, gr_line_class = line_class, gr_identifier = journal_id, gr_grammar = trip_event,
      gr_rendered = rendered, gr_detail = detail, gr_checked_at = now\<rparr>"

definition proven_detail :: string where
  "proven_detail = ''rendered by the breaker's own trip statement and accepted by journald under '' @ journal_id
     @ ''; whether it landed is the NOC's witness to say, since this daemon is a system user that cannot ''
     @ ''read the journal back''"

text \<open>The answer, and the lines handed to the writer.\<close>

definition run_grammar :: "bool list \<Rightarrow> string \<Rightarrow> string \<Rightarrow> (string \<Rightarrow> string option)
    \<Rightarrow> (string + grammar_result) \<times> string list" where
  "run_grammar handlers asctime now writer =
     (case capture_trip handlers True of
        Inl e \<Rightarrow> (Inl e, [])
      | Inr l \<Rightarrow>
          (let rendered = render_record asctime l in
           case grammar_fault handlers (snd l) of
             Inl e \<Rightarrow> (Inl e, [])
           | Inr (Some why) \<Rightarrow> (Inr (grammar_result_of now Broken rendered why), [])
           | Inr None \<Rightarrow>
               (case writer rendered of
                  Some e \<Rightarrow> (Inl e, [rendered])
                | None \<Rightarrow> (Inr (grammar_result_of now Proven rendered proven_detail), [rendered]))))"

definition manifest_detail :: "bool list \<Rightarrow> string + json" where
  "manifest_detail handlers = map_sum id (\<lambda>msg. JObj
     [(''line_class'', JStr line_class), (''identifier'', JStr journal_id), (''logger'', JStr breaker_logger),
      (''envelope'', JStr log_format), (''grammar'', JStr trip_event),
      (''discriminator'', JStr (''source='' @ grammar_source)), (''genuine_level'', JStr (level_name Error)),
      (''synthetic_level'', JStr (level_name Info)), (''rendered'', JStr msg), (''proves'', JStr ''rendered''),
      (''exit_codes'', JObj (map (\<lambda>v. (verdict_value v, JInt (verdict_exit v))) [Proven, Broken, Unprovable]))])
     (trip_message handlers True)"

subsection \<open>The capture yields one trip\<close>

text \<open>A breaker that has admitted the agent \<open>k\<close> times at instant 0.\<close>

definition warmed :: "nat \<Rightarrow> breaker \<Rightarrow> bool" where
  "warmed k b \<longleftrightarrow> admits_since_gc b = k \<and> base_window b (AgentKey synthetic_agent)
     = \<lparr>timestamps = replicate k 0, tripped_until = None\<rparr>"

lemma warmed_init: "warmed 0 init_breaker"
  by (simp add: warmed_def init_breaker_def base_window_def empty_window_def)

lemma warmed_admit:
  assumes "warmed k b" and "k < 1000"
  obtains b' where "admit default_breaker_config src 0 synthetic_agent None b
     = (if 20 \<le> k then (\<lparr>bo_state = Tripped, bo_scope = ''agent'', bo_key = synthetic_agent, bo_count = Suc k\<rparr>, b',
            [trip_line default_breaker_config src synthetic_agent AgentScope synthetic_agent (Suc k) 20])
        else (\<lparr>bo_state = Admitted, bo_scope = [], bo_key = [], bo_count = 0\<rparr>, b', []))"
    and "k < 20 \<Longrightarrow> warmed (Suc k) b'"
proof -
  let ?b = "b\<lparr>admits_since_gc := Suc k\<rparr>"
  have t: "tick_gc default_breaker_config 0 b = ?b"
    using assms by (simp add: tick_gc_def warmed_def gc_interval_def Let_def)
  have s: "scopes_for default_breaker_config synthetic_agent None
      = [(AgentScope, AgentKey synthetic_agent, 20, synthetic_agent)]"
    by (simp add: scopes_for_def default_breaker_config_def)
  have w: "windows b (AgentKey synthetic_agent) = None \<and> k = 0
      \<or> windows b (AgentKey synthetic_agent) = Some \<lparr>timestamps = replicate k 0, tripped_until = None\<rparr>"
    using assms by (auto simp: warmed_def base_window_def empty_window_def split: option.splits)
  have c: "check_open src synthetic_agent 0 (scopes_for default_breaker_config synthetic_agent None) ?b = (None, ?b, [])"
    using w by (auto simp: s)
  have p: "prune default_breaker_config 0 (replicate k 0) = replicate k 0"
    by (cases k) (simp_all add: prune_def default_breaker_config_def)
  have r: "replicate k (0::rat) @ [0] = replicate (Suc k) 0" by (simp add: replicate_append_same)
  have rec: "\<exists>b'. record_wake default_breaker_config src synthetic_agent 0
        (scopes_for default_breaker_config synthetic_agent None) ?b
     = (if 20 \<le> k then (\<lparr>bo_state = Tripped, bo_scope = ''agent'', bo_key = synthetic_agent, bo_count = Suc k\<rparr>, b',
            [trip_line default_breaker_config src synthetic_agent AgentScope synthetic_agent (Suc k) 20])
        else (\<lparr>bo_state = Admitted, bo_scope = [], bo_key = [], bo_count = 0\<rparr>, b', []))
     \<and> (k < 20 \<longrightarrow> warmed (Suc k) b')"
    using w p r
    by (auto simp: s scope_name_def warmed_def base_window_def set_window_def empty_window_def Let_def prune_def)
  with that show thesis by (auto simp: admit_def t admit_scopes_def c)
qed

lemma trip_loop_one:
  assumes "warmed k b" and "k \<le> 20"
  shows "trip_loop default_breaker_config src (21 - k) b
     = [trip_line default_breaker_config src synthetic_agent AgentScope synthetic_agent 21 20]"
  using assms
proof (induction "20 - k" arbitrary: k b)
  case 0
  then have k: "k = 20" by simp
  obtain b' where "admit default_breaker_config src 0 synthetic_agent None b
     = (\<lparr>bo_state = Tripped, bo_scope = ''agent'', bo_key = synthetic_agent, bo_count = Suc k\<rparr>, b',
            [trip_line default_breaker_config src synthetic_agent AgentScope synthetic_agent (Suc k) 20])"
    using warmed_admit[OF 0(2), of src] k by auto
  then show ?case by (simp add: k)
next
  case (Suc n)
  then have k: "k < 20" by simp
  obtain b' where b': "admit default_breaker_config src 0 synthetic_agent None b
     = (\<lparr>bo_state = Admitted, bo_scope = [], bo_key = [], bo_count = 0\<rparr>, b', [])" "warmed (Suc k) b'"
    using warmed_admit[OF Suc.prems(1), of src] k by auto
  have e: "21 - k = Suc (21 - Suc k)" using k by simp
  have "trip_loop default_breaker_config src (21 - Suc k) b'
     = [trip_line default_breaker_config src synthetic_agent AgentScope synthetic_agent 21 20]"
    by (rule Suc.hyps(1)[OF _ b'(2)]) (use Suc.hyps(2) k in simp_all)
  then show ?case unfolding e by (simp add: b'(1))
qed

lemma capture_trip_line:
  "capture_trip handlers syn = (if \<exists>d\<in>set handlers. d
     then Inl ''refusing to render a trip inside the daemon: capturing would mute a real one''
     else Inr (trip_line default_breaker_config (if syn then grammar_source else []) synthetic_agent AgentScope
        synthetic_agent 21 20))"
proof -
  have n: "nat (max_wakes default_breaker_config + 1) = 21 - 0" by (simp add: default_breaker_config_def)
  show ?thesis unfolding capture_trip_def n trip_loop_one[OF warmed_init le0] by simp
qed

lemma log_fields_snoc: "log_fields kvs \<noteq> [] \<Longrightarrow> render_field kv = [t] \<Longrightarrow> log_fields (kvs @ [kv]) = log_fields kvs @ '' '' @ t"
proof -
  have j: "xs \<noteq> [] \<Longrightarrow> py_join s (xs @ [t]) = py_join s xs @ s @ t" for s xs
    by (induction s xs rule: py_join.induct) auto
  assume k: "log_fields kvs \<noteq> []" and r: "render_field kv = [t]"
  define xs where "xs = concat (map render_field kvs)"
  have "py_join '' '' xs \<noteq> []" using k by (simp only: log_fields_def xs_def not_False_eq_True)
  then have "xs \<noteq> []" by auto
  note jx = j[OF this, of "'' ''"]
  have "log_fields (kvs @ [kv]) = py_join '' '' (xs @ [t])" by (simp add: log_fields_def r xs_def)
  moreover have "log_fields kvs = py_join '' '' xs" by (simp only: log_fields_def xs_def)
  ultimately show "log_fields (kvs @ [kv]) = log_fields kvs @ '' '' @ t" by (simp only: jx)
qed

text \<open>The synthetic line is the genuine one between the head and the stamp, at another level.\<close>

lemma synthetic_trip:
  "trip_line cfg grammar_source a sc d n thr
     = (Info, ''PROBE '' @ snd (trip_line cfg [] a sc d n thr) @ '' source=probe'')"
  "fst (trip_line cfg [] a sc d n thr) = Error"
proof -
  have r: "render_field (''source'', VStr grammar_source) = [''source=probe'']"
    "render_field (''source'', VStr []) = []" by code_simp+
  let ?k = "[(''agent'', VStr a), (''scope'', VStr (scope_name sc)), (''key'', VStr d),
       (''count'', VInt (int n)), (''threshold'', VInt thr), (''window'', VStr (fmt0 (window cfg) @ ''s'')),
       (''cooldown'', VStr (fmt0 (cooldown cfg) @ ''s''))]"
  have ne: "log_fields ?k \<noteq> []"
  proof -
    have j: "py_join s xs = [] \<Longrightarrow> xs = [] \<or> hd xs = []" for s xs
      by (cases "(s, xs)" rule: py_join.cases) auto
    have f: "t \<in> set (render_field kv) \<Longrightarrow> t \<noteq> []" for t kv
      by (auto simp: render_field_def Let_def split: field_value.splits if_splits)
    have "render_field (''scope'', VStr (scope_name AgentScope)) \<noteq> []"
      "render_field (''scope'', VStr (scope_name StreamScope)) \<noteq> []" by code_simp+
    then have s: "render_field (''scope'', VStr (scope_name sc)) \<noteq> []" by (cases sc) simp_all
    let ?xs = "concat (map render_field ?k)"
    from s have "?xs \<noteq> []" by simp
    moreover have "\<forall>t\<in>set ?xs. t \<noteq> []" using f by auto
    ultimately show ?thesis using j[of "'' ''" ?xs] unfolding log_fields_def by (metis hd_in_set)
  qed
  have e: "log_fields (?k @ [(''source'', VStr [])]) = log_fields ?k" by (simp add: log_fields_def r)
  show "trip_line cfg grammar_source a sc d n thr
     = (Info, ''PROBE '' @ snd (trip_line cfg [] a sc d n thr) @ '' source=probe'')"
    using log_fields_snoc[OF ne r(1)] e
    by (simp add: trip_line_def trip_level_def probe_head_def grammar_source_def)
  show "fst (trip_line cfg [] a sc d n thr) = Error" by (simp add: trip_line_def trip_level_def)
qed


lemma drop_starts: "starts_with p (p @ s)"
  by (simp add: starts_with_def)

lemma contains_middle: "str_contains p (a @ p @ b)"
  by (auto simp: str_contains_def starts_with_def intro!: bexI[of _ "length a"])

lemma str_contains_iff: "str_contains p s \<longleftrightarrow> (\<exists>a b. s = a @ p @ b)"
proof
  assume "str_contains p s"
  then obtain i where "starts_with p (drop i s)" unfolding str_contains_def by blast
  then have "drop i s = p @ drop (length p) (drop i s)" by (metis append_take_drop_id starts_with_def)
  then show "\<exists>a b. s = a @ p @ b" by (metis append_take_drop_id)
qed (auto simp: contains_middle)

lemma contains_wider: "str_contains p s \<Longrightarrow> str_contains p (a @ s @ b)"
  unfolding str_contains_iff by (metis append.assoc)

lemma grammar_runs:
  "if \<exists>d\<in>set handlers. d
   then (\<exists>e. capture_trip handlers syn = Inl e) \<and> (\<exists>e. run_grammar handlers asctime now writer = (Inl e, []))
   else (\<exists>genuine. capture_trip handlers False = Inr (Error, genuine)
     \<and> capture_trip handlers True = Inr (Info, ''PROBE '' @ genuine @ '' source=probe'')
     \<and> (let line = render_record asctime (Info, ''PROBE '' @ genuine @ '' source=probe'')
        in run_grammar handlers asctime now writer
           = (case writer line of None \<Rightarrow> (Inr (grammar_result_of now Proven line proven_detail), [line])
              | Some e \<Rightarrow> (Inl e, [line]))))"
proof (cases "\<exists>d\<in>set handlers. d")
  case True
  then show ?thesis by (simp add: run_grammar_def capture_trip_line)
next
  case False
  define g where "g = trip_line default_breaker_config [] synthetic_agent AgentScope synthetic_agent 21 20"
  have c: "capture_trip handlers False = Inr (Error, snd g)"
    "capture_trip handlers True = Inr (Info, ''PROBE '' @ snd g @ '' source=probe'')"
    using False synthetic_trip(2) by (simp_all add: capture_trip_line synthetic_trip(1) g_def prod_eq_iff)
  have "str_contains trip_event (snd g)"
  proof -
    have p: "paint trip_event = ansi Red @ trip_event @ reset" by code_simp
    have "\<exists>rest. snd g = paint trip_event @ rest"
      by (simp add: g_def trip_line_def probe_head_def trip_event_def)
    then obtain rest where "snd g = ansi Red @ trip_event @ (reset @ rest)" unfolding p append.assoc ..
    then show ?thesis unfolding str_contains_iff by blast
  qed
  then have t: "str_contains trip_event (''PROBE '' @ snd g @ '' source=probe'')"
    by (rule contains_wider)
  have "grammar_fault handlers (''PROBE '' @ snd g @ '' source=probe'') = Inr None"
    using t drop_starts[of "''PROBE ''"]
    by (simp add: grammar_fault_def Let_def probe_marker_def grammar_source_def ends_with_def trip_message_def c)
  with c False show ?thesis by (auto simp: run_grammar_def Let_def split: option.split)
qed

text \<open>
  C31. The probe of the trip line's grammar never cries wolf. Outside the daemon the breaker
  emits exactly one line per capture, and the synthetic one is the genuine one, at \<open>INFO\<close>
  instead of \<open>ERROR\<close>, between its head and its stamp; so the check never answers
  \<open>broken\<close>: the run is \<open>proven\<close> exactly when the journal took that one line, and an error
  otherwise. Inside the daemon it refuses before a line is written.
\<close>

theorem grammar_probe_verdict:
  "if \<exists>d\<in>set handlers. d
   then (\<exists>e. capture_trip handlers syn = Inl e) \<and> (\<exists>e. run_grammar handlers asctime now writer = (Inl e, []))
   else (\<exists>genuine. capture_trip handlers False = Inr (Error, genuine)
     \<and> capture_trip handlers True = Inr (Info, ''PROBE '' @ genuine @ '' source=probe'')
     \<and> (let line = render_record asctime (Info, ''PROBE '' @ genuine @ '' source=probe'')
        in run_grammar handlers asctime now writer
           = (case writer line of None \<Rightarrow> (Inr (grammar_result_of now Proven line proven_detail), [line])
              | Some e \<Rightarrow> (Inl e, [line]))))"
  by (rule grammar_runs)

end
