(* ===== verification/Claims.thy ===== *)
theory Claims
  imports Log_Grammar Server
begin

text \<open>
  \<open>claims.py\<close>: the manifests of Claims Manifest Contract v1, as JSON values: one for the
  box, then one per harness instance. The host name, the wake-lock guard's reads and its
  clock (reading \<open>i\<close> for the \<open>i\<close>-th agent) are parameters; the left of the result is an
  exception on its way out (an inspection that raised, a capture that was refused).
\<close>

definition contract_version :: int where "contract_version = 1"
definition component :: string where "component = ''basecradle-router''"
definition wake_edge_ttl :: int where "wake_edge_ttl = 168"
definition delivery_sink_ttl :: int where "delivery_sink_ttl = 168"
definition freeze_ttl :: int where "freeze_ttl = 24"
definition log_grammar_ttl :: int where "log_grammar_ttl = 1"

text \<open>The first registered agent of each harness instance.\<close>

fun unique_from :: "string list \<Rightarrow> agent list \<Rightarrow> agent list" where
  "unique_from keys [] = []"
| "unique_from keys (a # as) =
     (if harness_key a \<in> set keys then unique_from keys as
      else a # unique_from (harness_key a # keys) as)"

definition unique_agents :: "config \<Rightarrow> agent list" where
  "unique_agents c = unique_from [] (map snd (cf_agents c))"

definition manifest :: "string \<Rightarrow> json list \<Rightarrow> json" where
  "manifest subject cs = JObj [(''contract'', JInt contract_version), (''subject'', JStr subject),
     (''component'', JStr component), (''claims'', JList cs)]"

definition pointer :: "string option \<Rightarrow> string \<Rightarrow> string \<Rightarrow> string" where
  "pointer path container field =
     (let field_path = container @ ''.'' @ field
      in (case path of None \<Rightarrow> ''(in-memory evidence, not persisted)#'' @ field_path | Some p \<Rightarrow> p @ ''#'' @ field_path))"

text \<open>A claim of class \<open>rare\<close>.\<close>

definition claim_json :: "string \<Rightarrow> json \<Rightarrow> json \<Rightarrow> int \<Rightarrow> json \<Rightarrow> json" where
  "claim_json name prove evid ttl detail = JObj [(''claim'', JStr name), (''class'', JStr ''rare''),
     (''prove'', prove), (''evidence'', evid), (''ttl_hours'', JInt ttl), (''detail'', detail)]"

definition prove_probe :: "string \<Rightarrow> json" where
  "prove_probe cmd = JObj [(''kind'', JStr ''probe''), (''cmd'', JStr cmd)]"

definition prove_evidence :: "string \<Rightarrow> json" where
  "prove_evidence src = JObj [(''kind'', JStr ''evidence''), (''source'', JStr src)]"

text \<open>A truthy timestamp and the text it is quoted in, or null.\<close>

definition if_proven :: "string option \<Rightarrow> (string \<Rightarrow> string) \<Rightarrow> json" where
  "if_proven stamp f = (case stamp of None \<Rightarrow> JNull | Some t \<Rightarrow> if t = [] then JNull else JStr (f t))"

subsection \<open>The box\<close>

definition synthetic_route_names :: "'r registry \<Rightarrow> string list" where
  "synthetic_route_names reg = map rt_name (filter rt_synthetic (sorted_routes reg))"

definition freeze_claim :: "evidence_doc \<Rightarrow> string \<Rightarrow> string \<Rightarrow> json" where
  "freeze_claim ev lock_dir admin =
     (let last_run = dc_selftest ev in
      claim_json ''freeze-surface:readable'' (prove_probe (admin @ '' selftest freeze --json''))
        (case (se_status last_run, se_at last_run) of
           (Some s, Some t) \<Rightarrow> JStr (''freeze self-test status='' @ s @ '' at '' @ t)
         | _ \<Rightarrow> JNull)
        freeze_ttl
        (JObj [(''lock_dir'', JStr lock_dir),
          (''last_selftest'', JObj [(''status'', json_opt (se_status last_run)), (''at'', json_opt (se_at last_run)),
             (''detail'', json_opt (se_detail last_run))]),
          (''exit_codes'', JObj (map (\<lambda>s. (status_value s, JInt (selftest_exit s))) [StOk, StFailed, StDegraded]
             @ [(''config_error'', JInt exit_unprovable)]))]))"

definition log_grammar_claim :: "bool list \<Rightarrow> string \<Rightarrow> string + json" where
  "log_grammar_claim handlers admin = map_sum id (\<lambda>detail.
     claim_json (''log-grammar:'' @ line_class)
       (prove_probe (admin @ '' probe log-grammar '' @ line_class @ '' --json''))
       (JStr (''journal:'' @ journal_id)) log_grammar_ttl detail) (manifest_detail handlers)"

definition sink_scalars :: "sink \<Rightarrow> (string \<times> json) list" where
  "sink_scalars s = [(''accepted'', JInt (sk_accepted s)), (''rejected'', JInt (sk_rejected s)),
     (''woke'', JInt (sk_woke s)), (''ignored'', JInt (sk_ignored s)),
     (''last_accepted_at'', json_opt (sk_last_accepted_at s)), (''last_rejected_at'', json_opt (sk_last_rejected_at s)),
     (''last_reject_reason'', json_opt (sk_last_reject_reason s))]"

definition delivery_sink_claim :: "string \<Rightarrow> sink option \<Rightarrow> string option \<Rightarrow> bool \<Rightarrow> json" where
  "delivery_sink_claim route found path syn =
     (let s = (case found of None \<Rightarrow> empty_sink | Some s \<Rightarrow> s) in
      claim_json (''delivery-sink:'' @ route)
        (prove_evidence (pointer path (''delivery_sinks.'' @ route) ''last_accepted_at''))
        (if_proven (sk_last_accepted_at s) (\<lambda>t. str_int (sk_accepted s) @ '' delivery(s) verified, last at '' @ t
           @ (if syn then '' (synthetic '' @ em_dash @ '' the router's own probe injection point)'' else [])))
        delivery_sink_ttl
        (JObj ([(''route'', JStr route), (''synthetic'', JBool syn)] @ sink_scalars s)))"

definition box_manifest :: "config \<Rightarrow> 'r registry \<Rightarrow> evidence_doc \<Rightarrow> string \<Rightarrow> string \<Rightarrow> string option \<Rightarrow> string
    \<Rightarrow> bool list \<Rightarrow> string + json" where
  "box_manifest c reg ev lock_dir host path admin handlers =
     map_sum id (\<lambda>grammar. manifest (''box:'' @ host)
       ([freeze_claim ev lock_dir admin, grammar]
        @ map (\<lambda>r. delivery_sink_claim r (map_of (dc_sinks ev) r) path (r \<in> set (synthetic_route_names reg)))
            (sort (cf_enabled c)))) (log_grammar_claim handlers admin)"

subsection \<open>An agent\<close>

definition route_scalars :: "route_wake option \<Rightarrow> (string \<times> json) list" where
  "route_scalars p =
     (let num = (\<lambda>f. JInt (case p of None \<Rightarrow> 0 | Some w \<Rightarrow> f w));
          str = (\<lambda>f. case p of None \<Rightarrow> JNull | Some w \<Rightarrow> json_opt (f w))
      in [(''ok'', num rw_ok), (''failed'', num rw_failed), (''refused'', num rw_refused), (''deduped'', num rw_deduped),
          (''last_ok_at'', str rw_last_ok_at), (''last_ok_delivery'', str rw_last_ok_delivery),
          (''last_failed_at'', str rw_last_failed_at), (''last_failed_reason'', str rw_last_failed_reason),
          (''last_refused_at'', str rw_last_refused_at), (''last_refused_reason'', str rw_last_refused_reason),
          (''last_deduped_at'', str rw_last_deduped_at)])"

definition wake_scalars :: "agent_wake \<Rightarrow> (string \<times> json) list" where
  "wake_scalars w =
     [(''ok'', JInt (aw_ok w)), (''failed'', JInt (aw_failed w)), (''refused'', JInt (aw_refused w)),
      (''deduped'', JInt (aw_deduped w)), (''queued'', JInt (aw_queued w)),
      (''last_ok_at'', json_opt (aw_last_ok_at w)), (''last_ok_delivery'', json_opt (aw_last_ok_delivery w)),
      (''last_ok_route'', json_opt (aw_last_ok_route w)), (''last_ok_synthetic'', json_bool_opt (aw_last_ok_synthetic w)),
      (''last_failed_at'', json_opt (aw_last_failed_at w)), (''last_failed_reason'', json_opt (aw_last_failed_reason w)),
      (''last_failed_route'', json_opt (aw_last_failed_route w)),
      (''last_failed_synthetic'', json_bool_opt (aw_last_failed_synthetic w)),
      (''last_refused_at'', json_opt (aw_last_refused_at w)),
      (''last_refused_reason'', json_opt (aw_last_refused_reason w)),
      (''last_refused_route'', json_opt (aw_last_refused_route w)),
      (''last_refused_synthetic'', json_bool_opt (aw_last_refused_synthetic w)),
      (''last_deduped_at'', json_opt (aw_last_deduped_at w)), (''last_deduped_route'', json_opt (aw_last_deduped_route w)),
      (''last_deduped_synthetic'', json_bool_opt (aw_last_deduped_synthetic w)),
      (''by_route'', JObj (map (\<lambda>(r, p). (r, JObj (route_scalars (Some p)))) (sort_key fst (aw_by_route w))))]"

text \<open>The enabled, registered routes that can reach the agent, real or synthetic.\<close>

definition armed_routes :: "agent \<Rightarrow> config \<Rightarrow> 'r registry \<Rightarrow> bool \<Rightarrow> 'r route list" where
  "armed_routes a c reg syn = filter (\<lambda>rt. rt_synthetic rt = syn \<and> rt_name rt \<in> set (cf_enabled c)
     \<and> rt_kind rt \<in> set (resolvable_by c a)) (sorted_routes reg)"

text \<open>An edge: a webhook route by name and kind with its row, or the queue with its length.\<close>

datatype edge = RouteEdge string string "route_wake option" | QueueEdge int

definition edges_of :: "agent \<Rightarrow> config \<Rightarrow> 'r registry \<Rightarrow> agent_wake \<Rightarrow> edge list" where
  "edges_of a c reg w =
     map (\<lambda>rt. RouteEdge (rt_name rt) (rt_kind rt) (map_of (aw_by_route w) (rt_name rt))) (armed_routes a c reg False)
     @ (if aw_queued w > 0 then [QueueEdge (aw_queued w)] else [])"

definition edge_json :: "edge \<Rightarrow> json" where
  "edge_json e = (case e of
     RouteEdge name kind p \<Rightarrow> JObj ([(''kind'', JStr ''webhook-route''), (''source'', JStr name),
       (''resolves_by'', JStr kind)] @ route_scalars p)
   | QueueEdge n \<Rightarrow> JObj [(''kind'', JStr ''queued-wake''), (''pending'', JInt n)])"

text \<open>\<open>s or None\<close>.\<close>

definition or_null :: "string \<Rightarrow> json" where
  "or_null s = (if s = [] then JNull else JStr s)"

definition wake_lock_detail :: "lock_env \<Rightarrow> string \<Rightarrow> int \<Rightarrow> agent \<Rightarrow> string + json" where
  "wake_lock_detail env lock_dir now a = map_sum id (\<lambda>d. JObj
     [(''state'', JStr (lock_state_value (ld_state d))), (''path'', JStr (path_for lock_dir (harness_key a))),
      (''expires_at'', or_null (ld_expires_at d)), (''lock_reason'', or_null (ld_lock_reason d)),
      (''would_wake'', JBool (should_wake d)), (''detail'', or_null (ld_reason d))])
     (inspect env lock_dir now (harness_key a))"

definition wake_edge_claim :: "agent \<Rightarrow> agent_wake \<Rightarrow> edge list \<Rightarrow> json \<Rightarrow> string option \<Rightarrow> json" where
  "wake_edge_claim a w edges lock path =
     claim_json ''wake-edge:webhook-route''
       (prove_evidence (pointer path (''agent_wakes.'' @ harness_key a) ''last_ok_at''))
       (if_proven (aw_last_ok_at w) (\<lambda>t. ''stage=wake outcome=ok at '' @ t @ '' delivery='' @ opt_text (aw_last_ok_delivery w)
          @ (case aw_last_ok_route w of None \<Rightarrow> [] | Some r \<Rightarrow> if r = [] then [] else '' route='' @ r)))
       wake_edge_ttl
       (JObj ([(''registry_key'', JStr (ag_key a)), (''harness_key'', JStr (harness_key a)),
          (''os_user'', JStr (ag_os_user a)), (''edges'', JList (map edge_json edges)),
          (''edge_count'', JInt (int (length edges))), (''wake_lock'', lock)] @ wake_scalars w))"

definition row_pointer :: "string option \<Rightarrow> agent \<Rightarrow> string \<Rightarrow> json" where
  "row_pointer path a route =
     prove_evidence (pointer path (''agent_wakes.'' @ harness_key a @ ''.by_route.'' @ route) ''last_ok_at'')"

definition proven_at :: "route_wake option \<Rightarrow> string option" where
  "proven_at p = Option.bind p rw_last_ok_at"

definition route_wake_edge_claim :: "agent \<Rightarrow> agent_wake \<Rightarrow> string \<Rightarrow> string \<Rightarrow> string option \<Rightarrow> json" where
  "route_wake_edge_claim a w route kind path =
     (let p = map_of (aw_by_route w) route in
      claim_json (''wake-edge:webhook-route:'' @ route) (row_pointer path a route)
        (if_proven (proven_at p) (\<lambda>t. ''stage=wake outcome=ok at '' @ t @ '' delivery=''
           @ opt_text (Option.bind p rw_last_ok_delivery) @ '' route='' @ route))
        wake_edge_ttl
        (JObj ([(''harness_key'', JStr (harness_key a)), (''route'', JStr route), (''resolves_by'', JStr kind)]
           @ route_scalars p)))"

definition probe_proves :: "string list" where
  "probe_proves = [''http_accept'', ''signature_verify'', ''normalize'', ''resolve'', ''agent_lock'', ''delivery_dedup'',
     ''noc_wake_lock'', ''wake_rate_breaker'', ''sudo_wake_runner'', ''registry_pin'', ''privilege_drop'',
     ''agent_env_loaded'', ''clone_cwd'', ''probe_secret_match'']"

definition would_exec :: "agent \<Rightarrow> string" where
  "would_exec a = (if ag_wake_kind a = Harness then opt_text (ag_wake_bin a) else ''claude'')"

definition synthetic_claim :: "agent \<Rightarrow> agent_wake \<Rightarrow> 'r route \<Rightarrow> string option \<Rightarrow> json" where
  "synthetic_claim a w rt path =
     (let p = map_of (aw_by_route w) (rt_name rt) in
      claim_json (''wake-edge:synthetic:'' @ rt_name rt) (row_pointer path a (rt_name rt))
        (if_proven (proven_at p) (\<lambda>t. ''synthetic wake acked at '' @ t @ '' delivery=''
           @ opt_text (Option.bind p rw_last_ok_delivery) @ '' route='' @ rt_name rt))
        wake_edge_ttl
        (JObj ([(''harness_key'', JStr (harness_key a)), (''route'', JStr (rt_name rt)),
           (''resolves_by'', JStr (rt_kind rt)), (''synthetic'', JBool True),
           (''proves'', JList (map JStr probe_proves)), (''stops_before'', JStr (''exec '' @ would_exec a))]
           @ route_scalars p)))"

definition agent_manifest :: "agent \<Rightarrow> config \<Rightarrow> 'r registry \<Rightarrow> evidence_doc \<Rightarrow> lock_env \<Rightarrow> string \<Rightarrow> int
    \<Rightarrow> string option \<Rightarrow> string + json" where
  "agent_manifest a c reg ev lenv lock_dir now path =
     (let w = entry empty_agent_wake (harness_key a) (dc_wakes ev); edges = edges_of a c reg w in
      map_sum id (\<lambda>lock. manifest (''agent:'' @ harness_key a)
        ([wake_edge_claim a w edges lock path]
         @ concat (map (\<lambda>e. case e of RouteEdge name kind p \<Rightarrow> [route_wake_edge_claim a w name kind path]
                                    | QueueEdge n \<Rightarrow> []) edges)
         @ map (\<lambda>rt. synthetic_claim a w rt path) (armed_routes a c reg True)))
        (wake_lock_detail lenv lock_dir now a))"

subsection \<open>All of them\<close>

fun agent_manifests :: "(nat \<Rightarrow> int) \<Rightarrow> nat \<Rightarrow> (agent \<Rightarrow> int \<Rightarrow> string + json) \<Rightarrow> agent list \<Rightarrow> string + json list" where
  "agent_manifests now i f [] = Inr []"
| "agent_manifests now i f (a # as) =
     (case f a (now i) of Inl e \<Rightarrow> Inl e
      | Inr m \<Rightarrow> map_sum id (\<lambda>ms. m # ms) (agent_manifests now (Suc i) f as))"

definition build_manifests :: "config \<Rightarrow> 'r registry \<Rightarrow> evidence_doc \<Rightarrow> lock_env \<Rightarrow> string \<Rightarrow> (nat \<Rightarrow> int)
    \<Rightarrow> string option \<Rightarrow> string \<Rightarrow> string option \<Rightarrow> string \<Rightarrow> bool list \<Rightarrow> string + json list" where
  "build_manifests c reg ev lenv lock_dir now host hostname path admin handlers =
     (case box_manifest c reg ev lock_dir (or_else host hostname) path admin handlers of
        Inl e \<Rightarrow> Inl e
      | Inr box \<Rightarrow> map_sum id (\<lambda>ms. box # ms)
          (agent_manifests now 0 (\<lambda>a t. agent_manifest a c reg ev lenv lock_dir t path)
             (sort_key harness_key (unique_agents c))))"

text \<open>\<open>[^A-Za-z0-9._-]+\<close> replaced by a dash.\<close>

definition filename_char :: "char \<Rightarrow> bool" where
  "filename_char c = (is_alnum_ascii c \<or> c \<in> {CHR ''.'', CHR ''_'', CHR ''-''})"

fun collapse_unsafe :: "string \<Rightarrow> string" where
  "collapse_unsafe [] = []"
| "collapse_unsafe (c # s) =
     (if filename_char c then c # collapse_unsafe s
      else (case s of
              [] \<Rightarrow> ''-''
            | d # _ \<Rightarrow> if filename_char d then CHR ''-'' # collapse_unsafe s else collapse_unsafe s))"

definition manifest_filename :: "json \<Rightarrow> string + string" where
  "manifest_filename m =
     (let subject = (case m of JObj f \<Rightarrow> (case map_of f ''subject'' of Some (JStr s) \<Rightarrow> s | _ \<Rightarrow> []) | _ \<Rightarrow> []);
          kind = takeWhile (\<lambda>c. c \<noteq> CHR '':'') subject;
          name = drop (Suc (length kind)) subject
      in if kind = ''agent'' \<and> name \<noteq> [] then Inr (component @ ''@'' @ collapse_unsafe name @ ''.json'')
         else if kind = ''box'' \<and> name \<noteq> [] then Inr (component @ ''.json'')
         else Inl (''no contract filename for claim subject '' @ py_repr subject))"

end
