(* ===== verification/Cli.thy ===== *)
theory Cli
  imports App Claims
begin

text \<open>
  \<open>__main__.py\<close>: the admin CLI after the arguments are parsed. A command is its parsed
  arguments; what a command reads from outside is one record of parameters; the answer is
  what it prints, the files it writes, and its exit code. Lines of a logger are not output
  of the CLI. Fuel is the probe's.
\<close>

datatype command =
    CmdClaims "string option" "string option"
  | CmdFreeze bool
  | CmdProbeWake string bool pyfloat
  | CmdLogGrammar string bool
  | CmdEvidence

datatype open_answer = Opened | IsLink | OpenFailed string

datatype cli_exn = ConfigErr string | WriteErr string | Uncaught string

record 'w cli_env =
  ce_deps :: "'w app_deps"
  ce_msg :: "load_error \<Rightarrow> string"
  ce_disk :: "nat \<Rightarrow> disk_read"
  ce_hostname :: string
  ce_now :: "nat \<Rightarrow> int"
  ce_stamp :: string
  ce_process :: process
  ce_listing :: dir_listing
  ce_stdin :: string
  ce_post :: "string \<Rightarrow> string \<Rightarrow> (string \<times> string) list \<Rightarrow> probe_exn + injection"
  ce_clock :: "nat \<Rightarrow> rat"
  ce_mint :: string
  ce_handlers :: "bool list"
  ce_asctime :: string
  ce_cat :: "string list \<Rightarrow> string \<Rightarrow> cat_answer"
  ce_dumps :: "json \<Rightarrow> string"
  ce_dir_is_link :: "string \<Rightarrow> bool"
  ce_makedirs :: "string \<Rightarrow> string option"
  ce_open :: "string \<Rightarrow> open_answer"

record cli_output =
  co_out :: "string list"
  co_err :: "string list"
  co_files :: "(string \<times> string) list"

definition no_output :: cli_output where
  "no_output = \<lparr>co_out = [], co_err = [], co_files = []\<rparr>"

definition prints :: "string list \<Rightarrow> cli_output" where
  "prints ls = \<lparr>co_out = ls, co_err = [], co_files = []\<rparr>"

definition exit_config_error :: int where "exit_config_error = exit_unprovable"

text \<open>A \<open>ConfigError\<close> is caught by \<open>main\<close>; a failing read or a \<open>ValueError\<close> is not.\<close>

definition load_exn :: "(load_error \<Rightarrow> string) \<Rightarrow> load_error \<Rightarrow> cli_exn" where
  "load_exn msg e = (case e of OtherException x \<Rightarrow> Uncaught x | _ \<Rightarrow> ConfigErr (msg e))"

definition app_exn :: "(load_error \<Rightarrow> string) \<Rightarrow> app_error \<Rightarrow> cli_exn" where
  "app_exn msg e = (case e of AppConfig l \<Rightarrow> load_exn msg l | AppRefused m \<Rightarrow> ConfigErr m | AppValue m \<Rightarrow> Uncaught m)"

definition cli_config :: "'w cli_env \<Rightarrow> cli_exn + config" where
  "cli_config ce = map_sum (load_exn (ce_msg ce)) id
     (load_config (ad_read (ce_deps ce)) (ad_loads (ce_deps ce)) (map_of (ad_env (ce_deps ce))))"

definition cli_path :: "'w cli_env \<Rightarrow> string option" where
  "cli_path ce = load_evidence_path (map_of (ad_env (ce_deps ce)))"

definition cli_lock_dir :: "'w cli_env \<Rightarrow> string" where
  "cli_lock_dir ce = load_wake_lock_dir (map_of (ad_env (ce_deps ce)))"

subsection \<open>claims\<close>

definition join_path :: "string \<Rightarrow> string \<Rightarrow> string" where
  "join_path d f = (if d = [] \<or> last d = CHR 0x2F then d @ f else d @ CHR 0x2F # f)"

fun write_each :: "'w cli_env \<Rightarrow> string \<Rightarrow> json list \<Rightarrow> cli_exn option \<times> cli_output" where
  "write_each ce dir [] = (None, no_output)"
| "write_each ce dir (m # ms) =
     (case manifest_filename m of
        Inl e \<Rightarrow> (Some (Uncaught e), no_output)
      | Inr f \<Rightarrow>
          (let path = join_path dir f in
           case ce_open ce path of
             IsLink \<Rightarrow> (Some (WriteErr (''refusing to write '' @ path @ '': it is a symlink'')), no_output)
           | OpenFailed e \<Rightarrow> (Some (WriteErr (''could not write '' @ path @ '': '' @ e)), no_output)
           | Opened \<Rightarrow>
               (let (r, rest) = write_each ce dir ms
                in (r, \<lparr>co_out = path # co_out rest, co_err = co_err rest,
                        co_files = (path, ce_dumps ce m @ [CHR 0x0A]) # co_files rest\<rparr>))))"

definition write_manifests :: "'w cli_env \<Rightarrow> string \<Rightarrow> json list \<Rightarrow> cli_exn option \<times> cli_output" where
  "write_manifests ce dir ms =
     (if ce_dir_is_link ce dir
      then (Some (WriteErr (''refusing to write manifests into '' @ dir @ '': it is a symlink'')), no_output)
      else (case ce_makedirs ce dir of Some e \<Rightarrow> (Some (Uncaught e), no_output) | None \<Rightarrow> write_each ce dir ms))"

definition cmd_claims :: "'w cli_env \<Rightarrow> string option \<Rightarrow> string option \<Rightarrow> (cli_exn + int) \<times> cli_output" where
  "cmd_claims ce out_dir host =
     (case cli_config ce of Inl e \<Rightarrow> (Inl e, no_output) | Inr c \<Rightarrow>
      (case build_registry (ce_deps ce) c of Inl e \<Rightarrow> (Inl (app_exn (ce_msg ce) e), no_output) | Inr reg \<Rightarrow>
       (case read_evidence (cli_path ce) (ce_disk ce 0) of
          None \<Rightarrow> (Inl (Uncaught ''the evidence document raised''), no_output)
        | Some (ev, _) \<Rightarrow>
          (case build_manifests c reg ev (ad_lock_env (ce_deps ce)) (cli_lock_dir ce) (ce_now ce) host (ce_hostname ce)
                  (cli_path ce) (load_admin_cmd (map_of (ad_env (ce_deps ce)))) (ce_handlers ce) of
             Inl e \<Rightarrow> (Inl (Uncaught e), no_output)
           | Inr ms \<Rightarrow>
               (if or_else out_dir [] = [] then (Inr 0, prints [ce_dumps ce (JList ms)])
                else (case write_manifests ce (or_else out_dir []) ms of
                        (None, o') \<Rightarrow> (Inr 0, o') | (Some e, o') \<Rightarrow> (Inl e, o')))))))"

subsection \<open>selftest freeze\<close>

definition cmd_selftest_freeze :: "'w cli_env \<Rightarrow> bool \<Rightarrow> (cli_exn + int) \<times> cli_output" where
  "cmd_selftest_freeze ce as_json =
     (case cli_config ce of Inl e \<Rightarrow> (Inl e, no_output) | Inr c \<Rightarrow>
      (case run_freeze_selftest (ce_process ce) (ad_lock_env (ce_deps ce)) (cli_lock_dir ce) (ce_listing ce)
              (ce_now ce) (ce_stamp ce) (remdups (map (harness_key \<circ> snd) (cf_agents c))) of
         Inl e \<Rightarrow> (Inl (Uncaught e), no_output)
       | Inr t \<Rightarrow>
           (Inr (selftest_exit (ft_status t)),
            \<lparr>co_out = (if as_json then [ce_dumps ce (selftest_result_json t)]
               else [''freeze-readability: '' @ status_value (ft_status t) @ '' (lock_dir='' @ ft_lock_dir t @ '')'',
                     ''  ran as: '' @ ft_ran_as t]
                    @ map (\<lambda>k. ''  ['' @ status_value (fc_status k) @ ''] '' @ fc_target k @ '': '' @ fc_state k
                        @ '' '' @ em_dash @ '' '' @ fc_detail k) (ft_checks t)),
             co_err = (if ft_status t \<noteq> StOk
               then [''freeze-readability: '' @ status_value (ft_status t) @ '' (lock_dir='' @ ft_lock_dir t
                 @ '' ran_as='' @ ft_ran_as t @ ''): '' @ selftest_summary t] else []),
             co_files = []\<rparr>)))"

subsection \<open>probe wake\<close>

definition cli_probe_env :: "'w cli_env \<Rightarrow> string \<Rightarrow> pyfloat \<Rightarrow> probe_env" where
  "cli_probe_env ce key timeout = \<lparr>pv_hexdigest = ad_hexdigest (ce_deps ce), pv_secret = Secret key,
     pv_path = cli_path ce, pv_self_url = load_self_url (map_of (ad_env (ce_deps ce))), pv_route = ''probe'',
     pv_timeout = timeout, pv_post = ce_post ce, pv_disk = ce_disk ce, pv_clock = ce_clock ce,
     pv_mint = ce_mint ce, pv_now = ce_stamp ce\<rparr>"

definition probe_text :: "probe_result \<Rightarrow> string list" where
  "probe_text r =
     [''synthetic-wake: '' @ verdict_value (pb_status r) @ '' (agent='' @ pb_harness_key r @ '' route='' @ pb_route r @ '')'',
      ''  delivery: '' @ pb_delivery_id r @ '' nonce='' @ opt_text (pb_nonce r),
      ''  injected: HTTP '' @ str_int (in_status (pb_injection r)) @ '' ('' @ inj_terminal (pb_injection r) @ '')'',
      ''  before:   agent last_ok_at='' @ opt_text (wp_last_ok_at (pb_before r)),
      ''  after:    agent last_ok_at='' @ opt_text (wp_last_ok_at (pb_after r)),
      ''  '' @ pb_detail r]"

definition cmd_probe_wake :: "'w cli_env \<Rightarrow> nat \<Rightarrow> string \<Rightarrow> bool \<Rightarrow> pyfloat \<Rightarrow> ((cli_exn + int) \<times> cli_output) option" where
  "cmd_probe_wake ce fuel hk as_json timeout =
     (case cli_config ce of Inl e \<Rightarrow> Some (Inl e, no_output) | Inr c \<Rightarrow>
      (case webhook_secret c ''probe'' of Inl e \<Rightarrow> Some (Inl (ConfigErr e), no_output) | Inr key \<Rightarrow>
       (case run_probe (cli_probe_env ce key timeout) fuel hk (py_strip (ce_stdin ce)) of
          None \<Rightarrow> None
        | Some (Inl (ProbeError e), _) \<Rightarrow> Some (Inr exit_unprovable,
            no_output\<lparr>co_err := [''synthetic-wake: unprovable: '' @ e]\<rparr>)
        | Some (Inl (ProbeRaised e), _) \<Rightarrow> Some (Inl (Uncaught e), no_output)
        | Some (Inr r, _) \<Rightarrow> Some (Inr (verdict_exit (pb_status r)),
            \<lparr>co_out = (if as_json then [ce_dumps ce (probe_result_json r)] else probe_text r),
             co_err = (if pb_status r \<noteq> Proven
               then [''synthetic-wake: '' @ verdict_value (pb_status r) @ '': '' @ probe_summary r] else []),
             co_files = []\<rparr>))))"

subsection \<open>probe log-grammar and evidence\<close>

definition cmd_probe_log_grammar :: "'w cli_env \<Rightarrow> string \<Rightarrow> bool \<Rightarrow> (cli_exn + int) \<times> cli_output" where
  "cmd_probe_log_grammar ce asked as_json =
     (if asked \<noteq> line_class
      then (Inr exit_unprovable, no_output\<lparr>co_err := [''log-grammar: unprovable: this component states no grammar for ''
        @ py_repr asked @ '' (it declares '' @ py_repr line_class @ '')'']\<rparr>)
      else (case fst (run_grammar (ce_handlers ce) (ce_asctime ce) (ce_stamp ce) (write_to_journal (ce_cat ce))) of
        Inl e \<Rightarrow> (Inr exit_unprovable, no_output\<lparr>co_err := [''log-grammar: unprovable: '' @ e]\<rparr>)
      | Inr r \<Rightarrow> (Inr (verdict_exit (gr_status r)),
          \<lparr>co_out = (if as_json then [ce_dumps ce (grammar_result_json r)]
             else [''log-grammar: '' @ verdict_value (gr_status r) @ '' ('' @ gr_line_class r @ '' -> '' @ gr_identifier r @ '')'',
                   ''  grammar:  '' @ gr_grammar r, ''  rendered: '' @ gr_rendered r, ''  '' @ gr_detail r]),
           co_err = (if gr_status r \<noteq> Proven
             then [''log-grammar: '' @ verdict_value (gr_status r) @ '': '' @ grammar_summary r] else []),
           co_files = []\<rparr>)))"

definition cmd_evidence :: "'w cli_env \<Rightarrow> (cli_exn + int) \<times> cli_output" where
  "cmd_evidence ce =
     (case read_evidence (cli_path ce) (ce_disk ce 0) of
        None \<Rightarrow> (Inl (Uncaught ''the evidence document raised''), no_output)
      | Some (d, _) \<Rightarrow> (Inr 0, prints [ce_dumps ce (doc_to_json d)]))"

subsection \<open>main\<close>

definition handler :: "'w cli_env \<Rightarrow> nat \<Rightarrow> command \<Rightarrow> ((cli_exn + int) \<times> cli_output) option" where
  "handler ce fuel cmd = (case cmd of
     CmdClaims out_dir host \<Rightarrow> Some (cmd_claims ce out_dir host)
   | CmdFreeze as_json \<Rightarrow> Some (cmd_selftest_freeze ce as_json)
   | CmdProbeWake hk as_json timeout \<Rightarrow> cmd_probe_wake ce fuel hk as_json timeout
   | CmdLogGrammar cls as_json \<Rightarrow> Some (cmd_probe_log_grammar ce cls as_json)
   | CmdEvidence \<Rightarrow> Some (cmd_evidence ce))"

text \<open>An exception that leaves \<open>main\<close> is a traceback on stderr and the interpreter's exit code 1.\<close>

definition main :: "'w cli_env \<Rightarrow> nat \<Rightarrow> command \<Rightarrow> (int \<times> cli_output) option" where
  "main ce fuel cmd = map_option (\<lambda>(r, out). case r of
     Inr code \<Rightarrow> (code, out)
   | Inl (ConfigErr m) \<Rightarrow> (exit_config_error, out\<lparr>co_err := co_err out @ [''configuration error: '' @ m]\<rparr>)
   | Inl (WriteErr m) \<Rightarrow> (1, out\<lparr>co_err := co_err out @ [''claims: '' @ m]\<rparr>)
   | Inl (Uncaught m) \<Rightarrow> (1, out\<lparr>co_err := co_err out @ [''Traceback: '' @ m]\<rparr>)) (handler ce fuel cmd)"

subsection \<open>Exit codes\<close>

lemma exit_zero: "selftest_exit s = 0 \<longleftrightarrow> s = StOk" "verdict_exit v = 0 \<longleftrightarrow> v = Proven"
  by (cases s; simp add: selftest_exit_def exit_unprovable_def) (cases v; simp add: verdict_exit_def exit_unprovable_def)

lemma exit_nonzero [simp]: "exit_unprovable \<noteq> 0" "exit_config_error \<noteq> 0"
  by (simp_all add: exit_unprovable_def exit_config_error_def)

text \<open>
  C34. Exit code 0 means proven. A self-test or probe command exits 0 exactly when its
  configuration loaded and its own verdict was the passing one; and whenever any command
  exits with another code it has said why on stderr.
\<close>

theorem cli_exit_contract:
  assumes "main ce fuel cmd = Some (code, out)"
  shows "(code \<noteq> 0 \<longrightarrow> co_err out \<noteq> [])
    \<and> (case cmd of
         CmdFreeze j \<Rightarrow> code = 0 \<longleftrightarrow> (\<exists>c t. cli_config ce = Inr c \<and> ft_status t = StOk
           \<and> run_freeze_selftest (ce_process ce) (ad_lock_env (ce_deps ce)) (cli_lock_dir ce) (ce_listing ce)
               (ce_now ce) (ce_stamp ce) (remdups (map (harness_key \<circ> snd) (cf_agents c))) = Inr t)
       | CmdProbeWake hk j timeout \<Rightarrow> code = 0 \<longleftrightarrow> (\<exists>c key r ls. cli_config ce = Inr c \<and> webhook_secret c ''probe'' = Inr key
           \<and> run_probe (cli_probe_env ce key timeout) fuel hk (py_strip (ce_stdin ce)) = Some (Inr r, ls)
           \<and> pb_status r = Proven)
       | CmdLogGrammar cls j \<Rightarrow> code = 0 \<longleftrightarrow> cls = line_class \<and> (\<exists>r. gr_status r = Proven
           \<and> fst (run_grammar (ce_handlers ce) (ce_asctime ce) (ce_stamp ce) (write_to_journal (ce_cat ce))) = Inr r)
       | _ \<Rightarrow> True)"
proof -
  obtain r out' where h: "handler ce fuel cmd = Some (r, out')"
    and m: "(code, out) = (case r of Inr code \<Rightarrow> (code, out')
     | Inl (ConfigErr m) \<Rightarrow> (exit_config_error, out'\<lparr>co_err := co_err out' @ [''configuration error: '' @ m]\<rparr>)
     | Inl (WriteErr m) \<Rightarrow> (1, out'\<lparr>co_err := co_err out' @ [''claims: '' @ m]\<rparr>)
     | Inl (Uncaught m) \<Rightarrow> (1, out'\<lparr>co_err := co_err out' @ [''Traceback: '' @ m]\<rparr>))"
    using assms by (auto simp: main_def)
  have z: "code = 0 \<longleftrightarrow> r = Inr 0"
    using m by (auto split: sum.splits cli_exn.splits)
  have o: "code \<noteq> 0 \<Longrightarrow> (\<And>n. r = Inr n \<Longrightarrow> n \<noteq> 0 \<Longrightarrow> co_err out' \<noteq> []) \<Longrightarrow> co_err out \<noteq> []"
    using m by (auto split: sum.splits cli_exn.splits)
  show ?thesis
  proof (cases cmd)
    case (CmdClaims d hs)
    have "r = Inr n \<Longrightarrow> n = 0" for n
      using h CmdClaims by (auto simp: handler_def cmd_claims_def split: sum.splits option.splits prod.splits if_splits)
    with o CmdClaims show ?thesis by auto
  next
    case (CmdFreeze j)
    show ?thesis
      using h o z by (auto simp: CmdFreeze handler_def cmd_selftest_freeze_def exit_zero split: sum.splits)
  next
    case (CmdProbeWake hk j timeout)
    show ?thesis
      using h o z by (auto simp: CmdProbeWake handler_def cmd_probe_wake_def exit_zero no_output_def
          split: sum.splits option.splits probe_exn.splits)
  next
    case (CmdLogGrammar cls j)
    show ?thesis
      using h o z by (auto simp: CmdLogGrammar handler_def cmd_probe_log_grammar_def exit_zero no_output_def
          split: sum.splits if_splits)
  next
    case CmdEvidence
    have "r = Inr n \<Longrightarrow> n = 0" for n
      using h CmdEvidence by (auto simp: handler_def cmd_evidence_def split: option.splits prod.splits)
    with o CmdEvidence show ?thesis by auto
  qed
qed

end
