(* ===== verification/App_Witness.thy ===== *)
theory App_Witness
  imports Cli
begin

text \<open>
  A small deployment, used to apply the composition root's and the server's theorems: one
  agent, the probe route alone, a constant digest function, and a parser of two documents.
\<close>

definition demo_app_env :: "(string \<times> string) list" where
  "demo_app_env = [(''BASECRADLE_ROUTER_AGENTS'', ''/a''), (''BASECRADLE_ROUTER_ENABLED_ROUTES'', ''probe''),
     (''BASECRADLE_ROUTER_PROBE_WEBHOOK_SECRET'', ''s''), (''BASECRADLE_ROUTER_EVIDENCE_FILE'', ''none'')]"

definition demo_app_deps :: "nat app_deps" where
  "demo_app_deps = \<lparr>ad_env = demo_app_env, ad_read = Contents,
     ad_loads = (\<lambda>t. if t = ''/a'' then demo_loads t else demo_probe_loads t),
     ad_iso = (\<lambda>_. IsoInvalid), ad_hexdigest = (\<lambda>_ _. ''abcd''), ad_parse_int = (\<lambda>_. None),
     ad_parse_float = (\<lambda>_. None), ad_exec = (\<lambda>_ n. (Ran \<lparr>wr_exit = 0, wr_stdout = [], wr_stderr = []\<rparr>, Suc n)),
     ad_lock_env = demo_no_lock, ad_instant = (\<lambda>_. ''t''), ad_ev = \<lparr>ee_iso = (\<lambda>_. ''t''), ee_write = (\<lambda>_. None)\<rparr>,
     ad_disk = DiskMissing, ad_orphans = [], ad_mono = of_nat, ad_wall = int, ad_warm = \<lparr>wm_clock = of_nat, wm_issues = (\<lambda>_ _ n. (Inr [], n)), wm_pulls = (\<lambda>_ _ n. (Inr [], n)), wm_deadline = 20,
       wm_fmt_g = (\<lambda>_. ''20'')\<rparr>\<rparr>"

lemma demo_app_starts: "(case create_app demo_app_deps 0 of Inr _ \<Rightarrow> True | Inl _ \<Rightarrow> False)"
  by code_simp

theorem create_app_serves_witness:
  "\<exists>env sv. create_app demo_app_deps 0 = Inr (env, sv) \<and> registry_distinct (pe_registry env)
     \<and> (\<exists>k\<ge>1. sv_sched sv = init_sched k) \<and> 1 \<le> pe_attempts env"
proof -
  obtain env sv where c: "create_app demo_app_deps 0 = Inr (env, sv)"
    using demo_app_starts by (auto split: sum.splits prod.splits)
  with create_app_serves[OF c] show ?thesis by blast
qed


text \<open>The same route over a fixed registry of one agent: a signed probe delivery is queued.\<close>

definition demo_server_env :: "(nat, unit) penv" where
  "demo_server_env = (demo_penv demo_no_lock)\<lparr>
     pe_registry := [(''probe'', probe_route (\<lambda>_ _. ''abcd'') demo_probe_loads)],
     pe_config := empty_config\<lparr>cf_by_harness := [(''jt'', demo_agent)], cf_secrets := (\<lambda>_. Some ''s'')\<rparr>\<rparr>"

definition demo_scope :: http_scope where
  "demo_scope = \<lparr>sc_type = ''http'', sc_method = ''POST'', sc_path = ''/webhooks/probe'',
     sc_headers = [(pr_signature_header, hmac_prefix @ ''abcd''), (pr_delivery_header, ''p1'')],
     sc_messages = [HttpRequest ''x'' False]\<rparr>"

definition demo_rq :: inbound_request where
  "demo_rq = \<lparr>rq_headers = sc_headers demo_scope, rq_body = ''x''\<rparr>"

lemma demo_delivery: "delivery_of demo_scope = Some (''probe'', demo_rq)"
  by code_simp

lemma demo_verifies: "fst (pr_verify (\<lambda>_ _. ''abcd'') demo_rq (Some ''s'')) = Verified"
  by code_simp

lemma demo_normalizes:
  "(case pr_normalize demo_probe_loads demo_rq () of
      (NormEvent ev, _, _) \<Rightarrow> ev_recipient ev = \<lparr>rec_by = ''harness_key'', rec_value = ''jt''\<rparr> | _ \<Rightarrow> False)"
  by code_simp

lemma demo_server_accepts: "fst (accept demo_server_env ''probe'' demo_rq demo_world) \<noteq> None"
proof -
  have g: "get_route (pe_registry demo_server_env) ''probe'' = Inr (probe_route (\<lambda>_ _. ''abcd'') demo_probe_loads)"
    by (simp add: demo_server_env_def get_route_def)
  have s: "route_secret demo_server_env (probe_route (\<lambda>_ _. ''abcd'') demo_probe_loads) ''probe'' = Inr (Some ''s'')"
    by (simp add: demo_server_env_def route_secret_def webhook_secret_def)
  obtain ls where v: "pr_verify (\<lambda>_ _. ''abcd'') demo_rq (Some ''s'') = (Verified, ls)"
    using demo_verifies by (metis prod.collapse)
  obtain ev st ls' where n: "pr_normalize demo_probe_loads demo_rq () = (NormEvent ev, st, ls')"
    "ev_recipient ev = \<lparr>rec_by = ''harness_key'', rec_value = ''jt''\<rparr>"
    using demo_normalizes by (auto split: prod.splits norm_result.splits)
  have r: "resolve_agent ev (pe_config demo_server_env) = Inr demo_agent"
    by (simp add: n(2) resolve_agent_def agent_for_recipient_def demo_server_env_def)
  have rt: "rt_verify (probe_route (\<lambda>_ _. ''abcd'') demo_probe_loads) = pr_verify (\<lambda>_ _. ''abcd'')"
    "rt_normalize (probe_route (\<lambda>_ _. ''abcd'') demo_probe_loads) = pr_normalize demo_probe_loads"
    by (simp_all add: probe_route_def)
  show ?thesis
    by (simp add: accept_def accept_steps_def g s r rt v n(1) Let_def split_beta)
qed

theorem webhook_answered_witness:
  "\<exists>rs sv' ag ev r.
     serve demo_server_env (\<lambda>_. ''{}'') demo_scope \<lparr>sv_world = demo_world, sv_sched = init_sched 1\<rparr> = (Some rs, sv')
     \<and> rs_status rs = 202 \<and> submit (harness_key ag) (ag, ev, r) (init_sched 1) = Some (sv_sched sv')"
proof -
  let ?sv = "\<lparr>sv_world = demo_world, sv_sched = init_sched 1\<rparr>"
  have "reachable 1 (sv_sched ?sv)" using init_reachable by simp
  from webhook_answered[OF demo_delivery this, of demo_server_env "\<lambda>_. ''{}''"] obtain rs sv' where
    s: "serve demo_server_env (\<lambda>_. ''{}'') demo_scope ?sv = (Some rs, sv')"
    and t: "rs_status rs = 202 \<Longrightarrow> \<exists>ag ev r. submit (harness_key ag) (ag, ev, r) (init_sched 1) = Some (sv_sched sv')"
    by (clarsimp split: if_split_asm) blast+
  from s demo_server_accepts have "rs_status rs = 202"
    by (auto simp: serve_delivery[OF demo_delivery] json_response_def split: prod.splits option.splits)
  with s t show ?thesis by blast
qed

text \<open>The CLI beside that deployment, with a journal that takes every line.\<close>

definition demo_cli :: "nat cli_env" where
  "demo_cli = \<lparr>ce_deps = demo_app_deps, ce_msg = (\<lambda>_. ''refused''), ce_disk = (\<lambda>_. DiskMissing), ce_hostname = ''box1'',
     ce_now = int, ce_stamp = ''t'', ce_process = demo_process, ce_listing = Listing [], ce_stdin = [],
     ce_post = (\<lambda>_ _ _. Inl (ProbeError ''refused'')), ce_clock = of_nat, ce_mint = ''d7'', ce_handlers = [],
     ce_asctime = ''now'', ce_cat = (\<lambda>_ _. CatRan 0 []), ce_dumps = (\<lambda>_. ''{}''), ce_dir_is_link = (\<lambda>_. False),
     ce_makedirs = (\<lambda>_. None), ce_open = (\<lambda>_. Opened)\<rparr>"

theorem cli_exit_contract_witness:
  "\<exists>out r. main demo_cli 0 (CmdLogGrammar line_class False) = Some (0, out)
     \<and> fst (run_grammar [] ''now'' ''t'' (write_to_journal (\<lambda>_ _. CatRan 0 []))) = Inr r \<and> gr_status r = Proven"
proof -
  have e: "ce_handlers demo_cli = []" "ce_asctime demo_cli = ''now''" "ce_stamp demo_cli = ''t''"
    "ce_cat demo_cli = (\<lambda>_ _. CatRan 0 [])" by (simp_all add: demo_cli_def)
  have w: "write_to_journal (\<lambda>_ _. CatRan 0 []) l = None" for l by (simp add: write_to_journal_def)
  obtain code out where m: "main demo_cli 0 (CmdLogGrammar line_class False) = Some (code, out)"
    by (fastforce simp: main_def handler_def)
  have "\<exists>r. fst (run_grammar [] ''now'' ''t'' (write_to_journal (\<lambda>_ _. CatRan 0 []))) = Inr r \<and> gr_status r = Proven"
    using grammar_runs[of "[]" False "''now''" "''t''" "write_to_journal (\<lambda>_ _. CatRan 0 [])"]
    by (auto simp: w Let_def grammar_result_of_def)
  then show ?thesis using cli_exit_contract[OF m] m by (auto simp: e)
qed

end
