(* ===== verification/Pipeline_Phases.thy ===== *)
theory Pipeline_Phases
  imports Pipeline_Props
begin

text \<open>
  The slow half, one step at a time: \<open>execute\<close> under its agent's lock as a sequence of
  phases, so that other agents' runs and the requests can come between them. Each phase is
  one gate, one half of a wake attempt, or one of the records that end the run. The phases
  taken in a row are \<open>execute\<close>, and each brings the end nearer.
\<close>

subsection \<open>The phases\<close>

text \<open>
  \<open>AtAttempt n\<close>: before the waker's \<open>n\<close>-th attempt; \<open>AtAnswer n\<close>: during it, with the two
  clocks read at its start; \<open>AtEnd\<close>: after the last one, with its duration and start.
\<close>

datatype phase = AtLock | AtDedup | AtCoalesce | AtRecheck | AtWakeLock | AtBreaker | AtStart
  | AtAttempt nat | AtAnswer nat int rat
  | AtEnd "(wake_result, wake_exn) retry_result" rat "int option" | AtMark

text \<open>\<open>Inl\<close>: on to the next phase. \<open>Inr\<close>: out of the locked block, with its exception if any.\<close>

type_synonym ('w, 'r) phase_end = "(phase + string option) \<times> ('w, 'r) run_state"

definition dedup_phase :: "('w, 'r) penv \<Rightarrow> agent \<Rightarrow> event \<Rightarrow> ('w, 'r) run_state \<Rightarrow> ('w, 'r) phase_end" where
  "dedup_phase env ag ev ws =
     (let (w, r) = ws;
          (now, w) = read_mono env w;
          (dup, d) = seen (pe_ttl env) now (dedup_key ev) (w_dedup w);
          w = w\<lparr>w_dedup := d\<rparr>
      in if dup
         then (let w = on_evidence (record_wake_deduped (pe_ev env) (harness_key ag) (ev_source ev) (synthetic ev)) w
               in (Inr None, record_stage SDedup OIgnored (who ag ev @ [(''reason'', VStr duplicate_delivery)]) (w, r)))
         else (Inl AtCoalesce, (w, r)))"

definition coalesce_phase :: "('w, 'r) penv \<Rightarrow> agent \<Rightarrow> event \<Rightarrow> ('w, 'r) run_state \<Rightarrow> ('w, 'r) phase_end" where
  "coalesce_phase env ag ev ws =
     (case covering (harness_key ag) ev (w_cov (fst ws)) of
        None \<Rightarrow> (Inl AtRecheck, ws)
      | Some c \<Rightarrow>
          (let (exn, ws) = gate_coalesce env ag ev ws in (Inr exn, ws)))"

definition recheck_phase :: "('w, 'r) penv \<Rightarrow> agent \<Rightarrow> event \<Rightarrow> ('w, 'r) run_state \<Rightarrow> ('w, 'r) phase_end" where
  "recheck_phase env ag ev ws =
     (case recheck env ev (fst ws) of
        Inl e \<Rightarrow> (Inr (Some e), ws)
      | Inr (Some gone) \<Rightarrow>
          (Inr None, decide_later ev DecDropped [(''reason'', VStr gone)]
                       (record_stage SRecheck OIgnored (who ag ev @ [(''reason'', VStr gone)]) ws))
      | Inr None \<Rightarrow> (Inl AtWakeLock, ws))"

definition wake_lock_phase :: "('w, 'r) penv \<Rightarrow> agent \<Rightarrow> event \<Rightarrow> ('w, 'r) run_state \<Rightarrow> ('w, 'r) phase_end" where
  "wake_lock_phase env ag ev ws =
     (let (w, r) = ws;
          (now, w) = read_wall env w
      in case check_lock (pe_lock_env env) (pe_lock_dir env) now (harness_key ag) of
           Inl e \<Rightarrow> (Inr (Some e), (w, r))
         | Inr (d, ls) \<Rightarrow>
             (let w = emit ls w in
              if \<not> should_wake d
              then (let w = on_evidence (record_wake_refused (pe_ev env) (harness_key ag) (ld_detail d)
                              (ev_source ev) (synthetic ev)) w
                    in (Inr None, record_stage SWakeLock OIgnored (who ag ev @ [(''reason'', VStr (ld_detail d))]) (w, r)))
              else (Inl AtBreaker, (w, r))))"

definition breaker_phase :: "('w, 'r) penv \<Rightarrow> agent \<Rightarrow> event \<Rightarrow> ('w, 'r) run_state \<Rightarrow> ('w, 'r) phase_end" where
  "breaker_phase env ag ev ws =
     (let (w, r) = ws;
          (now, w) = read_mono env w;
          (out, b, ls) = admit (pe_breaker env) (pe_breaker_src env) now (harness_key ag)
                           (Some (stream_key ev)) (w_breaker w);
          w = emit ls (w\<lparr>w_breaker := b\<rparr>)
      in if \<not> admitted out
         then (let w = on_evidence (record_wake_refused (pe_ev env) (harness_key ag) (bo_detail out)
                         (ev_source ev) (synthetic ev)) w
               in (Inr None, record_stage SBreaker OIgnored (who ag ev @ [(''reason'', VStr (bo_detail out))]) (w, r)))
         else (Inl AtStart, (w, r)))"

definition start_phase :: "('w, 'r) penv \<Rightarrow> agent \<Rightarrow> event \<Rightarrow> ('w, 'r) run_state \<Rightarrow> ('w, 'r) phase_end" where
  "start_phase env ag ev ws =
     (Inl (if attempts_for env ev < 1 then AtEnd BadAttempts 0 None else AtAttempt 1),
      (bookend ag ev ''wake_start'' None [] (fst ws), snd ws))"

text \<open>The attempt's answer, and for a transient failure with attempts left its report and backoff.\<close>

definition answer_phase ::
  "('w, 'r) penv \<Rightarrow> agent \<Rightarrow> event \<Rightarrow> nat \<Rightarrow> int \<Rightarrow> rat \<Rightarrow> ('w, 'r) run_state \<Rightarrow> ('w, 'r) phase_end" where
  "answer_phase env ag ev n at_start t0 ws =
     (let (x, st) = end_attempt env ag ev at_start t0 (fst ws);
          ends = (\<lambda>res. (Inl (AtEnd res (as_duration st) (as_started st)), (as_world st, snd ws)))
      in case x of
           Done k \<Rightarrow> ends (Returned k)
         | Raised e \<Rightarrow> ends (Propagated e)
         | Transient msg \<Rightarrow>
             if attempts_for env ev \<le> n then ends (Exhausted (attempts_for env ev) msg)
             else (Inl (AtAttempt (Suc n)),
               (as_world (sleep_retry (1 / 2 * 2 ^ (n - 1)) (report_retry ag ev n (attempts_for env ev) msg st)), snd ws)))"

definition end_phase ::
  "('w, 'r) penv \<Rightarrow> agent \<Rightarrow> event \<Rightarrow> (wake_result, wake_exn) retry_result \<Rightarrow> rat \<Rightarrow> int option
    \<Rightarrow> ('w, 'r) run_state \<Rightarrow> ('w, 'r) phase_end" where
  "end_phase env ag ev res d started ws =
     (case end_wake env ag ev (attempts_for env ev) res
             \<lparr>as_world = fst ws, as_duration = d, as_started = started\<rparr> (snd ws) of
        (Inl e, ws) \<Rightarrow> (Inr (Some e), ws)
      | (Inr done, ws) \<Rightarrow> (if done then Inl AtMark else Inr None, ws))"

definition mark_phase :: "('w, 'r) penv \<Rightarrow> event \<Rightarrow> ('w, 'r) run_state \<Rightarrow> ('w, 'r) phase_end" where
  "mark_phase env ev ws =
     (let (w, r) = ws; (now, w) = read_mono env w
      in (Inr None, (w\<lparr>w_dedup := mark (pe_ttl env) now (dedup_key ev) (w_dedup w)\<rparr>, r)))"

fun phase_step :: "('w, 'r) penv \<Rightarrow> agent \<Rightarrow> event \<Rightarrow> phase \<Rightarrow> ('w, 'r) run_state \<Rightarrow> ('w, 'r) phase_end" where
  "phase_step env ag ev AtLock ws = (Inl AtDedup, record_stage SLock OOk (who ag ev) ws)"
| "phase_step env ag ev AtDedup ws = dedup_phase env ag ev ws"
| "phase_step env ag ev AtCoalesce ws = coalesce_phase env ag ev ws"
| "phase_step env ag ev AtRecheck ws = recheck_phase env ag ev ws"
| "phase_step env ag ev AtWakeLock ws = wake_lock_phase env ag ev ws"
| "phase_step env ag ev AtBreaker ws = breaker_phase env ag ev ws"
| "phase_step env ag ev AtStart ws = start_phase env ag ev ws"
| "phase_step env ag ev (AtAttempt n) ws =
     (let ((at_start, t0), w) = begin_attempt env (fst ws) in (Inl (AtAnswer n at_start t0), (w, snd ws)))"
| "phase_step env ag ev (AtAnswer n at_start t0) ws = answer_phase env ag ev n at_start t0 ws"
| "phase_step env ag ev (AtEnd res d started) ws = end_phase env ag ev res d started ws"
| "phase_step env ag ev AtMark ws = mark_phase env ev ws"

text \<open>At most how many more phases follow one, with at most \<open>m\<close> attempts.\<close>

fun phase_rank :: "nat \<Rightarrow> phase \<Rightarrow> nat" where
  "phase_rank m AtLock = 2 * m + 9"
| "phase_rank m AtDedup = 2 * m + 8"
| "phase_rank m AtCoalesce = 2 * m + 7"
| "phase_rank m AtRecheck = 2 * m + 6"
| "phase_rank m AtWakeLock = 2 * m + 5"
| "phase_rank m AtBreaker = 2 * m + 4"
| "phase_rank m AtStart = 2 * m + 3"
| "phase_rank m (AtAttempt n) = 2 * (m - n) + 3"
| "phase_rank m (AtAnswer n at_start t0) = 2 * (m - n) + 2"
| "phase_rank m (AtEnd res d started) = 1"
| "phase_rank m AtMark = 0"

text \<open>The phases in a row, with fuel.\<close>

fun run_phases ::
  "('w, 'r) penv \<Rightarrow> agent \<Rightarrow> event \<Rightarrow> nat \<Rightarrow> phase \<Rightarrow> ('w, 'r) run_state \<Rightarrow> (string option \<times> ('w, 'r) run_state) option" where
  "run_phases env ag ev 0 ph ws = None"
| "run_phases env ag ev (Suc n) ph ws = (case phase_step env ag ev ph ws of
     (Inl ph', ws') \<Rightarrow> run_phases env ag ev n ph' ws' | (Inr exn, ws') \<Rightarrow> Some (exn, ws'))"

text \<open>The end of the \<open>with\<close> block and of the \<open>try\<close> around it.\<close>

definition end_execute ::
  "agent \<Rightarrow> event \<Rightarrow> string option \<Rightarrow> ('w, 'r) run_state \<Rightarrow> ('w, 'r) run_state" where
  "end_execute ag ev exn ws =
     (let (w, r) = ws;
          (exn, w) = (case release_lock (harness_key ag) (w_locks w) of
              Inr ls \<Rightarrow> (exn, w\<lparr>w_locks := ls\<rparr>) | Inl e \<Rightarrow> (Some e, w))
      in case exn of None \<Rightarrow> (w, r)
         | Some e \<Rightarrow> record_stage SWake OFailed (who ag ev @ [(''error'', VStr (''unexpected: '' @ e))]) (w, r))"

lemmas phase_defs = dedup_phase_def coalesce_phase_def recheck_phase_def wake_lock_phase_def breaker_phase_def
  start_phase_def answer_phase_def end_phase_def mark_phase_def

subsection \<open>In a row they are \<open>execute\<close>\<close>

text \<open>What is left to do from a phase on, in the terms of \<open>execute\<close>.\<close>

definition after_loop ::
  "('w, 'r) penv \<Rightarrow> agent \<Rightarrow> event \<Rightarrow> (wake_result, wake_exn) retry_result \<times> ('w, 'r) attempt_state \<Rightarrow> presult
    \<Rightarrow> string option \<times> ('w, 'r) run_state" where
  "after_loop env ag ev x r =
     (case end_wake env ag ev (attempts_for env ev) (fst x) (snd x) r of
        (Inl e, ws) \<Rightarrow> (Some e, ws)
      | (Inr done, ws) \<Rightarrow> (None, if done then snd (mark_phase env ev ws) else ws))"

abbreviation attempts_from where
  "attempts_from env ag ev \<equiv>
     retry_from (attempt_wake env ag ev) (report_retry ag ev) sleep_retry (attempts_for env ev) (1 / 2)"

fun phase_rest ::
  "('w, 'r) penv \<Rightarrow> agent \<Rightarrow> event \<Rightarrow> phase \<Rightarrow> ('w, 'r) run_state \<Rightarrow> string option \<times> ('w, 'r) run_state" where
  "phase_rest env ag ev AtLock ws = gate_dedup env ag ev (record_stage SLock OOk (who ag ev) ws)"
| "phase_rest env ag ev AtDedup ws = gate_dedup env ag ev ws"
| "phase_rest env ag ev AtCoalesce ws = gate_coalesce env ag ev ws"
| "phase_rest env ag ev AtRecheck ws = gate_recheck env ag ev ws"
| "phase_rest env ag ev AtWakeLock ws = gate_lock_file env ag ev ws"
| "phase_rest env ag ev AtBreaker ws = gate_breaker env ag ev ws"
| "phase_rest env ag ev AtStart ws = launch env ag ev ws"
| "phase_rest env ag ev (AtAttempt n) ws =
     after_loop env ag ev (attempts_from env ag ev n \<lparr>as_world = fst ws, as_duration = 0, as_started = None\<rparr>) (snd ws)"
| "phase_rest env ag ev (AtAnswer n at_start t0) ws =
     (case end_attempt env ag ev at_start t0 (fst ws) of
        (Transient msg, st) \<Rightarrow>
          if attempts_for env ev \<le> n then after_loop env ag ev (Exhausted (attempts_for env ev) msg, st) (snd ws)
          else after_loop env ag ev (attempts_from env ag ev (Suc n)
                 (sleep_retry (1 / 2 * 2 ^ (n - 1)) (report_retry ag ev n (attempts_for env ev) msg st))) (snd ws)
      | (Done k, st) \<Rightarrow> after_loop env ag ev (Returned k, st) (snd ws)
      | (Raised e, st) \<Rightarrow> after_loop env ag ev (Propagated e, st) (snd ws))"
| "phase_rest env ag ev (AtEnd res d started) ws =
     after_loop env ag ev (res, \<lparr>as_world = fst ws, as_duration = d, as_started = started\<rparr>) (snd ws)"
| "phase_rest env ag ev AtMark ws = (None, snd (mark_phase env ev ws))"

text \<open>An attempt overwrites what the last one left beside the world.\<close>

lemma attempts_fresh:
  "attempts_from env ag ev n st = attempts_from env ag ev n \<lparr>as_world = as_world st, as_duration = 0, as_started = None\<rparr>"
  by (subst (1 2) retry_from.simps) (simp add: attempt_wake_def)

lemma launch_loop:
  "launch env ag ev ws = after_loop env ag ev
     (with_retry (attempt_wake env ag ev) (report_retry ag ev) sleep_retry (attempts_for env ev) (1 / 2)
       \<lparr>as_world = bookend ag ev ''wake_start'' None [] (fst ws), as_duration = 0, as_started = None\<rparr>) (snd ws)"
  by (simp add: launch_def dispatch_wake_def after_loop_def case_prod_unfold Let_def mark_phase_def launch_mark split: sum.split)

lemma step_rest:
  "phase_rest env ag ev ph ws = (case phase_step env ag ev ph ws of
     (Inl ph', ws') \<Rightarrow> phase_rest env ag ev ph' ws' | (Inr exn, ws') \<Rightarrow> (exn, ws'))"
proof (cases ph)
  case AtDedup
  then show ?thesis by (simp add: gate_dedup_def dedup_phase_def case_prod_unfold Let_def)
next
  case AtCoalesce
  then show ?thesis by (cases ws) (simp add: gate_coalesce_def coalesce_phase_def case_prod_unfold Let_def split: option.split)
next
  case AtRecheck
  then show ?thesis by (simp add: gate_recheck_def recheck_phase_def split: sum.split option.split)
next
  case AtWakeLock
  then show ?thesis by (simp add: gate_lock_file_def wake_lock_phase_def case_prod_unfold Let_def split: sum.split)
next
  case AtBreaker
  then show ?thesis
    by (simp add: gate_breaker_def breaker_phase_def launch_def case_prod_unfold Let_def launch_mark split: sum.split)
next
  case AtStart
  then show ?thesis by (simp add: launch_loop start_phase_def with_retry_def)
next
  case (AtAttempt n)
  then show ?thesis
    by (simp add: attempt_wake_def retry_from.simps[of _ _ _ _ _ n] case_prod_unfold Let_def split: attempt.split)
next
  case (AtAnswer n at_start t0)
  obtain x st where x: "end_attempt env ag ev at_start t0 (fst ws) = (x, st)" by fastforce
  have st: "\<lparr>as_world = as_world st, as_duration = as_duration st, as_started = as_started st\<rparr> = st" by simp
  show ?thesis
  proof (cases x)
    case (Transient msg)
    let ?st = "sleep_retry (1 / 2 * 2 ^ (n - 1)) (report_retry ag ev n (attempts_for env ev) msg st)"
    from attempts_fresh[of env ag ev "Suc n" ?st] Transient x AtAnswer show ?thesis by (simp add: answer_phase_def Let_def st)
  qed (simp_all add: AtAnswer x answer_phase_def Let_def st)
next
  case (AtEnd res d started)
  then show ?thesis by (simp add: end_phase_def after_loop_def case_prod_unfold mark_phase_def split: sum.split)
qed (simp_all add: mark_phase_def case_prod_unfold Let_def)

subsection \<open>Each phase is nearer the end\<close>

lemma attempts_bound: "attempts_for env ev \<le> max 1 (pe_attempts env)"
  by (simp add: attempts_for_def)

lemma phase_nearer:
  assumes "phase_step env ag ev ph ws = (Inl ph', ws')" and "max 1 (pe_attempts env) \<le> m"
  shows "phase_rank m ph' < phase_rank m ph"
proof -
  have "attempts_for env ev \<le> m" using attempts_bound assms(2) by (rule order_trans)
  with assms(1) show ?thesis
    by (cases ph) (auto simp: phase_defs case_prod_unfold Let_def split: sum.splits option.splits if_splits attempt.splits)
qed

lemma phases_end:
  "max 1 (pe_attempts env) \<le> m \<Longrightarrow> phase_rank m ph < n \<Longrightarrow> run_phases env ag ev n ph ws = Some (phase_rest env ag ev ph ws)"
proof (induction n arbitrary: ph ws)
  case (Suc n)
  obtain x ws' where x: "phase_step env ag ev ph ws = (x, ws')" by (rule prod.exhaust)
  show ?case
  proof (cases x)
    case (Inl ph')
    have "phase_rank m ph' < n" using phase_nearer[OF x[unfolded Inl] Suc.prems(1)] Suc.prems(2) by simp
    then show ?thesis using Suc.IH[OF Suc.prems(1)] step_rest[of env ag ev ph ws] by (simp add: x Inl)
  qed (simp add: x step_rest[of env ag ev ph ws])
qed simp

lemma execute_phases:
  fixes env :: "('w, 'r) penv"
  shows "execute env ag ev (w, r) = (case try_acquire (harness_key ag) (w_locks w) of
     (False, locks) \<Rightarrow> None
   | (True, locks) \<Rightarrow> map_option (\<lambda>(exn, ws). end_execute ag ev exn ws)
       (run_phases env ag ev (2 * max 1 (pe_attempts env) + 10) AtLock (w\<lparr>w_locks := locks\<rparr>, r)))"
proof -
  have "run_phases env ag ev (2 * max 1 (pe_attempts env) + 10) AtLock ws
      = Some (gate_dedup env ag ev (record_stage SLock OOk (who ag ev) ws))" for ws :: "('w, 'r) run_state"
    by (subst phases_end[where m = "max 1 (pe_attempts env)"]) simp_all
  then show ?thesis
    by (cases "try_acquire (harness_key ag) (w_locks w)")
      (simp add: execute_def end_execute_def case_prod_unfold Let_def split: bool.split)
qed

subsection \<open>What a phase keeps, and what it records\<close>

lemma end_attempt_locks [simp]: "w_locks (as_world (snd (end_attempt env ag ev at_start t0 w))) = w_locks w"
  by (simp add: end_attempt_def case_prod_unfold Let_def)

lemma begin_attempt_locks [simp]: "w_locks (snd (begin_attempt env w)) = w_locks w"
  by (simp add: begin_attempt_def case_prod_unfold Let_def)

lemma end_wake_keeps [simp]:
  "w_locks (fst (snd (end_wake env ag ev n res st r))) = w_locks (as_world st)"
  by (simp add: end_wake_def case_prod_unfold Let_def split: retry_result.split wake_exn.split)

lemma end_wake_records:
  "case fst (end_wake env ag ev n res st r) of
     Inl e \<Rightarrow> stages (snd (snd (end_wake env ag ev n res st r))) = stages r
   | Inr done \<Rightarrow> (\<exists>oc\<in>{OOk, OFailed, OStopped}. done = (oc \<noteq> OFailed)
       \<and> stages (snd (snd (end_wake env ag ev n res st r))) = stages r @ [(SWake, oc)])"
  by (simp add: end_wake_def case_prod_unfold Let_def split: retry_result.split wake_exn.split)

lemma sleep_report_locks [simp]:
  "w_locks (as_world (sleep_retry d st)) = w_locks (as_world st)"
  "w_locks (as_world (report_retry ag ev k tot msg st)) = w_locks (as_world st)"
  by (simp_all add: sleep_retry_def report_retry_def)

lemma gate_coalesce_keeps:
  "covering (harness_key ag) ev (w_cov (fst ws)) = Some c \<Longrightarrow>
     w_locks (fst (snd (gate_coalesce env ag ev ws))) = w_locks (fst ws)
   \<and> (case fst (gate_coalesce env ag ev ws) of
        Some e \<Rightarrow> stages (snd (snd (gate_coalesce env ag ev ws))) = stages (snd ws)
      | None \<Rightarrow> stages (snd (snd (gate_coalesce env ag ev ws))) = stages (snd ws) @ [(SCoalesce, OIgnored)])"
  by (cases ws) (simp add: gate_coalesce_def case_prod_unfold Let_def split: sum.split)

lemma phase_locks:
  "phase_step env ag ev ph ws = (x, ws') \<Longrightarrow> w_locks (fst ws') = w_locks (fst ws)"
proof (cases ph)
  case (AtCoalesce)
  assume "phase_step env ag ev ph ws = (x, ws')"
  with AtCoalesce gate_coalesce_keeps[of ag ev ws _ env] show ?thesis
    by (auto simp: coalesce_phase_def case_prod_unfold split: option.splits)
qed (auto simp: dedup_phase_def recheck_phase_def wake_lock_phase_def breaker_phase_def start_phase_def
    answer_phase_def end_phase_def mark_phase_def case_prod_unfold Let_def split: sum.splits option.splits if_splits attempt.splits)

text \<open>The records a run has made by a phase.\<close>

definition phase_ok :: "presult \<Rightarrow> phase \<Rightarrow> presult \<Rightarrow> bool" where
  "phase_ok r0 ph r \<longleftrightarrow> (case ph of
     AtLock \<Rightarrow> stages r = stages r0
   | AtMark \<Rightarrow> \<exists>oc\<in>{OOk, OStopped}. stages r = stages r0 @ [(SLock, OOk), (SWake, oc)]
   | _ \<Rightarrow> stages r = stages r0 @ [(SLock, OOk)])"

text \<open>One decisive record ends a run.\<close>

definition decisive :: "presult \<Rightarrow> presult \<Rightarrow> bool" where
  "decisive r0 r \<longleftrightarrow> (\<exists>st oc. stages r = stages r0 @ [(SLock, OOk), (st, oc)]
     \<and> (if st = SWake then oc \<in> {OOk, OFailed, OStopped}
        else oc = OIgnored \<and> st \<in> {SDedup, SCoalesce, SRecheck, SWakeLock, SBreaker}))"

lemma decisiveI:
  "stages r = stages r0 @ [(SLock, OOk), (SWake, oc)] \<Longrightarrow> oc \<in> {OOk, OFailed, OStopped} \<Longrightarrow> decisive r0 r"
  "stages r = stages r0 @ [(SLock, OOk), (st, OIgnored)] \<Longrightarrow> st \<in> {SDedup, SCoalesce, SRecheck, SWakeLock, SBreaker} \<Longrightarrow> decisive r0 r"
  by (auto simp: decisive_def)

lemma phase_records:
  assumes "phase_step env ag ev ph ws = (x, ws')" and "phase_ok r0 ph (snd ws)"
  shows "case x of Inl ph' \<Rightarrow> phase_ok r0 ph' (snd ws')
     | Inr None \<Rightarrow> decisive r0 (snd ws')
     | Inr (Some e) \<Rightarrow> stages (snd ws') = stages r0 @ [(SLock, OOk)]"
proof (cases ph)
  case AtCoalesce
  show ?thesis
  proof (cases "covering (harness_key ag) ev (w_cov (fst ws))")
    case None
    then show ?thesis using assms AtCoalesce by (auto simp: coalesce_phase_def phase_ok_def)
  next
    case (Some c)
    from gate_coalesce_keeps[OF this, of env] assms AtCoalesce show ?thesis
      by (auto simp: coalesce_phase_def Some phase_ok_def case_prod_unfold intro!: decisiveI(2)[of _ _ SCoalesce] split: option.splits)
  qed
next
  case (AtEnd res d started)
  from end_wake_records[of env ag ev "attempts_for env ev" res
      "\<lparr>as_world = fst ws, as_duration = d, as_started = started\<rparr>" "snd ws"] assms AtEnd show ?thesis
    by (auto simp: end_phase_def phase_ok_def case_prod_unfold intro!: decisiveI(1)[of _ _ OFailed] split: sum.splits if_splits)
next
  case AtMark
  then show ?thesis using assms by (auto simp: mark_phase_def phase_ok_def case_prod_unfold Let_def intro: decisiveI(1))
next
  case AtDedup
  then show ?thesis using assms
    by (auto simp: dedup_phase_def phase_ok_def case_prod_unfold Let_def intro!: decisiveI(2)[of _ _ SDedup] split: if_splits)
next
  case AtRecheck
  then show ?thesis using assms
    by (auto simp: recheck_phase_def phase_ok_def intro!: decisiveI(2)[of _ _ SRecheck] split: sum.splits option.splits)
next
  case AtWakeLock
  then show ?thesis using assms
    by (auto simp: wake_lock_phase_def phase_ok_def case_prod_unfold Let_def intro!: decisiveI(2)[of _ _ SWakeLock]
        split: sum.splits if_splits)
next
  case AtBreaker
  then show ?thesis using assms
    by (auto simp: breaker_phase_def phase_ok_def case_prod_unfold Let_def intro!: decisiveI(2)[of _ _ SBreaker] split: if_splits)
qed (use assms in \<open>auto simp: start_phase_def answer_phase_def phase_ok_def case_prod_unfold Let_def
    split: if_splits attempt.splits\<close>)

lemma end_execute_ends:
  assumes "holds_lock (harness_key ag) (w_locks (fst ws))"
    and "case exn of None \<Rightarrow> decisive r0 (snd ws) | Some e \<Rightarrow> stages (snd ws) = stages r0 @ [(SLock, OOk)]"
  shows "w_locks (fst (end_execute ag ev exn ws)) = (w_locks (fst ws))(harness_key ag \<mapsto> False)
     \<and> w_ev (fst (end_execute ag ev exn ws)) = w_ev (fst ws) \<and> decisive r0 (snd (end_execute ag ev exn ws))"
proof -
  have "w_locks (fst ws) (harness_key ag) = Some True" using assms(1) by (simp add: holds_lock_def)
  then have "release_lock (harness_key ag) (w_locks (fst ws)) = Inr ((w_locks (fst ws))(harness_key ag \<mapsto> False))"
    by (simp add: release_lock_def lock_for_def Let_def)
  then show ?thesis using assms(2)
    by (cases exn) (auto simp: end_execute_def case_prod_unfold Let_def intro: decisiveI(1))
qed

end
