(* ===== verification/Wake_Pool.thy ===== *)
theory Wake_Pool
  imports Scheduler_Props
begin

text \<open>
  The scheduler at work: its worker threads, the callable they run and the observer they
  tell (the two arguments \<open>WakeScheduler\<close> takes), over the world those act on. A worker
  acquires its agent's lock, goes through the phases of its run, and then does the
  scheduler's bookkeeping; a caller of \<open>submit\<close> and a worker both deliver their queue count
  in two halves. Each of these is a step here, taken in any order the guards allow, so the
  phases of one agent's run are interleaved with every other agent's and with the requests.
  In the code a request waits for its own notice to be told, so it has fewer interleavings
  than these. The callable returns a result and never raises, as \<open>execute\<close> ends every
  exception itself; the guard for one that did has no branch here. The interface
  \<open>wake_service\<close> states what the scheduler's client promises; from it follow per-agent
  order, exclusion, and a bound on a drain.
\<close>

subsection \<open>The machine\<close>

type_synonym notice = "string \<times> nat \<times> nat"

text \<open>
  \<open>po_inside\<close>: the workers that hold their agent's lock, each at a phase of its run.
  \<open>po_returned\<close>: those whose run has returned and whose bookkeeping is due. \<open>po_done\<close> is
  history: each finished run with its result.
\<close>

record ('w, 'j, 'm, 'a) pool =
  po_world :: 'w
  po_sched :: "'j sched"
  po_inside :: "string \<Rightarrow> 'm option"
  po_returned :: "string set"
  po_done :: "(string \<times> 'j \<times> 'a) list"

definition mk_pool :: "'w \<Rightarrow> 'j sched \<Rightarrow> ('w, 'j, 'm, 'a) pool" where
  "mk_pool w s = \<lparr>po_world = w, po_sched = s, po_inside = (\<lambda>_. None), po_returned = {}, po_done = []\<rparr>"

definition pool_request ::
  "('q \<Rightarrow> 'w \<Rightarrow> 'j sched \<Rightarrow> 'w \<times> 'j sched) \<Rightarrow> 'q \<Rightarrow> ('w, 'j, 'm, 'a) pool \<Rightarrow> ('w, 'j, 'm, 'a) pool" where
  "pool_request req q p = (let (w, s) = req q (po_world p) (po_sched p) in p\<lparr>po_world := w, po_sched := s\<rparr>)"

text \<open>A worker reaches its run: \<open>None\<close> when the agent's lock is held and it would block.\<close>

definition pool_enter ::
  "(string \<Rightarrow> 'w \<Rightarrow> 'w option) \<Rightarrow> ('j \<Rightarrow> 'm) \<Rightarrow> string \<Rightarrow> ('w, 'j, 'm, 'a) pool \<Rightarrow> ('w, 'j, 'm, 'a) pool option" where
  "pool_enter ent start k p =
     (case map_of (running (po_sched p)) k of
        None \<Rightarrow> None
      | Some j \<Rightarrow>
          if po_inside p k = None \<and> k \<notin> po_returned p
          then map_option (\<lambda>w. p\<lparr>po_world := w, po_inside := (po_inside p)(k \<mapsto> start j)\<rparr>) (ent k (po_world p))
          else None)"

text \<open>One phase of the run; the last one releases the lock.\<close>

definition pool_phase ::
  "('j \<Rightarrow> 'm \<Rightarrow> 'w \<Rightarrow> 'w \<times> ('m + 'a)) \<Rightarrow> string \<Rightarrow> ('w, 'j, 'm, 'a) pool \<Rightarrow> ('w, 'j, 'm, 'a) pool option" where
  "pool_phase run k p =
     (case (po_inside p k, map_of (running (po_sched p)) k) of
        (Some m, Some j) \<Rightarrow> Some
          (case run j m (po_world p) of
             (w, Inl m') \<Rightarrow> p\<lparr>po_world := w, po_inside := (po_inside p)(k \<mapsto> m')\<rparr>
           | (w, Inr a) \<Rightarrow> p\<lparr>po_world := w, po_inside := (po_inside p)(k := None),
               po_returned := insert k (po_returned p), po_done := po_done p @ [(k, (j, a))]\<rparr>)
      | _ \<Rightarrow> None)"

text \<open>The \<open>finally\<close> block of \<open>_run_job\<close>.\<close>

definition pool_finish :: "string \<Rightarrow> ('w, 'j, 'm, 'a) pool \<Rightarrow> ('w, 'j, 'm, 'a) pool option" where
  "pool_finish k p =
     (if k \<in> po_returned p
      then map_option (\<lambda>s. p\<lparr>po_sched := s, po_returned := po_returned p - {k}\<rparr>) (finish k (po_sched p))
      else None)"

text \<open>\<open>_deliver_queue_change\<close>: the ticket's turn has come and the observer is called.\<close>

definition pool_tell ::
  "(string \<Rightarrow> nat \<Rightarrow> 'w \<Rightarrow> 'w) \<Rightarrow> notice \<Rightarrow> ('w, 'j, 'm, 'a) pool \<Rightarrow> ('w, 'j, 'm, 'a) pool option" where
  "pool_tell tell e p =
     (if e \<in> set (waiting (po_sched p)) \<and> turn_of (po_sched p) (fst e) = snd (snd e)
      then Some (p\<lparr>po_world := tell (fst e) (fst (snd e)) (po_world p), po_sched := observe e (po_sched p)\<rparr>)
      else None)"

definition pool_settle :: "notice \<Rightarrow> ('w, 'j, 'm, 'a) pool \<Rightarrow> ('w, 'j, 'm, 'a) pool option" where
  "pool_settle e p =
     (if e \<in> set (delivering (po_sched p)) then Some (p\<lparr>po_sched := settle e (po_sched p)\<rparr>) else None)"

lemma enter_run_cases:
  assumes "pool_enter ent start k p = Some p'"
  obtains j w where "map_of (running (po_sched p)) k = Some j" "po_inside p k = None" "k \<notin> po_returned p"
    "ent k (po_world p) = Some w" "p' = p\<lparr>po_world := w, po_inside := (po_inside p)(k \<mapsto> start j)\<rparr>"
  using assms by (auto simp: pool_enter_def split: option.splits if_splits)

lemma phase_cases:
  assumes "pool_phase run k p = Some p'"
  obtains (Goes) j m w m' where "po_inside p k = Some m" "map_of (running (po_sched p)) k = Some j"
      "run j m (po_world p) = (w, Inl m')" "p' = p\<lparr>po_world := w, po_inside := (po_inside p)(k \<mapsto> m')\<rparr>"
    | (Ends) j m w a where "po_inside p k = Some m" "map_of (running (po_sched p)) k = Some j"
      "run j m (po_world p) = (w, Inr a)" "p' = p\<lparr>po_world := w, po_inside := (po_inside p)(k := None),
               po_returned := insert k (po_returned p), po_done := po_done p @ [(k, (j, a))]\<rparr>"
proof -
  from assms obtain j m where j: "po_inside p k = Some m" "map_of (running (po_sched p)) k = Some j"
    by (auto simp: pool_phase_def split: option.splits)
  obtain w x where x: "run j m (po_world p) = (w, x)" by fastforce
  show thesis
  proof (cases x)
    case (Inl m')
    then show ?thesis using Goes[OF j, of w m'] assms j x by (simp add: pool_phase_def)
  next
    case (Inr a)
    then show ?thesis using Ends[OF j, of w a] assms j x by (simp add: pool_phase_def)
  qed
qed

datatype 'q pool_op = Request 'q | EnterRun string | RunPhase string | Bookkeep string
  | Tell notice | Settled notice

fun internal :: "'q pool_op \<Rightarrow> bool" where
  "internal (Request q) = False"
| "internal _ = True"

fun pool_do ::
  "('q \<Rightarrow> 'w \<Rightarrow> 'j sched \<Rightarrow> 'w \<times> 'j sched) \<Rightarrow> (string \<Rightarrow> 'w \<Rightarrow> 'w option) \<Rightarrow> ('j \<Rightarrow> 'm)
    \<Rightarrow> ('j \<Rightarrow> 'm \<Rightarrow> 'w \<Rightarrow> 'w \<times> ('m + 'a)) \<Rightarrow> (string \<Rightarrow> nat \<Rightarrow> 'w \<Rightarrow> 'w)
    \<Rightarrow> 'q pool_op \<Rightarrow> ('w, 'j, 'm, 'a) pool \<Rightarrow> ('w, 'j, 'm, 'a) pool option" where
  "pool_do req ent start run tell (Request q) p = Some (pool_request req q p)"
| "pool_do req ent start run tell (EnterRun k) p = pool_enter ent start k p"
| "pool_do req ent start run tell (RunPhase k) p = pool_phase run k p"
| "pool_do req ent start run tell (Bookkeep k) p = pool_finish k p"
| "pool_do req ent start run tell (Tell e) p = pool_tell tell e p"
| "pool_do req ent start run tell (Settled e) p = pool_settle e p"

fun pool_run ::
  "('q \<Rightarrow> 'w \<Rightarrow> 'j sched \<Rightarrow> 'w \<times> 'j sched) \<Rightarrow> (string \<Rightarrow> 'w \<Rightarrow> 'w option) \<Rightarrow> ('j \<Rightarrow> 'm)
    \<Rightarrow> ('j \<Rightarrow> 'm \<Rightarrow> 'w \<Rightarrow> 'w \<times> ('m + 'a)) \<Rightarrow> (string \<Rightarrow> nat \<Rightarrow> 'w \<Rightarrow> 'w)
    \<Rightarrow> 'q pool_op list \<Rightarrow> ('w, 'j, 'm, 'a) pool \<Rightarrow> ('w, 'j, 'm, 'a) pool option" where
  "pool_run req ent start run tell [] p = Some p"
| "pool_run req ent start run tell (x # xs) p =
     Option.bind (pool_do req ent start run tell x p) (pool_run req ent start run tell xs)"

text \<open>
  At most how many steps a drain still takes: for a queued wake its entry, the phases of its
  run (\<open>most\<close> bounds their \<open>rank\<close>), the bookkeeping, and its notice told and settled; less
  for one under way.
\<close>

definition phase_steps :: "('m \<Rightarrow> nat) \<Rightarrow> nat \<Rightarrow> ('w, 'j, 'm, 'a) pool \<Rightarrow> string \<Rightarrow> nat" where
  "phase_steps rank most p k =
     (if k \<in> po_returned p then 3 else case po_inside p k of Some m \<Rightarrow> 4 + rank m | None \<Rightarrow> 5 + most)"

definition drain_steps :: "('m \<Rightarrow> nat) \<Rightarrow> nat \<Rightarrow> ('w, 'j, 'm, 'a) pool \<Rightarrow> nat" where
  "drain_steps rank most p = (let s = po_sched p in (5 + most) * (length (submitted s) - length (started s))
     + sum_list (map (\<lambda>e. phase_steps rank most p (fst e)) (running s)) + 2 * length (waiting s) + length (delivering s))"

text \<open>
  The abstract machine: for each agent, what was accepted and, in the same order, what has
  finished. Nothing else is a state of it.
\<close>

record ('j, 'a) spool =
  sp_accepted :: "string \<Rightarrow> 'j list"
  sp_finished :: "string \<Rightarrow> ('j \<times> 'a) list"

inductive spool_step :: "('j \<Rightarrow> 'a \<Rightarrow> bool) \<Rightarrow> ('j, 'a) spool \<Rightarrow> ('j, 'a) spool \<Rightarrow> bool" for good where
  spool_accept: "spool_step good s (s\<lparr>sp_accepted := (sp_accepted s)(k := sp_accepted s k @ [j])\<rparr>)"
| spool_finish: "sp_accepted s k = map fst (sp_finished s k) @ j # rest \<Longrightarrow> good j a \<Longrightarrow>
     spool_step good s (s\<lparr>sp_finished := (sp_finished s)(k := sp_finished s k @ [(j, a)])\<rparr>)"

definition spool_of :: "('w, 'j, 'm, 'a) pool \<Rightarrow> ('j, 'a) spool" where
  "spool_of p = \<lparr>sp_accepted = (\<lambda>k. of_key k (submitted (po_sched p))), sp_finished = (\<lambda>k. of_key k (po_done p))\<rparr>"

subsection \<open>Lists by key\<close>

lemma of_key_mem: "(k, j) \<in> set xs \<longleftrightarrow> j \<in> set (of_key k xs)"
  by (force simp: of_key_def)

lemma of_key_none: "k \<notin> fst ` set xs \<Longrightarrow> of_key k xs = []"
  by (auto simp: of_key_def filter_empty_conv)

lemma of_key_single: "distinct (map fst xs) \<Longrightarrow> map_of xs k = Some j \<Longrightarrow> of_key k xs = [j]"
  by (induction xs) (auto simp: of_key_none split: if_splits)

lemma of_key_filter: "of_key i (filter (\<lambda>e. fst e \<noteq> k) xs) = (if i = k then [] else of_key i xs)"
  by (induction xs) (auto simp: of_key_def)

lemma count_of_key: "count (mset xs) (k, j) = count (mset (of_key k xs)) j"
  by (induction xs) (auto simp: of_key_def)

lemma length_of_keys:
  assumes "\<And>k. of_key k xs = of_key k ys @ zs k"
  shows "length ys \<le> length xs" and "(\<And>k. zs k = []) \<Longrightarrow> length ys = length xs"
    and "length ys = length xs \<Longrightarrow> zs k = []"
proof -
  have c: "count (mset xs) e = count (mset ys) e + count (mset (zs (fst e))) (snd e)" for e
    using assms[of "fst e"] by (cases e) (simp add: count_of_key)
  then have sub: "mset ys \<subseteq># mset xs" by (auto intro: mset_subset_eqI)
  show "length ys \<le> length xs" using size_mset_mono[OF sub] by simp
  show "length ys = length xs" if "\<And>k. zs k = []"
  proof -
    have "mset xs = mset ys" by (rule multiset_eqI) (simp add: c that)
    then show ?thesis by (metis size_mset)
  qed
  show "zs k = []" if "length ys = length xs"
  proof (rule ccontr)
    assume "zs k \<noteq> []"
    then obtain j where "j \<in> set (zs k)" by (cases "zs k") auto
    then have "count (mset ys) (k, j) < count (mset xs) (k, j)" using c[of "(k, j)"] by simp
    then have "mset ys \<subset># mset xs" using sub by (auto simp: subset_mset_def)
    then show False using mset_subset_size that by fastforce
  qed
qed

subsection \<open>What a critical section adds\<close>

lemma pump_adds:
  "pump rs s = Some s' \<Longrightarrow> \<exists>ds. started s' = started s @ ds \<and> running s' = running s @ ds"
proof (induction rs s arbitrary: s' rule: pump.induct)
  case (2 k rest s)
  then show ?case by (fastforce split: if_splits option.splits list.splits)
qed auto

lemma pump_locked_adds:
  assumes "pump_locked s = Some s'" and "dispatch_ok (ready s) s" and "1 \<le> lanes s"
  obtains ds where "started s' = started s @ ds" "running s' = running s @ ds"
    "fst ` set ds \<inter> inflight s = {}" "same_notify s s'"
proof -
  from assms(1) obtain t where t: "pump (ready s) s = Some t" "s' = note_saturation t"
    by (auto simp: pump_locked_def)
  have f: "started s' = started t" "running s' = running t"
    by (simp_all add: t(2) note_saturation_def Let_def)
  from pump_adds[OF t(1)] f obtain ds where d: "started s' = started s @ ds" "running s' = running s @ ds"
    by auto
  from pump_locked_ok[OF assms(2,3)] assms(1) obtain popped es where
    p: "ready s = popped @ ready s'" "started s' = started s @ es" "map fst es = popped" "same_notify s s'"
    by (metis option.inject)
  have "fst ` set ds \<subseteq> set (ready s)" using p(1,2,3) d(1) by (auto simp flip: set_map)
  moreover have "set (ready s) \<inter> inflight s = {}" using assms(2) by (simp add: dispatch_ok_def)
  ultimately have "fst ` set ds \<inter> inflight s = {}" by blast
  with d p(4) that show thesis by blast
qed

lemma submit_adds:
  assumes ok: "sched_ok s" and s': "submit k j s = Some s'"
  obtains ds x where "started s' = started s @ ds" "running s' = running s @ ds"
    "fst ` set ds \<inter> inflight s = {}" "submitted s' = submitted s @ [(k, j)]" "observed s' = observed s"
    "waiting s' = waiting s @ [x]" "delivering s' = delivering s"
proof -
  have l: "1 \<le> lanes (before_submit_pump k j s)" using ok by (simp add: sched_ok_def)
  from s' obtain t where t: "pump_locked (before_submit_pump k j s) = Some t" "s' = claim_notification k t"
    by (auto simp: submit_alt)
  have b: "running (before_submit_pump k j s) = running s" "inflight (before_submit_pump k j s) = inflight s"
    by (simp_all add: before_submit_pump_def make_ready_def Let_def)
  from pump_locked_adds[OF t(1) before_submit_ok[OF ok] l] obtain ds where
    d: "started t = started s @ ds" "running t = running s @ ds" "fst ` set ds \<inter> inflight s = {}"
      "same_notify (before_submit_pump k j s) t" by (auto simp: b)
  from d(4) have n: "submitted t = submitted s @ [(k, j)]" "observed t = observed s" "waiting t = waiting s"
    "delivering t = delivering s"
    by (simp_all add: same_notify_def before_submit_pump_def before_finish_pump_def make_ready_def Let_def)
  show thesis
    by (rule that[of ds "(k, pending t k, seq_of t k)"])
      (use d n in \<open>simp_all add: t(2)\<close>, simp_all add: claim_notification_def Let_def seq_of_def n)
qed

lemma finish_adds:
  assumes ok: "sched_ok s" and s': "finish k s = Some s'"
  obtains ds x where "started s' = started s @ ds" "running s' = filter (\<lambda>e. fst e \<noteq> k) (running s) @ ds"
    "fst ` set ds \<inter> (inflight s - {k}) = {}" "submitted s' = submitted s" "observed s' = observed s"
    "waiting s' = waiting s @ [x]" "delivering s' = delivering s"
proof -
  have l: "1 \<le> lanes (before_finish_pump k s)" using ok by (simp add: sched_ok_def)
  from s' obtain t where t: "pump_locked (before_finish_pump k s) = Some t" "s' = claim_notification k t"
    by (auto simp: finish_alt)
  have b: "running (before_finish_pump k s) = filter (\<lambda>e. fst e \<noteq> k) (running s)"
    "inflight (before_finish_pump k s) = inflight s - {k}"
    by (simp_all add: before_finish_pump_def make_ready_def Let_def)
  from pump_locked_adds[OF t(1) before_finish_ok[OF ok] l] obtain ds where
    d: "started t = started s @ ds" "running t = filter (\<lambda>e. fst e \<noteq> k) (running s) @ ds"
      "fst ` set ds \<inter> (inflight s - {k}) = {}" "same_notify (before_finish_pump k s) t" by (auto simp: b)
  from d(4) have n: "submitted t = submitted s" "observed t = observed s" "waiting t = waiting s"
    "delivering t = delivering s"
    by (simp_all add: same_notify_def before_submit_pump_def before_finish_pump_def make_ready_def Let_def)
  show thesis
    by (rule that[of ds "(k, pending t k, seq_of t k)"])
      (use d n in \<open>simp_all add: t(2)\<close>, simp_all add: claim_notification_def Let_def seq_of_def n)
qed

lemma deliver_keeps [simp]:
  "running (observe e s) = running s" "running (settle e s) = running s"
  "submitted (observe e s) = submitted s" "submitted (settle e s) = submitted s"
  "inflight (observe e s) = inflight s" "inflight (settle e s) = inflight s"
  "waiting (observe e s) = remove1 e (waiting s)" "delivering (observe e s) = delivering s @ [e]"
  "observed (observe e s) = observed s @ [(fst e, fst (snd e))]"
  by (simp_all add: observe_def settle_def Let_def)

lemma reachable_step: "reachable n s \<Longrightarrow> sched_step s a s' \<Longrightarrow> reachable n s'"
  unfolding reachable_def using run_snoc by metis

lemma sum_phase_none: "k \<notin> fst ` set xs \<Longrightarrow> (\<And>i. i \<noteq> k \<Longrightarrow> g i = f i)
    \<Longrightarrow> sum_list (map (\<lambda>e. g (fst e)) xs) = sum_list (map (\<lambda>e. f (fst e)) (xs :: (string \<times> 'b) list))"
  by (rule arg_cong[where f = sum_list], rule map_cong[OF refl]) (metis image_eqI)

lemma sum_phase:
  fixes f g :: "string \<Rightarrow> nat" and xs :: "(string \<times> 'b) list"
  assumes "distinct (map fst xs)" and "k \<in> fst ` set xs" and "\<And>i. i \<noteq> k \<Longrightarrow> g i = f i"
  shows "sum_list (map (\<lambda>e. g (fst e)) xs) + f k = sum_list (map (\<lambda>e. f (fst e)) xs) + g k"
    and "sum_list (map (\<lambda>e. g (fst e)) (filter (\<lambda>e. fst e \<noteq> k) xs)) + f k = sum_list (map (\<lambda>e. f (fst e)) xs)"
proof -
  have "sum_list (map (\<lambda>e. g (fst e)) xs) + f k = sum_list (map (\<lambda>e. f (fst e)) xs) + g k
     \<and> sum_list (map (\<lambda>e. g (fst e)) (filter (\<lambda>e. fst e \<noteq> k) xs)) + f k = sum_list (map (\<lambda>e. f (fst e)) xs)"
    using assms(1,2)
  proof (induction xs)
    case (Cons x xs)
    show ?case
    proof (cases "fst x = k")
      case True
      then have k: "k \<notin> fst ` set xs" using Cons.prems(1) by auto
      then have "filter (\<lambda>e. fst e \<noteq> k) xs = xs" by (intro filter_True) auto
      then show ?thesis using True sum_phase_none[OF k assms(3)] by simp
    next
      case False
      then show ?thesis using Cons assms(3)[OF False] by auto
    qed
  qed simp
  then show "sum_list (map (\<lambda>e. g (fst e)) xs) + f k = sum_list (map (\<lambda>e. f (fst e)) xs) + g k"
    and "sum_list (map (\<lambda>e. g (fst e)) (filter (\<lambda>e. fst e \<noteq> k) xs)) + f k = sum_list (map (\<lambda>e. f (fst e)) xs)"
    by blast+
qed

subsection \<open>The invariant\<close>

text \<open>
  The workers are the scheduler's running jobs, an agent's lock is held exactly by the
  worker inside its run, what was started for an agent is what has finished for it and the
  one run under way, and the observer's record of an agent is the last count it was told.
\<close>

definition last_told :: "'j sched \<Rightarrow> string \<Rightarrow> nat" where
  "last_told s k = (if of_key k (observed s) = [] then 0 else last (of_key k (observed s)))"

definition pool_ok ::
  "('j \<Rightarrow> string) \<Rightarrow> ('w \<Rightarrow> string \<Rightarrow> bool) \<Rightarrow> ('w \<Rightarrow> string \<Rightarrow> int) \<Rightarrow> ('j \<Rightarrow> 'm \<Rightarrow> bool) \<Rightarrow> ('j \<Rightarrow> 'a \<Rightarrow> bool)
    \<Rightarrow> nat \<Rightarrow> ('w, 'j, 'm, 'a) pool \<Rightarrow> bool" where
  "pool_ok key held depth mid good n p \<longleftrightarrow> (let s = po_sched p in
     reachable n s \<and> (\<forall>e\<in>set (submitted s). key (snd e) = fst e)
   \<and> dom (po_inside p) \<inter> po_returned p = {} \<and> dom (po_inside p) \<union> po_returned p \<subseteq> fst ` set (running s)
   \<and> (\<forall>k. held (po_world p) k \<longleftrightarrow> po_inside p k \<noteq> None)
   \<and> (\<forall>k m j. po_inside p k = Some m \<longrightarrow> (k, j) \<in> set (running s) \<longrightarrow> mid j m)
   \<and> (\<forall>k. of_key k (started s) = map fst (of_key k (po_done p)) @ (if k \<in> po_returned p then [] else of_key k (running s)))
   \<and> (\<forall>e\<in>set (po_done p). good (fst (snd e)) (snd (snd e)))
   \<and> (\<forall>k. depth (po_world p) k = int (last_told s k)))"

lemma pool_okI:
  assumes "reachable n (po_sched p)" and "\<And>k j. (k, j) \<in> set (submitted (po_sched p)) \<Longrightarrow> key j = k"
    and "dom (po_inside p) \<inter> po_returned p = {}"
    and "dom (po_inside p) \<union> po_returned p \<subseteq> fst ` set (running (po_sched p))"
    and "\<And>k. held (po_world p) k = (po_inside p k \<noteq> None)"
    and "\<And>k m j. po_inside p k = Some m \<Longrightarrow> (k, j) \<in> set (running (po_sched p)) \<Longrightarrow> mid j m"
    and "\<And>k. of_key k (started (po_sched p)) = map fst (of_key k (po_done p))
          @ (if k \<in> po_returned p then [] else of_key k (running (po_sched p)))"
    and "\<And>k j a. (k, (j, a)) \<in> set (po_done p) \<Longrightarrow> good j a"
    and "\<And>k. depth (po_world p) k = int (last_told (po_sched p) k)"
  shows "pool_ok key held depth mid good n p"
proof -
  have "\<forall>e\<in>set (submitted (po_sched p)). key (snd e) = fst e" "\<forall>e\<in>set (po_done p). good (fst (snd e)) (snd (snd e))"
    using assms(2,8) by auto
  then show ?thesis using assms(1,3-7,9) unfolding pool_ok_def Let_def by (intro conjI allI impI) blast+
qed

lemma pool_okD:
  assumes "pool_ok key held depth mid good n p"
  shows "reachable n (po_sched p)" and "(k, j) \<in> set (submitted (po_sched p)) \<Longrightarrow> key j = k"
    and "dom (po_inside p) \<inter> po_returned p = {}"
    and "dom (po_inside p) \<union> po_returned p \<subseteq> fst ` set (running (po_sched p))"
    and "held (po_world p) k = (po_inside p k \<noteq> None)"
    and "po_inside p k = Some m \<Longrightarrow> (k, j) \<in> set (running (po_sched p)) \<Longrightarrow> mid j m"
    and "of_key k (started (po_sched p)) = map fst (of_key k (po_done p))
          @ (if k \<in> po_returned p then [] else of_key k (running (po_sched p)))"
    and "(k, (j, a)) \<in> set (po_done p) \<Longrightarrow> good j a"
    and "depth (po_world p) k = int (last_told (po_sched p) k)"
  using assms unfolding pool_ok_def Let_def by (blast, force, blast, blast, blast, blast, blast, force, blast)

lemma pool_ok_jobs:
  assumes "pool_ok key held depth mid good n p" and "1 \<le> n"
  shows "fst ` set (running (po_sched p)) = inflight (po_sched p)" and "distinct (map fst (running (po_sched p)))"
    and "(k, j) \<in> set (running (po_sched p)) \<Longrightarrow> k \<notin> po_returned p \<Longrightarrow> key j = k"
proof -
  note d = reachable_dispatch[OF pool_okD(1)[OF assms(1)] assms(2)]
  then show "fst ` set (running (po_sched p)) = inflight (po_sched p)" "distinct (map fst (running (po_sched p)))"
    by (simp_all add: dispatch_ok_def)
  assume r: "(k, j) \<in> set (running (po_sched p))" "k \<notin> po_returned p"
  have "of_key k (submitted (po_sched p)) = of_key k (started (po_sched p)) @ queue_of (po_sched p) k"
    using d by (simp add: dispatch_ok_def)
  then have "j \<in> set (of_key k (submitted (po_sched p)))"
    using pool_okD(7)[OF assms(1), of k] r by (simp add: of_key_mem)
  then show "key j = k" using pool_okD(2)[OF assms(1)] by (simp add: of_key_mem)
qed

lemma key_running: "map_of xs k = Some j \<Longrightarrow> k \<in> fst ` set xs"
  by (metis domI dom_map_of_conv_image_fst)

text \<open>A worker inside its run is the one of its agent's job.\<close>

lemma inside_job:
  assumes "pool_ok key held depth mid good n p" and "1 \<le> n" and "po_inside p k = Some m"
    and "map_of (running (po_sched p)) k = Some j"
  shows "k \<notin> po_returned p" and "key j = k" and "held (po_world p) (key j)" and "mid j m"
    and "of_key k (running (po_sched p)) = [j]"
proof -
  note q = pool_okD[OF assms(1)] and jobs = pool_ok_jobs[OF assms(1,2)]
  show nr: "k \<notin> po_returned p" using assms(3) q(3) by blast
  then show kj: "key j = k" using jobs(3)[OF map_of_SomeD[OF assms(4)]] by blast
  then show "held (po_world p) (key j)" using q(5) assms(3) by simp
  show "mid j m" by (rule q(6)[OF assms(3) map_of_SomeD[OF assms(4)]])
  show "of_key k (running (po_sched p)) = [j]" by (rule of_key_single[OF jobs(2) assms(4)])
qed

lemma last_told_observe:
  "last_told (observe e s) k = (if fst e = k then fst (snd e) else last_told s k)"
  "last_told (settle e s) k = last_told s k"
  by (simp_all add: last_told_def settle_fields)

text \<open>With no notice outstanding, the last count told is the pending count.\<close>

lemma last_told_idle:
  assumes "reachable n s" and "1 \<le> n" and "notifying s = 0"
  shows "last_told s k = pending s k"
  using scheduler_counts_aux[OF assms, of k] reachable_notify[OF assms(1,2)]
  by (simp add: last_told_def notify_ok_def count_ok_def counts_def)

subsection \<open>The client's promises\<close>

locale wake_service =
  fixes req :: "'q \<Rightarrow> 'w \<Rightarrow> 'j sched \<Rightarrow> 'w \<times> 'j sched"
    and ent :: "string \<Rightarrow> 'w \<Rightarrow> 'w option"
    and start :: "'j \<Rightarrow> 'm"
    and run :: "'j \<Rightarrow> 'm \<Rightarrow> 'w \<Rightarrow> 'w \<times> ('m + 'a)"
    and tell :: "string \<Rightarrow> nat \<Rightarrow> 'w \<Rightarrow> 'w"
    and key :: "'j \<Rightarrow> string"
    and held :: "'w \<Rightarrow> string \<Rightarrow> bool"
    and depth :: "'w \<Rightarrow> string \<Rightarrow> int"
    and mid :: "'j \<Rightarrow> 'm \<Rightarrow> bool"
    and good :: "'j \<Rightarrow> 'a \<Rightarrow> bool"
    and rank :: "'m \<Rightarrow> nat"
    and most :: nat
  assumes request_law: "req q w s = (w', s') \<Longrightarrow> held w' = held w \<and> depth w' = depth w
      \<and> (s' = s \<or> (\<exists>j. submit (key j) j s = Some s'))"
    and enter_law: "\<not> held w k \<Longrightarrow> \<exists>w'. ent k w = Some w' \<and> held w' = (held w)(k := True) \<and> depth w' = depth w"
    and blocked_law: "held w k \<Longrightarrow> ent k w = None"
    and start_law: "mid j (start j) \<and> rank (start j) \<le> most"
    and phase_law: "held w (key j) \<Longrightarrow> mid j m \<Longrightarrow> run j m w = (w', Inl m') \<Longrightarrow>
      held w' = held w \<and> depth w' = depth w \<and> mid j m' \<and> rank m' < rank m"
    and end_law: "held w (key j) \<Longrightarrow> mid j m \<Longrightarrow> run j m w = (w', Inr a) \<Longrightarrow>
      held w' = (held w)(key j := False) \<and> depth w' = depth w \<and> good j a"
    and tell_law: "held (tell k c w) = held w \<and> depth (tell k c w) = (depth w)(k := int c)"
begin

abbreviation do_op :: "'q pool_op \<Rightarrow> ('w, 'j, 'm, 'a) pool \<Rightarrow> ('w, 'j, 'm, 'a) pool option" where
  "do_op \<equiv> pool_do req ent start run tell"

abbreviation run_ops :: "'q pool_op list \<Rightarrow> ('w, 'j, 'm, 'a) pool \<Rightarrow> ('w, 'j, 'm, 'a) pool option" where
  "run_ops \<equiv> pool_run req ent start run tell"

abbreviation ok :: "nat \<Rightarrow> ('w, 'j, 'm, 'a) pool \<Rightarrow> bool" where
  "ok \<equiv> pool_ok key held depth mid good"

abbreviation steps :: "('w, 'j, 'm, 'a) pool \<Rightarrow> nat" where
  "steps \<equiv> drain_steps rank most"

lemma submit_keeps:
  assumes p: "ok n p" and n: "1 \<le> n" and s': "submit (key j) j (po_sched p) = Some s'"
    and w': "held w' = held (po_world p)" "depth w' = depth (po_world p)"
  shows "ok n (p\<lparr>po_world := w', po_sched := s'\<rparr>)"
proof -
  note q = pool_okD[OF p] and r = pool_okD(1)[OF p] and d = pool_ok_jobs(1)[OF p n]
  obtain ds x where
    a: "started s' = started (po_sched p) @ ds" "running s' = running (po_sched p) @ ds"
      "fst ` set ds \<inter> inflight (po_sched p) = {}" "submitted s' = submitted (po_sched p) @ [(key j, j)]"
      "observed s' = observed (po_sched p)" "waiting s' = waiting (po_sched p) @ [x]"
      "delivering s' = delivering (po_sched p)"
    by (rule submit_adds[OF reachable_ok[OF r n] s'])
  have fresh: "k \<notin> fst ` set ds" if "k \<in> dom (po_inside p) \<union> po_returned p" for k
    using that q(4) d a(3) by blast
  have l: "last_told s' = last_told (po_sched p)" by (simp add: last_told_def a(5) fun_eq_iff)
  let ?p = "p\<lparr>po_world := w', po_sched := s'\<rparr>"
  show ?thesis
  proof (rule pool_okI)
    show "reachable n (po_sched ?p)" using reachable_step[OF r step_submit[OF s']] by simp
    show "key i = k" if "(k, i) \<in> set (submitted (po_sched ?p))" for k i
      using that q(2)[of k i] by (auto simp: a)
    show "dom (po_inside ?p) \<inter> po_returned ?p = {}" "\<And>k. held (po_world ?p) k = (po_inside ?p k \<noteq> None)"
      using q(3,5) by (simp_all add: w')
    show "dom (po_inside ?p) \<union> po_returned ?p \<subseteq> fst ` set (running (po_sched ?p))"
      using q(4) by (auto simp: a)
    show "mid i m" if "po_inside ?p k = Some m" "(k, i) \<in> set (running (po_sched ?p))" for k m i
    proof -
      have "(k, i) \<notin> set ds" using fresh[of k] that(1) by (force simp: dom_def)
      then show ?thesis using that q(6)[of k m i] by (simp add: a)
    qed
    show "of_key k (started (po_sched ?p)) = map fst (of_key k (po_done ?p))
        @ (if k \<in> po_returned ?p then [] else of_key k (running (po_sched ?p)))" for k
      using q(7)[of k] of_key_none[OF fresh, of k] by (simp add: a)
    show "good i b" if "(k, (i, b)) \<in> set (po_done ?p)" for k i b using q(8)[of k i b] that by simp
    show "depth (po_world ?p) k = int (last_told (po_sched ?p) k)" for k
      using q(9)[of k] by (simp add: w' l)
  qed
qed

lemma request_keeps:
  assumes p: "ok n p" and n: "1 \<le> n"
  shows "ok n (pool_request req q p)"
proof -
  obtain w' s' where w: "req q (po_world p) (po_sched p) = (w', s')" by fastforce
  then have r: "pool_request req q p = p\<lparr>po_world := w', po_sched := s'\<rparr>" by (simp add: pool_request_def)
  from request_law[OF w] have h: "held w' = held (po_world p)" "depth w' = depth (po_world p)"
    and c: "s' = po_sched p \<or> (\<exists>j. submit (key j) j (po_sched p) = Some s')" by auto
  from c show ?thesis
  proof
    assume "s' = po_sched p"
    with p h show ?thesis unfolding r pool_ok_def Let_def by simp
  next
    assume "\<exists>j. submit (key j) j (po_sched p) = Some s'"
    then show ?thesis unfolding r using submit_keeps[OF p n _ h] by blast
  qed
qed

text \<open>A step of the workers alone: the scheduler is not touched.\<close>

lemma worker_keeps:
  assumes p: "ok n p" and s: "po_sched p' = po_sched p"
    and "dom (po_inside p') \<inter> po_returned p' = {}"
    and "dom (po_inside p') \<union> po_returned p' \<subseteq> fst ` set (running (po_sched p))"
    and "\<And>k. held (po_world p') k = (po_inside p' k \<noteq> None)"
    and "\<And>k m j. po_inside p' k = Some m \<Longrightarrow> (k, j) \<in> set (running (po_sched p)) \<Longrightarrow> mid j m"
    and "\<And>k. of_key k (started (po_sched p)) = map fst (of_key k (po_done p'))
          @ (if k \<in> po_returned p' then [] else of_key k (running (po_sched p)))"
    and "\<And>k j a. (k, (j, a)) \<in> set (po_done p') \<Longrightarrow> good j a"
    and "depth (po_world p') = depth (po_world p)"
  shows "ok n p'"
  by (rule pool_okI) (use assms(3-8) pool_okD(1,2,9)[OF p] in \<open>simp_all add: s assms(9)\<close>)

lemma enter_keeps:
  assumes p: "ok n p" and n: "1 \<le> n" and e: "pool_enter ent start k p = Some p'"
  shows "ok n p'"
proof -
  note q = pool_okD[OF p] and jobs = pool_ok_jobs[OF p n]
  obtain j w where j: "map_of (running (po_sched p)) k = Some j" and k: "po_inside p k = None" "k \<notin> po_returned p"
    and w: "ent k (po_world p) = Some w"
    and p': "p' = p\<lparr>po_world := w, po_inside := (po_inside p)(k \<mapsto> start j)\<rparr>"
    by (rule enter_run_cases[OF e])
  have "\<not> held (po_world p) k" using q(5) k(1) by simp
  with enter_law w have h: "held w = (held (po_world p))(k := True)" "depth w = depth (po_world p)" by fastforce+
  have one: "i = j" if "(k, i) \<in> set (running (po_sched p))" for i
    using of_key_single[OF jobs(2) j] that by (simp add: of_key_mem)
  have d: "dom (po_inside p') = insert k (dom (po_inside p))" "po_returned p' = po_returned p" by (simp_all add: p')
  show ?thesis
  proof (rule worker_keeps[OF p])
    show "dom (po_inside p') \<union> po_returned p' \<subseteq> fst ` set (running (po_sched p))"
      unfolding d using q(4) key_running[OF j] by blast
    show "dom (po_inside p') \<inter> po_returned p' = {}" unfolding d using q(3) k(2) by blast
    show "mid i m" if "po_inside p' l = Some m" "(l, i) \<in> set (running (po_sched p))" for l m i
      using that one start_law[of j] q(6)[of l m i] by (auto simp: p' split: if_splits)
    show "good i a" if "(l, (i, a)) \<in> set (po_done p')" for l i a using that q(8)[of l i a] by (simp add: p')
  qed (simp_all add: p' h q(5) q(7))
qed

lemma phase_keeps:
  assumes p: "ok n p" and n: "1 \<le> n" and e: "pool_phase run k p = Some p'"
  shows "ok n p'"
  using e
proof (cases rule: phase_cases)
  case (Goes j m w m')
  note q = pool_okD[OF p] and jobs = pool_ok_jobs[OF p n] and i = inside_job[OF p n Goes(1,2)]
  from phase_law[OF i(3,4) Goes(3)] have h: "held w = held (po_world p)" "depth w = depth (po_world p)" "mid j m'" by auto
  have one: "l = j" if "(k, l) \<in> set (running (po_sched p))" for l using i(5) that by (simp add: of_key_mem)
  show ?thesis
  proof (rule worker_keeps[OF p])
    have d: "dom (po_inside p') = dom (po_inside p)" "po_returned p' = po_returned p" using Goes(1) by (auto simp: Goes(4))
    show "dom (po_inside p') \<union> po_returned p' \<subseteq> fst ` set (running (po_sched p))" "dom (po_inside p') \<inter> po_returned p' = {}"
      unfolding d by (rule q(4), rule q(3))
    show "mid l x" if "po_inside p' b = Some x" "(b, l) \<in> set (running (po_sched p))" for b x l
      using that one h(3) q(6)[of b x l] by (auto simp: Goes(4) split: if_splits)
    show "held (po_world p') b = (po_inside p' b \<noteq> None)" for b using q(5)[of b] Goes(1) by (simp add: Goes(4) h)
    show "good l a" if "(b, (l, a)) \<in> set (po_done p')" for b l a using that q(8)[of b l a] by (simp add: Goes(4))
  qed (simp_all add: Goes(4) h q(7))
next
  case (Ends j m w a)
  note q = pool_okD[OF p] and i = inside_job[OF p n Ends(1,2)]
  from end_law[OF i(3,4) Ends(3)] i(2) have h: "held w = (held (po_world p))(k := False)" "depth w = depth (po_world p)"
    "good j a" by auto
  show ?thesis
  proof (rule worker_keeps[OF p])
    show "of_key b (started (po_sched p)) = map fst (of_key b (po_done p'))
        @ (if b \<in> po_returned p' then [] else of_key b (running (po_sched p)))" for b
      using q(7)[of b] i(1,5) by (cases "b = k") (simp_all add: Ends(4))
    show "good l x" if "(b, (l, x)) \<in> set (po_done p')" for b l x
      using that h(3) q(8)[of b l x] by (auto simp: Ends(4))
    have d: "dom (po_inside p') = dom (po_inside p) - {k}" "po_returned p' = insert k (po_returned p)" by (simp_all add: Ends(4))
    show "dom (po_inside p') \<inter> po_returned p' = {}" unfolding d using q(3) by blast
    show "dom (po_inside p') \<union> po_returned p' \<subseteq> fst ` set (running (po_sched p))"
      unfolding d using q(4) key_running[OF Ends(2)] by blast
    show "held (po_world p') b = (po_inside p' b \<noteq> None)" for b using q(5)[of b] by (simp add: Ends(4) h)
    show "mid l x" if "po_inside p' b = Some x" "(b, l) \<in> set (running (po_sched p))" for b x l
      using that q(6)[of b x l] by (simp add: Ends(4) split: if_splits)
  qed (simp_all add: Ends(4) h)
qed

lemma bookkeep_keeps:
  assumes p: "ok n p" and n: "1 \<le> n" and e: "pool_finish k p = Some p'"
  shows "ok n p'"
proof -
  note q = pool_okD[OF p] and r = pool_okD(1)[OF p] and jobs = pool_ok_jobs[OF p n]
  from e obtain s' where k: "k \<in> po_returned p" and s': "finish k (po_sched p) = Some s'"
    and p': "p' = p\<lparr>po_sched := s', po_returned := po_returned p - {k}\<rparr>"
    by (auto simp: pool_finish_def split: if_splits)
  have kr: "k \<in> fst ` set (running (po_sched p))" using k q(4) by blast
  obtain ds x where
    a: "started s' = started (po_sched p) @ ds"
      "running s' = filter (\<lambda>e. fst e \<noteq> k) (running (po_sched p)) @ ds"
      "fst ` set ds \<inter> (inflight (po_sched p) - {k}) = {}" "submitted s' = submitted (po_sched p)"
      "observed s' = observed (po_sched p)" "waiting s' = waiting (po_sched p) @ [x]"
      "delivering s' = delivering (po_sched p)"
    by (rule finish_adds[OF reachable_ok[OF r n] s'])
  have none: "of_key i ds = []" if "i \<in> po_returned p" "i \<noteq> k" for i
    using that q(4) jobs(1) a(3) by (intro of_key_none) blast
  have l: "last_told s' = last_told (po_sched p)" by (simp add: last_told_def a(5) fun_eq_iff)
  show ?thesis
  proof (rule pool_okI)
    show "reachable n (po_sched p')" using reachable_step[OF r step_finish[OF kr s']] by (simp add: p')
    show "of_key i (started (po_sched p')) = map fst (of_key i (po_done p'))
        @ (if i \<in> po_returned p' then [] else of_key i (running (po_sched p')))" for i
      using q(7)[of i] none[of i] k by (simp add: p' a of_key_filter)
    show "dom (po_inside p') \<union> po_returned p' \<subseteq> fst ` set (running (po_sched p'))"
    proof -
      have r: "A - {k} \<subseteq> fst ` set (running s')" if "A \<subseteq> fst ` set (running (po_sched p))" for A
        using that by (auto simp: a(2))
      have "k \<notin> dom (po_inside p)" using q(3) k by blast
      then have "dom (po_inside p') \<union> po_returned p' = (dom (po_inside p) \<union> po_returned p) - {k}"
        by (auto simp: p')
      then show ?thesis using r[OF q(4)] by (simp add: p')
    qed
    show "dom (po_inside p') \<inter> po_returned p' = {}" using q(3) by (auto simp: p')
    show "mid i m" if "po_inside p' b = Some m" "(b, i) \<in> set (running (po_sched p'))" for b m i
    proof -
      have b: "b \<noteq> k" "b \<in> fst ` set (running (po_sched p))" using that(1) q(3,4) k by (auto simp: p')
      then have "b \<notin> fst ` set ds" using a(3) jobs(1) by blast
      then have "(b, i) \<in> set (running (po_sched p))" using that(2) by (force simp: p' a)
      then show ?thesis using q(6)[of b m i] that(1) by (simp add: p')
    qed
    show "key i = l" if "(l, i) \<in> set (submitted (po_sched p'))" for l i using that q(2)[of l i] by (simp add: p' a)
    show "good i b" if "(l, (i, b)) \<in> set (po_done p')" for l i b using that q(8)[of l i b] by (simp add: p')
  qed (simp_all add: p' q(5,9) l)
qed

lemma tell_keeps:
  assumes p: "ok n p" and e: "pool_tell tell e p = Some p'"
  shows "ok n p'"
proof -
  note q = pool_okD[OF p]
  obtain k c t where ekct: "e = (k, c, t)" by (cases e)
  from e have w: "(k, c, t) \<in> set (waiting (po_sched p))" "turn_of (po_sched p) k = t"
    and p': "p' = p\<lparr>po_world := tell k c (po_world p), po_sched := observe (k, c, t) (po_sched p)\<rparr>"
    by (auto simp: pool_tell_def ekct split: if_splits)
  note h = tell_law[of k c "po_world p"]
  show ?thesis
  proof (rule pool_okI)
    show "reachable n (po_sched p')" using reachable_step[OF q(1) step_observe[OF w]] by (simp add: p')
    show "key i = l" if "(l, i) \<in> set (submitted (po_sched p'))" for l i using that q(2)[of l i] by (simp add: p')
    show "good i b" if "(l, (i, b)) \<in> set (po_done p')" for l i b using that q(8)[of l i b] by (simp add: p')
    show "dom (po_inside p') \<union> po_returned p' \<subseteq> fst ` set (running (po_sched p'))" using q(4) by (simp add: p')
    show "mid i m" if "po_inside p' b = Some m" "(b, i) \<in> set (running (po_sched p'))" for b m i
      using that q(6)[of b m i] by (simp add: p')
  qed (simp_all add: p' q(3,5,7,9) h last_told_observe)
qed

lemma settled_keeps:
  assumes p: "ok n p" and e: "pool_settle e p = Some p'"
  shows "ok n p'"
proof -
  note q = pool_okD[OF p]
  from e have w: "e \<in> set (delivering (po_sched p))" and p': "p' = p\<lparr>po_sched := settle e (po_sched p)\<rparr>"
    by (auto simp: pool_settle_def split: if_splits)
  show ?thesis
  proof (rule pool_okI)
    show "reachable n (po_sched p')" using reachable_step[OF q(1) step_settle[OF w]] by (simp add: p')
    show "key i = l" if "(l, i) \<in> set (submitted (po_sched p'))" for l i using that q(2)[of l i] by (simp add: p')
    show "good i b" if "(l, (i, b)) \<in> set (po_done p')" for l i b using that q(8)[of l i b] by (simp add: p')
    show "dom (po_inside p') \<union> po_returned p' \<subseteq> fst ` set (running (po_sched p'))" using q(4) by (simp add: p')
    show "mid i m" if "po_inside p' b = Some m" "(b, i) \<in> set (running (po_sched p'))" for b m i
      using that q(6)[of b m i] by (simp add: p')
  qed (simp_all add: p' q(3,5,7,9) last_told_observe)
qed

lemma do_keeps: "ok n p \<Longrightarrow> 1 \<le> n \<Longrightarrow> do_op x p = Some p' \<Longrightarrow> ok n p'"
  by (cases x) (auto intro: request_keeps enter_keeps phase_keeps bookkeep_keeps tell_keeps settled_keeps)

lemma run_keeps: "ok n p \<Longrightarrow> 1 \<le> n \<Longrightarrow> run_ops xs p = Some p' \<Longrightarrow> ok n p'"
  by (induction xs arbitrary: p) (auto simp: bind_eq_Some_conv dest: do_keeps)

subsection \<open>Every step refines the abstract machine\<close>

lemma do_refines:
  assumes p: "ok n p" and n: "1 \<le> n" and d: "do_op x p = Some p'"
  shows "spool_of p' = spool_of p \<or> spool_step good (spool_of p) (spool_of p')"
proof (cases x)
  case (Request q)
  obtain w' s' where w: "req q (po_world p) (po_sched p) = (w', s')" by fastforce
  then have p': "p' = p\<lparr>po_world := w', po_sched := s'\<rparr>" using d by (simp add: Request pool_request_def)
  from request_law[OF w] consider "s' = po_sched p" | j where "submit (key j) j (po_sched p) = Some s'" by blast
  then show ?thesis
  proof cases
    case 1
    then show ?thesis by (simp add: p' spool_of_def)
  next
    case 2
    obtain ds y where "submitted s' = submitted (po_sched p) @ [(key j, j)]"
      by (rule submit_adds[OF reachable_ok[OF pool_okD(1)[OF p] n] 2])
    then have "spool_of p' = (spool_of p)\<lparr>sp_accepted :=
        (sp_accepted (spool_of p))(key j := sp_accepted (spool_of p) (key j) @ [j])\<rparr>"
      by (auto simp: p' spool_of_def fun_eq_iff)
    then show ?thesis using spool_accept[of good "spool_of p" "key j" j] by simp
  qed
next
  case (RunPhase k)
  then have e: "pool_phase run k p = Some p'" using d by simp
  then show ?thesis
  proof (cases rule: phase_cases)
    case (Goes j m w m')
    then show ?thesis by (simp add: spool_of_def)
  next
    case (Ends j m w a)
    note i = inside_job[OF p n Ends(1,2)]
    have "of_key k (submitted (po_sched p)) = of_key k (started (po_sched p)) @ queue_of (po_sched p) k"
      using reachable_dispatch[OF pool_okD(1)[OF p] n] by (simp add: dispatch_ok_def)
    then have "sp_accepted (spool_of p) k = map fst (sp_finished (spool_of p) k) @ j # queue_of (po_sched p) k"
      using pool_okD(7)[OF p, of k] i(1,5) by (simp add: spool_of_def)
    moreover have "good j a" using pool_okD(8)[OF phase_keeps[OF p n e], of k j a] by (simp add: Ends(4))
    ultimately have "spool_step good (spool_of p) ((spool_of p)\<lparr>sp_finished :=
        (sp_finished (spool_of p))(k := sp_finished (spool_of p) k @ [(j, a)])\<rparr>)" by (rule spool_finish)
    moreover have "(spool_of p)\<lparr>sp_finished :=
        (sp_finished (spool_of p))(k := sp_finished (spool_of p) k @ [(j, a)])\<rparr> = spool_of p'"
      by (auto simp: Ends(4) spool_of_def fun_eq_iff)
    ultimately show ?thesis by simp
  qed
next
  case (Bookkeep k)
  then obtain s' where s': "finish k (po_sched p) = Some s'" "p' = p\<lparr>po_sched := s', po_returned := po_returned p - {k}\<rparr>"
    using d by (auto simp: pool_finish_def split: if_splits)
  obtain ds y where "submitted s' = submitted (po_sched p)"
    by (rule finish_adds[OF reachable_ok[OF pool_okD(1)[OF p] n] s'(1)])
  then show ?thesis by (simp add: s'(2) spool_of_def)
qed (use d in \<open>auto simp: spool_of_def pool_enter_def pool_tell_def pool_settle_def split: if_splits option.splits\<close>)

lemma run_refines: "ok n p \<Longrightarrow> 1 \<le> n \<Longrightarrow> run_ops xs p = Some p' \<Longrightarrow> (spool_step good)\<^sup>*\<^sup>* (spool_of p) (spool_of p')"
proof (induction xs arbitrary: p)
  case (Cons x xs)
  then obtain p1 where 1: "do_op x p = Some p1" "run_ops xs p1 = Some p'" by (auto simp: bind_eq_Some_conv)
  from do_refines[OF Cons.prems(1,2) 1(1)] have "(spool_step good)\<^sup>*\<^sup>* (spool_of p) (spool_of p1)" by auto
  with Cons.IH[OF do_keeps[OF Cons.prems(1,2) 1(1)] Cons.prems(2) 1(2)] show ?case by simp
qed simp

subsection \<open>A drain ends, within a known number of steps\<close>

lemma queued_length:
  assumes "ok n p" and "1 \<le> n"
  shows "length (started (po_sched p)) \<le> length (submitted (po_sched p))"
    and "(\<And>k. queue_of (po_sched p) k = []) \<Longrightarrow> length (started (po_sched p)) = length (submitted (po_sched p))"
    and "length (started (po_sched p)) = length (submitted (po_sched p)) \<Longrightarrow> queue_of (po_sched p) k = []"
proof -
  have "of_key k (submitted (po_sched p)) = of_key k (started (po_sched p)) @ queue_of (po_sched p) k" for k
    using reachable_dispatch[OF pool_okD(1)[OF assms(1)] assms(2)] by (simp add: dispatch_ok_def)
  note l = length_of_keys[of "submitted (po_sched p)" "started (po_sched p)" "queue_of (po_sched p)", OF this]
  show "length (started (po_sched p)) \<le> length (submitted (po_sched p))" by (rule l(1))
  show "(\<And>k. queue_of (po_sched p) k = []) \<Longrightarrow> length (started (po_sched p)) = length (submitted (po_sched p))"
    by (rule l(2))
  show "length (started (po_sched p)) = length (submitted (po_sched p)) \<Longrightarrow> queue_of (po_sched p) k = []"
    by (rule l(3))
qed

text \<open>A step of one worker lowers what is left by as much as its phase goes down.\<close>

lemma worker_counted:
  assumes "ok n p" and "1 \<le> n" and s: "po_sched p' = po_sched p" and k: "k \<in> fst ` set (running (po_sched p))"
    and o: "\<And>i. i \<noteq> k \<Longrightarrow> phase_steps rank most p' i = phase_steps rank most p i"
    and l: "phase_steps rank most p' k < phase_steps rank most p k"
  shows "steps p' < steps p"
  using sum_phase(1)[where g = "phase_steps rank most p'" and f = "phase_steps rank most p", OF pool_ok_jobs(2)[OF assms(1,2)] k o] l
  by (simp add: drain_steps_def s Let_def)

lemma step_counted:
  assumes p: "ok n p" and n: "1 \<le> n" and d: "do_op x p = Some p'" and i: "internal x"
  shows "steps p' < steps p"
proof -
  note jobs = pool_ok_jobs(1,2)[OF p n] and q = pool_okD[OF p]
  show ?thesis
  proof (cases x)
    case (Request q)
    with i show ?thesis by simp
  next
    case (EnterRun k)
    then have e: "pool_enter ent start k p = Some p'" using d by simp
    obtain j w where j: "map_of (running (po_sched p)) k = Some j" "po_inside p k = None" "k \<notin> po_returned p"
      and p': "p' = p\<lparr>po_world := w, po_inside := (po_inside p)(k \<mapsto> start j)\<rparr>"
      by (rule enter_run_cases[OF e])
    show ?thesis
      by (rule worker_counted[OF p n _ key_running[OF j(1)]])
        (use j start_law[of j] in \<open>simp_all add: p' phase_steps_def\<close>)
  next
    case (RunPhase k)
    then have "pool_phase run k p = Some p'" using d by simp
    then show ?thesis
    proof (cases rule: phase_cases)
      case (Goes j m w m')
      note i = inside_job[OF p n Goes(1,2)]
      show ?thesis
        by (rule worker_counted[OF p n _ key_running[OF Goes(2)]])
          (use Goes(1) i(1) phase_law[OF i(3,4) Goes(3)] in \<open>simp_all add: Goes(4) phase_steps_def\<close>)
    next
      case (Ends j m w a)
      note i = inside_job[OF p n Ends(1,2)]
      show ?thesis
        by (rule worker_counted[OF p n _ key_running[OF Ends(2)]])
          (use Ends(1) i(1) in \<open>simp_all add: Ends(4) phase_steps_def\<close>)
    qed
  next
    case (Bookkeep k)
    then have e: "pool_finish k p = Some p'" using d by simp
    from e obtain s' where k: "k \<in> po_returned p" and s': "finish k (po_sched p) = Some s'"
      and f: "po_sched p' = s'" "po_inside p' = po_inside p" "po_returned p' = po_returned p - {k}"
      by (auto simp: pool_finish_def split: if_splits)
    obtain ds y where a: "started s' = started (po_sched p) @ ds"
      "running s' = filter (\<lambda>e. fst e \<noteq> k) (running (po_sched p)) @ ds"
      "fst ` set ds \<inter> (inflight (po_sched p) - {k}) = {}" "submitted s' = submitted (po_sched p)"
      "waiting s' = waiting (po_sched p) @ [y]" "delivering s' = delivering (po_sched p)"
      by (rule finish_adds[OF reachable_ok[OF q(1) n] s'])
    have l: "length (started (po_sched p)) + length ds \<le> length (submitted (po_sched p))"
      using queued_length(1)[OF bookkeep_keeps[OF p n e] n] by (simp add: f a)
    have k2: "k \<in> fst ` set (running (po_sched p))" "po_inside p k = None" using k q(3,4) by blast+
    have "sum_list (map (\<lambda>e. phase_steps rank most p' (fst e)) (filter (\<lambda>e. fst e \<noteq> k) (running (po_sched p))))
        + phase_steps rank most p k = sum_list (map (\<lambda>e. phase_steps rank most p (fst e)) (running (po_sched p)))"
      by (rule sum_phase(2)[OF jobs(2) k2(1)]) (simp add: phase_steps_def f)
    moreover have "phase_steps rank most p' (fst e) = 5 + most" if "e \<in> set ds" for e
    proof -
      have "fst e \<notin> inflight (po_sched p) - {k}" using that a(3) by blast
      then have "po_inside p (fst e) = None" "fst e \<notin> po_returned p - {k}" using q(4) jobs(1) k2(2) by blast+
      then show ?thesis by (simp add: phase_steps_def f)
    qed
    then have "sum_list (map (\<lambda>e. phase_steps rank most p' (fst e)) ds) = (5 + most) * length ds"
      by (induction ds) auto
    moreover have "length (submitted (po_sched p)) - length (started (po_sched p))
        = length (submitted (po_sched p)) - (length (started (po_sched p)) + length ds) + length ds" using l by simp
    then have "(5 + most) * (length (submitted (po_sched p)) - length (started (po_sched p)))
        = (5 + most) * (length (submitted (po_sched p)) - (length (started (po_sched p)) + length ds)) + (5 + most) * length ds"
      by (metis distrib_left)
    ultimately show ?thesis using k by (simp add: drain_steps_def f a Let_def phase_steps_def[of rank most p k])
  next
    case (Tell e)
    then have w: "e \<in> set (waiting (po_sched p))" and f: "po_sched p' = observe e (po_sched p)"
        "po_inside p' = po_inside p" "po_returned p' = po_returned p"
      using d by (auto simp: pool_tell_def split: if_splits)
    have "phase_steps rank most p' = phase_steps rank most p" by (simp add: phase_steps_def f fun_eq_iff)
    moreover obtain m where "length (waiting (po_sched p)) = Suc m" using w by (cases "waiting (po_sched p)") auto
    ultimately show ?thesis using w by (simp add: drain_steps_def f Let_def length_remove1)
  next
    case (Settled e)
    then have w: "e \<in> set (delivering (po_sched p))" and f: "po_sched p' = settle e (po_sched p)"
        "po_inside p' = po_inside p" "po_returned p' = po_returned p"
      using d by (auto simp: pool_settle_def split: if_splits)
    have "phase_steps rank most p' = phase_steps rank most p" by (simp add: phase_steps_def f fun_eq_iff)
    moreover obtain m where "length (delivering (po_sched p)) = Suc m" using w by (cases "delivering (po_sched p)") auto
    ultimately show ?thesis using w by (simp add: drain_steps_def f Let_def settle_fields length_remove1)
  qed
qed

lemma run_counted:
  "ok n p \<Longrightarrow> 1 \<le> n \<Longrightarrow> run_ops xs p = Some p' \<Longrightarrow> (\<forall>x\<in>set xs. internal x)
     \<Longrightarrow> length xs + steps p' \<le> steps p"
proof (induction xs arbitrary: p)
  case (Cons x xs)
  then obtain p1 where 1: "do_op x p = Some p1" "run_ops xs p1 = Some p'" by (auto simp: bind_eq_Some_conv)
  have "steps p1 < steps p" using step_counted[OF Cons.prems(1,2) 1(1)] Cons.prems(4) by simp
  with Cons.IH[OF do_keeps[OF Cons.prems(1,2) 1(1)] Cons.prems(2) 1(2)] Cons.prems(4) show ?case by simp
qed simp

text \<open>A drain takes nothing on.\<close>

lemma run_submitted:
  "ok n p \<Longrightarrow> 1 \<le> n \<Longrightarrow> run_ops xs p = Some p' \<Longrightarrow> (\<forall>x\<in>set xs. internal x)
     \<Longrightarrow> submitted (po_sched p') = submitted (po_sched p)"
proof (induction xs arbitrary: p)
  case (Cons x xs)
  then obtain p1 where 1: "do_op x p = Some p1" "run_ops xs p1 = Some p'" by (auto simp: bind_eq_Some_conv)
  have "submitted (po_sched p1) = submitted (po_sched p)"
  proof (cases x)
    case (Bookkeep k)
    then obtain s' where s': "finish k (po_sched p) = Some s'" "po_sched p1 = s'"
      using 1(1) by (auto simp: pool_finish_def split: if_splits)
    obtain ds y where "submitted s' = submitted (po_sched p)"
      by (rule finish_adds[OF reachable_ok[OF pool_okD(1)[OF Cons.prems(1)] Cons.prems(2)] s'(1)])
    with s' show ?thesis by simp
  next
    case (RunPhase k)
    then have "pool_phase run k p = Some p1" using 1(1) by simp
    then show ?thesis by (cases rule: phase_cases) simp_all
  qed (use 1(1) Cons.prems(4) in \<open>auto simp: pool_enter_def pool_tell_def pool_settle_def split: if_splits option.splits\<close>)
  with Cons.IH[OF do_keeps[OF Cons.prems(1,2) 1(1)] Cons.prems(2) 1(2)] Cons.prems(4) show ?case by simp
qed simp

lemma idle_counted:
  assumes p: "ok n p" and n: "1 \<le> n"
  shows "idle (po_sched p) \<longleftrightarrow> steps p = 0"
proof -
  let ?s = "po_sched p"
  note r = pool_okD(1)[OF p]
  have ok: "sched_ok ?s" and no: "notify_ok ?s" using reachable_ok[OF r n] reachable_notify[OF r n] by auto
  have z: "notifying ?s = 0 \<longleftrightarrow> waiting ?s = [] \<and> delivering ?s = []"
    using no by (auto simp: notify_ok_def outstanding_def)
  have run: "inflight ?s = {} \<longleftrightarrow> running ?s = []" using pool_ok_jobs(1)[OF p n] by auto
  have ph: "sum_list (map (\<lambda>e. phase_steps rank most p (fst e)) xs) = 0 \<longleftrightarrow> xs = []" for xs :: "(string \<times> 'j) list"
    by (cases xs) (auto simp: phase_steps_def split: option.split)
  have d: "dispatch_ok (ready ?s) ?s" using ok by (simp add: sched_ok_def)
  have q: "(\<forall>k. queue_of ?s k = []) \<longleftrightarrow> ready ?s = []" if i: "inflight ?s = {}"
  proof
    have e: "queue_of ?s k = [] \<longleftrightarrow> queues ?s k = None" for k
      using d by (auto simp: dispatch_ok_def queue_of_def split: option.split)
    show "ready ?s = []" if "\<forall>k. queue_of ?s k = []"
      using that d e by (cases "ready ?s") (auto simp: dispatch_ok_def)
    show "\<forall>k. queue_of ?s k = []" if "ready ?s = []"
      using that d i unfolding e by (auto simp: dispatch_ok_def)
  qed
  have "length (submitted ?s) - length (started ?s) = 0 \<longleftrightarrow> (\<forall>k. queue_of ?s k = [])"
  proof
    assume "length (submitted ?s) - length (started ?s) = 0"
    then have "length (started ?s) = length (submitted ?s)" using queued_length(1)[OF p n] by simp
    then show "\<forall>k. queue_of ?s k = []" using queued_length(3)[OF p n] by blast
  next
    assume "\<forall>k. queue_of ?s k = []"
    then show "length (submitted ?s) - length (started ?s) = 0" using queued_length(2)[OF p n] by simp
  qed
  then show ?thesis using z run ph q by (auto simp: idle_def drain_steps_def Let_def)
qed

lemma never_stuck:
  assumes p: "ok n p" and n: "1 \<le> n" and busy: "\<not> idle (po_sched p)"
  shows "\<exists>x p'. internal x \<and> do_op x p = Some p'"
proof -
  let ?s = "po_sched p"
  note r = pool_okD(1)[OF p] and jobs = pool_ok_jobs(1,2)[OF p n]
  have ok: "sched_ok ?s" and no: "notify_ok ?s" using reachable_ok[OF r n] reachable_notify[OF r n] by auto
  show ?thesis
  proof (cases "running ?s")
    case (Cons e es)
    obtain k j where e: "e = (k, j)" by (cases e)
    then have k: "k \<in> fst ` set (running ?s)" "map_of (running ?s) k = Some j" using Cons by auto
    show ?thesis
    proof (cases "po_inside p k")
      case (Some m)
      then show ?thesis using k by (intro exI[of _ "RunPhase k"]) (simp add: pool_phase_def)
    next
      case None
      show ?thesis
      proof (cases "k \<in> po_returned p")
        case True
        obtain s' where "finish k ?s = Some s'" using sched_ok_finish[OF ok] by blast
        with True show ?thesis by (intro exI[of _ "Bookkeep k"]) (simp add: pool_finish_def)
      next
        case False
        have "\<not> held (po_world p) k" using pool_okD(5)[OF p] None by simp
        from enter_law[OF this] None False k show ?thesis by (intro exI[of _ "EnterRun k"]) (auto simp: pool_enter_def)
      qed
    qed
  next
    case Nil
    then have "inflight ?s = {}" using jobs(1) by simp
    then have "notifying ?s \<noteq> 0" using busy ok by (auto simp: idle_def sched_ok_def)
    then have out: "outstanding ?s \<noteq> {#}" using no by (auto simp: notify_ok_def)
    show ?thesis
    proof (cases "delivering ?s")
      case (Cons e es)
      then show ?thesis by (intro exI[of _ "Settled e"]) (simp add: pool_settle_def)
    next
      case del: Nil
      with out obtain e where e: "e \<in># outstanding ?s" by blast
      have ko: "key_ok ?s (fst e)" using no by (simp add: notify_ok_def)
      from ticket_in_range[OF ko e refl] ko have "turn_of ?s (fst e) \<in># tickets ?s (fst e)"
        by (simp add: key_ok_def)
      then obtain f where "f \<in># outstanding ?s" "fst f = fst e" "ticket f = turn_of ?s (fst e)"
        by (auto simp: tickets_def)
      then have "f \<in> set (waiting ?s)" "turn_of ?s (fst f) = snd (snd f)" using del by (auto simp: outstanding_def ticket_def)
      then show ?thesis by (intro exI[of _ "Tell f"]) (simp add: pool_tell_def)
    qed
  qed
qed

lemma drains:
  "ok n p \<Longrightarrow> 1 \<le> n \<Longrightarrow> \<exists>xs p'. (\<forall>x\<in>set xs. internal x) \<and> run_ops xs p = Some p' \<and> idle (po_sched p')"
proof (induction "steps p" arbitrary: p rule: less_induct)
  case less
  show ?case
  proof (cases "idle (po_sched p)")
    case True
    then show ?thesis by (intro exI[of _ "[]"]) simp
  next
    case False
    from never_stuck[OF less.prems this] obtain x p1 where x: "internal x" "do_op x p = Some p1" by blast
    from less.hyps[OF step_counted[OF less.prems x(2,1)] do_keeps[OF less.prems x(2)] less.prems(2)]
    obtain xs p' where "\<forall>x\<in>set xs. internal x" "run_ops xs p1 = Some p'" "idle (po_sched p')" by blast
    then show ?thesis using x by (intro exI[of _ "x # xs"]) auto
  qed
qed

text \<open>An idle pool has finished everything, in order, holds no lock and is seen to be empty.\<close>

lemma drained:
  assumes p: "ok n p" and n: "1 \<le> n" and idle: "idle (po_sched p)"
  shows "of_key k (submitted (po_sched p)) = map fst (of_key k (po_done p))"
    and "depth (po_world p) k = 0" and "\<not> held (po_world p) k"
proof -
  let ?s = "po_sched p"
  note r = pool_okD(1)[OF p]
  have z: "inflight ?s = {}" "notifying ?s = 0" using idle by (simp_all add: idle_def)
  have run: "running ?s = []" using pool_ok_jobs(1)[OF p n] z by simp
  have "steps p = 0" using idle_counted[OF p n] idle by simp
  then have "length (started ?s) = length (submitted ?s)"
    using queued_length(1)[OF p n] by (simp add: drain_steps_def Let_def)
  then have "queue_of ?s k = []" by (rule queued_length(3)[OF p n])
  moreover have "of_key k (submitted ?s) = of_key k (started ?s) @ queue_of ?s k"
    using reachable_dispatch[OF r n] by (simp add: dispatch_ok_def)
  ultimately show "of_key k (submitted ?s) = map fst (of_key k (po_done p))"
    using pool_okD(7)[OF p, of k] run by simp
  show "depth (po_world p) k = 0"
    using pool_okD(9)[OF p, of k] last_told_idle[OF r n z(2), of k] z(1) \<open>queue_of ?s k = []\<close>
    by (simp add: pending_def)
  show "\<not> held (po_world p) k" using pool_okD(4,5)[OF p] run by (auto simp: dom_def)
qed

end

end
