(* ===== verification/Daemon.thy ===== *)
theory Daemon
  imports App Evidence_Props Pipeline_Phases Wake_Pool
begin

text \<open>
  The daemon \<open>app.py\<close> composes: the server's requests, the scheduler's workers running
  \<open>Pipeline.execute\<close>, and \<open>EvidenceStore.record_queue_depth\<close> as the observer of its
  queues, from \<open>create_app\<close> and the startup on. A worker acquires its agent's lock and then
  takes the phases of \<open>execute\<close> one at a time, so that the lock is held between steps and the
  other lanes and the requests go on meanwhile, also during a wake. The theorems are over
  every run of the composition.
\<close>

subsection \<open>The queue depth the evidence reports\<close>

definition queue_depth :: "store \<Rightarrow> string \<Rightarrow> int" where
  "queue_depth s a = aw_queued (agent_row s a)"

lemma depth_recorded [simp]:
  "queue_depth (flush e s) a = queue_depth s a" "queue_depth (snd (read_now e s)) a = queue_depth s a"
  "queue_depth (on_sink rt f s) a = queue_depth s a"
  by (simp_all add: queue_depth_def agent_row_def)

lemma depth_on_wake:
  "(\<And>w. aw_queued (f w) = aw_queued w) \<Longrightarrow> queue_depth (on_wake b rt f g s) a = queue_depth s a"
  by (simp add: queue_depth_def agent_row_def entry_alter)

lemma depth_records [simp]:
  "queue_depth (record_delivery_accepted e rt s) = queue_depth s"
  "queue_depth (record_delivery_rejected e rt why s) = queue_depth s"
  "queue_depth (record_delivery_decision e rt woke s) = queue_depth s"
  "queue_depth (record_wake_ok e b d rt syn s) = queue_depth s"
  "queue_depth (record_wake_failed e b why rt syn s) = queue_depth s"
  "queue_depth (record_wake_refused e b why rt syn s) = queue_depth s"
  "queue_depth (record_wake_deduped e b rt syn s) = queue_depth s"
  "queue_depth (record_freeze_selftest e st why s) = queue_depth s"
  by (simp_all add: record_ops case_prod_unfold Let_def depth_on_wake fun_eq_iff)
    (simp_all add: queue_depth_def agent_row_def)

lemma depth_told: "queue_depth (record_queue_depth e b n s) = (queue_depth s)(b := n)"
  by (auto simp: record_queue_depth_def queue_depth_def agent_row_def entry_alter Let_def fun_eq_iff)

subsection \<open>What keeps it\<close>

lemma accept_depth: "queue_depth (w_ev (fst (snd (accept env source rq w)))) = queue_depth (w_ev w)"
  by (simp add: accept_def accept_steps_def case_prod_unfold Let_def
      split: sum.split verify_result.split norm_result.split)

lemma attempt_depth [simp]:
  "w_ev (snd (begin_attempt env w)) = w_ev w" "w_ev (as_world (snd (end_attempt env ag ev at_start t0 w))) = w_ev w"
  "w_ev (as_world (sleep_retry d st)) = w_ev (as_world st)"
  "w_ev (as_world (report_retry ag ev k tot msg st)) = w_ev (as_world st)"
  by (simp_all add: begin_attempt_def end_attempt_def sleep_retry_def report_retry_def case_prod_unfold Let_def)

lemma end_wake_depth [simp]:
  "queue_depth (w_ev (fst (snd (end_wake env ag ev n res st r)))) = queue_depth (w_ev (as_world st))"
  by (simp add: end_wake_def case_prod_unfold Let_def split: retry_result.split wake_exn.split)

lemma coalesce_depth:
  "covering (harness_key ag) ev (w_cov (fst ws)) = Some c \<Longrightarrow>
     queue_depth (w_ev (fst (snd (gate_coalesce env ag ev ws)))) = queue_depth (w_ev (fst ws))"
  by (cases ws) (simp add: gate_coalesce_def case_prod_unfold Let_def split: sum.split)

lemma phase_depth:
  "phase_step env ag ev ph ws = (x, ws') \<Longrightarrow> queue_depth (w_ev (fst ws')) = queue_depth (w_ev (fst ws))"
  by (cases ph) (auto simp: phase_defs coalesce_depth case_prod_unfold Let_def
      split: sum.splits option.splits if_splits attempt.splits)

subsection \<open>The callable, from its lock on\<close>

text \<open>\<open>locks.guard\<close> of \<open>execute\<close>: its entry, the phases under it, its exit.\<close>

definition enter_execute :: "string \<Rightarrow> ('w, 'r) world \<Rightarrow> ('w, 'r) world option" where
  "enter_execute k w =
     (let (got, locks) = try_acquire k (w_locks w) in if got then Some (w\<lparr>w_locks := locks\<rparr>) else None)"

type_synonym lane = "phase \<times> presult"

definition start_run :: "job \<Rightarrow> lane" where
  "start_run j = (AtLock, snd (snd j))"

definition run_step :: "('w, 'r) penv \<Rightarrow> job \<Rightarrow> lane \<Rightarrow> ('w, 'r) world \<Rightarrow> ('w, 'r) world \<times> (lane + presult)" where
  "run_step env j m w =
     (let (ag, ev, _) = j; (ph, r) = m in
      case phase_step env ag ev ph (w, r) of
        (Inl ph', (w, r)) \<Rightarrow> (w, Inl (ph', r))
      | (Inr exn, ws) \<Rightarrow> (let (w, r) = end_execute ag ev exn ws in (w, Inr r)))"

text \<open>A worker that nothing comes between runs \<open>execute\<close>.\<close>

fun run_alone :: "('w, 'r) penv \<Rightarrow> job \<Rightarrow> nat \<Rightarrow> lane \<Rightarrow> ('w, 'r) world \<Rightarrow> ('w, 'r) run_state option" where
  "run_alone env j 0 m w = None"
| "run_alone env j (Suc n) m w = (case run_step env j m w of
     (w, Inl m) \<Rightarrow> run_alone env j n m w | (w, Inr r) \<Rightarrow> Some (w, r))"

definition max_phases :: "('w, 'r) penv \<Rightarrow> nat" where
  "max_phases env = 2 * max 1 (pe_attempts env) + 9"

lemma run_alone_phases:
  "run_alone env (ag, ev, r0) n (ph, r) w
     = map_option (\<lambda>(exn, ws). end_execute ag ev exn ws) (run_phases env ag ev n ph (w, r))"
  by (induction n arbitrary: ph r w)
    (simp_all add: run_step_def case_prod_unfold Let_def split: sum.split)

lemma run_alone_is_execute:
  "execute env ag ev (w, r) = Option.bind (enter_execute (harness_key ag) w)
     (run_alone env (ag, ev, r) (Suc (max_phases env)) (start_run (ag, ev, r)))"
proof -
  have e: "2 * max 1 (pe_attempts env) + 10 = Suc (max_phases env)" by (simp add: max_phases_def)
  show ?thesis unfolding execute_phases e
    by (simp add: enter_execute_def start_run_def run_alone_phases case_prod_unfold Let_def
        del: run_alone.simps run_phases.simps split: bool.split)
qed

text \<open>The lock as a set of held keys.\<close>

definition locks_held :: "('w, 'r) world \<Rightarrow> string \<Rightarrow> bool" where
  "locks_held w = (\<lambda>k. holds_lock k (w_locks w))"

lemma enter_cases:
  "enter_execute k w = (if locks_held w k then None else Some (w\<lparr>w_locks := (lock_for k (w_locks w))(k \<mapsto> True)\<rparr>))"
  by (simp add: enter_execute_def locks_held_def try_acquire_held try_acquire_free)

lemma entered:
  assumes "enter_execute k w = Some w'"
  shows "locks_held w' = (locks_held w)(k := True)" and "w_ev w' = w_ev w"
  using assms by (auto simp: enter_cases locks_held_def holds_lock_def lock_for_def fun_eq_iff split: if_splits option.splits)

definition lane_ok :: "job \<Rightarrow> lane \<Rightarrow> bool" where
  "lane_ok j m = phase_ok (snd (snd j)) (fst m) (snd m)"

definition decided :: "job \<Rightarrow> presult \<Rightarrow> bool" where
  "decided j r = decisive (snd (snd j)) r"

definition lane_rank :: "('w, 'r) penv \<Rightarrow> lane \<Rightarrow> nat" where
  "lane_rank env m = phase_rank (max 1 (pe_attempts env)) (fst m)"

lemma run_step_goes:
  assumes "lane_ok j m" and "run_step env j m w = (w', Inl m')"
  shows "locks_held w' = locks_held w \<and> queue_depth (w_ev w') = queue_depth (w_ev w) \<and> lane_ok j m'
     \<and> lane_rank env m' < lane_rank env m"
proof -
  obtain ag ev r0 ph r where jm: "j = (ag, ev, r0)" "m = (ph, r)" by (cases j, cases m)
  from assms(2) obtain ph' r' where s: "phase_step env ag ev ph (w, r) = (Inl ph', (w', r'))" "m' = (ph', r')"
    by (auto simp: run_step_def jm Let_def split: prod.splits sum.splits)
  show ?thesis
    using phase_locks[OF s(1)] phase_depth[OF s(1)] phase_records[OF s(1)] phase_nearer[OF s(1) order_refl] assms(1)
    by (simp add: lane_ok_def lane_rank_def locks_held_def jm s(2))
qed

lemma run_step_ends:
  assumes h: "locks_held w (harness_key (fst j))" and "lane_ok j m" and "run_step env j m w = (w', Inr r')"
  shows "locks_held w' = (locks_held w)(harness_key (fst j) := False) \<and> queue_depth (w_ev w') = queue_depth (w_ev w)
     \<and> decided j r'"
proof -
  obtain ag ev r0 ph r where jm: "j = (ag, ev, r0)" "m = (ph, r)" by (cases j, cases m)
  from assms(3) obtain exn ws where s: "phase_step env ag ev ph (w, r) = (Inr exn, ws)" "end_execute ag ev exn ws = (w', r')"
    by (auto simp: run_step_def jm Let_def split: prod.splits sum.splits)
  have l: "w_locks (fst ws) = w_locks w" using phase_locks[OF s(1)] by simp
  have "holds_lock (harness_key ag) (w_locks (fst ws))" using h by (simp add: l locks_held_def jm)
  moreover have "case exn of None \<Rightarrow> decisive r0 (snd ws) | Some e \<Rightarrow> stages (snd ws) = stages r0 @ [(SLock, OOk)]"
    using phase_records[OF s(1), of r0] assms(2) by (simp add: lane_ok_def jm split: option.split)
  ultimately have "w_locks w' = (w_locks (fst ws))(harness_key ag \<mapsto> False) \<and> w_ev w' = w_ev (fst ws) \<and> decisive r0 r'"
    using end_execute_ends s(2) by (metis fst_conv snd_conv)
  then show ?thesis using phase_depth[OF s(1)]
    by (auto simp: l jm decided_def locks_held_def holds_lock_def fun_eq_iff)
qed

subsection \<open>The composition\<close>

definition daemon_request ::
  "('w, 'r) penv \<Rightarrow> (json \<Rightarrow> string) \<Rightarrow> http_scope \<Rightarrow> ('w, 'r) world \<Rightarrow> job sched \<Rightarrow> ('w, 'r) world \<times> job sched" where
  "daemon_request env dumps sc w s =
     (let (answer, sv) = serve env dumps sc \<lparr>sv_world = w, sv_sched = s\<rparr> in (sv_world sv, sv_sched sv))"

definition tell_depth :: "('w, 'r) penv \<Rightarrow> string \<Rightarrow> nat \<Rightarrow> ('w, 'r) world \<Rightarrow> ('w, 'r) world" where
  "tell_depth env k n = on_evidence (record_queue_depth (pe_ev env) k (int n))"

type_synonym ('w, 'r) daemon = "(('w, 'r) world, job, lane, presult) pool"

definition daemon_run ::
  "('w, 'r) penv \<Rightarrow> (json \<Rightarrow> string) \<Rightarrow> http_scope pool_op list \<Rightarrow> ('w, 'r) daemon \<Rightarrow> ('w, 'r) daemon option" where
  "daemon_run env dumps = pool_run (daemon_request env dumps) enter_execute start_run (run_step env) (tell_depth env)"

definition daemon_step ::
  "('w, 'r) penv \<Rightarrow> (json \<Rightarrow> string) \<Rightarrow> http_scope pool_op \<Rightarrow> ('w, 'r) daemon \<Rightarrow> ('w, 'r) daemon option" where
  "daemon_step env dumps = pool_do (daemon_request env dumps) enter_execute start_run (run_step env) (tell_depth env)"

lemma serve_effect:
  assumes "serve env dumps sc sv = (rs, sv')"
  shows "w_locks (sv_world sv') = w_locks (sv_world sv)"
    and "queue_depth (w_ev (sv_world sv')) = queue_depth (w_ev (sv_world sv))"
    and "sv_sched sv' = sv_sched sv \<or> (\<exists>j. submit (harness_key (fst j)) j (sv_sched sv) = Some (sv_sched sv'))"
proof -
  have "sv' = sv \<or> (\<exists>source rq. delivery_of sc = Some (source, rq))"
    using assms by (auto simp: serve_def delivery_of_def Let_def split: if_splits option.splits prod.splits)
  then show "w_locks (sv_world sv') = w_locks (sv_world sv)"
    and "queue_depth (w_ev (sv_world sv')) = queue_depth (w_ev (sv_world sv))"
    and "sv_sched sv' = sv_sched sv \<or> (\<exists>j. submit (harness_key (fst j)) j (sv_sched sv) = Some (sv_sched sv'))"
  proof (atomize (full), elim disjE exE)
    fix source rq
    assume d: "delivery_of sc = Some (source, rq)"
    obtain p w r where a: "accept env source rq (sv_world sv) = (p, (w, r))" by (metis prod_cases3)
    have w: "w_locks w = w_locks (sv_world sv)" "queue_depth (w_ev w) = queue_depth (w_ev (sv_world sv))"
      using accept_cases[of env source rq "sv_world sv"] accept_depth[of env source rq "sv_world sv"] by (simp_all add: a)
    show "w_locks (sv_world sv') = w_locks (sv_world sv)
        \<and> queue_depth (w_ev (sv_world sv')) = queue_depth (w_ev (sv_world sv))
        \<and> (sv_sched sv' = sv_sched sv \<or> (\<exists>j. submit (harness_key (fst j)) j (sv_sched sv) = Some (sv_sched sv')))"
    proof (cases p)
      case None
      then show ?thesis using assms w by (auto simp: serve_delivery[OF d] a)
    next
      case (Some q)
      obtain ag ev where q: "q = (ag, ev)" by (cases q)
      show ?thesis using assms w
        by (auto simp: serve_delivery[OF d] a Some q spawn_wake_def split: option.splits intro: exI[of _ "(ag, ev, r)"])
    qed
  qed simp
qed

interpretation daemon: wake_service "daemon_request env dumps" enter_execute start_run "run_step env" "tell_depth env"
  "\<lambda>j. harness_key (fst j)" locks_held "\<lambda>w. queue_depth (w_ev w)" lane_ok decided "lane_rank env" "max_phases env"
  for env :: "('w, 'r) penv" and dumps
proof
  fix sc and w w' :: "('w, 'r) world" and s s' :: "job sched"
  assume "daemon_request env dumps sc w s = (w', s')"
  then obtain rs sv where "serve env dumps sc \<lparr>sv_world = w, sv_sched = s\<rparr> = (rs, sv)" "w' = sv_world sv" "s' = sv_sched sv"
    by (auto simp: daemon_request_def split: prod.splits)
  from serve_effect[OF this(1)] this(2,3) show "locks_held w' = locks_held w
      \<and> queue_depth (w_ev w') = queue_depth (w_ev w)
      \<and> (s' = s \<or> (\<exists>j. submit (harness_key (fst j)) j s = Some s'))"
    by (simp add: locks_held_def)
next
  fix w :: "('w, 'r) world" and k
  show "\<exists>w'. enter_execute k w = Some w' \<and> locks_held w' = (locks_held w)(k := True)
      \<and> queue_depth (w_ev w') = queue_depth (w_ev w)" if "\<not> locks_held w k"
  proof -
    from that obtain w' where "enter_execute k w = Some w'" by (simp add: enter_cases)
    with entered[OF this] show ?thesis by simp
  qed
  show "enter_execute k w = None" if "locks_held w k" using that by (simp add: enter_cases)
next
  show "lane_ok j (start_run j) \<and> lane_rank env (start_run j) \<le> max_phases env" for j
    by (simp add: lane_ok_def start_run_def phase_ok_def lane_rank_def max_phases_def)
next
  fix w w' :: "('w, 'r) world" and j m m'
  assume "lane_ok j m" "run_step env j m w = (w', Inl m')"
  then show "locks_held w' = locks_held w \<and> queue_depth (w_ev w') = queue_depth (w_ev w) \<and> lane_ok j m'
      \<and> lane_rank env m' < lane_rank env m" by (rule run_step_goes)
next
  fix w w' :: "('w, 'r) world" and j m r'
  assume "locks_held w (harness_key (fst j))" "lane_ok j m" "run_step env j m w = (w', Inr r')"
  then show "locks_held w' = (locks_held w)(harness_key (fst j) := False) \<and> queue_depth (w_ev w') = queue_depth (w_ev w)
      \<and> decided j r'" by (rule run_step_ends)
next
  fix w :: "('w, 'r) world" and k m
  show "locks_held (tell_depth env k m w) = locks_held w
      \<and> queue_depth (w_ev (tell_depth env k m w)) = (queue_depth (w_ev w))(k := int m)"
    by (simp add: tell_depth_def locks_held_def depth_told)
qed

subsection \<open>The start\<close>

text \<open>\<open>create_app\<close>, then the lifespan's startup: uvicorn accepts no connection before it.\<close>

definition boot_daemon ::
  "'w app_deps \<Rightarrow> 'w \<Rightarrow> string \<Rightarrow> string \<Rightarrow> process \<Rightarrow> dir_listing \<Rightarrow> string
    \<Rightarrow> app_error + ('w, github_state) penv \<times> ('w, github_state) daemon" where
  "boot_daemon deps ext version sha p listing checked_at =
     (case create_app deps ext of
        Inl e \<Rightarrow> Inl e
      | Inr (env, sv) \<Rightarrow> Inr (env, mk_pool (startup env version sha (lanes (sv_sched sv)) p listing checked_at (sv_world sv))
                                (sv_sched sv)))"

lemma start_store_depth:
  assumes "start_store e path r disk ls = Some st"
  shows "queue_depth st a = 0"
proof -
  have z: "queue_depth (discard_stale_queue_depths e s) a = 0" for s
    unfolding queue_depth_def agent_row_def discard_wakes
    by (induction "dc_wakes (es_doc s)") (auto simp: entry_def empty_agent_wake_def map_of_map split: option.split)
  from assms have "dc_wakes (es_doc st) = [] \<or> (\<exists>s. st = discard_stale_queue_depths e s)"
    by (auto simp: start_store_def empty_doc_def split: option.splits if_splits)
  then show ?thesis
    using z by (auto simp: queue_depth_def agent_row_def entry_def empty_agent_wake_def)
qed

lemma init_empty:
  "submitted (init_sched k) = []" "started (init_sched k) = []" "running (init_sched k) = []" "observed (init_sched k) = []"
  by (simp_all add: init_sched_def)

lemma startup_keeps:
  "w_locks (startup env version sha n p listing checked_at w) = w_locks w"
  "queue_depth (w_ev (startup env version sha n p listing checked_at w)) = queue_depth (w_ev w)"
proof -
  have wr: "w_locks (warm_routes env w) = w_locks w \<and> w_ev (warm_routes env w) = w_ev w" for w
  proof -
    have "w_locks (fold (\<lambda>rt w. let (st, ls) = route_warm rt (w_routes w) in emit ls (w\<lparr>w_routes := st\<rparr>)) rts w) = w_locks w
      \<and> w_ev (fold (\<lambda>rt w. let (st, ls) = route_warm rt (w_routes w) in emit ls (w\<lparr>w_routes := st\<rparr>)) rts w) = w_ev w" for rts
      by (induction rts arbitrary: w) (simp_all add: case_prod_unfold Let_def)
    then show ?thesis by (simp add: warm_routes_def)
  qed
  show "w_locks (startup env version sha n p listing checked_at w) = w_locks w"
    "queue_depth (w_ev (startup env version sha n p listing checked_at w)) = queue_depth (w_ev w)"
    by (simp_all add: startup_def wr run_boot_selftest_def log_startup_banner_def Let_def split: sum.split)
qed

lemma boot_ok:
  assumes "boot_daemon deps ext version sha p listing checked_at = Inr (env, d)"
  obtains n where "1 \<le> n" "daemon.ok n d" "spool_of d = \<lparr>sp_accepted = (\<lambda>_. []), sp_finished = (\<lambda>_. [])\<rparr>"
proof -
  from assms obtain sv where c: "create_app deps ext = Inr (env, sv)"
    and d: "d = mk_pool (startup env version sha (lanes (sv_sched sv)) p listing checked_at (sv_world sv)) (sv_sched sv)"
    by (auto simp: boot_daemon_def split: sum.splits)
  from c obtain st k e path r disk ls where sv: "sv = \<lparr>sv_world = first_world ext st, sv_sched = init_sched k\<rparr>" "1 \<le> k"
    and st: "start_store e path r disk ls = Some st"
    by (auto simp: create_app_def mk_sched_def Let_def split: sum.splits option.splits if_splits)
  let ?w = "startup env version sha (lanes (sv_sched sv)) p listing checked_at (sv_world sv)"
  have w: "locks_held ?w i = False" "queue_depth (w_ev ?w) i = 0" for i
    using start_store_depth[OF st] by (simp_all add: locks_held_def startup_keeps sv(1) first_world_def holds_lock_def)
  have d': "d = mk_pool ?w (init_sched k)" by (simp add: d sv(1))
  have "daemon.ok k d"
    by (rule pool_okI) (simp_all add: d' mk_pool_def init_reachable init_empty last_told_def w)
  moreover have "spool_of d = \<lparr>sp_accepted = (\<lambda>_. []), sp_finished = (\<lambda>_. [])\<rparr>"
    by (simp add: d' spool_of_def mk_pool_def init_empty)
  ultimately show thesis using that sv(2) by blast
qed

lemma booted:
  assumes "boot_daemon deps ext version sha p listing checked_at = Inr (env, d0)" and "daemon_run env dumps xs d0 = Some d"
  obtains n where "1 \<le> n" "daemon.ok n d" "(spool_step decided)\<^sup>*\<^sup>* \<lparr>sp_accepted = (\<lambda>_. []), sp_finished = (\<lambda>_. [])\<rparr> (spool_of d)"
proof -
  obtain n where n: "1 \<le> n" "daemon.ok n d0" "spool_of d0 = \<lparr>sp_accepted = (\<lambda>_. []), sp_finished = (\<lambda>_. [])\<rparr>"
    by (rule boot_ok[OF assms(1)])
  note r = assms(2)[unfolded daemon_run_def]
  show thesis by (rule that[OF n(1) daemon.run_keeps[OF n(2,1) r] daemon.run_refines[OF n(2,1) r, unfolded n(3)]])
qed

subsection \<open>What the daemon promises\<close>

text \<open>
  C2. The composed daemon refines the abstract machine of per-agent queues. Whatever requests
  arrive and however the lanes interleave, a step of it is invisible, accepts one delivery
  at the end of its agent's queue, or finishes the oldest unfinished delivery of an agent
  with exactly one decisive record: nothing is lost, run twice, reordered or run for
  another agent.
\<close>

theorem daemon_refines_queues:
  assumes "boot_daemon deps ext version sha p listing checked_at = Inr (env, d0)" and "daemon_run env dumps xs d0 = Some d"
  shows "(spool_step decided)\<^sup>*\<^sup>* \<lparr>sp_accepted = (\<lambda>_. []), sp_finished = (\<lambda>_. [])\<rparr> (spool_of d)
     \<and> (\<forall>x d'. daemon_step env dumps x d = Some d' \<longrightarrow>
          spool_of d' = spool_of d \<or> spool_step decided (spool_of d) (spool_of d'))"
proof -
  obtain n where n: "1 \<le> n" "daemon.ok n d"
    "(spool_step decided)\<^sup>*\<^sup>* \<lparr>sp_accepted = (\<lambda>_. []), sp_finished = (\<lambda>_. [])\<rparr> (spool_of d)"
    by (rule booted[OF assms])
  then show ?thesis using daemon.do_refines[OF n(2,1)] unfolding daemon_step_def by blast
qed

text \<open>
  C5. The agent lock is uncontended. In every state a run can reach, an agent's lock is held
  exactly by the one worker inside that agent's \<open>execute\<close>, at whichever phase of it, so a
  worker about to acquire it never blocks; and at most one worker per lane, one per agent,
  is inside.
\<close>

theorem agent_lock_uncontended:
  assumes "boot_daemon deps ext version sha p listing checked_at = Inr (env, d0)" and "daemon_run env dumps xs d0 = Some d"
  shows "(\<forall>k. locks_held (po_world d) k \<longleftrightarrow> k \<in> dom (po_inside d))
     \<and> (\<forall>(k, j)\<in>set (running (po_sched d)). k \<notin> dom (po_inside d) \<longrightarrow> enter_execute k (po_world d) \<noteq> None)
     \<and> card (dom (po_inside d)) \<le> lanes (po_sched d)
     \<and> (\<forall>(k, j)\<in>set (running (po_sched d)). k \<notin> po_returned d \<longrightarrow> harness_key (fst j) = k)"
proof -
  obtain n where n: "1 \<le> n" "daemon.ok n d" by (rule booted[OF assms])
  note q = pool_okD[OF n(2)] and jobs = pool_ok_jobs[OF n(2,1)]
  have d: "finite (inflight (po_sched d))" "card (inflight (po_sched d)) \<le> lanes (po_sched d)"
    using reachable_dispatch[OF q(1) n(1)] by (simp_all add: dispatch_ok_def)
  have "card (dom (po_inside d)) \<le> card (inflight (po_sched d))"
    by (rule card_mono[OF d(1)]) (use q(4) jobs(1) in blast)
  then show ?thesis using q(5) d(2) jobs(3) by (auto simp: enter_cases dom_def)
qed

text \<open>
  C3. Every drain ends, within a known number of steps. In every state a run can reach, the
  daemon is idle just when none of its own steps is owed; while it is not idle one of them
  can be taken, no lock or turn blocking it; and each taken, by whichever thread and in
  whichever order, brings the end nearer: a retry, a gate or a wake is never for ever. So
  once its wakes have returned (a wake attempt's answer is one step, as long as it may
  take) a shutdown's drain ends, on every schedule.
\<close>

theorem daemon_drains:
  assumes "boot_daemon deps ext version sha p listing checked_at = Inr (env, d0)" and "daemon_run env dumps xs d0 = Some d"
  shows "(idle (po_sched d) \<longleftrightarrow> drain_steps (lane_rank env) (max_phases env) d = 0)
     \<and> (\<not> idle (po_sched d) \<longrightarrow> (\<exists>y d'. internal y \<and> daemon_step env dumps y d = Some d'))
     \<and> (\<forall>ys d'. (\<forall>y\<in>set ys. internal y) \<and> daemon_run env dumps ys d = Some d' \<longrightarrow>
          length ys + drain_steps (lane_rank env) (max_phases env) d' \<le> drain_steps (lane_rank env) (max_phases env) d)
     \<and> (\<exists>ys d'. (\<forall>y\<in>set ys. internal y) \<and> daemon_run env dumps ys d = Some d' \<and> idle (po_sched d'))"
proof -
  obtain n where n: "1 \<le> n" "daemon.ok n d" by (rule booted[OF assms])
  show ?thesis unfolding daemon_step_def daemon_run_def
  proof (intro conjI allI impI)
    show "idle (po_sched d) \<longleftrightarrow> drain_steps (lane_rank env) (max_phases env) d = 0" by (rule daemon.idle_counted[OF n(2,1)])
    show "\<exists>y d'. internal y \<and> pool_do (daemon_request env dumps) enter_execute start_run (run_step env) (tell_depth env) y d = Some d'"
      if "\<not> idle (po_sched d)" by (rule daemon.never_stuck[OF n(2,1) that])
    show "length ys + drain_steps (lane_rank env) (max_phases env) d' \<le> drain_steps (lane_rank env) (max_phases env) d"
      if "(\<forall>y\<in>set ys. internal y) \<and>
        pool_run (daemon_request env dumps) enter_execute start_run (run_step env) (tell_depth env) ys d = Some d'" for ys d'
      using daemon.run_counted[OF n(2,1)] that by metis
    show "\<exists>ys d'. (\<forall>y\<in>set ys. internal y) \<and>
        pool_run (daemon_request env dumps) enter_execute start_run (run_step env) (tell_depth env) ys d = Some d' \<and> idle (po_sched d')"
      using daemon.drains[OF n(2,1), of env dumps] by blast
  qed
qed

text \<open>
  C4. A drained daemon owes nothing and says so. When the scheduler is idle, what each agent
  was sent has been executed, in the order it arrived, each with one decisive record; the
  evidence reports no queued wake of any agent, and no agent's lock is held.
\<close>

theorem drained_daemon_settled:
  assumes "boot_daemon deps ext version sha p listing checked_at = Inr (env, d0)" and "daemon_run env dumps xs d0 = Some d"
    and "idle (po_sched d)"
  shows "of_key k (submitted (po_sched d)) = map fst (of_key k (po_done d))
     \<and> (\<forall>(j, r)\<in>set (of_key k (po_done d)). harness_key (fst j) = k \<and> decided j r)
     \<and> queue_depth (w_ev (po_world d)) k = 0 \<and> \<not> holds_lock k (w_locks (po_world d))"
proof -
  obtain n where n: "1 \<le> n" "daemon.ok n d" by (rule booted[OF assms(1,2)])
  note f = daemon.drained[OF n(2,1) assms(3)]
  have "harness_key (fst j) = k \<and> decided j r" if "(j, r) \<in> set (of_key k (po_done d))" for j r
  proof -
    have m: "(k, (j, r)) \<in> set (po_done d)" using that by (simp add: of_key_mem)
    have "j \<in> set (of_key k (submitted (po_sched d)))" unfolding f(1) using that by (force simp: image_iff)
    then show ?thesis using pool_okD(2,8)[OF n(2)] m by (simp add: of_key_mem)
  qed
  with f show ?thesis by (auto simp: locks_held_def)
qed

end
