(* ===== verification/Daemon_Witness.thy ===== *)
theory Daemon_Witness
  imports App_Witness Daemon
begin

text \<open>
  The composed daemon on the small deployment of \<open>App_Witness\<close>: it boots, a signed probe
  delivery is accepted, and the drain that follows executes it.
\<close>

lemma demo_app_config:
  "(case load_config (ad_read demo_app_deps) (ad_loads demo_app_deps) (map_of (ad_env demo_app_deps)) of
      Inr c \<Rightarrow> cf_enabled c = [''probe''] \<and> cf_secrets c ''probe'' = Some ''s''
        \<and> map_option harness_key (map_of (cf_by_harness c) ''jt'') = Some ''jt''
    | Inl e \<Rightarrow> False)"
  by code_simp

lemma demo_app_verifies: "fst (pr_verify (ad_hexdigest demo_app_deps) demo_rq (Some ''s'')) = Verified"
  by code_simp

lemma demo_app_normalizes:
  "(case fst (pr_normalize (ad_loads demo_app_deps) demo_rq ()) of
      NormEvent ev \<Rightarrow> ev_recipient ev = \<lparr>rec_by = ''harness_key'', rec_value = ''jt''\<rparr> | _ \<Rightarrow> False)"
  by code_simp

lemma normalize_state: "fst (pr_normalize loads rq s) = fst (pr_normalize loads rq ())"
  by (simp add: pr_normalize_def Let_def split: body_result.split prod.split)

abbreviation demo_boot :: "app_error + (nat, github_state) penv \<times> (nat, github_state) daemon" where
  "demo_boot \<equiv> boot_daemon demo_app_deps 0 ''1'' ''s'' demo_process (Listing []) ''t''"

lemma demo_boots:
  obtains env d ag where "demo_boot = Inr (env, d)" "harness_key ag = ''jt''"
    "\<forall>w. \<exists>ev. fst (accept env ''probe'' demo_rq w) = Some (ag, ev)"
proof -
  let ?d = demo_app_deps
  obtain env sv where c: "create_app ?d 0 = Inr (env, sv)"
    using demo_app_starts by (auto split: sum.splits prod.splits)
  then obtain c reg bcfg ttl where l: "load_config (ad_read ?d) (ad_loads ?d) (map_of (ad_env ?d)) = Inr c"
    and reg: "build_registry ?d c = Inr reg" and env: "env = app_penv ?d c reg bcfg ttl"
    by (auto simp: create_app_def Let_def split: sum.splits option.splits)
  let ?rt = "probe_route (ad_hexdigest ?d) (ad_loads ?d) :: github_state route"
  from demo_app_config l obtain ag where k: "cf_enabled c = [''probe'']" "cf_secrets c ''probe'' = Some ''s''"
    "map_of (cf_by_harness c) ''jt'' = Some ag" "harness_key ag = ''jt''" by auto
  have reg': "reg = [(''probe'', ?rt)]"
    using reg by (auto simp: build_registry_def add_route_def register_route_def k(1) probe_route_def split: sum.splits option.splits if_splits)
  obtain ev where ev: "fst (pr_normalize (ad_loads ?d) demo_rq ()) = NormEvent ev"
    "ev_recipient ev = \<lparr>rec_by = ''harness_key'', rec_value = ''jt''\<rparr>"
    using demo_app_normalizes by (auto split: norm_result.splits)
  have g: "get_route (pe_registry env) ''probe'' = Inr ?rt" "route_secret env ?rt ''probe'' = Inr (Some ''s'')"
    "resolve_agent ev (pe_config env) = Inr ag"
    using k by (simp_all add: env app_penv_def reg' get_route_def route_secret_def webhook_secret_def resolve_agent_def
        agent_for_recipient_def ev(2))
  have rt: "rt_verify ?rt = pr_verify (ad_hexdigest ?d)" "rt_normalize ?rt = pr_normalize (ad_loads ?d)"
    by (simp_all add: probe_route_def)
  have "\<exists>ev. fst (accept env ''probe'' demo_rq w) = Some (ag, ev)" for w
  proof -
    obtain vl where v: "pr_verify (ad_hexdigest ?d) demo_rq (Some ''s'') = (Verified, vl)"
      using demo_app_verifies by (metis prod.collapse)
    have n: "fst (pr_normalize (ad_loads ?d) demo_rq s) = NormEvent ev" for s :: github_state
      using normalize_state ev(1) by metis
    show ?thesis
      by (intro exI[of _ ev]) (simp add: accept_def accept_steps_def g rt v Let_def split_beta n)
  qed
  with that[of env _ ag] k(4) c show thesis by (auto simp: boot_daemon_def)
qed

text \<open>One delivery, accepted and on its way.\<close>

lemma demo_delivered:
  obtains env d0 d ag ev r where "demo_boot = Inr (env, d0)" "harness_key ag = ''jt''"
    "daemon_run env (\<lambda>_. ''{}'') [Request demo_scope] d0 = Some d" "submitted (po_sched d) = [(''jt'', (ag, ev, r))]"
proof -
  obtain env d0 ag where b: "demo_boot = Inr (env, d0)" "harness_key ag = ''jt''"
    "\<forall>w. \<exists>ev. fst (accept env ''probe'' demo_rq w) = Some (ag, ev)" by (rule demo_boots)
  obtain n where n: "1 \<le> n" "daemon.ok n d0" "spool_of d0 = \<lparr>sp_accepted = (\<lambda>_. []), sp_finished = (\<lambda>_. [])\<rparr>"
    by (rule boot_ok[OF b(1)])
  have e: "submitted (po_sched d0) = []"
  proof (rule ccontr)
    assume "submitted (po_sched d0) \<noteq> []"
    then obtain k j where "(k, j) \<in> set (submitted (po_sched d0))" by (cases "submitted (po_sched d0)") auto
    with n(3) show False by (auto simp: of_key_mem spool_of_def fun_eq_iff)
  qed
  obtain ev w r where a: "accept env ''probe'' demo_rq (po_world d0) = (Some (ag, ev), (w, r))"
    using b(3) by (metis prod.collapse)
  obtain s where s: "submit ''jt'' (ag, ev, r) (po_sched d0) = Some s"
    using reachable_submit[OF pool_okD(1)[OF n(2)] n(1)] by metis
  have "daemon_request env (\<lambda>_. ''{}'') demo_scope (po_world d0) (po_sched d0) = (w, s)"
    by (simp add: daemon_request_def serve_delivery[OF demo_delivery] a spawn_wake_def b(2) s)
  then have "daemon_run env (\<lambda>_. ''{}'') [Request demo_scope] d0 = Some (d0\<lparr>po_world := w, po_sched := s\<rparr>)"
    by (simp add: daemon_run_def pool_request_def)
  moreover have "submitted s = [(''jt'', (ag, ev, r))]"
    by (rule submit_adds[OF reachable_ok[OF pool_okD(1)[OF n(2)] n(1)] s]) (simp add: e)
  ultimately show thesis using that b(1,2) by simp
qed

theorem daemon_refines_queues_witness:
  "\<exists>env d0 d j. demo_boot = Inr (env, d0) \<and> daemon_run env (\<lambda>_. ''{}'') [Request demo_scope] d0 = Some d
     \<and> sp_accepted (spool_of d) ''jt'' = [j]
     \<and> (spool_step decided)\<^sup>*\<^sup>* \<lparr>sp_accepted = (\<lambda>_. []), sp_finished = (\<lambda>_. [])\<rparr> (spool_of d)"
proof -
  obtain env d0 d ag ev r where b: "demo_boot = Inr (env, d0)" "harness_key ag = ''jt''"
    "daemon_run env (\<lambda>_. ''{}'') [Request demo_scope] d0 = Some d" "submitted (po_sched d) = [(''jt'', (ag, ev, r))]"
    by (rule demo_delivered)
  then have "sp_accepted (spool_of d) ''jt'' = [(ag, ev, r)]" by (simp add: spool_of_def)
  with b(1,3) daemon_refines_queues[OF b(1,3)] show ?thesis by blast
qed

theorem agent_lock_uncontended_witness:
  "\<exists>env d0 d. demo_boot = Inr (env, d0) \<and> daemon_run env (\<lambda>_. ''{}'') [Request demo_scope] d0 = Some d
     \<and> (\<forall>k. locks_held (po_world d) k \<longleftrightarrow> k \<in> dom (po_inside d))"
proof -
  obtain env d0 d ag ev r where b: "demo_boot = Inr (env, d0)" "harness_key ag = ''jt''"
    "daemon_run env (\<lambda>_. ''{}'') [Request demo_scope] d0 = Some d" "submitted (po_sched d) = [(''jt'', (ag, ev, r))]"
    by (rule demo_delivered)
  with agent_lock_uncontended[OF b(1,3)] show ?thesis by blast
qed

theorem daemon_drains_witness:
  "\<exists>env d0 d ys d'. demo_boot = Inr (env, d0) \<and> daemon_run env (\<lambda>_. ''{}'') [Request demo_scope] d0 = Some d
     \<and> submitted (po_sched d) \<noteq> [] \<and> daemon_run env (\<lambda>_. ''{}'') ys d = Some d' \<and> idle (po_sched d')"
proof -
  obtain env d0 d ag ev r where b: "demo_boot = Inr (env, d0)" "harness_key ag = ''jt''"
    "daemon_run env (\<lambda>_. ''{}'') [Request demo_scope] d0 = Some d" "submitted (po_sched d) = [(''jt'', (ag, ev, r))]"
    by (rule demo_delivered)
  with daemon_drains[OF b(1,3)] show ?thesis by auto
qed

lemma pool_run_append:
  "pool_run req ent start run tell (xs @ ys) p = Option.bind (pool_run req ent start run tell xs p) (pool_run req ent start run tell ys)"
  by (induction xs arbitrary: p) (auto split: bind_splits)

text \<open>After its drain the delivery has been executed, once, with a decisive record.\<close>

theorem drained_daemon_settled_witness:
  "\<exists>env d0 xs d j r. demo_boot = Inr (env, d0) \<and> daemon_run env (\<lambda>_. ''{}'') xs d0 = Some d \<and> idle (po_sched d)
     \<and> of_key ''jt'' (po_done d) = [(j, r)] \<and> decided j r \<and> queue_depth (w_ev (po_world d)) ''jt'' = 0"
proof -
  obtain env d0 d1 ag ev r0 where b: "demo_boot = Inr (env, d0)" "harness_key ag = ''jt''"
    "daemon_run env (\<lambda>_. ''{}'') [Request demo_scope] d0 = Some d1" "submitted (po_sched d1) = [(''jt'', (ag, ev, r0))]"
    by (rule demo_delivered)
  obtain n where n: "1 \<le> n" "daemon.ok n d1" by (rule booted[OF b(1,3)])
  from daemon.drains[OF n(2,1), of env "\<lambda>_. ''{}''"] obtain ys d where y: "\<forall>y\<in>set ys. internal y"
    "pool_run (daemon_request env (\<lambda>_. ''{}'')) enter_execute start_run (run_step env) (tell_depth env) ys d1 = Some d"
    "idle (po_sched d)" by blast
  have r: "daemon_run env (\<lambda>_. ''{}'') ([Request demo_scope] @ ys) d0 = Some d"
    using b(3) y(2) unfolding daemon_run_def pool_run_append by simp
  note s = drained_daemon_settled[OF b(1) r y(3), of "''jt''"]
  have "submitted (po_sched d) = [(''jt'', (ag, ev, r0))]"
    using daemon.run_submitted[OF n(2,1) y(2,1)] b(4) by simp
  with s obtain j r1 where "of_key ''jt'' (po_done d) = [(j, r1)]" by (auto simp: Cons_eq_map_conv)
  moreover from this s have "decided j r1" "queue_depth (w_ev (po_world d)) ''jt'' = 0" by auto
  ultimately show ?thesis using b(1) r y(3) by blast
qed

end
