(* ===== verification/Probe_Props.thy ===== *)
theory Probe_Props
  imports Probe
begin

text \<open>
  What the synthetic wake promises: it passes only on a record of the daemon's own, it
  comes back, and what it posts is what the probe route verifies.
\<close>

subsection \<open>The waiting loop\<close>

lemma proof_at_Inr:
  assumes "proof_at env hk i = (Inr p, ls)"
  obtains d where "read_evidence (pv_path env) (pv_disk env i) = Some (d, ls)" "p = read_proof d hk (pv_route env)"
  using assms by (auto simp: proof_at_def split: option.splits)

lemma poll_verdict_Proven:
  "poll_verdict d b a = Some (Proven, t) \<Longrightarrow> rw_last_ok_delivery (wp_row a) = Some d"
  by (auto simp: poll_verdict_def Let_def split: if_splits)

lemma await_loop_answer:
  "await_loop env hk d before dl fuel i = Some (Inr (v, t, after), j, ls) \<Longrightarrow>
     \<exists>k\<ge>i. \<exists>ls'. proof_at env hk k = (Inr after, ls')
       \<and> (poll_verdict d before after = Some (v, t)
          \<or> poll_verdict d before after = None \<and> v = Unprovable \<and> fl_le dl (Fin (pv_clock env (k + 1))))"
proof (induction env hk d before dl fuel i arbitrary: j ls rule: await_loop.induct)
  case (2 env hk d before dl fuel i)
  obtain p ls0 where p: "proof_at env hk i = (p, ls0)" by (cases "proof_at env hk i")
  show ?case
  proof (cases p)
    case (Inl e)
    with "2.prems" p show ?thesis by simp
  next
    case (Inr a)
    show ?thesis
    proof (cases "poll_verdict d before a")
      case (Some vt)
      with "2.prems" p Inr show ?thesis by (cases vt) auto
    next
      case None
      show ?thesis
      proof (cases "fl_le dl (Fin (pv_clock env (i + 1)))")
        case True
        with "2.prems" p Inr None show ?thesis by (intro exI[of _ i]) auto
      next
        case False
        with "2.prems" p Inr None obtain j' ls'' where
          "await_loop env hk d before dl fuel (Suc i) = Some (Inr (v, t, after), j', ls'')" by auto
        from "2.IH"[OF p[symmetric] Inr None False this] show ?thesis by (metis Suc_leD)
      qed
    qed
  qed
qed simp

lemma await_loop_returns:
  assumes "fl_le dl (Fin (pv_clock env (i + n + 1)))"
  shows "await_loop env hk d before dl (Suc n) i \<noteq> None"
  using assms
proof (induction n arbitrary: i)
  case (Suc n)
  have "await_loop env hk d before dl (Suc n) (Suc i) \<noteq> None" by (rule Suc.IH) (use Suc.prems in simp)
  then show ?case
    by (subst await_loop.simps(2)) (auto split: prod.split sum.split option.split simp del: await_loop.simps)
qed (auto split: prod.split sum.split option.split)

lemma await_loop_nan:
  "(\<And>k. \<exists>p ls. proof_at env hk k = (Inr p, ls) \<and> poll_verdict d before p = None)
     \<Longrightarrow> await_loop env hk d before NaN fuel i = None"
proof (induction fuel arbitrary: i)
  case (Suc fuel)
  obtain p ls where "proof_at env hk i = (Inr p, ls)" "poll_verdict d before p = None" using Suc.prems by blast
  then show ?case using Suc.IH[OF Suc.prems] by simp
qed simp

lemma run_probe_result:
  assumes "run_probe env fuel hk m = Some (Inr r, ls)"
  obtains before ls0 ls1 j where "is_marker m" "proof_at env hk 0 = (Inr before, ls0)"
    "inject env hk m (pv_mint env) = Inr (pb_injection r)"
    "await_outcome env fuel hk (pv_mint env) before (pb_injection r)
       = Some (Inr (pb_status r, pb_detail r, pb_after r), j, ls1)"
    "pb_before r = before" "pb_delivery_id r = pv_mint env"
  using assms
  by (auto simp: run_probe_def Let_def split: if_splits prod.splits sum.splits option.splits)

subsection \<open>A pass is the daemon's record\<close>

text \<open>
  C29. A probe passes only on the daemon's own record. When the daemon is the document's
  only writer, its exit code is 0 exactly for the verdict \<open>proven\<close>, and then the daemon
  answered 202 and had, by one of the readings after the post, recorded a successful wake
  of this agent over this route carrying the delivery id this run minted; no wake of other
  traffic and no record from before can pass it.
\<close>

theorem probe_pass_is_recorded:
  assumes "run_probe env fuel hk m = Some (Inr r, ls)"
    and "pv_path env = Some p"
    and "es_doc s = empty_doc"
    and "\<And>i. pv_disk env i = DiskJson (doc_to_json (es_doc (foldl (apply_ev eenv) s (ops i))))"
  shows "(verdict_exit (pb_status r) = 0 \<longleftrightarrow> pb_status r = Proven)
     \<and> (pb_status r = Proven \<longrightarrow> in_status (pb_injection r) = 202
          \<and> (\<exists>i\<ge>1. \<exists>syn. WakeOk hk (pv_mint env) (pv_route env) syn \<in> set (ops i)))"
proof -
  obtain before j ls1 where a: "await_outcome env fuel hk (pv_mint env) before (pb_injection r)
       = Some (Inr (pb_status r, pb_detail r, pb_after r), j, ls1)"
    by (rule run_probe_result[OF assms(1)])
  have "in_status (pb_injection r) = 202 \<and> (\<exists>i\<ge>1. \<exists>syn. WakeOk hk (pv_mint env) (pv_route env) syn \<in> set (ops i))"
    if v: "pb_status r = Proven"
  proof -
    have acc: "inj_accepted (pb_injection r)"
      using a v by (auto simp: await_outcome_def injection_verdict_def split: if_splits)
    with a obtain i ls' where i: "i \<ge> 1" "proof_at env hk i = (Inr (pb_after r), ls')"
      and pv: "poll_verdict (pv_mint env) before (pb_after r) = Some (Proven, pb_detail r)"
      using await_loop_answer v by (fastforce simp: await_outcome_def)
    obtain d where d: "read_evidence (pv_path env) (pv_disk env i) = Some (d, ls')"
      "pb_after r = read_proof d hk (pv_route env)" by (rule proof_at_Inr[OF i(2)])
    have ok: "rw_last_ok_delivery (entry empty_route_wake (pv_route env)
        (aw_by_route (entry empty_agent_wake hk (dc_wakes d)))) = Some (pv_mint env)"
      using poll_verdict_Proven[OF pv] by (simp add: d(2) read_proof_def Let_def)
    then obtain w x where w: "map_of (dc_wakes d) hk = Some w" "map_of (aw_by_route w) (pv_route env) = Some x"
      "rw_last_ok_delivery x = Some (pv_mint env)"
      by (auto simp: entry_def empty_agent_wake_def empty_route_wake_def split: option.splits)
    have "doc_from_json (doc_to_json (es_doc (foldl (apply_ev eenv) s (ops i)))) = Some d"
      using d(1) by (auto simp: assms(2) assms(4) read_evidence_def load_doc_def)
    from ack_on_disk_recorded[OF assms(3) this w] i(1) acc show ?thesis by (auto simp: inj_accepted_def)
  qed
  moreover have "verdict_exit (pb_status r) = 0 \<longleftrightarrow> pb_status r = Proven"
    by (cases "pb_status r") (simp_all add: verdict_exit_def exit_unprovable_def)
  ultimately show ?thesis by blast
qed

subsection \<open>The wait ends\<close>

text \<open>
  The probe comes back. With a finite timeout and a clock that each poll's sleep
  advances by at least \<open>step\<close>, a run returns a result or an error within
  \<open>timeout / step\<close> polls.
\<close>

theorem probe_returns:
  assumes "pv_timeout env = Fin timeout" and "0 < step" and "timeout \<le> of_nat fuel * step" and "1 \<le> fuel"
    and "\<And>i. 1 \<le> i \<Longrightarrow> pv_clock env i + step \<le> pv_clock env (Suc i)"
  shows "\<exists>res. run_probe env fuel hk m = Some res"
proof -
  have clk: "pv_clock env 1 + of_nat n * step \<le> pv_clock env (Suc n)" for n
  proof (induction n)
    case (Suc n)
    with assms(5)[of "Suc n"] show ?case by (simp add: algebra_simps)
  qed simp
  obtain n where n: "fuel = Suc n" using assms(4) by (cases fuel) auto
  have "fl_le (Fin (pv_clock env 1 + timeout)) (Fin (pv_clock env (1 + n + 1)))"
    using clk[of fuel] assms(3) by (simp add: n)
  from await_loop_returns[OF this] have
    "await_loop env hk (pv_mint env) b (fl_add (pv_clock env 1) (pv_timeout env)) fuel 1 \<noteq> None" for b
    by (simp add: assms(1) n del: await_loop.simps)
  then have w: "await_outcome env fuel hk (pv_mint env) b i \<noteq> None" for b i by (simp add: await_outcome_def)
  have "run_probe env fuel hk m \<noteq> None"
    by (simp add: run_probe_def Let_def w split: prod.split sum.split option.split)
  then show ?thesis by simp
qed

text \<open>
  \<open>--timeout nan\<close> parses, and no clock reading is at or past a NaN deadline: while nothing
  is recorded, no fuel is enough.
\<close>

lemma nan_timeout_never_returns:
  assumes "pv_timeout env = NaN" and "inj_accepted i"
    and "\<And>k. \<exists>p ls. proof_at env hk k = (Inr p, ls) \<and> poll_verdict (pv_mint env) before p = None"
  shows "await_outcome env fuel hk (pv_mint env) before i = None"
  using await_loop_nan[OF assms(3)] assms(1,2) by (simp add: await_outcome_def)

subsection \<open>What is posted is what is verified\<close>

lemma probe_header_names:
  "py_lower ''Content-Type'' \<noteq> py_lower pr_signature_header" "py_lower ''Content-Length'' \<noteq> py_lower pr_signature_header"
  "py_lower ''Content-Type'' \<noteq> py_lower pr_delivery_header" "py_lower ''Content-Length'' \<noteq> py_lower pr_delivery_header"
  "py_lower pr_signature_header \<noteq> py_lower pr_delivery_header"
  "py_lower ''Content-Type'' \<noteq> py_lower pr_event_header" "py_lower ''Content-Length'' \<noteq> py_lower pr_event_header"
  "py_lower pr_signature_header \<noteq> py_lower pr_event_header" "py_lower pr_delivery_header \<noteq> py_lower pr_event_header"
  by code_simp+

lemma probe_headers:
  assumes "rq_headers rq = headers_for env body delivery"
  shows "header rq pr_signature_header = Some (hmac_prefix @ pv_hexdigest env (reveal (pv_secret env)) body)"
    and "header rq pr_delivery_header = Some delivery" and "header rq pr_event_header = Some wake_probe_event"
  using probe_header_names by (simp_all add: header_def assms headers_for_def)

lemma nonblank_member: "c \<in> set s \<Longrightarrow> \<not> is_space c \<Longrightarrow> nonblank s"
proof -
  assume c: "c \<in> set s" "\<not> is_space c"
  then have "c \<in> set (dropWhile is_space s)" by (induction s) auto
  with c(2) show "nonblank s"
    by (auto simp: nonblank_def py_strip_def py_rstrip_def py_lstrip_def dropWhile_eq_Nil_conv)
qed

lemma marker_nonblank: "is_marker m \<Longrightarrow> nonblank m"
proof -
  assume "is_marker m"
  then obtain n c where "match_marker m = Some (n, c)" by (auto simp: is_marker_def)
  then have "CHR ''B'' \<in> set m" using match_marker_shape by (fastforce simp: scheme_def)
  moreover have "\<not> is_space (CHR ''B'')" by code_simp
  ultimately show "nonblank m" by (rule nonblank_member)
qed

text \<open>
  C30. The probe's own request passes the probe route. Signed with the secret the daemon
  holds, what a run posts verifies there and, once the body is decoded, normalizes into the
  synthetic event of exactly this agent, this marker and the delivery id the run will look
  for in the evidence.
\<close>

theorem probe_request_accepted:
  assumes "rq = \<lparr>rq_headers = headers_for env (body_for hk m) (pv_mint env), rq_body = body_for hk m\<rparr>"
    and "loads (body_for hk m) = Loaded (JObj [(''harness_key'', JStr hk), (''marker'', JStr m)])"
    and "is_marker m" and "nonblank hk" and "nonblank (pv_mint env)"
  shows "\<exists>ev ls. pr_verify (pv_hexdigest env) rq (Some (reveal (pv_secret env))) = (Verified, [])
     \<and> pr_normalize loads rq st = (NormEvent ev, st, ls) \<and> synthetic ev
     \<and> ev_recipient ev = \<lparr>rec_by = ''harness_key'', rec_value = hk\<rparr>
     \<and> ev_wake_arg ev = m \<and> ev_delivery_id ev = pv_mint env"
proof -
  have h: "rq_headers rq = headers_for env (body_for hk m) (pv_mint env)" "rq_body rq = body_for hk m"
    by (simp_all add: assms(1))
  note hs = probe_headers[OF h(1)]
  have ne: "hk \<noteq> []" "m \<noteq> []" "pv_mint env \<noteq> []" "wake_probe_event \<noteq> []"
    using assms(4,5) marker_nonblank[OF assms(3)]
    by (auto simp: nonblank_def py_strip_def py_rstrip_def py_lstrip_def wake_probe_event_def)
  have b: "nonblank ''harness_key''" "nonblank ''probe''" by code_simp+
  have v: "pr_verify (pv_hexdigest env) rq (Some (reveal (pv_secret env))) = (Verified, [])"
    by (simp add: pr_verify_def verify_hmac_sha256_def hs h starts_with_def)
  have e: "\<exists>ev ls. pr_event [(''harness_key'', JStr hk), (''marker'', JStr m)] wake_probe_event (pv_mint env)
      = (NormEvent ev, ls) \<and> ev = \<lparr>ev_source = ''probe'', ev_kind = SyntheticProbe,
        ev_recipient = \<lparr>rec_by = ''harness_key'', rec_value = hk\<rparr>, ev_wake_arg = m,
        ev_delivery_id = pv_mint env, ev_origin = None, ev_occurred_at = None, ev_type = None\<rparr>"
    using ne b assms(3,4,5) marker_nonblank[OF assms(3)]
    by (simp add: pr_event_def pr_text_def jget_def mk_recipient_def mk_event_def require_def)
  then obtain ev ls where "pr_event [(''harness_key'', JStr hk), (''marker'', JStr m)] wake_probe_event (pv_mint env)
      = (NormEvent ev, ls)" "ev = \<lparr>ev_source = ''probe'', ev_kind = SyntheticProbe,
        ev_recipient = \<lparr>rec_by = ''harness_key'', rec_value = hk\<rparr>, ev_wake_arg = m,
        ev_delivery_id = pv_mint env, ev_origin = None, ev_occurred_at = None, ev_type = None\<rparr>" by blast
  with v ne show ?thesis
    by (simp add: pr_normalize_def hs h parse_json_object_def assms(2) or_else_def Let_def synthetic_def synthetic_kinds_def)
qed

subsection \<open>Concrete runs\<close>

text \<open>A daemon that answers 202 and has recorded the wake by the second reading.\<close>

definition demo_ops :: "nat \<Rightarrow> ev_op list" where
  "demo_ops i = (if i < 2 then [] else [WakeOk ''jt'' ''d7'' ''probe'' True])"

definition demo_probe_env :: probe_env where
  "demo_probe_env = \<lparr>pv_hexdigest = (\<lambda>_ _. ''abcd''), pv_secret = Secret ''s'', pv_path = Some ''/e'',
     pv_self_url = ''http://127.0.0.1'', pv_route = ''probe'', pv_timeout = Fin 300,
     pv_post = (\<lambda>_ _ _. Inr \<lparr>in_status = 202, in_stages = [], in_body = []\<rparr>),
     pv_disk = (\<lambda>i. DiskJson (doc_to_json (es_doc (foldl (apply_ev demo_ev_env) demo_store (demo_ops i))))),
     pv_clock = (\<lambda>n. of_nat n / 2), pv_mint = ''d7'', pv_now = ''t''\<rparr>"

lemma demo_marker_ok: "is_marker demo_marker"
  by code_simp

lemma demo_probe_proves:
  "(case run_probe demo_probe_env 3 ''jt'' demo_marker of
      Some (Inr r, _) \<Rightarrow> pb_status r = Proven | _ \<Rightarrow> False)"
  by code_simp

theorem probe_pass_is_recorded_witness:
  "\<exists>r ls i syn. run_probe demo_probe_env 3 ''jt'' demo_marker = Some (Inr r, ls) \<and> pb_status r = Proven
     \<and> verdict_exit (pb_status r) = 0 \<and> WakeOk ''jt'' ''d7'' ''probe'' syn \<in> set (demo_ops i)"
proof -
  obtain r ls where r: "run_probe demo_probe_env 3 ''jt'' demo_marker = Some (Inr r, ls)" "pb_status r = Proven"
    using demo_probe_proves by (auto split: option.splits prod.splits sum.splits)
  have "pv_path demo_probe_env = Some ''/e''" "es_doc demo_store = empty_doc" "pv_mint demo_probe_env = ''d7''"
    "pv_route demo_probe_env = ''probe''"
    "pv_disk demo_probe_env i = DiskJson (doc_to_json (es_doc (foldl (apply_ev demo_ev_env) demo_store (demo_ops i))))" for i
    by (simp_all add: demo_probe_env_def demo_store_def)
  from probe_pass_is_recorded[OF r(1) this(1,2) this(5)] this(3,4) r show ?thesis by auto
qed

theorem probe_returns_witness: "\<exists>res. run_probe demo_probe_env 600 ''jt'' demo_marker = Some res"
  by (rule probe_returns[where timeout = 300 and step = "1 / 2"]) (simp_all add: demo_probe_env_def field_simps)

theorem probe_request_accepted_witness:
  "\<exists>ev ls. pr_normalize (\<lambda>_. Loaded (JObj [(''harness_key'', JStr ''jt''), (''marker'', JStr demo_marker)]))
      \<lparr>rq_headers = headers_for demo_probe_env (body_for ''jt'' demo_marker) (pv_mint demo_probe_env),
       rq_body = body_for ''jt'' demo_marker\<rparr> () = (NormEvent ev, (), ls) \<and> ev_delivery_id ev = ''d7''"
proof -
  have n: "nonblank ''jt''" "nonblank (pv_mint demo_probe_env)" by code_simp+
  have "pv_mint demo_probe_env = ''d7''" by (simp add: demo_probe_env_def)
  with probe_request_accepted[OF refl refl demo_marker_ok n, where st = "()"] show ?thesis by metis
qed

end
