(* ===== verification/Claims_Props.thy ===== *)
theory Claims_Props
  imports Claims Config
begin

text \<open>
  What the manifests promise their reader: every pointer resolves in its own claim, no
  proof is shown that is not recorded, the edges are the routes that really reach the
  agent, subjects and claim names are unique, and a manifest's file stays in its directory.
\<close>

subsection \<open>Reading a manifest\<close>

definition field :: "json \<Rightarrow> string \<Rightarrow> json option" where
  "field j k = (case j of JObj f \<Rightarrow> map_of f k | _ \<Rightarrow> None)"

definition claims_of :: "json \<Rightarrow> json list" where
  "claims_of m = (case field m ''claims'' of Some (JList cs) \<Rightarrow> cs | _ \<Rightarrow> [])"

definition name_in :: "string \<Rightarrow> json \<Rightarrow> string" where
  "name_in k j = (case field j k of Some (JStr s) \<Rightarrow> s | _ \<Rightarrow> [])"

text \<open>The ledger's rule: a pointer's last segment is a field of the claim's own detail.\<close>

definition last_segment :: "string \<Rightarrow> string" where
  "last_segment s = rev (takeWhile (\<lambda>c. c \<noteq> CHR ''.'') (rev s))"

definition evidence_sound :: "json \<Rightarrow> bool" where
  "evidence_sound cl =
     (case field cl ''prove'' of
        None \<Rightarrow> False
      | Some p \<Rightarrow>
          if field p ''kind'' = Some (JStr ''evidence'')
          then (case (field p ''source'', field cl ''detail'', field cl ''evidence'') of
                  (Some (JStr src), Some d, Some e) \<Rightarrow>
                    (case field d (last_segment src) of
                       None \<Rightarrow> False | Some v \<Rightarrow> (e = JNull) = (v = JNull \<or> v = JStr []))
                | _ \<Rightarrow> False)
          else field p ''kind'' = Some (JStr ''probe''))"

lemma field_JObj [simp]: "field (JObj f) k = map_of f k"
  by (simp add: field_def)

lemma claim_fields [simp]:
  "field (claim_json n p e t d) ''prove'' = Some p" "field (claim_json n p e t d) ''evidence'' = Some e"
  "field (claim_json n p e t d) ''detail'' = Some d" "field (claim_json n p e t d) ''claim'' = Some (JStr n)"
  by (simp_all add: claim_json_def)

lemma manifest_fields [simp]: "claims_of (manifest s cs) = cs" "name_in ''subject'' (manifest s cs) = s"
  by (simp_all add: claims_of_def manifest_def name_in_def)

lemma takeWhile_stop: "\<forall>x\<in>set ys. P x \<Longrightarrow> \<not> P z \<Longrightarrow> takeWhile P (ys @ z # zs) = ys"
  by (induction ys) auto

lemma last_segment_pointer:
  assumes "CHR ''.'' \<notin> set fld"
  shows "last_segment (pointer path c fld) = fld"
proof -
  have "\<exists>xs. pointer path c fld = xs @ CHR ''.'' # fld"
  proof (cases path)
    case None
    show ?thesis by (rule exI[of _ "''(in-memory evidence, not persisted)#'' @ c"]) (simp add: pointer_def None)
  next
    case (Some p)
    show ?thesis by (rule exI[of _ "p @ ''#'' @ c"]) (simp add: pointer_def Some)
  qed
  then obtain xs where xs: "pointer path c fld = xs @ CHR ''.'' # fld" ..
  have "\<forall>x\<in>set (rev fld). x \<noteq> CHR ''.''" using assms by auto
  then have "takeWhile (\<lambda>c. c \<noteq> CHR ''.'') (rev fld @ CHR ''.'' # rev xs) = rev fld" by (rule takeWhile_stop) simp
  then show ?thesis by (simp add: last_segment_def xs)
qed

lemma evidence_soundI:
  assumes "CHR ''.'' \<notin> set fld" and "map_of d fld = Some (json_opt stamp)"
  shows "evidence_sound (claim_json n (prove_evidence (pointer path c fld)) (if_proven stamp f) t (JObj d))"
  using assms by (auto simp: evidence_sound_def prove_evidence_def last_segment_pointer if_proven_def json_opt_def
      split: option.splits)

lemma probe_sound: "evidence_sound (claim_json n (prove_probe c) e t d)"
  by (simp add: evidence_sound_def prove_probe_def)

lemma route_scalars_ok_at: "map_of (route_scalars p) ''last_ok_at'' = Some (json_opt (proven_at p))"
  by (cases p) (simp_all add: route_scalars_def proven_at_def json_opt_def)

lemma agent_manifests_Inr:
  "agent_manifests now i f as = Inr ms \<Longrightarrow> list_all2 (\<lambda>a m. \<exists>t. f a t = Inr m) as ms"
proof (induction now i f as arbitrary: ms rule: agent_manifests.induct)
  case (2 now i f a as)
  then show ?case by (cases "agent_manifests now (Suc i) f as") (auto split: sum.splits)
qed simp

lemma agent_manifest_Inr:
  assumes "agent_manifest a c reg ev lenv lock_dir t path = Inr m"
  obtains lock where "m = manifest (''agent:'' @ harness_key a)
     (let w = entry empty_agent_wake (harness_key a) (dc_wakes ev); edges = edges_of a c reg w in
        [wake_edge_claim a w edges lock path]
         @ map (\<lambda>rt. route_wake_edge_claim a w (rt_name rt) (rt_kind rt) path) (armed_routes a c reg False)
         @ map (\<lambda>rt. synthetic_claim a w rt path) (armed_routes a c reg True))"
proof -
  have e: "concat (map (\<lambda>e. case e of RouteEdge name kind p \<Rightarrow> [route_wake_edge_claim a w name kind path] | QueueEdge n \<Rightarrow> [])
      (edges_of a c reg w)) = map (\<lambda>rt. route_wake_edge_claim a w (rt_name rt) (rt_kind rt) path) (armed_routes a c reg False)" for w
    by (simp add: edges_of_def o_def)
  from assms that show thesis
    by (cases "wake_lock_detail lenv lock_dir t a") (auto simp: agent_manifest_def Let_def e)
qed

lemma build_manifests_Inr:
  assumes "build_manifests c reg ev lenv lock_dir now host hostname path admin handlers = Inr ms"
  obtains grammar as where
    "ms = manifest (''box:'' @ or_else host hostname) ([freeze_claim ev lock_dir admin,
         claim_json (''log-grammar:'' @ line_class) (prove_probe (admin @ '' probe log-grammar '' @ line_class @ '' --json''))
           (JStr (''journal:'' @ journal_id)) log_grammar_ttl grammar]
       @ map (\<lambda>r. delivery_sink_claim r (map_of (dc_sinks ev) r) path (r \<in> set (synthetic_route_names reg)))
           (sort (cf_enabled c))) # as"
    "list_all2 (\<lambda>a m. \<exists>t. agent_manifest a c reg ev lenv lock_dir t path = Inr m)
       (sort_key harness_key (unique_agents c)) as"
proof -
  from assms obtain g as where g: "manifest_detail handlers = Inr g"
    and as: "agent_manifests now 0 (\<lambda>a t. agent_manifest a c reg ev lenv lock_dir t path)
       (sort_key harness_key (unique_agents c)) = Inr as"
    and ms: "ms = manifest (''box:'' @ or_else host hostname) ([freeze_claim ev lock_dir admin,
         claim_json (''log-grammar:'' @ line_class) (prove_probe (admin @ '' probe log-grammar '' @ line_class @ '' --json''))
           (JStr (''journal:'' @ journal_id)) log_grammar_ttl g]
       @ map (\<lambda>r. delivery_sink_claim r (map_of (dc_sinks ev) r) path (r \<in> set (synthetic_route_names reg)))
           (sort (cf_enabled c))) # as"
    by (cases "manifest_detail handlers";
        cases "agent_manifests now 0 (\<lambda>a t. agent_manifest a c reg ev lenv lock_dir t path)
          (sort_key harness_key (unique_agents c))")
      (auto simp: build_manifests_def box_manifest_def log_grammar_claim_def)
  show thesis by (rule that[OF ms agent_manifests_Inr[OF as]])
qed

subsection \<open>Every pointer resolves, and no proof is invented\<close>

lemma agent_claims_sound:
  assumes "agent_manifest a c reg ev lenv lock_dir t path = Inr m"
  shows "\<forall>cl\<in>set (claims_of m). evidence_sound cl"
proof -
  obtain lock where m: "m = manifest (''agent:'' @ harness_key a)
     (let w = entry empty_agent_wake (harness_key a) (dc_wakes ev); edges = edges_of a c reg w in
        [wake_edge_claim a w edges lock path]
         @ map (\<lambda>rt. route_wake_edge_claim a w (rt_name rt) (rt_kind rt) path) (armed_routes a c reg False)
         @ map (\<lambda>rt. synthetic_claim a w rt path) (armed_routes a c reg True))"
    by (rule agent_manifest_Inr[OF assms])
  have "evidence_sound (wake_edge_claim a w es lock path)" for w es
    unfolding wake_edge_claim_def by (rule evidence_soundI) (simp_all add: wake_scalars_def)
  moreover have "evidence_sound (route_wake_edge_claim a w n k path)" for w n k
    unfolding route_wake_edge_claim_def row_pointer_def Let_def
    by (rule evidence_soundI) (simp_all add: route_scalars_ok_at)
  moreover have "evidence_sound (synthetic_claim a w rt path)" for w rt
    unfolding synthetic_claim_def row_pointer_def Let_def
    by (rule evidence_soundI) (simp_all add: route_scalars_ok_at)
  ultimately show ?thesis by (auto simp: m Let_def)
qed

text \<open>
  C32. The ledger can resolve and believe every claim. Whatever the evidence, in each emitted
  claim that points at the evidence the pointer's last segment is a field of the claim's own
  detail, and the claim shows a proof exactly when that field holds a timestamp.
\<close>

theorem claims_evidence_sound:
  assumes "build_manifests c reg ev lenv lock_dir now host hostname path admin handlers = Inr ms"
  shows "\<forall>m\<in>set ms. \<forall>cl\<in>set (claims_of m). evidence_sound cl"
proof -
  obtain g as where ms: "ms = manifest (''box:'' @ or_else host hostname) ([freeze_claim ev lock_dir admin,
         claim_json (''log-grammar:'' @ line_class) (prove_probe (admin @ '' probe log-grammar '' @ line_class @ '' --json''))
           (JStr (''journal:'' @ journal_id)) log_grammar_ttl g]
       @ map (\<lambda>r. delivery_sink_claim r (map_of (dc_sinks ev) r) path (r \<in> set (synthetic_route_names reg)))
           (sort (cf_enabled c))) # as"
    and as: "list_all2 (\<lambda>a m. \<exists>t. agent_manifest a c reg ev lenv lock_dir t path = Inr m)
       (sort_key harness_key (unique_agents c)) as"
    by (rule build_manifests_Inr[OF assms])
  have "\<forall>cl\<in>set (claims_of m). evidence_sound cl" if "m \<in> set as" for m
    using as that agent_claims_sound by (fastforce simp: list_all2_conv_all_nth in_set_conv_nth)
  moreover have "evidence_sound (delivery_sink_claim r s path syn)" for r s syn
    unfolding delivery_sink_claim_def Let_def
    by (rule evidence_soundI) (simp_all add: sink_scalars_def)
  moreover have "evidence_sound (freeze_claim ev lock_dir admin)"
    by (simp add: freeze_claim_def Let_def probe_sound)
  ultimately show ?thesis by (auto simp: ms probe_sound)
qed

subsection \<open>Subjects and names\<close>

lemma unique_from_keys:
  "distinct (map harness_key (unique_from ks as)) \<and> set (map harness_key (unique_from ks as)) \<inter> set ks = {}"
  by (induction ks as rule: unique_from.induct) auto

lemma sorted_routes_names:
  assumes "registry_distinct reg"
  shows "map rt_name (sorted_routes reg) = sort (map fst reg)"
proof -
  have "rt_name (the (map_of reg n)) = n" if "n \<in> fst ` set reg" for n
    using that assms unfolding registry_distinct_def
    by (metis (mono_tags, lifting) case_prodD map_of_SomeD map_of_eq_None_iff not_None_eq option.sel)
  then have "map (rt_name \<circ> (\<lambda>n. the (map_of reg n))) (sort (map fst reg)) = sort (map fst reg)"
    by (intro map_idI) simp
  then show ?thesis by (simp add: sorted_routes_def route_names_def)
qed

lemma armed_distinct: "registry_distinct reg \<Longrightarrow> distinct (map rt_name (armed_routes a c reg syn))"
proof -
  assume "registry_distinct reg"
  then have "distinct (map rt_name (sorted_routes reg))"
    by (simp add: sorted_routes_names) (simp add: registry_distinct_def)
  then show ?thesis unfolding armed_routes_def by (rule distinct_map_filter)
qed

lemma claim_name [simp]: "name_in ''claim'' (claim_json n p e t d) = n"
  by (simp add: name_in_def)

lemma agent_claim_names:
  assumes "agent_manifest a c reg ev lenv lock_dir t path = Inr m" and "registry_distinct reg"
  shows "distinct (map (name_in ''claim'') (claims_of m)) \<and> name_in ''subject'' m = ''agent:'' @ harness_key a"
proof -
  obtain lock where m: "m = manifest (''agent:'' @ harness_key a)
     (let w = entry empty_agent_wake (harness_key a) (dc_wakes ev); edges = edges_of a c reg w in
        [wake_edge_claim a w edges lock path]
         @ map (\<lambda>rt. route_wake_edge_claim a w (rt_name rt) (rt_kind rt) path) (armed_routes a c reg False)
         @ map (\<lambda>rt. synthetic_claim a w rt path) (armed_routes a c reg True))"
    by (rule agent_manifest_Inr[OF assms(1)])
  have "inj_on ((@) p) A" for p :: string and A by (simp add: inj_on_def)
  then have d: "distinct (map (\<lambda>rt. p @ rt_name rt) (armed_routes a c reg syn))" for p syn
    using armed_distinct[OF assms(2), of a c syn] by (simp add: distinct_map comp_inj_on_iff[symmetric] inj_on_def)
  have n: "name_in ''claim'' (wake_edge_claim a w es lock path) = ''wake-edge:webhook-route''"
    "name_in ''claim'' (route_wake_edge_claim a w nm k path) = ''wake-edge:webhook-route:'' @ nm"
    "name_in ''claim'' (synthetic_claim a w rt path) = ''wake-edge:synthetic:'' @ rt_name rt" for w es nm k and rt :: "'b route"
    by (simp_all add: wake_edge_claim_def route_wake_edge_claim_def synthetic_claim_def Let_def)
  show ?thesis using d[of "''wake-edge:webhook-route:''" False] d[of "''wake-edge:synthetic:''" True]
    by (auto simp: m Let_def n o_def)
qed

text \<open>
  The manifests' subjects and claims are keys. One manifest is the box's and one is each
  harness instance's, no subject occurs twice, and within a manifest no claim name does.
\<close>

theorem claims_keyed:
  assumes "build_manifests c reg ev lenv lock_dir now host hostname path admin handlers = Inr ms"
    and "registry_distinct reg" and "distinct (cf_enabled c)"
  shows "map (name_in ''subject'') ms = (''box:'' @ or_else host hostname)
        # map (\<lambda>a. ''agent:'' @ harness_key a) (sort_key harness_key (unique_agents c))
     \<and> distinct (map (name_in ''subject'') ms) \<and> (\<forall>m\<in>set ms. distinct (map (name_in ''claim'') (claims_of m)))"
proof -
  obtain g as where ms: "ms = manifest (''box:'' @ or_else host hostname) ([freeze_claim ev lock_dir admin,
         claim_json (''log-grammar:'' @ line_class) (prove_probe (admin @ '' probe log-grammar '' @ line_class @ '' --json''))
           (JStr (''journal:'' @ journal_id)) log_grammar_ttl g]
       @ map (\<lambda>r. delivery_sink_claim r (map_of (dc_sinks ev) r) path (r \<in> set (synthetic_route_names reg)))
           (sort (cf_enabled c))) # as"
    and as: "list_all2 (\<lambda>a m. \<exists>t. agent_manifest a c reg ev lenv lock_dir t path = Inr m)
       (sort_key harness_key (unique_agents c)) as"
    by (rule build_manifests_Inr[OF assms(1)])
  have s: "map (name_in ''subject'') as = map (\<lambda>a. ''agent:'' @ harness_key a) (sort_key harness_key (unique_agents c))"
    using as agent_claim_names[OF _ assms(2)] by (auto simp: list_all2_conv_all_nth intro!: nth_equalityI)
  have f: "name_in ''claim'' (freeze_claim ev lock_dir admin) = ''freeze-surface:readable''"
    "name_in ''claim'' (delivery_sink_claim r k path syn) = ''delivery-sink:'' @ r" for r k syn
    by (simp_all add: freeze_claim_def delivery_sink_claim_def Let_def)
  have "distinct (map harness_key (sort_key harness_key (unique_agents c)))"
    using unique_from_keys[of "[]" "map snd (cf_agents c)"] by (simp add: unique_agents_def distinct_map) 
  then have "distinct (map (\<lambda>a. ''agent:'' @ harness_key a) (sort_key harness_key (unique_agents c)))"
    by (simp add: distinct_map inj_on_def)
  moreover have "distinct (map (\<lambda>r. ''delivery-sink:'' @ r) (sort (cf_enabled c)))"
    using assms(3) by (simp add: distinct_map inj_on_def)
  moreover have "\<forall>m\<in>set as. distinct (map (name_in ''claim'') (claims_of m))"
    using as agent_claim_names[OF _ assms(2)] by (fastforce simp: list_all2_conv_all_nth in_set_conv_nth)
  ultimately show ?thesis using s by (auto simp: ms f o_def line_class_def)
qed

subsection \<open>The edges\<close>

text \<open>Some recipient a route of this kind can name resolves to the agent.\<close>

definition reachable_by :: "config \<Rightarrow> agent \<Rightarrow> string \<Rightarrow> bool" where
  "reachable_by c a k \<longleftrightarrow> (\<exists>v. agent_for_recipient c \<lparr>rec_by = k, rec_value = v\<rparr> = Inr a \<and> (k = ''repo'' \<longrightarrow> is_repo_key v))"

lemma resolvable_iff:
  assumes "registry_ok c" and "map_of (cf_agents c) (ag_key a) = Some a"
  shows "k \<in> set (resolvable_by c a) \<longleftrightarrow> reachable_by c a k"
proof -
  note ok = assms(1)[unfolded registry_ok_def]
  have "agent_for_recipient c \<lparr>rec_by = ''repo'', rec_value = v\<rparr> = Inr a \<longleftrightarrow> v = ag_key a" for v
  proof -
    have "map_of (cf_agents c) v = Some a \<longleftrightarrow> v = ag_key a" using ok assms(2) by blast
    then show ?thesis by (cases "map_of (cf_agents c) v") (auto simp: agent_for_recipient_def agent_for_def)
  qed
  then have repo: "reachable_by c a ''repo'' \<longleftrightarrow> is_repo_key (ag_key a)" by (simp add: reachable_by_def)
  have uuid: "reachable_by c a ''recipient_uuid'' \<longleftrightarrow> the_uuid a \<noteq> [] \<and> map_of (cf_by_recipient c) (the_uuid a) = Some a"
  proof
    assume "reachable_by c a ''recipient_uuid''"
    then obtain v where v: "map_of (cf_by_recipient c) v = Some a"
      by (auto simp: reachable_by_def agent_for_recipient_def split: option.splits)
    with ok have "the_uuid a = v" "ag_wake_kind a = Harness" "agent_ok a" using assms(2) by blast+
    then have "nonblank v" by (simp add: agent_ok_def)
    then show "the_uuid a \<noteq> [] \<and> map_of (cf_by_recipient c) (the_uuid a) = Some a"
      using v \<open>the_uuid a = v\<close> nonblank_nonempty by blast
  qed (auto simp: reachable_by_def agent_for_recipient_def split: option.splits)
  have key: "reachable_by c a ''harness_key'' \<longleftrightarrow> map_of (cf_by_harness c) (harness_key a) = Some a"
    using ok by (auto simp: reachable_by_def agent_for_recipient_def split: option.splits)
  have other: "reachable_by c a k \<Longrightarrow> k \<in> {''repo'', ''recipient_uuid'', ''harness_key''}"
    by (auto simp: reachable_by_def agent_for_recipient_def split: if_splits)
  show ?thesis
  proof (cases "k \<in> {''repo'', ''recipient_uuid'', ''harness_key''}")
    case True
    then show ?thesis using repo uuid key assms(2) by (auto simp: resolvable_by_def)
  next
    case False
    then show ?thesis using other by (auto simp: resolvable_by_def)
  qed
qed

lemma sorted_routes_iff:
  "registry_distinct reg \<Longrightarrow> rt \<in> set (sorted_routes reg) \<longleftrightarrow> map_of reg (rt_name rt) = Some rt"
proof -
  assume r: "registry_distinct reg"
  then have d: "distinct (map fst reg)" "\<And>n t. (n, t) \<in> set reg \<Longrightarrow> rt_name t = n"
    by (auto simp: registry_distinct_def)
  have "set (sorted_routes reg) = (\<lambda>n. the (map_of reg n)) ` (fst ` set reg)"
    by (simp add: sorted_routes_def route_names_def)
  also have "\<dots> = (\<lambda>p. the (map_of reg (fst p))) ` set reg" by (rule image_image)
  also have "\<dots> = snd ` set reg" by (rule image_cong) (auto simp: d(1))
  finally have "rt \<in> set (sorted_routes reg) \<longleftrightarrow> (\<exists>n. (n, rt) \<in> set reg)" by force
  also have "\<dots> \<longleftrightarrow> (rt_name rt, rt) \<in> set reg" using d(2) by blast
  finally show ?thesis using d(1) by simp
qed

text \<open>
  C33. The listed edges are the ways the agent can be woken. For a registered agent of a
  loaded configuration, a webhook edge is in its manifest exactly when a real route of that
  name is registered and enabled and some recipient of its kind resolves to this agent, and
  it carries that route's own row; so no edges and an empty queue mean nothing can wake it.
\<close>

theorem claims_edges_exact:
  assumes "load_config read_file loads env = Inr c" and "object_keys_distinct loads"
    and "map_of (cf_agents c) k = Some a" and "registry_distinct reg"
  shows "RouteEdge n kind p \<in> set (edges_of a c reg w) \<longleftrightarrow>
     (\<exists>rt. get_route reg n = Inr rt \<and> \<not> rt_synthetic rt \<and> rt_kind rt = kind \<and> n \<in> set (cf_enabled c)
        \<and> reachable_by c a kind \<and> p = map_of (aw_by_route w) n)"
proof -
  have ok: "registry_ok c" by (rule load_config_registry_ok[OF assms(1,2)])
  have a: "map_of (cf_agents c) (ag_key a) = Some a" using registry_agent[OF ok assms(3)] assms(3) by simp
  have g: "get_route reg n = Inr rt \<longleftrightarrow> rt \<in> set (sorted_routes reg) \<and> rt_name rt = n" for rt
  proof -
    have "map_of reg n = Some rt \<Longrightarrow> rt_name rt = n"
      using assms(4) map_of_SomeD by (fastforce simp: registry_distinct_def)
    then show ?thesis using sorted_routes_iff[OF assms(4), of rt] by (auto simp: get_route_def split: option.splits)
  qed
  have q: "RouteEdge n kind p \<notin> set (if aw_queued w > 0 then [QueueEdge (aw_queued w)] else [])" by simp
  have "RouteEdge n kind p \<in> set (edges_of a c reg w) \<longleftrightarrow>
     (\<exists>rt\<in>set (armed_routes a c reg False). n = rt_name rt \<and> kind = rt_kind rt \<and> p = map_of (aw_by_route w) (rt_name rt))"
    using q by (auto simp: edges_of_def)
  also have "\<dots> \<longleftrightarrow> (\<exists>rt. get_route reg n = Inr rt \<and> \<not> rt_synthetic rt \<and> rt_kind rt = kind \<and> n \<in> set (cf_enabled c)
        \<and> reachable_by c a kind \<and> p = map_of (aw_by_route w) n)"
    unfolding g by (auto simp: armed_routes_def resolvable_iff[OF ok a])
  finally show ?thesis .
qed

subsection \<open>The files\<close>

lemma collapse_unsafe_chars: "c \<in> set (collapse_unsafe s) \<Longrightarrow> filename_char c"
proof (induction s rule: collapse_unsafe.induct)
  case (2 d s)
  have "filename_char (CHR ''-'')" by (simp add: filename_char_def)
  with 2 show ?case by (auto split: if_splits list.splits)
qed simp

lemma collapse_unsafe_safe: "list_all filename_char s \<Longrightarrow> collapse_unsafe s = s"
  by (induction s rule: collapse_unsafe.induct) (auto split: list.splits)

lemma manifest_filename_agent:
  "name \<noteq> [] \<Longrightarrow> manifest_filename (manifest (''agent:'' @ name) cs) = Inr (component @ ''@'' @ collapse_unsafe name @ ''.json'')"
  "name \<noteq> [] \<Longrightarrow> manifest_filename (manifest (''box:'' @ name) cs) = Inr (component @ ''.json'')"
  by (simp_all add: manifest_filename_def manifest_def Let_def)

text \<open>
  A manifest is written into its own directory and under the name the contract pins. A
  file name never holds a path separator and is no dot name; a slug of file-name characters
  is kept as it is, so two such agents never share a file, nor one with the box.
\<close>

theorem manifest_file_safe:
  "(case manifest_filename m of
     Inl _ \<Rightarrow> True
   | Inr f \<Rightarrow> CHR 0x2F \<notin> set f \<and> starts_with component f \<and> f \<noteq> ''.'' \<and> f \<noteq> ''..'')
   \<and> (list_all filename_char slug \<and> slug \<noteq> [] \<longrightarrow>
     manifest_filename (manifest (''agent:'' @ slug) cs) = Inr (''basecradle-router@'' @ slug @ ''.json''))"
proof
  have s: "CHR 0x2F \<notin> set (collapse_unsafe n)" for n
    using collapse_unsafe_chars[of "CHR 0x2F" n] by (auto simp: filename_char_def is_alnum_ascii_def Let_def)
  show "case manifest_filename m of Inl _ \<Rightarrow> True
   | Inr f \<Rightarrow> CHR 0x2F \<notin> set f \<and> starts_with component f \<and> f \<noteq> ''.'' \<and> f \<noteq> ''..''"
    using s by (auto simp: manifest_filename_def Let_def component_def starts_with_def)
  show "list_all filename_char slug \<and> slug \<noteq> [] \<longrightarrow>
     manifest_filename (manifest (''agent:'' @ slug) cs) = Inr (''basecradle-router@'' @ slug @ ''.json'')"
    using manifest_filename_agent(1)[of slug cs] by (simp add: collapse_unsafe_safe component_def)
qed

text \<open>
  An entry that shares its OS user with an earlier one has no manifest of its own, and its
  edges are in no other: only the first entry's tags are asked for.
\<close>

definition demo_shared :: "wake_kind \<Rightarrow> string \<Rightarrow> agent" where
  "demo_shared kind key = \<lparr>ag_key = key, ag_os_user = ''jt'', ag_clone_path = ''/j'', ag_wake_kind = kind,
     ag_bot_slug = None, ag_recipient_uuid = (if kind = Harness then Some ''u1'' else None),
     ag_wake_bin = (if kind = Harness then Some ''/bin/w'' else None)\<rparr>"

lemma shared_instance_edges_lost:
  "let a = demo_shared Harness ''jt''; b = demo_shared Claude ''acme/site'';
       c = add_agent ''acme/site'' b (add_agent ''jt'' a (empty_config\<lparr>cf_by_recipient := [(''u1'', a)]\<rparr>))
   in unique_agents c = [a] \<and> agent_for_recipient c \<lparr>rec_by = ''repo'', rec_value = ''acme/site''\<rparr> = Inr b
      \<and> ''repo'' \<notin> set (resolvable_by c a) \<and> ''repo'' \<in> set (resolvable_by c b)"
  by code_simp

subsection \<open>Concrete manifests\<close>

text \<open>Outside the daemon the emitter fails only where inspecting a lock raises.\<close>

lemma build_manifests_total:
  assumes "\<And>a t. \<exists>d. inspect lenv lock_dir t (harness_key a) = Inr d" and "\<not> (\<exists>d\<in>set handlers. d)"
  shows "\<exists>ms. build_manifests c reg ev lenv lock_dir now host hostname path admin handlers = Inr ms"
proof -
  obtain g where g: "manifest_detail handlers = Inr g"
    using assms(2) by (simp add: manifest_detail_def trip_message_def capture_trip_line)
  have m: "\<exists>m. agent_manifest a c reg ev lenv lock_dir t path = Inr m" for a t
    using assms(1)[of t a] by (auto simp: agent_manifest_def wake_lock_detail_def Let_def)
  have "\<exists>ms. agent_manifests now i (\<lambda>a t. agent_manifest a c reg ev lenv lock_dir t path) as = Inr ms" for i as
  proof (induction as arbitrary: i)
    case (Cons a as)
    obtain ms where "agent_manifests now (Suc i) (\<lambda>a t. agent_manifest a c reg ev lenv lock_dir t path) as = Inr ms"
      using Cons.IH by blast
    with m[of a "now i"] show ?case by auto
  qed simp
  then obtain ms where "agent_manifests now 0 (\<lambda>a t. agent_manifest a c reg ev lenv lock_dir t path)
      (sort_key harness_key (unique_agents c)) = Inr ms" by blast
  then show ?thesis by (simp add: build_manifests_def box_manifest_def log_grammar_claim_def g)
qed

definition demo_claims_config :: config where
  "demo_claims_config = empty_config\<lparr>cf_agents := [(''acme/site'', demo_shared Claude ''acme/site'')],
     cf_enabled := [''github'', ''probe'']\<rparr>"

definition demo_locks :: lock_env where
  "demo_locks = \<lparr>le_read = (\<lambda>_. FileMissing), le_loads = (\<lambda>_. DecodeError []), le_iso = (\<lambda>_. IsoInvalid),
     le_isoformat = (\<lambda>_. [])\<rparr>"

abbreviation demo_build :: "string + json list" where
  "demo_build \<equiv> build_manifests demo_claims_config ([] :: unit registry) empty_doc demo_locks ''/l'' int None ''box1'' (Some ''/e'') ''/a'' []"

lemma demo_builds: "\<exists>ms. demo_build = Inr ms"
  by (rule build_manifests_total) (simp_all add: inspect_def demo_locks_def)

theorem claims_evidence_sound_witness:
  "\<exists>ms. demo_build = Inr ms \<and> (\<forall>m\<in>set ms. \<forall>cl\<in>set (claims_of m). evidence_sound cl)"
  using demo_builds claims_evidence_sound by blast

theorem claims_keyed_witness:
  "\<exists>ms. demo_build = Inr ms \<and> map (name_in ''subject'') ms = [''box:box1'', ''agent:jt'']"
proof -
  obtain ms where b: "demo_build = Inr ms" using demo_builds by blast
  have r: "registry_distinct ([] :: unit registry)" "distinct (cf_enabled demo_claims_config)"
    by (simp_all add: registry_distinct_def demo_claims_config_def)
  have "unique_agents demo_claims_config = [demo_shared Claude ''acme/site'']"
    by (simp add: unique_agents_def demo_claims_config_def)
  with claims_keyed[OF b r] b show ?thesis by (auto simp: or_else_def harness_key_def demo_shared_def)
qed

definition demo_github :: "unit registry" where
  "demo_github = [(''github'', (probe_route (\<lambda>_ _. []) demo_probe_loads)
     \<lparr>rt_name := ''github'', rt_kind := ''repo'', rt_synthetic := False\<rparr>)]"

theorem claims_edges_exact_witness:
  "\<exists>c a. load_config (\<lambda>p. Contents p) demo_loads demo_env = Inr c \<and> map_of (cf_agents c) ''acme/site'' = Some a
     \<and> RouteEdge ''github'' ''repo'' None \<in> set (edges_of a c demo_github empty_agent_wake)"
proof -
  obtain c where c: "load_config (\<lambda>p. Contents p) demo_loads demo_env = Inr c"
    "map fst (cf_agents c) = [''acme/site'', ''jt'']" by (rule demo_config)
  then have "''acme/site'' \<in> fst ` set (cf_agents c)" by (metis list.set_intros(1) set_map)
  then obtain a where a: "map_of (cf_agents c) ''acme/site'' = Some a"
    by (metis map_of_eq_None_iff not_None_eq)
  have k: "is_repo_key ''acme/site''" by code_simp
  have "agent_for_recipient c \<lparr>rec_by = ''repo'', rec_value = ''acme/site''\<rparr> = Inr a"
    using a by (simp add: agent_for_recipient_def agent_for_def)
  with k have r: "reachable_by c a ''repo''" by (auto simp: reachable_by_def)
  have e: "cf_enabled c = [''github'']"
    using c(1) by (auto simp: load_config_def demo_env_def Let_def split: sum.splits)
  have d: "registry_distinct demo_github" by (simp add: demo_github_def registry_distinct_def)
  have g: "\<exists>rt. get_route demo_github ''github'' = Inr rt \<and> \<not> rt_synthetic rt \<and> rt_kind rt = ''repo''"
    by (simp add: demo_github_def get_route_def)
  show ?thesis
    using claims_edges_exact[OF c(1) demo_loads_distinct a d, of "''github''" "''repo''" None empty_agent_wake] c(1) a r e g
    by (auto simp: empty_agent_wake_def)
qed

theorem manifest_file_safe_witness:
  "manifest_filename (manifest (''agent:'' @ ''jt'') []) = Inr ''basecradle-router@jt.json''"
proof -
  have "list_all filename_char ''jt''" by code_simp
  with manifest_file_safe[of JNull "''jt''" "[]"] show ?thesis by simp
qed

end
