(* ===== verification/Cli_Args.thy ===== *)
theory Cli_Args
  imports Cli Claims_Props
begin

text \<open>
  \<open>_parser\<close> of \<open>__main__.py\<close>: which argument strings are which command. The declarations
  are the tables below; the reading is \<open>argparse\<close>'s on the command lines it treats alike in
  every Python the package admits: the words of a command, then its options by their full
  names, each valued option followed by a value that does not start with a dash. Everything
  else, an abbreviation, \<open>--option=value\<close>, a positional after an option or a help request,
  is \<open>None\<close> here, left to \<open>argparse\<close>. The parsing by \<open>float()\<close> is a parameter.
\<close>

subsection \<open>Declarations\<close>

text \<open>What \<open>parse_args\<close> comes to: a namespace with its handler, or a usage error, exit code 2.\<close>

datatype parse_answer = Parsed command | UsageError

definition default_timeout :: pyfloat where "default_timeout = Fin 300"

text \<open>A leaf parser: its switches, its valued options and whether it takes one optional word.\<close>

record leaf_parser =
  lp_switches :: "string list"
  lp_valued :: "string list"
  lp_word :: bool

definition claims_parser :: leaf_parser where
  "claims_parser = \<lparr>lp_switches = [], lp_valued = [''--out-dir'', ''--host''], lp_word = False\<rparr>"

definition freeze_parser :: leaf_parser where
  "freeze_parser = \<lparr>lp_switches = [''--json''], lp_valued = [], lp_word = False\<rparr>"

definition wake_parser :: leaf_parser where
  "wake_parser = \<lparr>lp_switches = [''--json''], lp_valued = [''--agent'', ''--timeout''], lp_word = False\<rparr>"

definition grammar_parser :: leaf_parser where
  "grammar_parser = \<lparr>lp_switches = [''--json''], lp_valued = [], lp_word = True\<rparr>"

definition evidence_parser :: leaf_parser where
  "evidence_parser = \<lparr>lp_switches = [], lp_valued = [], lp_word = False\<rparr>"

subsection \<open>Reading\<close>

type_synonym namespace = "(string \<times> string) list"

definition plain_word :: "string \<Rightarrow> bool" where
  "plain_word s = (s \<noteq> [] \<and> hd s \<noteq> CHR ''-'')"

text \<open>The options after the words; a later one overrides an earlier.\<close>

fun read_options :: "leaf_parser \<Rightarrow> string list \<Rightarrow> namespace \<Rightarrow> namespace option" where
  "read_options lp [] ns = Some ns"
| "read_options lp (t # ts) ns =
     (if t \<in> set (lp_switches lp) then read_options lp ts ((t, []) # ns)
      else if t \<in> set (lp_valued lp)
        then (case ts of
            [] \<Rightarrow> None
          | v # us \<Rightarrow> if plain_word v then read_options lp us ((t, v) # ns) else None)
      else None)"

definition read_leaf :: "leaf_parser \<Rightarrow> string list \<Rightarrow> (string option \<times> namespace) option" where
  "read_leaf lp ts = (case ts of
       t # us \<Rightarrow> if lp_word lp \<and> plain_word t then map_option (\<lambda>ns. (Some t, ns)) (read_options lp us [])
                else map_option (\<lambda>ns. (None, ns)) (read_options lp ts [])
     | [] \<Rightarrow> Some (None, []))"

definition switched :: "string \<Rightarrow> namespace \<Rightarrow> bool" where
  "switched t ns = (map_of ns t \<noteq> None)"

definition parse_claims :: "string list \<Rightarrow> parse_answer option" where
  "parse_claims ts = map_option (\<lambda>(_, ns). Parsed (CmdClaims (map_of ns ''--out-dir'') (map_of ns ''--host'')))
     (read_leaf claims_parser ts)"

definition parse_freeze :: "string list \<Rightarrow> parse_answer option" where
  "parse_freeze ts = map_option (\<lambda>(_, ns). Parsed (CmdFreeze (switched ''--json'' ns))) (read_leaf freeze_parser ts)"

text \<open>Every \<open>--timeout\<close> is converted as it is met; \<open>--agent\<close> is required.\<close>

definition parse_wake :: "(string \<Rightarrow> pyfloat option) \<Rightarrow> string list \<Rightarrow> parse_answer option" where
  "parse_wake number ts = map_option (\<lambda>(_, ns).
     (let timeouts = map (number \<circ> snd) (filter (\<lambda>e. fst e = ''--timeout'') ns)
      in if None \<in> set timeouts then UsageError
         else (case map_of ns ''--agent'' of
             None \<Rightarrow> UsageError
           | Some slug \<Rightarrow> Parsed (CmdProbeWake slug (switched ''--json'' ns)
               (case timeouts of Some x # _ \<Rightarrow> x | _ \<Rightarrow> default_timeout))))) (read_leaf wake_parser ts)"

definition parse_grammar :: "string list \<Rightarrow> parse_answer option" where
  "parse_grammar ts = map_option (\<lambda>(w, ns).
     Parsed (CmdLogGrammar (case w of None \<Rightarrow> line_class | Some c \<Rightarrow> c) (switched ''--json'' ns)))
     (read_leaf grammar_parser ts)"

definition parse_evidence :: "string list \<Rightarrow> parse_answer option" where
  "parse_evidence ts = map_option (\<lambda>_. Parsed CmdEvidence) (read_leaf evidence_parser ts)"

text \<open>A required subcommand: none is a usage error, and so is a word that names none.\<close>

definition subcommand :: "(string \<times> (string list \<Rightarrow> parse_answer option)) list \<Rightarrow> string list \<Rightarrow> parse_answer option" where
  "subcommand table ts = (case ts of
       [] \<Rightarrow> Some UsageError
     | t # us \<Rightarrow> if \<not> plain_word t then None
                else (case map_of table t of None \<Rightarrow> Some UsageError | Some p \<Rightarrow> p us))"

definition parse_args :: "(string \<Rightarrow> pyfloat option) \<Rightarrow> string list \<Rightarrow> parse_answer option" where
  "parse_args number = subcommand
     [(''claims'', parse_claims),
      (''selftest'', subcommand [(''freeze'', parse_freeze)]),
      (''probe'', subcommand [(''wake'', parse_wake number), (''log-grammar'', parse_grammar)]),
      (''evidence'', parse_evidence)]"

subsection \<open>Writing a command line\<close>

definition option_args :: "string \<Rightarrow> string option \<Rightarrow> string list" where
  "option_args flag v = (case v of None \<Rightarrow> [] | Some s \<Rightarrow> [flag, s])"

definition json_args :: "bool \<Rightarrow> string list" where
  "json_args j = (if j then [''--json''] else [])"

fun command_args :: "(pyfloat \<Rightarrow> string) \<Rightarrow> command \<Rightarrow> string list" where
  "command_args show (CmdClaims d h) = ''claims'' # option_args ''--out-dir'' d @ option_args ''--host'' h"
| "command_args show (CmdFreeze j) = [''selftest'', ''freeze''] @ json_args j"
| "command_args show (CmdProbeWake slug j timeout) =
     [''probe'', ''wake'', ''--agent'', slug] @ json_args j @ [''--timeout'', show timeout]"
| "command_args show (CmdLogGrammar c j) = [''probe'', ''log-grammar'', c] @ json_args j"
| "command_args show CmdEvidence = [''evidence'']"

fun command_words :: "(pyfloat \<Rightarrow> string) \<Rightarrow> command \<Rightarrow> string list" where
  "command_words show (CmdClaims d h) = (case d of None \<Rightarrow> [] | Some s \<Rightarrow> [s]) @ (case h of None \<Rightarrow> [] | Some s \<Rightarrow> [s])"
| "command_words show (CmdProbeWake slug j timeout) = [slug, show timeout]"
| "command_words show (CmdLogGrammar c j) = [c]"
| "command_words show c = []"

lemmas parser_defs = parse_args_def subcommand_def plain_word_def read_leaf_def claims_parser_def freeze_parser_def
  wake_parser_def grammar_parser_def evidence_parser_def option_args_def json_args_def switched_def

text \<open>Every command can be asked for, and its command line is read back as that command.\<close>

lemma command_line_roundtrip:
  assumes "\<forall>w\<in>set (command_words show cmd). plain_word w" and "\<And>x. number (show x) = Some x"
  shows "parse_args number (command_args show cmd) = Some (Parsed cmd)"
proof (cases cmd)
  case (CmdClaims d h)
  then show ?thesis using assms(1) by (cases d; cases h) (simp_all add: parser_defs parse_claims_def)
next
  case (CmdFreeze j)
  then show ?thesis by (simp add: parser_defs parse_freeze_def)
next
  case (CmdProbeWake slug j timeout)
  then show ?thesis using assms
    by (cases j) (simp_all add: parser_defs parse_wake_def Let_def del: set_map set_filter)
next
  case (CmdLogGrammar c j)
  then show ?thesis using assms(1) by (simp add: parser_defs parse_grammar_def)
next
  case CmdEvidence
  then show ?thesis by (simp add: parser_defs parse_evidence_def)
qed

subsection \<open>The commands the manifests name\<close>

text \<open>The words of a claim's command after the admin command.\<close>

definition asks_for :: "(string \<Rightarrow> pyfloat option) \<Rightarrow> string \<Rightarrow> json \<Rightarrow> command \<Rightarrow> bool" where
  "asks_for number admin cl cmd =
     (case field cl ''prove'' of
        None \<Rightarrow> False
      | Some p \<Rightarrow> (case field p ''cmd'' of
          Some (JStr s) \<Rightarrow> starts_with (admin @ '' '') s
            \<and> parse_args number (split_char CHR '' '' (drop (length admin + 1) s)) = Some (Parsed cmd)
        | _ \<Rightarrow> False))"

text \<open>
  A manifest names no command the CLI does not have: the command of every claim that is
  proven by one is read as the probe of that claim, with the JSON the ledger reads.
\<close>

lemma claimed_commands_run:
  assumes "build_manifests c reg ev lenv lock_dir now host hostname path admin handlers = Inr ms"
    and "m \<in> set ms" and "cl \<in> set (claims_of m)" and "field cl ''prove'' = Some p"
    and "field p ''kind'' = Some (JStr ''probe'')"
  shows "(name_in ''claim'' cl = ''freeze-surface:readable'' \<and> asks_for number admin cl (CmdFreeze True))
    \<or> (name_in ''claim'' cl = ''log-grammar:'' @ line_class \<and> asks_for number admin cl (CmdLogGrammar line_class True))"
proof -
  obtain g as where ms: "ms = manifest (''box:'' @ or_else host hostname) ([freeze_claim ev lock_dir admin,
         claim_json (''log-grammar:'' @ line_class) (prove_probe (admin @ '' probe log-grammar '' @ line_class @ '' --json''))
           (JStr (''journal:'' @ journal_id)) log_grammar_ttl g]
       @ map (\<lambda>r. delivery_sink_claim r (map_of (dc_sinks ev) r) path (r \<in> set (synthetic_route_names reg)))
           (sort (cf_enabled c))) # as"
    and as: "list_all2 (\<lambda>a m. \<exists>t. agent_manifest a c reg ev lenv lock_dir t path = Inr m)
       (sort_key harness_key (unique_agents c)) as"
    by (rule build_manifests_Inr[OF assms(1)])
  have not_probe: "field (prove_evidence s) ''kind'' \<noteq> Some (JStr ''probe'')" for s
    by (simp add: prove_evidence_def)
  have "m \<notin> set as"
  proof
    assume "m \<in> set as"
    then obtain a t where "agent_manifest a c reg ev lenv lock_dir t path = Inr m"
      using as by (fastforce simp: list_all2_conv_all_nth in_set_conv_nth)
    then show False
      by (rule agent_manifest_Inr) (use assms(3-5) not_probe in \<open>auto simp: Let_def wake_edge_claim_def
          route_wake_edge_claim_def synthetic_claim_def row_pointer_def\<close>)
  qed
  then have "cl = freeze_claim ev lock_dir admin
    \<or> cl = claim_json (''log-grammar:'' @ line_class) (prove_probe (admin @ '' probe log-grammar '' @ line_class @ '' --json''))
           (JStr (''journal:'' @ journal_id)) log_grammar_ttl g"
    using assms(2-5) not_probe by (auto simp: ms delivery_sink_claim_def Let_def)
  moreover have "asks_for number admin (freeze_claim ev lock_dir admin) (CmdFreeze True)"
    by (simp add: asks_for_def freeze_claim_def Let_def prove_probe_def starts_with_def parser_defs parse_freeze_def)
  moreover have "asks_for number admin (claim_json n (prove_probe (admin @ '' probe log-grammar '' @ line_class @ '' --json'')) e l d)
      (CmdLogGrammar line_class True)" for n e l d
    by (simp add: asks_for_def prove_probe_def starts_with_def parser_defs parse_grammar_def line_class_def)
  ultimately show ?thesis by (auto simp: name_in_def freeze_claim_def Let_def)
qed

end
