(* ===== verification/Spec2Isabelle.thy ===== *)
theory Spec2Isabelle
  imports Scan_Witness Breaker_Props Dedup Coalesce WakeLock Concurrency Scheduler_Props Models
    Config Wake Evidence_Props RouteBase App_Witness Daemon_Witness
    Probe_Props Log_Grammar Claims_Props Cli_Args
begin

text \<open>
  basecradle-router: the daemon that turns a signed webhook into one run of the agent it is
  for, its admin CLI, and the daily dependency scan of the repository. Files are named
  below \<open>src/basecradle_router/\<close> unless a path is given.

  \<^bold>\<open>The program.\<close> An HTTP request reaches \<open>server.py\<close>. The fast half of \<open>pipeline.py\<close>
  (\<open>accept\<close>) looks the route up, verifies the signature, normalises the payload into an
  event and resolves its recipient in the registry of \<open>config.py\<close>; every outcome is a line
  and a count in the evidence. A resolved event is queued with the scheduler, which runs
  the wakes of one agent in order and at most as many agents at once as there are lanes. The
  slow half (\<open>execute\<close>) takes the agent's lock and asks the gates in turn: the delivery
  cache (\<open>dedup.py\<close>), the coalescing of what a wake has already read (\<open>coalesce.py\<close>), the
  route's recheck, the operator's freeze (\<open>wakelock.py\<close>) and the rate breaker
  (\<open>breaker.py\<close>). Only then \<open>wake.py\<close> launches the agent, with the bounded retries of
  \<open>concurrency.py\<close>. What happened is kept by \<open>evidence.py\<close>, from which \<open>claims.py\<close>,
  \<open>probe.py\<close> and \<open>selftest.py\<close> tell the operator what is proven.

  \<^bold>\<open>Theories and sources.\<close>
  \<^item> Prelude: strings, floats with NaN, JSON values, the capped ordered dictionary; the
    locales \<open>stamped_ledger\<close> (a store of stamped entries that never goes back) and
    \<open>machine\<close> (an invariant kept by every operation).
  \<^item> Logfmt: \<open>logfmt.py\<close>. Models: \<open>models.py\<close>, \<open>marker.py\<close>. Config: \<open>config.py\<close>,
    \<open>resolve.py\<close>. Concurrency: \<open>concurrency.py\<close>.
  \<^item> Breaker, Breaker_Props: \<open>breaker.py\<close>. Dedup: \<open>dedup.py\<close>, with the locale
    \<open>recently_woke\<close>. Coalesce: \<open>coalesce.py\<close>. WakeLock: \<open>wakelock.py\<close>. Wake: \<open>wake.py\<close>.
  \<^item> Scheduler, Scheduler_Notify, Scheduler_Props: \<open>scheduler.py\<close>, every critical section
    as one operation and the threads as the order of the steps.
  \<^item> Evidence (the document and its JSON form), Evidence_Store (the operations),
    Evidence_Props: \<open>evidence.py\<close>.
  \<^item> RouteBase: \<open>routes/base.py\<close>, \<open>routes/registry.py\<close>. Github_Payload, Github_Ledger, Github,
    Github_Warm, Github_Props: \<open>routes/github.py\<close>. Basecradle: \<open>routes/basecradle.py\<close>.
    Probe_Route: \<open>routes/probe.py\<close>, \<open>secret.py\<close>.
  \<^item> Pipeline: \<open>pipeline.py\<close>; Pipeline_Frame, Pipeline_Gates, Pipeline_Props, Pipeline_Runs,
    Pipeline_Wakes, Pipeline_Witness: what it promises. Pipeline_Phases: \<open>execute\<close> as the
    phases it goes through under its lock. Github_Pipeline: the github route inside it.
  \<^item> Selftest: \<open>selftest.py\<close>. Server: \<open>server.py\<close>. App, App_Witness: \<open>app.py\<close>.
  \<^item> Wake_Pool, Daemon, Daemon_Witness: the composition at run time. Wake_Pool is the
    scheduler with the callable it runs and the observer it tells, whose promises are the
    locale \<open>wake_service\<close>; Daemon interprets it on the server, the pipeline and the evidence
    as \<open>create_app\<close> and the startup leave them.
  \<^item> Probe, Probe_Props: \<open>probe.py\<close>. Log_Grammar: \<open>log_grammar.py\<close>. Claims, Claims_Props:
    \<open>claims.py\<close>. Cli (the commands), Cli_Args (the command lines): \<open>__main__.py\<close>.
  \<^item> Scan (the report), Scan_Plan (the plans), Scan_Merge, Scan_State, Scan_Props, Scan_News,
    Scan_Cell, Scan_Witness: \<open>.github/scripts/dependency_security_scan.py\<close>, with the locale
    \<open>absorbing\<close> (a list kept pairwise unrelated by absorbing what is related).

  \<^bold>\<open>How state corresponds.\<close> An object is a record of its attributes and a method a function
  from the old state to the new one, together with the lines it logs; a lock held around a
  method makes it one operation. A dictionary that is iterated or trimmed is the list of its
  items in order, one that is only looked up a map. An exception is the left of a sum, or a
  constructor of the datatype of answers. Clocks are sequences of readings: wall-clock
  instants are integers of microseconds, monotonic readings rationals. Configured durations
  are floats that may be NaN. Characters are the code points below 256; the em dash, the
  ellipsis and the arrow of a message are stand-ins among the control characters, and
  \<open>py_upper\<close> leaves the two letters whose capitals lie beyond 255 (U+00B5, U+00FF) as they
  are. Where the source reads a clock on some branches only (\<open>seen\<close> with no time to live),
  the model may take a reading and drop it: the index of later readings moves, no value does.

  \<^bold>\<open>What the groups of lemmas show.\<close> Of the gates: the rate of wakes is bounded in every
  window and a trip holds for its cooldown (Breaker_Props), the cache refines a plain map of
  times (Dedup), only what a wake has read is coalesced (Coalesce), a freeze refuses exactly
  what it should (WakeLock). Of the scheduler: order, exclusion, bounded waiting, truthful
  counts. Of the pipeline: no wake passes a closed gate, every execution ends with one
  deciding record and its lock free, a delivery that woke is not woken again, a burst costs
  one wake. Of the daemon as a whole: whatever arrives and however the lanes interleave, it
  refines one queue per agent, the lock of an agent is never contended, and a drain ends
  within a known number of steps in a state that has finished everything and says so; a
  worker nothing comes between runs \<open>execute\<close> (lemma \<open>run_alone_is_execute\<close>). Of the routes:
  who can cause a wake, what a ledger remembers, which key a delivery is verified under,
  when a normalisation can raise. Of the evidence: exact counts,
  a faithful file, a restart that loses nothing but queue depths. Of the operator's tools:
  a pass is backed by a record of the daemon, a waiting probe returns, every pointer of a
  claim resolves, every command a claim names is one the CLI has, an exit code means its
  verdict. Of the scan: one problem is one finding,
  clean is only ever a readable report, a run reads the state it wrote, says what it has to
  say once, pages for news only, and no upstream text leaves its cell of the table or opens a
  comment; none mentions an account unless it undoes the span around its name, with a
  backtick in a package or a version or a backslash in a title, a name or a link
  (lemma \<open>spans_undone\<close>).

  \<^bold>\<open>Bounds and fuel.\<close> Four loops are bounded by a counter. The paged reading of a listing
  (\<open>read_pages\<close>) counts down from \<open>warm_max_pages\<close>, the program's own bound. The waiting
  loop of a probe (\<open>await_loop\<close>) takes fuel, since with a NaN timeout it never returns
  (lemma \<open>nan_timeout_never_returns\<close>); with a finite timeout and a clock that each sleep
  advances, the theorem \<open>probe_returns\<close> of Probe_Props gives the fuel that is enough. The
  phases of an execution in a row (\<open>run_phases\<close>) take fuel too, and two steps for each
  attempt and ten more are always enough (lemma \<open>phases_end\<close>). The reference decoder of the
  scan's states counts the characters left, which is always enough because an item takes at
  least one (lemma \<open>read_all_back\<close>). Every other recursion is shown to terminate.

  \<^bold>\<open>Parameters.\<close> What the program calls and does not define: the HMAC, the JSON decoder and,
  outside the scan, encoder, \<open>datetime.fromisoformat\<close>, the parsing of numbers, subprocesses,
  the HTTP transport, the file system's answers, process credentials, clocks and random
  identifiers. Hypotheses on them say what the standard library documents (a decoder reads
  the JSON text the program itself wrote as the value it was written from, a monotonic
  clock does not go back) and every property that has one is applied at a concrete function.
  Nothing is assumed of the wall clock, which may step in either direction. Of the decoder
  of the scan's states the hypothesis is \<open>decodes_states\<close>: it covers only texts the scan
  writes, with distinct keys, and not the other texts a JSON decoder accepts or refuses.

  \<^bold>\<open>Not modelled.\<close> Sockets, threads and asyncio are the order of the steps; in
  the composed daemon a step is a request, a phase of an execution, or a critical section of
  the scheduler, and what one of them does is not interleaved further. Of a command line
  \<open>Cli_Args\<close> reads those that \<open>argparse\<close> treats alike in every Python the package admits;
  abbreviated options, \<open>--option=value\<close>, a positional after an option and help requests are
  left to it, and so are the two options of the scan. The scripts
  and units under \<open>deploy/\<close>, the workflows and shell under \<open>.github/\<close>, and the tests are not
  the program; of the scan's workflow the effect of its last step on the open issues is stated
  as \<open>applied\<close> (Scan_Props). A clock read just before the breaker's lock is taken is one
  step with the section under the lock, so two threads that read in one order and enter in
  the other are sequences of calls whose times go back, outside the theorems that assume
  non-decreasing times. Rounding of floats is not modelled: a finite float is the
  rational it stands for. Module export lists and imports carry no behaviour.
\<close>

end
